(* ===== verification/Prelude.thy ===== *)
theory Prelude
  imports Main "HOL-Library.Word" "HOL-Library.Multiset"
begin

text \<open>
  Shared vocabulary of the development: the names of the model's basic types, the result type of
  fallible operations, and the functions of the C++ library and facts on lists and words that several
  components use.

  \<^item> \<open>('e, 'a) expected\<close> is C++'s \<open>std::expected<A, E>\<close>: \<open>Inl\<close> an error, \<open>Inr\<close> a value.
  \<^item> Time points and durations of the \<open>std::chrono\<close> clocks are integers counting nanoseconds.
  \<^item> Objects that the code addresses by pointer are numbered by \<open>nat\<close> (\<open>ref\<close>).
\<close>

text \<open>
  The collections of facts that proofs about steps and operations unfold: \<open>service_steps\<close> for the threads of services, \<open>link_defs\<close> for the links of
  the transports, \<open>runner_defs\<close> for domains under a runner.
\<close>

named_theorems service_steps "one step of a thread of a service"
named_theorems link_defs "operations and views of a link"
named_theorems runner_defs "handlers and what they do to their runner"

type_synonym ('e, 'a) expected = "'e + 'a"
type_synonym time_point = int
type_synonym duration = int
type_synonym ref = nat
type_synonym u64 = "64 word"
type_synonym u16 = "16 word"
type_synonym byte = "8 word"

definition value_or :: "'a option \<Rightarrow> 'a \<Rightarrow> 'a" where
  "value_or x d = (case x of None \<Rightarrow> d | Some v \<Rightarrow> v)"

abbreviation NUL :: char where "NUL \<equiv> CHR 0x00"

definition c_string :: "string \<Rightarrow> string" where
  "c_string t = takeWhile (\<lambda>c. c \<noteq> NUL) t"

fun rfind_upto :: "('a \<Rightarrow> bool) \<Rightarrow> 'a list \<Rightarrow> nat \<Rightarrow> nat option" where
  "rfind_upto P xs 0 = None"
| "rfind_upto P xs (Suc n) =
     (if n < length xs \<and> P (xs ! n) then Some n else rfind_upto P xs n)"

fun iter_state :: "(nat \<Rightarrow> 's \<Rightarrow> 's) \<Rightarrow> nat \<Rightarrow> 's \<Rightarrow> 's" where
  "iter_state f 0 s = s"
| "iter_state f (Suc k) s = f k (iter_state f k s)"

fun digits :: "nat \<Rightarrow> string" where
  "digits n = (if n < 10 then [char_of (48 + n)] else digits (n div 10) @ [char_of (48 + n mod 10)])"

declare digits.simps [simp del]

definition print_int :: "int \<Rightarrow> string" where
  "print_int i = (if i < 0 then ''-'' @ digits (nat (- i)) else digits (nat i))"

definition duration_cast_us :: "duration \<Rightarrow> int" where
  "duration_cast_us d = sgn d * (\<bar>d\<bar> div 1000)"

text \<open>
  \<open>duration_cast_us\<close> is \<open>duration_cast<microseconds>\<close>, which truncates towards zero.
  \<open>digits\<close> and \<open>print_int\<close> print a number in decimal (\<open>std::to_string\<close>, \<open>std::format\<close>).
  \<open>rfind_upto P xs n\<close> is the search of \<open>std::string_view::rfind\<close> and \<open>find_last_of\<close>: the greatest
  index below \<open>n\<close> whose element satisfies \<open>P\<close>, \<open>None\<close> for \<open>npos\<close>.
  \<open>c_string t\<close> is the text that a reader of \<open>t.c_str()\<close> sees, up to the first NUL.
  \<open>iter_state f k s\<close> runs the steps \<open>f 0, f 1, \<dots>, f (k - 1)\<close> in this order.
\<close>

lemma value_or_simps [simp]:
  "value_or None d = d" "value_or (Some v) d = v"
  by (simp_all add: value_or_def)

lemma rfind_upto_Some:
  "rfind_upto P xs n = Some i \<longleftrightarrow>
     i < n \<and> i < length xs \<and> P (xs ! i) \<and> (\<forall>j. i < j \<and> j < n \<and> j < length xs \<longrightarrow> \<not> P (xs ! j))"
proof (induction n)
  case 0
  then show ?case by simp
next
  case (Suc n)
  show ?case
  proof (cases "n < length xs \<and> P (xs ! n)")
    case True
    then show ?thesis
      by (auto simp: less_Suc_eq)
  next
    case False
    with Suc show ?thesis
      by (auto simp: less_Suc_eq)
  qed
qed

lemma rfind_upto_None:
  "rfind_upto P xs n = None \<longleftrightarrow> (\<forall>j. j < n \<and> j < length xs \<longrightarrow> \<not> P (xs ! j))"
  by (induction n) (auto simp: less_Suc_eq)

lemma word_inc:
  fixes x :: "'a::len word"
  assumes "x < - 1"
  shows "x + 1 \<noteq> 0" and "x < x + 1"
proof -
  show ne: "x + 1 \<noteq> 0" using assms by (metis eq_neg_iff_add_eq_0 less_irrefl)
  then have "unat (1 + x) = Suc (unat x)" by (intro unatSuc) (simp add: add.commute)
  then show "x < x + 1" by (simp add: word_less_nat_alt add.commute)
qed

lemma sorted_insert_takeWhile:
  fixes f :: "'a \<Rightarrow> int"
  assumes "sorted (map f xs)"
  shows "sorted (map f (takeWhile (\<lambda>e. f e < f x) xs @ x # dropWhile (\<lambda>e. f e < f x) xs))"
  using assms
proof (induction xs)
  case Nil
  then show ?case by simp
next
  case (Cons a xs)
  show ?case
  proof (cases "f a < f x")
    case True
    have "f a \<le> f y" if "y \<in> set (takeWhile (\<lambda>e. f e < f x) xs) \<union> set (dropWhile (\<lambda>e. f e < f x) xs)" for y
      using Cons.prems that by (auto dest: set_takeWhileD set_dropWhileD)
    with True Cons show ?thesis by auto
  next
    case False
    with Cons.prems show ?thesis by auto
  qed
qed

lemma mset_takeWhile_insert:
  "mset (takeWhile P xs @ x # dropWhile P xs) = add_mset x (mset xs)"
proof -
  have "mset (takeWhile P xs) + mset (dropWhile P xs) = mset xs"
    by (metis mset_append takeWhile_dropWhile_id)
  then show ?thesis by simp
qed

lemma set_takeWhile_insert:
  "set (takeWhile P xs @ x # dropWhile P xs) = insert x (set xs)"
  by (metis mset_takeWhile_insert set_mset_add_mset_insert set_mset_mset)

definition read_digits :: "string \<Rightarrow> nat" where
  "read_digits cs = foldl (\<lambda>a c. 10 * a + (of_char c - 48)) 0 cs"

lemma read_digits_digits: "read_digits (digits n) = n"
proof (induction n rule: digits.induct)
  case (1 n)
  show ?case
  proof (cases "n < 10")
    case True
    then show ?thesis by (simp add: digits.simps[of n] read_digits_def)
  next
    case False
    then have "read_digits (digits (n div 10)) = n div 10" by (rule 1)
    then show ?thesis using False by (simp add: digits.simps[of n] read_digits_def)
  qed
qed

end
