(* ===== verification/Run_Loop.thy ===== *)
theory Run_Loop
  imports Prelude Complex_Main
begin

text \<open>
  \<open>pkg/runloop\<close>: the frame context (\<open>UpdateCtx\<close>), the handler interface (\<open>Handler.h\<close>), the
  composite handler (\<open>CompositeHandler\<close>) and the base runner (\<open>Runner\<close>).

  A handler is a table of its virtual methods, each a function on an arbitrary state \<open>'s\<close>; handlers
  held by pointer are numbered and looked up in a table \<open>H\<close>. The float mirrors of durations are
  computed by the parameter \<open>secs\<close>, the conversion \<open>std::chrono::duration<float>\<close>.
\<close>

section \<open>UpdateCtx\<close>

record Frame =
  f_index :: u64
  f_startTime :: time_point
  f_delta :: duration
  f_deltaUs :: int
  f_deltaSeconds :: real

record Session =
  s_startTime :: time_point
  s_passed :: duration
  s_passedUs :: int
  s_passedSeconds :: real

record UpdateCtx =
  u_runner :: ref
  u_frame :: Frame
  u_session :: Session

definition new_UpdateCtx :: "ref \<Rightarrow> UpdateCtx" where
  "new_UpdateCtx r =
     \<lparr>u_runner = r,
      u_frame = \<lparr>f_index = 0, f_startTime = 0, f_delta = 0, f_deltaUs = 0, f_deltaSeconds = 0\<rparr>,
      u_session = \<lparr>s_startTime = 0, s_passed = 0, s_passedUs = 0, s_passedSeconds = 0\<rparr>\<rparr>"

definition Initialize :: "time_point \<Rightarrow> UpdateCtx \<Rightarrow> UpdateCtx" where
  "Initialize now c =
     c\<lparr>u_session := \<lparr>s_startTime = now, s_passed = 0, s_passedUs = 0, s_passedSeconds = 0\<rparr>,
       u_frame := \<lparr>f_index = 0, f_startTime = now, f_delta = 0, f_deltaUs = 0, f_deltaSeconds = 0\<rparr>\<rparr>"

definition Tick :: "(duration \<Rightarrow> real) \<Rightarrow> time_point \<Rightarrow> UpdateCtx \<Rightarrow> UpdateCtx" where
  "Tick secs startTime c =
     (let ses = u_session c; fr = u_frame c;
          passed = startTime - s_startTime ses;
          delta = startTime - f_startTime fr
      in c\<lparr>u_session := ses\<lparr>s_passed := passed, s_passedSeconds := secs passed\<rparr>,
           u_frame := fr\<lparr>f_delta := delta, f_deltaUs := duration_cast_us delta,
                         f_deltaSeconds := secs delta, f_index := f_index fr + 1,
                         f_startTime := startTime\<rparr>\<rparr>)"

fun ticks :: "(duration \<Rightarrow> real) \<Rightarrow> UpdateCtx \<Rightarrow> time_point list \<Rightarrow> UpdateCtx list" where
  "ticks secs c [] = []"
| "ticks secs c (t # ts) = (let c' = Tick secs t c in c' # ticks secs c' ts)"

section \<open>Handlers\<close>

record 's handler =
  h_Start :: "'s \<Rightarrow> bool \<times> 's"
  h_Stop :: "'s \<Rightarrow> 's"
  h_Update :: "UpdateCtx \<Rightarrow> 's \<Rightarrow> 's"

definition IHandler :: "(UpdateCtx \<Rightarrow> 's \<Rightarrow> 's) \<Rightarrow> 's handler" where
  "IHandler upd = \<lparr>h_Start = (\<lambda>s. (True, s)), h_Stop = (\<lambda>s. s), h_Update = upd\<rparr>"

definition WrapHandler :: "'s handler \<Rightarrow> 's handler" where
  "WrapHandler inner =
     \<lparr>h_Start = (\<lambda>s. h_Start inner s), h_Stop = (\<lambda>s. h_Stop inner s),
      h_Update = (\<lambda>ctx s. h_Update inner ctx s)\<rparr>"

section \<open>CompositeHandler\<close>

text \<open>
  \<open>c_childRunner h\<close> is the private field \<open>_runner\<close> of the handler \<open>h\<close>, which only \<open>Runner\<close> and
  \<open>CompositeHandler\<close> write; \<open>c_runner\<close> is the composite's own \<open>_runner\<close>.
\<close>

record composite =
  c_handlers :: "ref list"
  c_running :: bool
  c_runner :: "ref option"
  c_childRunner :: "ref \<Rightarrow> ref option"

definition new_composite :: composite where
  "new_composite =
     \<lparr>c_handlers = [], c_running = False, c_runner = None, c_childRunner = (\<lambda>_. None)\<rparr>"

definition SetRunner :: "ref \<Rightarrow> ref option \<Rightarrow> composite \<Rightarrow> composite" where
  "SetRunner h r c = c\<lparr>c_childRunner := (c_childRunner c)(h := r)\<rparr>"

definition Add :: "(ref \<Rightarrow> 's handler) \<Rightarrow> ref \<Rightarrow> composite \<times> 's \<Rightarrow> composite \<times> 's" where
  "Add H h = (\<lambda>(c, s).
     let c1 = c\<lparr>c_handlers := c_handlers c @ [h]\<rparr> in
     if c_running c1 then (SetRunner h (c_runner c1) c1, snd (h_Start (H h) s)) else (c1, s))"

text \<open>
  \<open>iterator_to\<close> requires its argument to be linked in this list; on any other handler the C++ is
  undefined, which is \<open>None\<close> here (the test against \<open>end()\<close> that follows it cannot catch it).
\<close>

definition Remove :: "(ref \<Rightarrow> 's handler) \<Rightarrow> ref \<Rightarrow> composite \<times> 's \<Rightarrow> (composite \<times> 's) option" where
  "Remove H h = (\<lambda>(c, s).
     if h \<notin> set (c_handlers c) then None
     else
       (let s1 = (if c_running c then h_Stop (H h) s else s);
            c1 = c\<lparr>c_handlers := remove1 h (c_handlers c)\<rparr>
        in Some (SetRunner h None c1, s1)))"

fun stop_each :: "(ref \<Rightarrow> 's handler) \<Rightarrow> ref list \<Rightarrow> 's \<Rightarrow> 's" where
  "stop_each H [] s = s"
| "stop_each H (h # hs) s = stop_each H hs (h_Stop (H h) s)"

text \<open>
  The loop of \<open>CompositeHandler::Start\<close>: \<open>started\<close> holds the handlers already started, the latest
  first, which is the order in which the inner \<open>while\<close> walks back to \<open>begin()\<close>.
\<close>

fun start_loop ::
  "(ref \<Rightarrow> 's handler) \<Rightarrow> ref list \<Rightarrow> ref list \<Rightarrow> composite \<times> 's \<Rightarrow> bool \<times> composite \<times> 's" where
  "start_loop H started [] (c, s) = (True, c\<lparr>c_running := True\<rparr>, s)"
| "start_loop H started (h # hs) (c, s) =
     (let c1 = SetRunner h (c_runner c) c; (ok, s1) = h_Start (H h) s
      in if ok then start_loop H (h # started) hs (c1, s1)
         else (False, c1, stop_each H started s1))"

definition CompositeStart :: "(ref \<Rightarrow> 's handler) \<Rightarrow> composite \<times> 's \<Rightarrow> bool \<times> composite \<times> 's" where
  "CompositeStart H = (\<lambda>(c, s). start_loop H [] (c_handlers c) (c, s))"

definition CompositeStop :: "(ref \<Rightarrow> 's handler) \<Rightarrow> composite \<times> 's \<Rightarrow> composite \<times> 's" where
  "CompositeStop H = (\<lambda>(c, s). (c\<lparr>c_running := False\<rparr>, stop_each H (rev (c_handlers c)) s))"

fun update_each :: "(ref \<Rightarrow> 's handler) \<Rightarrow> UpdateCtx \<Rightarrow> ref list \<Rightarrow> 's \<Rightarrow> 's" where
  "update_each H ctx [] s = s"
| "update_each H ctx (h # hs) s = update_each H ctx hs (h_Update (H h) ctx s)"

definition CompositeUpdate ::
  "(ref \<Rightarrow> 's handler) \<Rightarrow> UpdateCtx \<Rightarrow> composite \<times> 's \<Rightarrow> composite \<times> 's" where
  "CompositeUpdate H ctx = (\<lambda>(c, s). (c, update_each H ctx (c_handlers c) s))"

definition CompositeHandler :: "(ref \<Rightarrow> 's handler) \<Rightarrow> (composite \<times> 's) handler" where
  "CompositeHandler H =
     \<lparr>h_Start = CompositeStart H, h_Stop = CompositeStop H, h_Update = CompositeUpdate H\<rparr>"

section \<open>Runner\<close>

text \<open>
  \<open>Runner\<close> keeps the exit code that \<open>Exit\<close> sets; \<open>TightRunner\<close> adds \<open>_running\<close>. Handlers reach the
  runner through \<open>GetRunner()\<close>, so a handler's methods act on the runner's fields and on the rest of
  the program \<open>'w\<close> together.
\<close>

record 'w rstate =
  rs_exitCode :: "int option"
  rs_running :: bool
  rs_world :: 'w

abbreviation ExitCode_Success :: int where "ExitCode_Success \<equiv> 0"
abbreviation ExitCode_Failure :: int where "ExitCode_Failure \<equiv> 1"
abbreviation ExitCode_NotStarted :: int where "ExitCode_NotStarted \<equiv> 126"
abbreviation ExitCode_Cancelled :: int where "ExitCode_Cancelled \<equiv> 130"

definition GetExitCode :: "'w rstate \<Rightarrow> int option" where
  "GetExitCode s = rs_exitCode s"

definition SetExitCode :: "int \<Rightarrow> 'w rstate \<Rightarrow> 'w rstate" where
  "SetExitCode code s = s\<lparr>rs_exitCode := Some code\<rparr>"

definition Exiting :: "'w rstate \<Rightarrow> int option" where
  "Exiting s = GetExitCode s"

section \<open>The life-cycle contract of handlers\<close>

text \<open>
  What a composite relies on in each of its handlers: a successful \<open>Start\<close> of a handler that is
  ready makes it active, a failed one leaves it inactive, \<open>Stop\<close> makes it inactive, and neither
  touches the state of another handler.
\<close>

locale lifecycle =
  fixes H :: "ref \<Rightarrow> 's handler"
    and ready :: "ref \<Rightarrow> 's \<Rightarrow> bool"
    and active :: "ref \<Rightarrow> 's \<Rightarrow> bool"
  assumes start_ok: "ready h s \<Longrightarrow> h_Start (H h) s = (True, s') \<Longrightarrow> active h s'"
    and start_fail: "ready h s \<Longrightarrow> h_Start (H h) s = (False, s') \<Longrightarrow> \<not> active h s'"
    and stop_inactive: "\<not> active h (h_Stop (H h) s)"
    and start_frame: "h \<noteq> k \<Longrightarrow> active k (snd (h_Start (H h) s)) = active k s"
    and stop_frame: "h \<noteq> k \<Longrightarrow> active k (h_Stop (H h) s) = active k s"
    and ready_frame: "h \<noteq> k \<Longrightarrow> ready k (snd (h_Start (H h) s)) = ready k s"
begin

lemma stop_each_active:
  "active k (stop_each H hs s) \<longleftrightarrow> active k s \<and> k \<notin> set hs"
proof (induction hs arbitrary: s)
  case Nil
  then show ?case by simp
next
  case (Cons h hs)
  then show ?case
    by (cases "h = k") (auto simp: stop_inactive stop_frame)
qed

lemma start_loop_active:
  assumes "distinct hs" and "\<forall>h\<in>set hs. ready h s" and "set hs \<inter> set started = {}"
    and "start_loop H started hs (c, s) = (ok, c', s')"
  shows "if ok then (\<forall>k. active k s' \<longleftrightarrow> active k s \<or> k \<in> set hs)
         else (\<forall>k. active k s' \<longrightarrow> k \<notin> set started \<and> active k s)"
  using assms
proof (induction hs arbitrary: started c s)
  case Nil
  then show ?case by auto
next
  case (Cons h hs)
  obtain b s1 where st: "h_Start (H h) s = (b, s1)" by (cases "h_Start (H h) s") auto
  have fr: "active k s1 = active k s" "ready k s1 = ready k s" if "k \<noteq> h" for k
    using start_frame[of h k s] ready_frame[of h k s] that st by auto
  show ?case
  proof (cases b)
    case True
    with st Cons.prems have act: "active h s1" using start_ok by auto
    have "ready k s1" if "k \<in> set hs" for k
      using Cons.prems(1,2) that fr(2)[of k] by (cases "k = h") auto
    then have rd: "\<forall>k\<in>set hs. ready k s1" by blast
    have run: "start_loop H (h # started) hs (SetRunner h (c_runner c) c, s1) = (ok, c', s')"
      using Cons.prems(4) st True by (simp add: Let_def)
    have "if ok then (\<forall>k. active k s' \<longleftrightarrow> active k s1 \<or> k \<in> set hs)
          else (\<forall>k. active k s' \<longrightarrow> k \<notin> set (h # started) \<and> active k s1)"
      by (rule Cons.IH[OF _ rd _ run]) (use Cons.prems in auto)
    with act fr show ?thesis by (auto split: if_splits) metis+
  next
    case False
    with st Cons.prems have inact: "\<not> active h s1" using start_fail by auto
    from False st Cons.prems(4) have "\<not> ok" "s' = stop_each H started s1"
      by (auto simp: Let_def)
    with inact fr show ?thesis by (auto simp: stop_each_active) metis
  qed
qed

lemma composite_start_active:
  assumes "distinct (c_handlers c)" and "\<forall>h\<in>set (c_handlers c). ready h s"
    and "CompositeStart H (c, s) = (ok, c', s')"
  shows "if ok then (\<forall>k. active k s' \<longleftrightarrow> active k s \<or> k \<in> set (c_handlers c))
         else (\<forall>k. active k s' \<longrightarrow> active k s)"
  using start_loop_active[OF assms(1,2), of "[]" c ok c' s'] assms(3)
  by (auto simp: CompositeStart_def split: if_splits)

lemma composite_stop_active:
  "active k (snd (CompositeStop H (c, s))) \<longleftrightarrow> active k s \<and> k \<notin> set (c_handlers c)"
  by (simp add: CompositeStop_def stop_each_active)

end

section \<open>Facts on the composite\<close>

text \<open>The sequence of states in which the handlers of a list are started, one after the other.\<close>

fun started_state :: "(ref \<Rightarrow> 's handler) \<Rightarrow> ref list \<Rightarrow> 's \<Rightarrow> 's" where
  "started_state H [] s = s"
| "started_state H (h # hs) s = started_state H hs (snd (h_Start (H h) s))"

fun first_failure :: "(ref \<Rightarrow> 's handler) \<Rightarrow> ref list \<Rightarrow> 's \<Rightarrow> nat option" where
  "first_failure H [] s = None"
| "first_failure H (h # hs) s =
     (if fst (h_Start (H h) s) then map_option Suc (first_failure H hs (snd (h_Start (H h) s)))
      else Some 0)"

lemma first_failure_less: "first_failure H hs s = Some k \<Longrightarrow> k < length hs"
  by (induction hs arbitrary: s k) (auto split: if_splits)

lemma stop_each_append: "stop_each H (xs @ ys) s = stop_each H ys (stop_each H xs s)"
  by (induction xs arbitrary: s) auto

lemma start_loop_spec:
  "fst (start_loop H started hs (c, s)) \<longleftrightarrow> first_failure H hs s = None"
  "snd (snd (start_loop H started hs (c, s))) =
     (case first_failure H hs s of
        None \<Rightarrow> started_state H hs s
      | Some k \<Rightarrow> stop_each H (rev (take k hs) @ started) (started_state H (take (Suc k) hs) s))"
proof (induction hs arbitrary: started c s)
  case Nil
  {
    case 1
    show ?case by simp
  next
    case 2
    show ?case by simp
  }
next
  case (Cons h hs)
  {
    case 1
    show ?case using Cons.IH(1) by (auto simp: Let_def split: prod.splits)
  next
    case 2
    show ?case
      by (cases "h_Start (H h) s")
         (auto simp: Let_def Cons.IH(2) stop_each_append split: option.splits)
  }
qed

lemma start_loop_composite:
  "fst (snd (start_loop H started hs (c, s))) =
     (case first_failure H hs s of
        None \<Rightarrow> c\<lparr>c_running := True,
                   c_childRunner := (\<lambda>h. if h \<in> set hs then c_runner c else c_childRunner c h)\<rparr>
      | Some k \<Rightarrow> c\<lparr>c_childRunner :=
                   (\<lambda>h. if h \<in> set (take (Suc k) hs) then c_runner c else c_childRunner c h)\<rparr>)"
proof (induction hs arbitrary: started c s)
  case Nil
  show ?case by simp
next
  case (Cons h hs)
  show ?case
    by (cases "h_Start (H h) s")
       (auto simp: Let_def Cons.IH SetRunner_def fun_eq_iff split: option.splits)
qed

lemma ticks_append: "ticks secs c (ts @ us) = ticks secs c ts @ ticks secs (last (c # ticks secs c ts)) us"
  by (induction ts arbitrary: c) (auto simp: Let_def)

lemma ticks_last_frame:
  "u_frame (last (c # ticks secs c ts)) =
     (if ts = [] then u_frame c else u_frame (last (ticks secs c ts)))"
  by (cases ts) (auto simp: Let_def)

lemma ticks_length [simp]: "length (ticks secs c ts) = length ts"
  by (induction ts arbitrary: c) (auto simp: Let_def)

lemma ticks_Nil_iff [simp]: "ticks secs c ts = [] \<longleftrightarrow> ts = []"
  by (metis length_0_conv ticks_length)

lemma ticks_last:
  "f_index (u_frame (last (c # ticks secs c ts))) = f_index (u_frame c) + of_nat (length ts)"
  "f_startTime (u_frame (last (c # ticks secs c ts))) = last (f_startTime (u_frame c) # ts)"
  "s_startTime (u_session (last (c # ticks secs c ts))) = s_startTime (u_session c)"
  "s_passedUs (u_session (last (c # ticks secs c ts))) = s_passedUs (u_session c)"
  by (induction ts arbitrary: c) (auto simp: Let_def Tick_def)

lemma ticks_sum_delta:
  "(\<Sum>x\<leftarrow>ticks secs c ts. f_delta (u_frame x)) =
     last (f_startTime (u_frame c) # ts) - f_startTime (u_frame c)"
  by (induction ts arbitrary: c) (auto simp: Let_def Tick_def)

lemma ticks_last_passed:
  "ts \<noteq> [] \<Longrightarrow> s_passed (u_session (last (ticks secs c ts))) = last ts - s_startTime (u_session c)"
  by (induction ts arbitrary: c) (auto simp: Let_def Tick_def)

section \<open>Properties\<close>

text \<open>
  C24. \<open>CompositeHandler::Start\<close>, for any handlers: it returns true exactly when every handler's \<open>Start\<close>
  does, and then all have been started in list order, \<open>_running\<close> is set and every handler has the
  composite's runner. When the handler at position \<open>k\<close> fails, exactly the handlers before it are
  stopped, in reverse order, after the failed \<open>Start\<close>; later handlers are not touched and \<open>_running\<close>
  keeps its value.
\<close>

theorem composite_start_outcome:
  "CompositeStart H (c, s) =
     (case first_failure H (c_handlers c) s of
        None \<Rightarrow>
          (True, c\<lparr>c_running := True, c_childRunner :=
              (\<lambda>h. if h \<in> set (c_handlers c) then c_runner c else c_childRunner c h)\<rparr>,
           started_state H (c_handlers c) s)
      | Some k \<Rightarrow>
          (False, c\<lparr>c_childRunner :=
              (\<lambda>h. if h \<in> set (take (Suc k) (c_handlers c)) then c_runner c else c_childRunner c h)\<rparr>,
           stop_each H (rev (take k (c_handlers c)))
             (started_state H (take (Suc k) (c_handlers c)) s)))"
  using start_loop_spec[of H "[]" "c_handlers c" c s] start_loop_composite[of H "[]" "c_handlers c" c s]
  by (cases "start_loop H [] (c_handlers c) (c, s)") (auto simp: CompositeStart_def split: option.splits)

text \<open>
  Frame accounting of \<open>UpdateCtx\<close>: after \<open>Initialize\<close> and any sequence of \<open>Tick\<close>s the session's
  elapsed time is the sum of all frame deltas, the frame index counts the ticks modulo \<open>2 ^ 64\<close>, and
  \<open>passedUs\<close>, documented as the passed time in microseconds, is still 0.
\<close>

lemma session_time_is_sum_of_deltas:
  assumes "ts \<noteq> []" and "cs = ticks secs (Initialize t0 c) ts"
  shows "s_passed (u_session (last cs)) = (\<Sum>x\<leftarrow>cs. f_delta (u_frame x))
       \<and> unat (f_index (u_frame (last cs))) = length ts mod 2 ^ 64
       \<and> s_passedUs (u_session (last cs)) = 0"
proof -
  let ?c = "Initialize t0 c"
  have "s_passed (u_session (last cs)) = last ts - t0"
    using assms ticks_last_passed[of ts secs ?c] by (simp add: Initialize_def)
  moreover have "(\<Sum>x\<leftarrow>cs. f_delta (u_frame x)) = last ts - t0"
    using assms ticks_sum_delta[of secs ?c ts] by (simp add: Initialize_def)
  moreover have "f_index (u_frame (last cs)) = of_nat (length ts)"
    using assms ticks_last(1)[of ?c secs ts] by (simp add: Initialize_def)
  moreover have "s_passedUs (u_session (last cs)) = 0"
    using assms ticks_last(4)[of ?c secs ts] by (simp add: Initialize_def)
  ultimately show ?thesis by (simp add: unat_of_nat)
qed

lemma session_time_is_sum_of_deltas_witness:
  "s_passed (u_session (last (ticks (\<lambda>_. 0) (Initialize 10 (new_UpdateCtx 0)) [25, 4050]))) = 4040
   \<and> s_passedUs (u_session (last (ticks (\<lambda>_. 0) (Initialize 10 (new_UpdateCtx 0)) [25, 4050]))) = 0"
  using session_time_is_sum_of_deltas[of "[25, 4050]" _ "\<lambda>_. 0" 10 "new_UpdateCtx 0", OF _ refl]
  by (simp add: Tick_def Initialize_def Let_def)

end
