(* ===== verification/App_Runner.thy ===== *)
theory App_Runner
  imports Run_Loop
begin

text \<open>
  \<open>pkg/app\<close>: the two runners and their factory.

  \<open>TightRunner::Run\<close> loops until a handler calls \<open>Exit\<close>; since that may never happen, the loop is a
  partial function whose value \<open>None\<close> is "does not return". \<open>clk k\<close> is the \<open>k\<close>-th reading of the
  clock: \<open>Initialize\<close> takes reading 0, the \<open>k\<close>-th \<open>Tick\<close> reading \<open>k\<close>. \<open>WasmRunner\<close> is driven by the
  browser: \<open>Run\<close> registers the main loop and never returns, after which frames and the delayed exit
  callback arrive as events.
\<close>

section \<open>TightRunner\<close>

record tight_options =
  wasmExitWorkaround :: bool
  sleepDuration :: int

definition TightExit :: "int \<Rightarrow> 'w rstate \<Rightarrow> 'w rstate" where
  "TightExit code s = (SetExitCode code s)\<lparr>rs_running := False\<rparr>"

definition tight_step ::
  "(duration \<Rightarrow> real) \<Rightarrow> time_point \<Rightarrow> 'w rstate handler \<Rightarrow> UpdateCtx \<times> 'w rstate \<Rightarrow>
   UpdateCtx \<times> 'w rstate" where
  "tight_step secs t h = (\<lambda>(ctx, s). let ctx' = Tick secs t ctx in (ctx', h_Update h ctx' s))"

partial_function (option) tight_loop ::
  "(duration \<Rightarrow> real) \<Rightarrow> (nat \<Rightarrow> time_point) \<Rightarrow> 'w rstate handler \<Rightarrow> nat \<Rightarrow>
   UpdateCtx \<times> 'w rstate \<Rightarrow> (UpdateCtx \<times> 'w rstate) option" where
  "tight_loop secs clk h k st =
     (if rs_running (snd st) then tight_loop secs clk h (Suc k) (tight_step secs (clk (Suc k)) h st)
      else Some st)"

definition TightRun ::
  "(duration \<Rightarrow> real) \<Rightarrow> (nat \<Rightarrow> time_point) \<Rightarrow> 'w rstate handler \<Rightarrow> ref \<Rightarrow> 'w rstate \<Rightarrow>
   (int \<times> 'w rstate) option" where
  "TightRun secs clk h self s =
     (let ctx = Initialize (clk 0) (new_UpdateCtx self);
          (ok, s1) = h_Start h s
      in if \<not> ok then Some (ExitCode_NotStarted, s1)
         else
           (case tight_loop secs clk h 0 (ctx, s1\<lparr>rs_running := True\<rparr>) of
              None \<Rightarrow> None
            | Some (ctx', s2) \<Rightarrow>
                let s3 = h_Stop h s2 in Some (value_or (GetExitCode s3) ExitCode_Success, s3)))"

section \<open>The exit-code workaround of emscripten builds\<close>

record wasm_statics =
  asyncifyEnabled :: bool
  handlerRegistered :: bool
  lastExitCode :: "int option"

definition TightRunner_wasm_ctor :: "bool \<Rightarrow> tight_options \<Rightarrow> wasm_statics \<Rightarrow> wasm_statics" where
  "TightRunner_wasm_ctor hasAsyncify options g =
     (let g1 = g\<lparr>asyncifyEnabled := hasAsyncify\<rparr>
      in if \<not> handlerRegistered g1 \<and> asyncifyEnabled g1 \<and> wasmExitWorkaround options
         then g1\<lparr>handlerRegistered := True\<rparr> else g1)"

definition OnExitHandler :: "wasm_statics \<Rightarrow> int option" where
  "OnExitHandler g = lastExitCode g"

section \<open>WasmRunner\<close>

record 'w wasm =
  w_state :: "'w rstate"
  w_ctx :: UpdateCtx
  w_mainLoop :: bool
  w_asyncExit :: bool
  w_exited :: "int option"

definition WasmExit :: "int \<Rightarrow> 'w rstate \<Rightarrow> 'w rstate" where
  "WasmExit code s = SetExitCode code s"

definition WasmRun :: "time_point \<Rightarrow> 'w rstate handler \<Rightarrow> 'w wasm \<Rightarrow> int option \<times> 'w wasm" where
  "WasmRun now h w =
     (let w1 = w\<lparr>w_ctx := Initialize now (w_ctx w)\<rparr>; (ok, s1) = h_Start h (w_state w1)
      in if \<not> ok then (Some ExitCode_NotStarted, w1\<lparr>w_state := s1\<rparr>)
         else (None, w1\<lparr>w_state := s1, w_mainLoop := True\<rparr>))"

definition StopAndExit :: "'w rstate handler \<Rightarrow> 'w wasm \<Rightarrow> 'w wasm" where
  "StopAndExit h w =
     w\<lparr>w_state := h_Stop h (w_state w), w_mainLoop := False, w_asyncExit := True\<rparr>"

definition WasmUpdate ::
  "(duration \<Rightarrow> real) \<Rightarrow> time_point \<Rightarrow> 'w rstate handler \<Rightarrow> 'w wasm \<Rightarrow> 'w wasm" where
  "WasmUpdate secs now h w =
     (case GetExitCode (w_state w) of
        Some exitCode \<Rightarrow> StopAndExit h w
      | None \<Rightarrow>
          let ctx' = Tick secs now (w_ctx w)
          in w\<lparr>w_ctx := ctx', w_state := h_Update h ctx' (w_state w)\<rparr>)"

definition AsyncExit :: "'w wasm \<Rightarrow> 'w wasm" where
  "AsyncExit w =
     w\<lparr>w_asyncExit := False, w_exited := Some (value_or (GetExitCode (w_state w)) 0)\<rparr>"

datatype browser_event = MainLoop time_point | AsyncCall

fun wasm_event ::
  "(duration \<Rightarrow> real) \<Rightarrow> 'w rstate handler \<Rightarrow> 'w wasm \<Rightarrow> browser_event \<Rightarrow> 'w wasm" where
  "wasm_event secs h w (MainLoop t) =
     (if w_exited w = None \<and> w_mainLoop w then WasmUpdate secs t h w else w)"
| "wasm_event secs h w AsyncCall =
     (if w_exited w = None \<and> w_asyncExit w then AsyncExit w else w)"

definition wasm_events ::
  "(duration \<Rightarrow> real) \<Rightarrow> 'w rstate handler \<Rightarrow> 'w wasm \<Rightarrow> browser_event list \<Rightarrow> 'w wasm" where
  "wasm_events secs h = foldl (wasm_event secs h)"

section \<open>Factory\<close>

datatype runner_choice = MakeTight tight_options | MakeWasm int

definition CreateDefaultRunner :: "bool \<Rightarrow> runner_choice" where
  "CreateDefaultRunner emscripten =
     (if emscripten then MakeWasm 120
      else MakeTight \<lparr>wasmExitWorkaround = True, sleepDuration = 10\<rparr>)"

definition CreateTestRunner :: runner_choice where
  "CreateTestRunner = MakeTight \<lparr>wasmExitWorkaround = False, sleepDuration = 0\<rparr>"

section \<open>Facts on the tight loop\<close>

text \<open>The context and state after \<open>n\<close> iterations, whatever \<open>_running\<close> says.\<close>

fun tight_frames ::
  "(duration \<Rightarrow> real) \<Rightarrow> (nat \<Rightarrow> time_point) \<Rightarrow> 'w rstate handler \<Rightarrow> nat \<Rightarrow> nat \<Rightarrow>
   UpdateCtx \<times> 'w rstate \<Rightarrow> UpdateCtx \<times> 'w rstate" where
  "tight_frames secs clk h k 0 st = st"
| "tight_frames secs clk h k (Suc n) st =
     tight_frames secs clk h (Suc k) n (tight_step secs (clk (Suc k)) h st)"

lemma tight_loop_returns:
  assumes "\<forall>j<n. rs_running (snd (tight_frames secs clk h k j st))"
    and "\<not> rs_running (snd (tight_frames secs clk h k n st))"
  shows "tight_loop secs clk h k st = Some (tight_frames secs clk h k n st)"
  using assms
proof (induction n arbitrary: k st)
  case 0
  then show ?case by (simp add: tight_loop.simps)
next
  case (Suc n)
  from Suc.prems(1) have "rs_running (snd st)" by force
  moreover have "tight_loop secs clk h (Suc k) (tight_step secs (clk (Suc k)) h st) =
      Some (tight_frames secs clk h (Suc k) n (tight_step secs (clk (Suc k)) h st))"
  proof (rule Suc.IH)
    show "\<forall>j<n. rs_running (snd (tight_frames secs clk h (Suc k) j (tight_step secs (clk (Suc k)) h st)))"
      using Suc.prems(1) by (metis Suc_mono tight_frames.simps(2))
  qed (use Suc.prems(2) in simp)
  ultimately show ?case by (simp add: tight_loop.simps[of _ _ _ k])
qed

lemma tight_loop_stops:
  assumes "tight_loop secs clk h k st = Some r"
  shows "\<exists>n. \<not> rs_running (snd (tight_frames secs clk h k n st))"
proof (rule tight_loop.raw_induct[where
      P = "\<lambda>secs clk h k st r. \<exists>n. \<not> rs_running (snd (tight_frames secs clk h k n st))", OF _ assms])
  fix f secs clk h k st r
  assume IH: "\<And>secs clk h k st r. f secs clk h k st = Some r \<Longrightarrow>
      \<exists>n. \<not> rs_running (snd (tight_frames secs clk h k n st))"
    and eq: "(if rs_running (snd st) then f secs clk h (Suc k) (tight_step secs (clk (Suc k)) h st)
      else Some st) = Some r"
  show "\<exists>n. \<not> rs_running (snd (tight_frames secs clk h k n st))"
  proof (cases "rs_running (snd st)")
    case True
    with eq IH obtain n where
      "\<not> rs_running (snd (tight_frames secs clk h (Suc k) n (tight_step secs (clk (Suc k)) h st)))"
      by fastforce
    then show ?thesis by (intro exI[of _ "Suc n"]) simp
  next
    case False
    then show ?thesis by (intro exI[of _ 0]) simp
  qed
qed

lemma tight_loop_cases:
  "tight_loop secs clk h k st =
     (if \<exists>n. \<not> rs_running (snd (tight_frames secs clk h k n st))
      then Some (tight_frames secs clk h k
                   (LEAST n. \<not> rs_running (snd (tight_frames secs clk h k n st))) st)
      else None)"
proof (cases "\<exists>n. \<not> rs_running (snd (tight_frames secs clk h k n st))")
  case True
  let ?n = "LEAST n. \<not> rs_running (snd (tight_frames secs clk h k n st))"
  from True have "\<not> rs_running (snd (tight_frames secs clk h k ?n st))"
    by (rule LeastI_ex)
  moreover have "\<forall>j<?n. rs_running (snd (tight_frames secs clk h k j st))"
    using not_less_Least by blast
  ultimately show ?thesis using True by (simp add: tight_loop_returns)
next
  case False
  then show ?thesis using tight_loop_stops[of secs clk h k st] by (cases "tight_loop secs clk h k st") auto
qed

lemma tight_frames_keep:
  assumes "\<forall>ctx s. rs_running (h_Update h ctx s) = rs_running s"
  shows "rs_running (snd (tight_frames secs clk h k n st)) = rs_running (snd st)"
  using assms by (induction n arbitrary: k st) (auto simp: tight_step_def Let_def split: prod.splits)

lemma wasm_event_stopped:
  assumes "\<not> w_mainLoop w"
  shows "\<not> w_mainLoop (wasm_event secs h w e) \<and> w_state (wasm_event secs h w e) = w_state w"
  using assms by (cases e) (auto simp: AsyncExit_def)

lemma wasm_stopped_inv:
  assumes "\<not> w_mainLoop w"
  shows "\<not> w_mainLoop (wasm_events secs h w es) \<and> w_state (wasm_events secs h w es) = w_state w"
  using assms
proof (induction es arbitrary: w)
  case Nil
  then show ?case by (simp add: wasm_events_def)
next
  case (Cons e es)
  from wasm_event_stopped[OF Cons.prems, of secs h e] Cons.IH[of "wasm_event secs h w e"]
  show ?case by (simp add: wasm_events_def)
qed

section \<open>Properties\<close>

text \<open>
  C23. What \<open>TightRunner::Run\<close> returns, on every branch: a handler whose \<open>Start\<close> fails gives
  \<open>NotStarted\<close> without any \<open>Update\<close> or \<open>Stop\<close>; otherwise the loop runs the handler's \<open>Update\<close> exactly
  up to the first frame after which \<open>_running\<close> is false, then calls \<open>Stop\<close> once and returns the exit
  code recorded by then (\<open>Success\<close> when there is none); and when no frame clears \<open>_running\<close>, \<open>Run\<close>
  does not return.
\<close>

theorem tight_run_outcome:
  "TightRun secs clk h self s =
     (case h_Start h s of
        (False, s1) \<Rightarrow> Some (ExitCode_NotStarted, s1)
      | (True, s1) \<Rightarrow>
          let frame = (\<lambda>n. snd (tight_frames secs clk h 0 n
                 (Initialize (clk 0) (new_UpdateCtx self), s1\<lparr>rs_running := True\<rparr>)));
              final = h_Stop h (frame (LEAST n. \<not> rs_running (frame n)))
          in if \<exists>n. \<not> rs_running (frame n)
             then Some (value_or (GetExitCode final) ExitCode_Success, final) else None)"
  by (auto simp: TightRun_def tight_loop_cases Let_def split: prod.splits bool.splits option.splits)

text \<open>
  An exit requested during \<open>Start\<close> is lost by \<open>TightRunner\<close>: \<open>Run\<close> sets \<open>_running\<close> to true after
  \<open>Start\<close> returns, so if no later \<open>Update\<close> touches \<open>_running\<close> the loop never ends, although an exit code
  has been recorded.
\<close>

lemma tight_exit_in_start_is_lost:
  assumes "h_Start h s = (True, TightExit code s1)"
    and "\<forall>ctx s. rs_running (h_Update h ctx s) = rs_running s"
  shows "TightRun secs clk h self s = None"
  using assms(1) tight_frames_keep[OF assms(2)]
  by (simp add: TightRun_def tight_loop_cases Let_def)

lemma tight_exit_in_start_is_lost_witness:
  "TightRun (\<lambda>_. 0) int \<lparr>h_Start = (\<lambda>s. (True, TightExit 42 s)), h_Stop = (\<lambda>s. s), h_Update = (\<lambda>_ s. s)\<rparr> 0
     \<lparr>rs_exitCode = None, rs_running = False, rs_world = ()\<rparr> = None"
  by (rule tight_exit_in_start_is_lost[where code = 42]) simp_all

text \<open>
  \<open>WasmRunner\<close> honours an exit code recorded at any time, \<open>Start\<close> included: the next frame stops the
  handler instead of updating it and cancels the main loop, whatever further browser events come
  leave the program's state as \<open>Stop\<close> left it, and once the delayed callback has run the process has
  exited with the code recorded after \<open>Stop\<close>.
\<close>

lemma wasm_exit_is_honoured:
  assumes "w_mainLoop w" and "w_exited w = None" and "GetExitCode (w_state w) \<noteq> None"
  shows "w_state (wasm_events secs h w (MainLoop t # es)) = h_Stop h (w_state w)
       \<and> w_exited (wasm_events secs h w [MainLoop t, AsyncCall]) =
           Some (value_or (GetExitCode (h_Stop h (w_state w))) 0)"
proof -
  let ?w = "StopAndExit h w"
  have step: "wasm_event secs h w (MainLoop t) = ?w"
    using assms by (auto simp: WasmUpdate_def)
  have "\<not> w_mainLoop ?w" by (simp add: StopAndExit_def)
  from wasm_stopped_inv[OF this, of secs h es]
  have "w_state (wasm_events secs h w (MainLoop t # es)) = w_state ?w"
    by (simp only: wasm_events_def foldl.simps step)
  moreover have "w_exited (wasm_events secs h w [MainLoop t, AsyncCall]) =
      Some (value_or (GetExitCode (w_state ?w)) 0)"
    using assms(2) by (simp only: wasm_events_def foldl.simps step) (simp add: StopAndExit_def AsyncExit_def)
  ultimately show ?thesis by (simp add: StopAndExit_def)
qed

lemma wasm_exit_is_honoured_witness:
  "w_exited (wasm_events (\<lambda>_. 0) (IHandler (\<lambda>_ s. s))
     \<lparr>w_state = \<lparr>rs_exitCode = Some 42, rs_running = False, rs_world = ()\<rparr>, w_ctx = new_UpdateCtx 0,
      w_mainLoop = True, w_asyncExit = False, w_exited = None\<rparr> [MainLoop 5, AsyncCall]) = Some 42"
proof -
  let ?w = "\<lparr>w_state = \<lparr>rs_exitCode = Some 42, rs_running = False, rs_world = ()\<rparr>,
     w_ctx = new_UpdateCtx 0, w_mainLoop = True, w_asyncExit = False, w_exited = None\<rparr>"
  have "w_exited (wasm_events (\<lambda>_. 0) (IHandler (\<lambda>_ s. s)) ?w [MainLoop 5, AsyncCall]) =
      Some (value_or (GetExitCode (h_Stop (IHandler (\<lambda>_ s. s)) (w_state ?w))) 0)"
    using wasm_exit_is_honoured[of ?w "\<lambda>_. 0" "IHandler (\<lambda>_ s. s)" 5 "[]"]
    by (simp add: GetExitCode_def)
  then show ?thesis by (simp add: IHandler_def GetExitCode_def)
qed

end
