(* ===== verification/Timer_Backend.thy ===== *)
theory Timer_Backend
  imports Prelude
begin

text \<open>
  \<open>pkg/exec/Exec/Delay\<close>: the timer interface \<open>ITimerBackend\<close> as a locale of laws, and the
  frame-loop implementation \<open>LoopTimerBackend\<close>.

  A backend holds callbacks of any type \<open>'c\<close>. Timer ids are 64-bit words; \<open>InvalidTimerId\<close> is 0.
  \<open>std::lower_bound\<close> on the sorted entries is the position of the first entry whose deadline is not
  smaller. \<open>LoopTick\<close> runs callbacks that may call back into the backend: the backend is embedded in a
  state \<open>'s\<close> (read by \<open>get\<close>, written by \<open>put\<close>) on which \<open>fire cb\<close> is the effect of the callback.
\<close>

section \<open>Entries and operations\<close>

record 'c entry =
  e_deadline :: time_point
  e_id :: u64
  e_callback :: 'c

record 'c loop_backend =
  lb_entries :: "'c entry list"
  lb_nextId :: u64

abbreviation InvalidTimerId :: u64 where "InvalidTimerId \<equiv> 0"

definition new_loop_backend :: "'c loop_backend" where
  "new_loop_backend = \<lparr>lb_entries = [], lb_nextId = 1\<rparr>"

definition ScheduleAt :: "time_point \<Rightarrow> 'c \<Rightarrow> 'c loop_backend \<Rightarrow> u64 \<times> 'c loop_backend" where
  "ScheduleAt deadline callback b =
     (let tid = lb_nextId b;
          e = \<lparr>e_deadline = deadline, e_id = tid, e_callback = callback\<rparr>;
          before = (\<lambda>e. e_deadline e < deadline)
      in (tid, b\<lparr>lb_nextId := tid + 1,
                lb_entries := takeWhile before (lb_entries b) @ e # dropWhile before (lb_entries b)\<rparr>))"

fun erase_first :: "('a \<Rightarrow> bool) \<Rightarrow> 'a list \<Rightarrow> 'a list" where
  "erase_first P [] = []"
| "erase_first P (x # xs) = (if P x then xs else x # erase_first P xs)"

definition Cancel :: "u64 \<Rightarrow> 'c loop_backend \<Rightarrow> bool \<times> 'c loop_backend" where
  "Cancel tid b =
     (case find (\<lambda>e. e_id e = tid) (lb_entries b) of
        None \<Rightarrow> (False, b)
      | Some _ \<Rightarrow> (True, b\<lparr>lb_entries := erase_first (\<lambda>e. e_id e = tid) (lb_entries b)\<rparr>))"

partial_function (option) LoopTick ::
  "('s \<Rightarrow> 'c loop_backend) \<Rightarrow> ('c loop_backend \<Rightarrow> 's \<Rightarrow> 's) \<Rightarrow> ('c \<Rightarrow> 's \<Rightarrow> 's) \<Rightarrow> time_point \<Rightarrow>
   's \<Rightarrow> 's option" where
  "LoopTick get put fire now s =
     (case lb_entries (get s) of
        [] \<Rightarrow> Some s
      | e # es \<Rightarrow>
          if e_deadline e \<le> now
          then LoopTick get put fire now (fire (e_callback e) (put ((get s)\<lparr>lb_entries := es\<rparr>) s))
          else Some s)"

section \<open>The interface\<close>

text \<open>
  The contract \<open>ITimerBackend\<close> documents: \<open>ScheduleAt\<close> returns a fresh valid id under which the
  callback is pending; \<open>Cancel\<close> answers whether the callback was still pending and removes it. Ids are
  64-bit counters, so a backend promises this while it has \<open>room\<close> for another id.
\<close>

locale timer_backend =
  fixes schedule :: "time_point \<Rightarrow> 'c \<Rightarrow> 'b \<Rightarrow> u64 \<times> 'b"
    and cancel :: "u64 \<Rightarrow> 'b \<Rightarrow> bool \<times> 'b"
    and pending :: "'b \<Rightarrow> u64 \<rightharpoonup> time_point \<times> 'c"
    and invar :: "'b \<Rightarrow> bool"
    and room :: "'b \<Rightarrow> bool"
  assumes schedule_fresh:
      "invar b \<Longrightarrow> room b \<Longrightarrow> fst (schedule dl cb b) \<noteq> InvalidTimerId \<and>
         pending b (fst (schedule dl cb b)) = None"
    and schedule_pending:
      "invar b \<Longrightarrow> room b \<Longrightarrow>
         pending (snd (schedule dl cb b)) = (pending b)(fst (schedule dl cb b) \<mapsto> (dl, cb))"
    and schedule_invar: "invar b \<Longrightarrow> room b \<Longrightarrow> invar (snd (schedule dl cb b))"
    and cancel_result: "invar b \<Longrightarrow> fst (cancel i b) \<longleftrightarrow> pending b i \<noteq> None"
    and cancel_pending: "invar b \<Longrightarrow> pending (snd (cancel i b)) = (pending b)(i := None)"
    and cancel_invar: "invar b \<Longrightarrow> invar (snd (cancel i b))"
begin

lemma cancel_after_schedule:
  assumes "invar b" and "room b" and "schedule dl cb b = (i, b1)" and "cancel i b1 = (r, b2)"
  shows "r" and "pending b2 = pending b" and "\<not> fst (cancel i b2)"
proof -
  from assms have b1: "pending b1 = (pending b)(i \<mapsto> (dl, cb))" "pending b i = None" "invar b1"
    using schedule_pending[of b dl cb] schedule_fresh[of b dl cb] schedule_invar[of b dl cb] by auto
  with assms(4) have b2: "r" "pending b2 = (pending b1)(i := None)" "invar b2"
    using cancel_result[of b1 i] cancel_pending[of b1 i] cancel_invar[of b1 i] by auto
  show r by fact
  show "pending b2 = pending b" using b1 b2 by (auto simp: fun_upd_idem_iff)
  show "\<not> fst (cancel i b2)" using b2 cancel_result[of b2 i] by simp
qed

end

section \<open>LoopTimerBackend implements it\<close>

definition lb_pending :: "'c loop_backend \<Rightarrow> u64 \<rightharpoonup> time_point \<times> 'c" where
  "lb_pending b = map_of (map (\<lambda>e. (e_id e, (e_deadline e, e_callback e))) (lb_entries b))"

definition lb_invar :: "'c loop_backend \<Rightarrow> bool" where
  "lb_invar b \<longleftrightarrow>
     sorted (map e_deadline (lb_entries b)) \<and> distinct (map e_id (lb_entries b)) \<and>
     (\<forall>e\<in>set (lb_entries b). e_id e \<noteq> InvalidTimerId \<and> e_id e < lb_nextId b) \<and>
     lb_nextId b \<noteq> InvalidTimerId"

definition lb_room :: "'c loop_backend \<Rightarrow> bool" where
  "lb_room b \<longleftrightarrow> lb_nextId b < - 1"

lemma erase_first_map_of:
  assumes "distinct (map k xs)"
  shows "map_of (map (\<lambda>x. (k x, f x)) (erase_first (\<lambda>x. k x = i) xs)) =
         (map_of (map (\<lambda>x. (k x, f x)) xs))(i := None)"
  using assms
proof (induction xs)
  case Nil
  then show ?case by simp
next
  case (Cons x xs)
  have "map_of (map (\<lambda>x. (k x, f x)) xs) i = None" if "k x = i"
    using Cons.prems that by (auto simp: map_of_eq_None_iff image_iff)
  with Cons show ?case by (auto simp: fun_eq_iff)
qed

lemma set_erase_first: "set (erase_first P xs) \<subseteq> set xs"
  by (induction xs) auto

lemma erase_first_sorted: "sorted (map f xs) \<Longrightarrow> sorted (map f (erase_first P xs))"
  by (induction xs) (use set_erase_first in fastforce)+

lemma erase_first_distinct: "distinct (map f xs) \<Longrightarrow> distinct (map f (erase_first P xs))"
  by (induction xs) (use set_erase_first in fastforce)+

lemma find_None_iff_id: "find (\<lambda>e. e_id e = i) es = None \<longleftrightarrow> i \<notin> e_id ` set es"
  by (auto simp: find_None_iff)

lemma lb_pending_None: "lb_pending b i = None \<longleftrightarrow> i \<notin> e_id ` set (lb_entries b)"
  by (auto simp: lb_pending_def map_of_eq_None_iff image_iff)

lemma lb_pending_Some:
  assumes "lb_invar b"
  shows "lb_pending b i = Some (dl, cb) \<longleftrightarrow>
    (\<exists>e\<in>set (lb_entries b). e_id e = i \<and> e_deadline e = dl \<and> e_callback e = cb)"
proof -
  have "distinct (map fst (map (\<lambda>e. (e_id e, (e_deadline e, e_callback e))) (lb_entries b)))"
    using assms by (simp add: lb_invar_def comp_def)
  then show ?thesis by (auto simp: lb_pending_def map_of_eq_Some_iff)
qed

lemma distinct_takeWhile_insert:
  assumes "distinct (map f xs)" and "f x \<notin> f ` set xs"
  shows "distinct (map f (takeWhile P xs @ x # dropWhile P xs))"
proof -
  have "mset (map f (takeWhile P xs @ x # dropWhile P xs)) = mset (f x # map f xs)"
    by (metis image_mset_add_mset list.simps(9) mset.simps(2) mset_map mset_takeWhile_insert)
  then show ?thesis using assms by (metis distinct.simps(2) mset_eq_imp_distinct_iff set_map)
qed

lemma lb_schedule_invar:
  assumes "lb_invar b" and "lb_room b"
  shows "lb_invar (snd (ScheduleAt dl cb b))"
proof -
  let ?e = "\<lparr>e_deadline = dl, e_id = lb_nextId b, e_callback = cb\<rparr>"
  have less: "lb_nextId b < lb_nextId b + 1" "lb_nextId b + 1 \<noteq> 0"
    using word_inc[of "lb_nextId b"] assms(2) by (auto simp: lb_room_def)
  have "lb_nextId b \<notin> e_id ` set (lb_entries b)" using assms(1) by (auto simp: lb_invar_def)
  then have "distinct (map e_id (takeWhile (\<lambda>e. e_deadline e < dl) (lb_entries b) @ ?e #
      dropWhile (\<lambda>e. e_deadline e < dl) (lb_entries b)))"
    using assms(1) by (intro distinct_takeWhile_insert) (auto simp: lb_invar_def)
  moreover have "sorted (map e_deadline (takeWhile (\<lambda>e. e_deadline e < dl) (lb_entries b) @ ?e #
      dropWhile (\<lambda>e. e_deadline e < dl) (lb_entries b)))"
    using sorted_insert_takeWhile[of e_deadline "lb_entries b" ?e] assms(1) by (simp add: lb_invar_def)
  moreover have "set (takeWhile (\<lambda>e. e_deadline e < dl) (lb_entries b) @ ?e #
      dropWhile (\<lambda>e. e_deadline e < dl) (lb_entries b)) = insert ?e (set (lb_entries b))"
    by (rule set_takeWhile_insert)
  ultimately show ?thesis
    using assms(1) less unfolding lb_invar_def ScheduleAt_def Let_def
    by (auto intro: less_trans)
qed

lemma lb_schedule_pending:
  assumes "lb_invar b"
  shows "lb_pending (snd (ScheduleAt dl cb b)) = (lb_pending b)(lb_nextId b \<mapsto> (dl, cb))"
proof -
  let ?g = "\<lambda>e. (e_id e, (e_deadline e, e_callback e))"
  let ?P = "\<lambda>e. e_deadline e < dl"
  have "lb_nextId b \<notin> e_id ` set (takeWhile ?P (lb_entries b))"
    using assms by (auto simp: lb_invar_def dest: set_takeWhileD)
  then have no: "map_of (map ?g (takeWhile ?P (lb_entries b))) (lb_nextId b) = None"
    by (auto simp: map_of_eq_None_iff image_iff)
  have "map_of (map ?g (dropWhile ?P (lb_entries b))) ++ map_of (map ?g (takeWhile ?P (lb_entries b)))
      = lb_pending b"
    unfolding lb_pending_def by (metis map_append map_of_append takeWhile_dropWhile_id)
  moreover have "lb_pending (snd (ScheduleAt dl cb b)) =
      (map_of (map ?g (dropWhile ?P (lb_entries b))))(lb_nextId b \<mapsto> (dl, cb)) ++
       map_of (map ?g (takeWhile ?P (lb_entries b)))"
    by (simp add: lb_pending_def ScheduleAt_def Let_def)
  ultimately show ?thesis using no by (simp add: map_add_upd_left domIff)
qed

lemma Cancel_entries:
  "Cancel i b = (i \<in> e_id ` set (lb_entries b),
     b\<lparr>lb_entries := erase_first (\<lambda>e. e_id e = i) (lb_entries b)\<rparr>)"
proof -
  have "erase_first (\<lambda>e. e_id e = i) es = es" if "i \<notin> e_id ` set es" for es :: "'a entry list"
    using that by (induction es) auto
  then show ?thesis
    using find_None_iff_id[of i "lb_entries b"]
    by (cases "find (\<lambda>e. e_id e = i) (lb_entries b)") (auto simp: Cancel_def)
qed

lemma lb_cancel_invar: "lb_invar b \<Longrightarrow> lb_invar (snd (Cancel i b))"
  using set_erase_first[of "\<lambda>e. e_id e = i" "lb_entries b"]
  by (auto simp: Cancel_entries lb_invar_def erase_first_sorted erase_first_distinct)

lemma lb_cancel_pending:
  "lb_invar b \<Longrightarrow> lb_pending (snd (Cancel i b)) = (lb_pending b)(i := None)"
  unfolding lb_pending_def
  by (simp add: Cancel_entries) (rule erase_first_map_of, simp add: lb_invar_def)

interpretation loop_timer: timer_backend ScheduleAt Cancel lb_pending lb_invar lb_room
proof unfold_locales
  fix b :: "'a loop_backend" and dl cb i
  assume b: "lb_invar b"
  show "fst (ScheduleAt dl cb b) \<noteq> InvalidTimerId \<and> lb_pending b (fst (ScheduleAt dl cb b)) = None"
    using b by (auto simp: ScheduleAt_def Let_def lb_invar_def lb_pending_None)
  show "lb_pending (snd (ScheduleAt dl cb b)) = (lb_pending b)(fst (ScheduleAt dl cb b) \<mapsto> (dl, cb))"
    using lb_schedule_pending[OF b] by (simp add: ScheduleAt_def Let_def)
  show "fst (Cancel i b) \<longleftrightarrow> lb_pending b i \<noteq> None"
    by (simp add: Cancel_entries lb_pending_None)
  show "lb_pending (snd (Cancel i b)) = (lb_pending b)(i := None)"
    using b by (rule lb_cancel_pending)
  show "lb_invar (snd (Cancel i b))" using b by (rule lb_cancel_invar)
qed (rule lb_schedule_invar)

section \<open>Facts on Tick\<close>

definition due_count :: "time_point \<Rightarrow> 'c loop_backend \<Rightarrow> nat" where
  "due_count now b = length (filter (\<lambda>e. e_deadline e \<le> now) (lb_entries b))"

text \<open>A callback that acts on the backend by \<open>react\<close> and records that it ran.\<close>

definition traced_fire ::
  "('c \<Rightarrow> 'c loop_backend \<Rightarrow> 'c loop_backend) \<Rightarrow> 'c \<Rightarrow> 'c loop_backend \<times> 'c list \<Rightarrow> 'c loop_backend \<times> 'c list" where
  "traced_fire react cb = (\<lambda>(b, fired). (react cb b, fired @ [cb]))"

definition TracedTick ::
  "('c \<Rightarrow> 'c loop_backend \<Rightarrow> 'c loop_backend) \<Rightarrow> time_point \<Rightarrow> 'c loop_backend \<times> 'c list \<Rightarrow>
   ('c loop_backend \<times> 'c list) option" where
  "TracedTick react now = LoopTick fst (\<lambda>b (_, fired). (b, fired)) (traced_fire react) now"

lemma LoopTick_returns:
  assumes get_put: "\<And>b s. get (put b s) = b"
    and pop: "\<And>s e es. I s \<Longrightarrow> lb_entries (get s) = e # es \<Longrightarrow> e_deadline e \<le> now \<Longrightarrow>
        I (fire (e_callback e) (put ((get s)\<lparr>lb_entries := es\<rparr>) s))"
    and calm: "\<And>cb s. due_count now (get (fire cb s)) \<le> due_count now (get s)"
    and "I s"
  shows "\<exists>s'. LoopTick get put fire now s = Some s' \<and> I s' \<and>
    (\<forall>e es. lb_entries (get s') = e # es \<longrightarrow> now < e_deadline e)"
  using \<open>I s\<close>
proof (induction "due_count now (get s)" arbitrary: s rule: less_induct)
  case less
  show ?case
  proof (cases "lb_entries (get s)")
    case Nil
    then show ?thesis using less.prems by (simp add: LoopTick.simps)
  next
    case (Cons e es)
    show ?thesis
    proof (cases "e_deadline e \<le> now")
      case True
      let ?s = "fire (e_callback e) (put ((get s)\<lparr>lb_entries := es\<rparr>) s)"
      have "due_count now (get ?s) \<le> due_count now (get (put ((get s)\<lparr>lb_entries := es\<rparr>) s))"
        by (rule calm)
      also have "\<dots> < due_count now (get s)" using Cons True by (simp add: get_put due_count_def)
      finally have "due_count now (get ?s) < due_count now (get s)" .
      from less.hyps[OF this pop[OF less.prems Cons True]] show ?thesis
        using Cons True by (simp add: LoopTick.simps[of _ _ _ _ s])
    next
      case False
      then show ?thesis using less.prems Cons by (simp add: LoopTick.simps)
    qed
  qed
qed

lemma sorted_front_not_due:
  assumes "sorted (map e_deadline es)" and "\<forall>x xs. es = x # xs \<longrightarrow> now < e_deadline x"
  shows "\<forall>e\<in>set es. now < e_deadline e"
  using assms by (cases es) fastforce+

lemma sorted_due_split:
  assumes "sorted (map e_deadline es)"
  shows "takeWhile (\<lambda>e. e_deadline e \<le> now) es = filter (\<lambda>e. e_deadline e \<le> now) es"
    and "dropWhile (\<lambda>e. e_deadline e \<le> now) es = filter (\<lambda>e. now < e_deadline e) es"
proof -
  have "takeWhile (\<lambda>e. e_deadline e \<le> now) es = filter (\<lambda>e. e_deadline e \<le> now) es \<and>
      dropWhile (\<lambda>e. e_deadline e \<le> now) es = filter (\<lambda>e. now < e_deadline e) es"
    using assms
  proof (induction es)
    case Nil
    then show ?case by simp
  next
    case (Cons a es)
    show ?case
    proof (cases "e_deadline a \<le> now")
      case True
      with Cons show ?thesis by auto
    next
      case False
      with Cons.prems have late: "\<forall>x\<in>set (a # es). now < e_deadline x" by auto
      then have "filter (\<lambda>e. now < e_deadline e) (a # es) = a # es" by (simp add: filter_id_conv)
      moreover have "filter (\<lambda>e. e_deadline e \<le> now) (a # es) = []"
        using late by (auto simp: filter_empty_conv not_le)
      ultimately show ?thesis using False by auto
    qed
  qed
  then show "takeWhile (\<lambda>e. e_deadline e \<le> now) es = filter (\<lambda>e. e_deadline e \<le> now) es"
    and "dropWhile (\<lambda>e. e_deadline e \<le> now) es = filter (\<lambda>e. now < e_deadline e) es" by simp_all
qed

lemma lb_invar_pop: "lb_invar b \<Longrightarrow> lb_entries b = e # es \<Longrightarrow> lb_invar (b\<lparr>lb_entries := es\<rparr>)"
  by (auto simp: lb_invar_def)

lemma TracedTick_pure:
  "TracedTick (\<lambda>_ b. b) now (b, fired) =
     Some (b\<lparr>lb_entries := dropWhile (\<lambda>e. e_deadline e \<le> now) (lb_entries b)\<rparr>,
           fired @ map e_callback (takeWhile (\<lambda>e. e_deadline e \<le> now) (lb_entries b)))"
proof (induction "lb_entries b" arbitrary: b fired)
  case Nil
  from Nil.hyps[symmetric] show ?case by (cases b) (simp add: TracedTick_def LoopTick.simps)
next
  case (Cons e es)
  have "TracedTick (\<lambda>_ b. b) now (b\<lparr>lb_entries := es\<rparr>, fired @ [e_callback e]) =
     Some (b\<lparr>lb_entries := dropWhile (\<lambda>e. e_deadline e \<le> now) es\<rparr>,
           (fired @ [e_callback e]) @ map e_callback (takeWhile (\<lambda>e. e_deadline e \<le> now) es))"
    using Cons.hyps(1)[of "b\<lparr>lb_entries := es\<rparr>" "fired @ [e_callback e]"] by simp
  with Cons.hyps(2)[symmetric] show ?case
    by (cases b) (simp add: TracedTick_def traced_fire_def LoopTick.simps[of _ _ _ _ "(_, fired)"])
qed

section \<open>Properties\<close>

text \<open>
  C25. \<open>Tick\<close> returns and leaves nothing due: for callbacks that may cancel timers and schedule new ones,
  as long as they keep the backend's invariant and do not increase the number of due entries, the loop
  ends, the invariant (entries sorted by deadline, ids distinct and valid) still holds, and every
  remaining entry has its deadline after \<open>now\<close>.
\<close>

theorem loop_tick_leaves_nothing_due:
  assumes "lb_invar b"
    and "\<And>cb b. lb_invar b \<Longrightarrow> lb_invar (react cb b)"
    and "\<And>cb b. due_count now (react cb b) \<le> due_count now b"
  shows "\<exists>b' fired'. TracedTick react now (b, fired) = Some (b', fired') \<and> lb_invar b' \<and>
    (\<forall>e\<in>set (lb_entries b'). now < e_deadline e)"
proof -
  have pop: "lb_invar (react cb (x\<lparr>lb_entries := es\<rparr>))" if "lb_invar x" "lb_entries x = e # es" for cb x e es
    using assms(2)[OF lb_invar_pop[OF that]] .
  have "\<exists>s'. TracedTick react now (b, fired) = Some s' \<and> lb_invar (fst s') \<and>
      (\<forall>e es. lb_entries (fst s') = e # es \<longrightarrow> now < e_deadline e)"
    unfolding TracedTick_def
    by (rule LoopTick_returns[where I = "\<lambda>s. lb_invar (fst s)"])
       (use assms(1,3) pop in \<open>auto simp: traced_fire_def split: prod.splits\<close>)
  then obtain b' fired' where s: "TracedTick react now (b, fired) = Some (b', fired')" "lb_invar b'"
      "\<forall>e es. lb_entries b' = e # es \<longrightarrow> now < e_deadline e" by auto
  then have "\<forall>e\<in>set (lb_entries b'). now < e_deadline e"
    by (intro sorted_front_not_due) (auto simp: lb_invar_def)
  with s show ?thesis by blast
qed

theorem loop_tick_leaves_nothing_due_witness:
  "\<exists>b' fired'. TracedTick (\<lambda>_ b. b) 5 (snd (ScheduleAt 3 (7::nat) new_loop_backend), []) = Some (b', fired') \<and>
     lb_invar b' \<and> (\<forall>e\<in>set (lb_entries b'). 5 < e_deadline e)"
  by (rule loop_tick_leaves_nothing_due)
     (auto simp: lb_invar_def ScheduleAt_def new_loop_backend_def Let_def)

text \<open>
  Which callbacks \<open>Tick\<close> runs, and in which order: with callbacks that do not call back into the
  backend, exactly the entries whose deadline is at or before \<open>now\<close>, in deadline order, each once;
  the others stay.
\<close>

lemma loop_tick_fires_exactly_due:
  assumes "lb_invar b"
  shows "\<exists>b' fired. TracedTick (\<lambda>_ b. b) now (b, []) = Some (b', fired) \<and>
     fired = map e_callback (filter (\<lambda>e. e_deadline e \<le> now) (lb_entries b)) \<and>
     lb_entries b' = filter (\<lambda>e. now < e_deadline e) (lb_entries b) \<and>
     sorted (map e_deadline (filter (\<lambda>e. e_deadline e \<le> now) (lb_entries b)))"
proof -
  have "sorted (map e_deadline (lb_entries b))" using assms by (simp add: lb_invar_def)
  then show ?thesis by (simp add: TracedTick_pure sorted_due_split sorted_filter)
qed

lemma loop_tick_fires_exactly_due_witness:
  "\<exists>b' fired. TracedTick (\<lambda>_ b. b) 5
       (snd (ScheduleAt 3 (1::nat) (snd (ScheduleAt 9 2 new_loop_backend))), []) = Some (b', fired) \<and> fired = [1]"
proof -
  let ?b = "snd (ScheduleAt 3 (1::nat) (snd (ScheduleAt 9 2 new_loop_backend)))"
  have "lb_invar ?b" by (simp add: lb_invar_def ScheduleAt_def new_loop_backend_def Let_def)
  from loop_tick_fires_exactly_due[OF this, of 5] show ?thesis
    by (auto simp: ScheduleAt_def new_loop_backend_def Let_def)
qed

text \<open>
  A callback that schedules an already due timer gets it run within the same \<open>Tick\<close>: the loop looks
  at the front entry afresh in every round, it does not take a snapshot first.
\<close>

lemma loop_tick_runs_entries_added_by_callbacks:
  assumes "dl1 \<le> now" and "dl2 \<le> now" and "first \<noteq> second"
  shows "map_option snd (TracedTick (\<lambda>cb b. if cb = first then snd (ScheduleAt dl2 second b) else b) now
           (snd (ScheduleAt dl1 first new_loop_backend), [])) = Some [first, second]"
  using assms
  by (simp add: TracedTick_def traced_fire_def LoopTick.simps ScheduleAt_def new_loop_backend_def Let_def)

lemma loop_tick_runs_entries_added_by_callbacks_witness:
  "map_option snd (TracedTick (\<lambda>cb b. if cb = 1 then snd (ScheduleAt 5 2 b) else b) 5
           (snd (ScheduleAt 3 (1::nat) new_loop_backend), [])) = Some [1, 2]"
  by (rule loop_tick_runs_entries_added_by_callbacks) simp_all

text \<open>
  Cancelling a scheduled timer: \<open>ScheduleAt\<close> returns a valid id under which the callback is pending;
  \<open>Cancel\<close> of that id returns true and restores the set of pending timers, and a second \<open>Cancel\<close>
  returns false.
\<close>

lemma loop_backend_cancel_undoes_schedule:
  assumes "lb_invar b" and "lb_room b"
    and "ScheduleAt dl cb b = (tid, b1)" and "Cancel tid b1 = (r, b2)"
  shows "tid \<noteq> InvalidTimerId \<and> lb_pending b1 tid = Some (dl, cb) \<and>
         r \<and> lb_pending b2 = lb_pending b \<and> \<not> fst (Cancel tid b2)"
  using loop_timer.cancel_after_schedule[OF assms] loop_timer.schedule_fresh[OF assms(1,2), of dl cb]
    loop_timer.schedule_pending[OF assms(1,2), of dl cb] assms(3) by simp

lemma loop_backend_cancel_undoes_schedule_witness:
  "fst (Cancel 1 (snd (ScheduleAt 9 (4::nat) new_loop_backend)))"
  using loop_backend_cancel_undoes_schedule[of "new_loop_backend :: nat loop_backend" 9 4]
  by (simp add: lb_invar_def lb_room_def ScheduleAt_def new_loop_backend_def Let_def Cancel_def)

end
