(* ===== verification/Loop_Context.thy ===== *)
theory Loop_Context
  imports Timer_Backend
begin

text \<open>
  \<open>pkg/exec/Exec/Context\<close>: \<open>PureLoopContext\<close> (a queue of operations drained once per frame),
  \<open>TimedOperation\<close> (an operation that completes when a timer fires or a stop is requested) and
  \<open>TimedLoopContext\<close> (both together).

  Operations are numbered; \<open>l_ops\<close> is the store of operation states. \<open>l_stop\<close> and \<open>l_callbacks\<close> are the
  \<open>inplace_stop_source\<close> whose token the receivers expose and the stop callbacks registered on it, and
  \<open>l_signals\<close> records the completion signals delivered to receivers, in order.

  The lock-free queue is third-party code: its two operations are the parameter \<open>Q\<close>, with the locale
  \<open>concurrent_queue\<close> stating what the code relies on. The timer backend is the parameter \<open>B\<close>, with the
  laws of the locale \<open>timer_backend\<close>. What a receiver does with its signal is the parameter \<open>recv\<close>.
\<close>

section \<open>State\<close>

record 'q cqueue =
  cq_enqueue :: "ref \<Rightarrow> 'q \<Rightarrow> 'q"
  cq_try_dequeue :: "'q \<Rightarrow> (ref \<times> 'q) option"

record 'b tbackend =
  tb_ScheduleAt :: "time_point \<Rightarrow> ref \<Rightarrow> 'b \<Rightarrow> u64 \<times> 'b"
  tb_Cancel :: "u64 \<Rightarrow> 'b \<Rightarrow> bool \<times> 'b"

datatype op_state = Pending | TimerWon | StopWon

datatype signal = SetValue | SetStopped

datatype op_kind = LoopOp | TimedOp

datatype op_phase = Connected | Started | Destroyed

text \<open>
  \<open>to_phase\<close> follows the life of the operation state: produced by \<open>connect\<close>, started, destroyed. The
  other fields are those of \<open>TimedOperation\<close>.
\<close>

record top =
  to_kind :: op_kind
  to_phase :: op_phase
  to_deadline :: time_point
  to_state :: op_state
  to_timerId :: u64

record ('q, 'b) loop =
  l_queue :: 'q
  l_backend :: 'b
  l_ops :: "ref \<Rightarrow> top"
  l_stop :: bool
  l_callbacks :: "ref list"
  l_signals :: "(ref \<times> signal) list"

definition set_op :: "ref \<Rightarrow> (top \<Rightarrow> top) \<Rightarrow> ('q, 'b, 'z) loop_scheme \<Rightarrow> ('q, 'b, 'z) loop_scheme" where
  "set_op i f w = w\<lparr>l_ops := (l_ops w)(i := f (l_ops w i))\<rparr>"

section \<open>PureLoopContext\<close>

definition connect_loop :: top where
  "connect_loop = \<lparr>to_kind = LoopOp, to_phase = Connected, to_deadline = 0, to_state = Pending, to_timerId = 0\<rparr>"

definition Enqueue :: "'q cqueue \<Rightarrow> ref \<Rightarrow> ('q, 'b, 'z) loop_scheme \<Rightarrow> ('q, 'b, 'z) loop_scheme" where
  "Enqueue Q task w = w\<lparr>l_queue := cq_enqueue Q task (l_queue w)\<rparr>"

definition LoopOp_start :: "'q cqueue \<Rightarrow> ref \<Rightarrow> ('q, 'b, 'z) loop_scheme \<Rightarrow> ('q, 'b, 'z) loop_scheme" where
  "LoopOp_start Q i w = Enqueue Q i (set_op i (\<lambda>p. p\<lparr>to_phase := Started\<rparr>) w)"

definition Execute :: "ref \<Rightarrow> ('q, 'b, 'z) loop_scheme \<Rightarrow> ('q, 'b, 'z) loop_scheme" where
  "Execute i w =
     (if l_stop w then w\<lparr>l_signals := l_signals w @ [(i, SetStopped)]\<rparr>
      else w\<lparr>l_signals := l_signals w @ [(i, SetValue)]\<rparr>)"

partial_function (option) PureDrain ::
  "'q cqueue \<Rightarrow> (ref \<Rightarrow> signal \<Rightarrow> ('q, 'b, 'z) loop_scheme \<Rightarrow> ('q, 'b, 'z) loop_scheme) \<Rightarrow> nat \<Rightarrow>
   ('q, 'b, 'z) loop_scheme \<Rightarrow> (nat \<times> ('q, 'b, 'z) loop_scheme) option" where
  "PureDrain Q recv n w =
     (case cq_try_dequeue Q (l_queue w) of
        None \<Rightarrow> Some (n, w)
      | Some (task, q) \<Rightarrow>
          PureDrain Q recv (Suc n)
            (recv task (if l_stop w then SetStopped else SetValue) (Execute task (w\<lparr>l_queue := q\<rparr>))))"

section \<open>TimedOperation\<close>

definition connect_timed :: "time_point \<Rightarrow> top" where
  "connect_timed dl =
     \<lparr>to_kind = TimedOp, to_phase = Connected, to_deadline = dl, to_state = Pending, to_timerId = 0\<rparr>"

definition TryEnqueue ::
  "'q cqueue \<Rightarrow> op_state \<Rightarrow> ref \<Rightarrow> ('q, 'b, 'z) loop_scheme \<Rightarrow> ('q, 'b, 'z) loop_scheme" where
  "TryEnqueue Q desired i w =
     (if to_state (l_ops w i) = Pending
      then Enqueue Q i (set_op i (\<lambda>p. p\<lparr>to_state := desired\<rparr>) w) else w)"

definition TryEnqueueStop ::
  "'q cqueue \<Rightarrow> 'b tbackend \<Rightarrow> ref \<Rightarrow> ('q, 'b, 'z) loop_scheme \<Rightarrow> ('q, 'b, 'z) loop_scheme" where
  "TryEnqueueStop Q B i w =
     (let tid = to_timerId (l_ops w i);
          w1 = (if tid \<noteq> InvalidTimerId
                then (set_op i (\<lambda>p. p\<lparr>to_timerId := InvalidTimerId\<rparr>) w)
                       \<lparr>l_backend := snd (tb_Cancel B tid (l_backend w))\<rparr>
                else w)
      in TryEnqueue Q StopWon i w1)"

definition TimerCallback ::
  "'q cqueue \<Rightarrow> ref \<Rightarrow> ('q, 'b, 'z) loop_scheme \<Rightarrow> ('q, 'b, 'z) loop_scheme" where
  "TimerCallback Q i w = TryEnqueue Q TimerWon i (set_op i (\<lambda>p. p\<lparr>to_timerId := InvalidTimerId\<rparr>) w)"

text \<open>
  Constructing the stop callback on a token whose stop is already requested runs it at once, without
  registering it.
\<close>

definition emplace_stop_callback ::
  "'q cqueue \<Rightarrow> 'b tbackend \<Rightarrow> ref \<Rightarrow> ('q, 'b, 'z) loop_scheme \<Rightarrow> ('q, 'b, 'z) loop_scheme" where
  "emplace_stop_callback Q B i w =
     (if l_stop w then TryEnqueueStop Q B i w else w\<lparr>l_callbacks := l_callbacks w @ [i]\<rparr>)"

definition TimedOp_start ::
  "'q cqueue \<Rightarrow> 'b tbackend \<Rightarrow> ref \<Rightarrow> ('q, 'b, 'z) loop_scheme \<Rightarrow> ('q, 'b, 'z) loop_scheme" where
  "TimedOp_start Q B i w =
     (let w1 = emplace_stop_callback Q B i (set_op i (\<lambda>p. p\<lparr>to_phase := Started\<rparr>) w)
      in if to_state (l_ops w1 i) \<noteq> Pending then w1
         else
           (let (tid, b) = tb_ScheduleAt B (to_deadline (l_ops w1 i)) i (l_backend w1)
            in set_op i (\<lambda>p. p\<lparr>to_timerId := tid\<rparr>) (w1\<lparr>l_backend := b\<rparr>)))"

definition TimedOp_destroy ::
  "'b tbackend \<Rightarrow> ref \<Rightarrow> ('q, 'b, 'z) loop_scheme \<Rightarrow> ('q, 'b, 'z) loop_scheme" where
  "TimedOp_destroy B i w =
     (let w1 = w\<lparr>l_callbacks := remove1 i (l_callbacks w)\<rparr>;
          tid = to_timerId (l_ops w1 i);
          w2 = (if tid \<noteq> InvalidTimerId then w1\<lparr>l_backend := snd (tb_Cancel B tid (l_backend w1))\<rparr> else w1)
      in set_op i (\<lambda>p. p\<lparr>to_phase := Destroyed\<rparr>) w2)"

text \<open>
  \<open>inplace_stop_source::request_stop\<close>: the first call sets the flag and runs the registered callbacks;
  later calls do nothing.
\<close>

definition request_stop ::
  "'q cqueue \<Rightarrow> 'b tbackend \<Rightarrow> ('q, 'b, 'z) loop_scheme \<Rightarrow> ('q, 'b, 'z) loop_scheme" where
  "request_stop Q B w =
     (if l_stop w then w
      else fold (TryEnqueueStop Q B) (l_callbacks w) (w\<lparr>l_stop := True, l_callbacks := []\<rparr>))"

section \<open>TimedLoopContext\<close>

definition schedule_after :: "time_point \<Rightarrow> duration \<Rightarrow> top" where
  "schedule_after now dur = connect_timed (now + dur)"

definition LoopBackend :: "ref loop_backend tbackend" where
  "LoopBackend = \<lparr>tb_ScheduleAt = ScheduleAt, tb_Cancel = Cancel\<rparr>"

definition TickBackend ::
  "'q cqueue \<Rightarrow> time_point \<Rightarrow> ('q, ref loop_backend, 'z) loop_scheme \<Rightarrow>
   ('q, ref loop_backend, 'z) loop_scheme option" where
  "TickBackend Q now = LoopTick l_backend (\<lambda>b w. w\<lparr>l_backend := b\<rparr>) (TimerCallback Q) now"

definition DrainQueue ::
  "(('q, 'b, 'z) loop_scheme \<Rightarrow> ('q, 'b, 'z) loop_scheme option) \<Rightarrow> 'q cqueue \<Rightarrow>
   (ref \<Rightarrow> signal \<Rightarrow> ('q, 'b, 'z) loop_scheme \<Rightarrow> ('q, 'b, 'z) loop_scheme) \<Rightarrow>
   ('q, 'b, 'z) loop_scheme \<Rightarrow> (nat \<times> ('q, 'b, 'z) loop_scheme) option" where
  "DrainQueue tick Q recv w = (case tick w of None \<Rightarrow> None | Some w1 \<Rightarrow> PureDrain Q recv 0 w1)"

section \<open>Interleavings\<close>

text \<open>
  The events of a loop context, in any order. A receiver's reaction to its signal is a sequence of
  further events. \<open>fires b tid dl i b'\<close> says that the backend \<open>b\<close> fires its timer \<open>tid\<close> and becomes
  \<open>b'\<close>; \<open>room\<close> is the backend's condition for handing out another id. As P2300 requires, an operation
  is started once and destroyed before it is started or after it has completed.
\<close>

inductive loop_step ::
  "'q cqueue \<Rightarrow> 'b tbackend \<Rightarrow> ('b \<Rightarrow> u64 \<Rightarrow> time_point \<Rightarrow> ref \<Rightarrow> 'b \<Rightarrow> bool) \<Rightarrow> ('b \<Rightarrow> bool) \<Rightarrow>
   ('q, 'b) loop \<Rightarrow> ('q, 'b) loop \<Rightarrow> bool"
  for Q B fires room where
  start_loop_op: "to_phase (l_ops w i) = Connected \<Longrightarrow> to_kind (l_ops w i) = LoopOp \<Longrightarrow>
     loop_step Q B fires room w (LoopOp_start Q i w)"
| start_timed_op: "to_phase (l_ops w i) = Connected \<Longrightarrow> to_kind (l_ops w i) = TimedOp \<Longrightarrow>
     room (l_backend w) \<Longrightarrow> loop_step Q B fires room w (TimedOp_start Q B i w)"
| fire: "fires (l_backend w) tid dl i b' \<Longrightarrow>
     loop_step Q B fires room w (TimerCallback Q i (w\<lparr>l_backend := b'\<rparr>))"
| stop: "loop_step Q B fires room w (request_stop Q B w)"
| execute: "cq_try_dequeue Q (l_queue w) = Some (i, q) \<Longrightarrow>
     loop_step Q B fires room w (Execute i (w\<lparr>l_queue := q\<rparr>))"
| destroy: "to_phase (l_ops w i) = Connected \<or>
       to_phase (l_ops w i) = Started \<and> i \<in> fst ` set (l_signals w) \<Longrightarrow>
     loop_step Q B fires room w (TimedOp_destroy B i w)"

inductive loop_reachable ::
  "'q cqueue \<Rightarrow> 'b tbackend \<Rightarrow> ('b \<Rightarrow> u64 \<Rightarrow> time_point \<Rightarrow> ref \<Rightarrow> 'b \<Rightarrow> bool) \<Rightarrow> ('b \<Rightarrow> bool) \<Rightarrow>
   ('q, 'b) loop \<Rightarrow> ('q, 'b) loop \<Rightarrow> bool"
  for Q B fires room w0 where
  init: "loop_reachable Q B fires room w0 w0"
| step: "loop_reachable Q B fires room w0 w \<Longrightarrow> loop_step Q B fires room w w' \<Longrightarrow>
     loop_reachable Q B fires room w0 w'"

text \<open>A freshly constructed context: nothing queued, nothing signalled, every operation merely connected.\<close>

definition fresh_loop :: "'q \<Rightarrow> 'b \<Rightarrow> (ref \<Rightarrow> top) \<Rightarrow> ('q, 'b) loop" where
  "fresh_loop q b ops =
     \<lparr>l_queue = q, l_backend = b, l_ops = ops, l_stop = False, l_callbacks = [], l_signals = []\<rparr>"

definition fifo_enqueue :: "ref \<Rightarrow> ref list \<Rightarrow> ref list" where
  "fifo_enqueue x q = q @ [x]"

definition fifo_try_dequeue :: "ref list \<Rightarrow> (ref \<times> ref list) option" where
  "fifo_try_dequeue q = (case q of [] \<Rightarrow> None | x # xs \<Rightarrow> Some (x, xs))"

definition fifo :: "ref list cqueue" where
  "fifo = \<lparr>cq_enqueue = fifo_enqueue, cq_try_dequeue = fifo_try_dequeue\<rparr>"

definition loop_fires :: "ref loop_backend \<Rightarrow> u64 \<Rightarrow> time_point \<Rightarrow> ref \<Rightarrow> ref loop_backend \<Rightarrow> bool" where
  "loop_fires b tid dl i b' \<longleftrightarrow>
     (\<exists>es. lb_entries b = \<lparr>e_deadline = dl, e_id = tid, e_callback = i\<rparr> # es \<and> b' = b\<lparr>lb_entries := es\<rparr>)"

section \<open>The invariant of operations\<close>

definition signals_of :: "ref \<Rightarrow> (ref \<times> signal) list \<Rightarrow> (ref \<times> signal) list" where
  "signals_of i xs = filter (\<lambda>x. fst x = i) xs"

definition timers_of :: "(u64 \<rightharpoonup> time_point \<times> ref) \<Rightarrow> ref \<Rightarrow> u64 set" where
  "timers_of m i = {tid. \<exists>dl. m tid = Some (dl, i)}"

definition op_inv ::
  "ref multiset \<Rightarrow> (u64 \<rightharpoonup> time_point \<times> ref) \<Rightarrow> ref list \<Rightarrow> bool \<Rightarrow> (ref \<times> signal) list \<Rightarrow> ref \<Rightarrow> top \<Rightarrow> bool" where
  "op_inv q pend cbs stopped sigs i p \<longleftrightarrow>
     (case to_phase p of
        Connected \<Rightarrow>
          count q i = 0 \<and> signals_of i sigs = [] \<and> timers_of pend i = {} \<and> i \<notin> set cbs \<and>
          to_timerId p = InvalidTimerId \<and> to_state p = Pending
      | Started \<Rightarrow>
          (if to_kind p = TimedOp \<and> to_state p = Pending
           then count q i = 0 \<and> signals_of i sigs = [] \<and> count_list cbs i = 1 \<and>
                to_timerId p \<noteq> InvalidTimerId \<and> timers_of pend i = {to_timerId p} \<and>
                pend (to_timerId p) = Some (to_deadline p, i)
           else count q i + length (signals_of i sigs) = 1 \<and> count_list cbs i \<le> 1 \<and>
                timers_of pend i = {} \<and> to_timerId p = InvalidTimerId \<and>
                (to_kind p = LoopOp \<longrightarrow> i \<notin> set cbs) \<and> (to_state p = StopWon \<longrightarrow> stopped))
      | Destroyed \<Rightarrow>
          count q i = 0 \<and> length (signals_of i sigs) \<le> 1 \<and> timers_of pend i = {} \<and> i \<notin> set cbs)"

definition loop_inv ::
  "('q \<Rightarrow> ref multiset) \<Rightarrow> ('b \<Rightarrow> u64 \<rightharpoonup> time_point \<times> ref) \<Rightarrow> ('b \<Rightarrow> bool) \<Rightarrow> ref list \<Rightarrow>
   ('q, 'b, 'z) loop_scheme \<Rightarrow> bool" where
  "loop_inv content pend invar cbs w \<longleftrightarrow>
     invar (l_backend w) \<and>
     (\<forall>i. op_inv (content (l_queue w)) (pend (l_backend w)) cbs (l_stop w) (l_signals w) i (l_ops w i))"

end
