(* ===== verification/Loop_Invariant.thy ===== *)
theory Loop_Invariant
  imports Loop_Context
begin

text \<open>
  What the loop context guarantees: the locale \<open>concurrent_queue\<close> states what is relied on in the
  lock-free queue, \<open>loop_env\<close> joins it with the laws of the timer backend and proves that every
  event keeps the invariant of all operations; the interpretation is on \<open>LoopTimerBackend\<close> with the
  first-in-first-out queue of a single producer. The properties at the end are about reachable states
  and about whole \<open>DrainQueue\<close> calls.
\<close>

section \<open>Interfaces\<close>

locale concurrent_queue =
  fixes enq :: "ref \<Rightarrow> 'q \<Rightarrow> 'q"
    and deq :: "'q \<Rightarrow> (ref \<times> 'q) option"
    and content :: "'q \<Rightarrow> ref multiset"
  assumes enq_content: "content (enq x q) = add_mset x (content q)"
    and deq_None: "deq q = None \<longleftrightarrow> content q = {#}"
    and deq_Some: "deq q = Some (x, q') \<Longrightarrow> content q = add_mset x (content q')"

text \<open>A queue that hands out its elements in the order of their insertion is such a queue.\<close>

locale fifo_queue =
  fixes enq :: "ref \<Rightarrow> 'q \<Rightarrow> 'q"
    and deq :: "'q \<Rightarrow> (ref \<times> 'q) option"
    and items :: "'q \<Rightarrow> ref list"
  assumes enq_items: "items (enq x q) = items q @ [x]"
    and deq_empty: "deq q = None \<longleftrightarrow> items q = []"
    and deq_first: "deq q = Some (x, q') \<Longrightarrow> items q = x # items q'"

sublocale fifo_queue \<subseteq> concurrent_queue enq deq "\<lambda>q. mset (items q)"
  by unfold_locales (simp_all add: enq_items deq_empty deq_first)

locale firing_backend = timer_backend schedule cancel pending invar room
  for schedule :: "time_point \<Rightarrow> ref \<Rightarrow> 'b \<Rightarrow> u64 \<times> 'b"
    and cancel :: "u64 \<Rightarrow> 'b \<Rightarrow> bool \<times> 'b"
    and pending :: "'b \<Rightarrow> u64 \<rightharpoonup> time_point \<times> ref"
    and invar :: "'b \<Rightarrow> bool"
    and room :: "'b \<Rightarrow> bool" +
  fixes fires :: "'b \<Rightarrow> u64 \<Rightarrow> time_point \<Rightarrow> ref \<Rightarrow> 'b \<Rightarrow> bool"
  assumes fires_pending: "invar b \<Longrightarrow> fires b tid dl i b' \<Longrightarrow> pending b tid = Some (dl, i)"
    and fires_removes: "invar b \<Longrightarrow> fires b tid dl i b' \<Longrightarrow> pending b' = (pending b)(tid := None)"
    and fires_invar: "invar b \<Longrightarrow> fires b tid dl i b' \<Longrightarrow> invar b'"

section \<open>Bookkeeping lemmas\<close>

lemma signals_of_append [simp]:
  "signals_of i (xs @ [(j, s)]) = signals_of i xs @ (if i = j then [(j, s)] else [])"
  by (simp add: signals_of_def)

lemma signals_of_Nil_iff: "signals_of i xs = [] \<longleftrightarrow> i \<notin> fst ` set xs"
  by (auto simp: signals_of_def filter_empty_conv)

lemma timers_of_insert:
  "m tid = None \<Longrightarrow> timers_of (m(tid \<mapsto> (dl, i))) j = (if i = j then insert tid (timers_of m j) else timers_of m j)"
  by (auto simp: timers_of_def)

lemma timers_of_delete: "timers_of (m(tid := None)) j = timers_of m j - {tid}"
  by (auto simp: timers_of_def)

lemma timers_of_other: "m tid = Some (dl, i) \<Longrightarrow> i \<noteq> j \<Longrightarrow> tid \<notin> timers_of m j"
  by (auto simp: timers_of_def)

lemma count_list_1_in: "count_list xs i = 1 \<Longrightarrow> i \<in> set xs"
  by (metis count_notin zero_neq_one)

lemma set_op_simps [simp]:
  "l_queue (set_op i f w) = l_queue w" "l_backend (set_op i f w) = l_backend w"
  "l_stop (set_op i f w) = l_stop w" "l_callbacks (set_op i f w) = l_callbacks w"
  "l_signals (set_op i f w) = l_signals w" "l_ops (set_op i f w) = (l_ops w)(i := f (l_ops w i))"
  by (simp_all add: set_op_def)

lemma Enqueue_simps [simp]:
  "l_queue (Enqueue Q i w) = cq_enqueue Q i (l_queue w)" "l_backend (Enqueue Q i w) = l_backend w"
  "l_stop (Enqueue Q i w) = l_stop w" "l_callbacks (Enqueue Q i w) = l_callbacks w"
  "l_signals (Enqueue Q i w) = l_signals w" "l_ops (Enqueue Q i w) = l_ops w"
  by (simp_all add: Enqueue_def)

lemma TryEnqueue_simps [simp]:
  "l_queue (TryEnqueue Q d i w) =
     (if to_state (l_ops w i) = Pending then cq_enqueue Q i (l_queue w) else l_queue w)"
  "l_backend (TryEnqueue Q d i w) = l_backend w" "l_stop (TryEnqueue Q d i w) = l_stop w"
  "l_callbacks (TryEnqueue Q d i w) = l_callbacks w" "l_signals (TryEnqueue Q d i w) = l_signals w"
  "l_ops (TryEnqueue Q d i w) =
     (if to_state (l_ops w i) = Pending then (l_ops w)(i := (l_ops w i)\<lparr>to_state := d\<rparr>) else l_ops w)"
  by (simp_all add: TryEnqueue_def)

lemma TryEnqueueStop_simps [simp]:
  "l_queue (TryEnqueueStop Q B i w) =
     (if to_state (l_ops w i) = Pending then cq_enqueue Q i (l_queue w) else l_queue w)"
  "l_backend (TryEnqueueStop Q B i w) =
     (if to_timerId (l_ops w i) \<noteq> InvalidTimerId
      then snd (tb_Cancel B (to_timerId (l_ops w i)) (l_backend w)) else l_backend w)"
  "l_stop (TryEnqueueStop Q B i w) = l_stop w"
  "l_callbacks (TryEnqueueStop Q B i w) = l_callbacks w"
  "l_signals (TryEnqueueStop Q B i w) = l_signals w"
  "l_ops (TryEnqueueStop Q B i w) =
     (l_ops w)(i := (if to_state (l_ops w i) = Pending then (l_ops w i)\<lparr>to_state := StopWon\<rparr> else l_ops w i)
        \<lparr>to_timerId := InvalidTimerId\<rparr>)"
  by (auto simp: TryEnqueueStop_def Let_def fun_eq_iff)

lemma TimerCallback_simps [simp]:
  "l_queue (TimerCallback Q i w) =
     (if to_state (l_ops w i) = Pending then cq_enqueue Q i (l_queue w) else l_queue w)"
  "l_backend (TimerCallback Q i w) = l_backend w" "l_stop (TimerCallback Q i w) = l_stop w"
  "l_callbacks (TimerCallback Q i w) = l_callbacks w" "l_signals (TimerCallback Q i w) = l_signals w"
  "l_ops (TimerCallback Q i w) =
     (l_ops w)(i := (if to_state (l_ops w i) = Pending then (l_ops w i)\<lparr>to_state := TimerWon\<rparr> else l_ops w i)
        \<lparr>to_timerId := InvalidTimerId\<rparr>)"
  by (auto simp: TimerCallback_def fun_eq_iff)

lemma Execute_simps [simp]:
  "l_queue (Execute i w) = l_queue w" "l_backend (Execute i w) = l_backend w"
  "l_stop (Execute i w) = l_stop w" "l_callbacks (Execute i w) = l_callbacks w" "l_ops (Execute i w) = l_ops w"
  "l_signals (Execute i w) = l_signals w @ [(i, if l_stop w then SetStopped else SetValue)]"
  by (simp_all add: Execute_def)

lemma fold_callbacks:
  "l_callbacks (fold (TryEnqueueStop Q B) cs w) = l_callbacks w"
  "l_stop (fold (TryEnqueueStop Q B) cs w) = l_stop w"
  by (induction cs arbitrary: w) auto

lemma TimedOp_start_callbacks:
  "l_callbacks (TimedOp_start Q B i w) = (if l_stop w then l_callbacks w else l_callbacks w @ [i])"
  "l_stop (TimedOp_start Q B i w) = l_stop w"
  by (auto simp: TimedOp_start_def emplace_stop_callback_def Let_def split: prod.splits)

text \<open>An operation's invariant only looks at its own share of the queue, timers, callbacks and signals.\<close>

lemma op_inv_cong:
  assumes "count q i = count q' i" and "timers_of m i = timers_of m' i"
    and "\<And>tid. tid \<in> timers_of m i \<Longrightarrow> m tid = m' tid"
    and "count_list cbs i = count_list cbs' i" and "signals_of i sigs = signals_of i sigs'"
    and "b \<longrightarrow> b'"
    and "op_inv q m cbs b sigs i p"
  shows "op_inv q' m' cbs' b' sigs' i p"
proof -
  have "i \<in> set cbs \<longleftrightarrow> i \<in> set cbs'" using assms(4) by (metis count_list_0_iff)
  moreover have "m' (to_timerId p) = m (to_timerId p)" if "timers_of m i = {to_timerId p}"
    using that assms(3) by simp
  ultimately show ?thesis
    using assms(1,2,4,5,6,7) unfolding op_inv_def by (auto split: op_phase.splits if_splits)
qed

section \<open>Every event keeps the invariant\<close>

locale loop_env = concurrent_queue "cq_enqueue Q" "cq_try_dequeue Q" content +
  firing_backend "tb_ScheduleAt B" "tb_Cancel B" pending invar room fires
  for Q :: "'q cqueue" and content :: "'q \<Rightarrow> ref multiset" and B :: "'b tbackend"
    and pending :: "'b \<Rightarrow> u64 \<rightharpoonup> time_point \<times> ref" and invar :: "'b \<Rightarrow> bool"
    and room :: "'b \<Rightarrow> bool" and fires :: "'b \<Rightarrow> u64 \<Rightarrow> time_point \<Rightarrow> ref \<Rightarrow> 'b \<Rightarrow> bool"
begin

lemma loop_invI:
  assumes "invar (l_backend w')"
    and "op_inv (content (l_queue w')) (pending (l_backend w')) cbs' (l_stop w') (l_signals w') i (l_ops w' i)"
    and "loop_inv content pending invar cbs w"
    and "\<And>j. j \<noteq> i \<Longrightarrow> l_ops w' j = l_ops w j \<and> count (content (l_queue w')) j = count (content (l_queue w)) j \<and>
        count_list cbs' j = count_list cbs j \<and> signals_of j (l_signals w') = signals_of j (l_signals w)"
    and "\<And>j tid. j \<noteq> i \<Longrightarrow> tid \<in> timers_of (pending (l_backend w)) j \<Longrightarrow>
        pending (l_backend w') tid = pending (l_backend w) tid"
    and "\<And>j. j \<noteq> i \<Longrightarrow> timers_of (pending (l_backend w')) j = timers_of (pending (l_backend w)) j"
    and "l_stop w \<longrightarrow> l_stop w'"
  shows "loop_inv content pending invar cbs' w'"
  unfolding loop_inv_def
proof (intro conjI allI)
  fix j
  show "op_inv (content (l_queue w')) (pending (l_backend w')) cbs' (l_stop w') (l_signals w') j (l_ops w' j)"
  proof (cases "j = i")
    case True
    then show ?thesis using assms(2) by simp
  next
    case False
    have "op_inv (content (l_queue w)) (pending (l_backend w)) cbs (l_stop w) (l_signals w) j (l_ops w j)"
      using assms(3) by (simp add: loop_inv_def)
    then show ?thesis
      using op_inv_cong[of "content (l_queue w)" j "content (l_queue w')" "pending (l_backend w)"
          "pending (l_backend w')" cbs cbs' "l_signals w" "l_signals w'" "l_stop w" "l_stop w'" "l_ops w j"]
        assms(4)[OF False] assms(5)[OF False] assms(6)[OF False] assms(7) by simp
  qed
qed (rule assms(1))

lemma op_invD: "loop_inv content pending invar cbs w \<Longrightarrow>
    op_inv (content (l_queue w)) (pending (l_backend w)) cbs (l_stop w) (l_signals w) i (l_ops w i)"
  and invarD: "loop_inv content pending invar cbs w \<Longrightarrow> invar (l_backend w)"
  by (simp_all add: loop_inv_def)

lemma TryEnqueueStop_inv:
  assumes inv: "loop_inv content pending invar (i # cbs) w" and st: "l_stop w"
  shows "loop_inv content pending invar cbs (TryEnqueueStop Q B i w)"
proof -
  note op = op_invD[OF inv, of i]
  let ?p = "l_ops w i" and ?b = "l_backend w"
  have tid: "timers_of (pending ?b) i = (if to_timerId ?p = 0 then {} else {to_timerId ?p})"
      and ne: "to_timerId ?p \<noteq> 0 \<Longrightarrow> pending ?b (to_timerId ?p) = Some (to_deadline ?p, i)"
    using op by (auto simp: op_inv_def split: op_phase.splits if_splits)
  show ?thesis
  proof (rule loop_invI[OF _ _ inv, where i = i])
    show "invar (l_backend (TryEnqueueStop Q B i w))"
      using invarD[OF inv] cancel_invar by simp
    show "op_inv (content (l_queue (TryEnqueueStop Q B i w))) (pending (l_backend (TryEnqueueStop Q B i w))) cbs
        (l_stop (TryEnqueueStop Q B i w)) (l_signals (TryEnqueueStop Q B i w)) i (l_ops (TryEnqueueStop Q B i w) i)"
      using op tid st invarD[OF inv]
      by (cases "to_phase ?p"; cases "to_kind ?p"; cases "to_state ?p")
         (auto simp: op_inv_def enq_content cancel_pending timers_of_delete split: if_splits)
    fix j tid'
    assume j: "j \<noteq> i"
    show "l_ops (TryEnqueueStop Q B i w) j = l_ops w j \<and>
        count (content (l_queue (TryEnqueueStop Q B i w))) j = count (content (l_queue w)) j \<and>
        count_list cbs j = count_list (i # cbs) j \<and>
        signals_of j (l_signals (TryEnqueueStop Q B i w)) = signals_of j (l_signals w)"
      using j by (simp add: enq_content)
    show "timers_of (pending (l_backend (TryEnqueueStop Q B i w))) j = timers_of (pending ?b) j"
      using j ne invarD[OF inv] timers_of_other[of "pending ?b" "to_timerId ?p" _ i j]
      by (auto simp: cancel_pending timers_of_delete)
    assume "tid' \<in> timers_of (pending ?b) j"
    then show "pending (l_backend (TryEnqueueStop Q B i w)) tid' = pending ?b tid'"
      using j ne invarD[OF inv] timers_of_other[of "pending ?b" "to_timerId ?p" _ i j]
      by (auto simp: cancel_pending)
  qed simp
qed

lemma fold_TryEnqueueStop_inv:
  assumes "loop_inv content pending invar cs w" and "l_stop w"
  shows "loop_inv content pending invar [] (fold (TryEnqueueStop Q B) cs w)"
  using assms
proof (induction cs arbitrary: w)
  case Nil
  then show ?case by simp
next
  case (Cons c cs)
  then show ?case using TryEnqueueStop_inv[of c cs w] by simp
qed

lemma request_stop_inv:
  assumes "loop_inv content pending invar (l_callbacks w) w" and "l_stop w \<longrightarrow> l_callbacks w = []"
  shows "loop_inv content pending invar (l_callbacks (request_stop Q B w)) (request_stop Q B w)"
proof (cases "l_stop w")
  case True
  then show ?thesis using assms by (simp add: request_stop_def)
next
  case False
  let ?w = "w\<lparr>l_stop := True, l_callbacks := []\<rparr>"
  have "loop_inv content pending invar (l_callbacks w) ?w"
    using assms(1) by (auto simp: loop_inv_def intro: op_inv_cong[rotated -1])
  from fold_TryEnqueueStop_inv[OF this] show ?thesis
    using False by (simp add: request_stop_def fold_callbacks)
qed

lemma LoopOp_start_inv:
  assumes inv: "loop_inv content pending invar cbs w"
    and "to_phase (l_ops w i) = Connected" and "to_kind (l_ops w i) = LoopOp"
  shows "loop_inv content pending invar cbs (LoopOp_start Q i w)"
  by (rule loop_invI[OF _ _ inv, where i = i])
     (use op_invD[OF inv, of i] invarD[OF inv] assms(2,3) in
       \<open>auto simp: LoopOp_start_def op_inv_def enq_content\<close>)

lemma TimedOp_start_inv:
  assumes inv: "loop_inv content pending invar (l_callbacks w) w"
    and ph: "to_phase (l_ops w i) = Connected" "to_kind (l_ops w i) = TimedOp" and rm: "room (l_backend w)"
  shows "loop_inv content pending invar (l_callbacks (TimedOp_start Q B i w)) (TimedOp_start Q B i w)"
proof (cases "l_stop w")
  case True
  note op = op_invD[OF inv, of i]
  show ?thesis
    by (rule loop_invI[OF _ _ inv, where i = i])
       (use op invarD[OF inv] ph True in
         \<open>auto simp: TimedOp_start_def emplace_stop_callback_def Let_def op_inv_def enq_content\<close>)
next
  case False
  note op = op_invD[OF inv, of i]
  let ?b = "l_backend w" and ?p = "l_ops w i"
  obtain tid b where sch: "tb_ScheduleAt B (to_deadline ?p) i ?b = (tid, b)" by fastforce
  have b: "pending b = (pending ?b)(tid \<mapsto> (to_deadline ?p, i))" "pending ?b tid = None" "tid \<noteq> 0" "invar b"
    using schedule_pending[OF invarD[OF inv] rm, of "to_deadline ?p" i] schedule_fresh[OF invarD[OF inv] rm, of "to_deadline ?p" i]
      schedule_invar[OF invarD[OF inv] rm, of "to_deadline ?p" i] sch by auto
  have p: "to_state ?p = Pending" "timers_of (pending ?b) i = {}" "i \<notin> set (l_callbacks w)"
    using op ph by (auto simp: op_inv_def)
  have w': "TimedOp_start Q B i w =
      set_op i (\<lambda>p. p\<lparr>to_timerId := tid\<rparr>)
        ((set_op i (\<lambda>p. p\<lparr>to_phase := Started\<rparr>) w)\<lparr>l_callbacks := l_callbacks w @ [i], l_backend := b\<rparr>)"
    using False p sch by (simp add: TimedOp_start_def emplace_stop_callback_def Let_def)
  show ?thesis unfolding w'
    by (rule loop_invI[OF _ _ inv, where i = i])
       (use op ph b p in \<open>auto simp: op_inv_def timers_of_insert timers_of_def count_notin split: if_splits\<close>)
qed

lemma fire_inv:
  assumes inv: "loop_inv content pending invar cbs w" and f: "fires (l_backend w) tid dl i b'"
  shows "loop_inv content pending invar cbs (TimerCallback Q i (w\<lparr>l_backend := b'\<rparr>))"
proof -
  note op = op_invD[OF inv, of i]
  note b = fires_pending[OF invarD[OF inv] f] fires_removes[OF invarD[OF inv] f] fires_invar[OF invarD[OF inv] f]
  have "tid \<in> timers_of (pending (l_backend w)) i" using b(1) by (auto simp: timers_of_def)
  then have p: "to_phase (l_ops w i) = Started" "to_kind (l_ops w i) = TimedOp" "to_state (l_ops w i) = Pending"
      "timers_of (pending (l_backend w)) i = {tid}"
    using op by (auto simp: op_inv_def split: op_phase.splits if_splits)
  show ?thesis
    by (rule loop_invI[OF _ _ inv, where i = i])
       (use op p b timers_of_other[of "pending (l_backend w)", OF b(1)] in \<open>auto simp: op_inv_def enq_content timers_of_delete\<close>)
qed

lemma execute_inv:
  assumes inv: "loop_inv content pending invar cbs w" and q: "cq_try_dequeue Q (l_queue w) = Some (i, q)"
  shows "loop_inv content pending invar cbs (Execute i (w\<lparr>l_queue := q\<rparr>))"
proof -
  note op = op_invD[OF inv, of i]
  have c: "content (l_queue w) = add_mset i (content q)" by (rule deq_Some[OF q])
  show ?thesis
    by (rule loop_invI[OF _ _ inv, where i = i])
       (use op invarD[OF inv] c in \<open>auto simp: op_inv_def split: op_phase.splits if_splits\<close>)
qed

lemma destroy_inv:
  assumes inv: "loop_inv content pending invar (l_callbacks w) w"
    and d: "to_phase (l_ops w i) = Connected \<or> to_phase (l_ops w i) = Started \<and> i \<in> fst ` set (l_signals w)"
  shows "loop_inv content pending invar (l_callbacks (TimedOp_destroy B i w)) (TimedOp_destroy B i w)"
proof -
  note op = op_invD[OF inv, of i]
  have tid: "to_timerId (l_ops w i) = 0" and cb: "count_list (l_callbacks w) i \<le> 1"
    using op d by (auto simp: op_inv_def signals_of_Nil_iff count_notin split: op_phase.splits if_splits)
  have sg: "to_phase (l_ops w i) = Started \<Longrightarrow> signals_of i (l_signals w) \<noteq> []"
    using d by (auto simp: signals_of_Nil_iff)
  have w': "TimedOp_destroy B i w =
      set_op i (\<lambda>p. p\<lparr>to_phase := Destroyed\<rparr>) (w\<lparr>l_callbacks := remove1 i (l_callbacks w)\<rparr>)"
    using tid by (simp add: TimedOp_destroy_def Let_def)
  have c: "count_list (remove1 i xs) j = count_list xs j - (if i = j then 1 else 0)" for xs j
    by (induction xs) (auto simp: count_notin)
  have "count_list (remove1 i (l_callbacks w)) i = 0" using cb c[of "l_callbacks w" i] by simp
  then have notin: "i \<notin> set (remove1 i (l_callbacks w))" by (rule count_list_0_iff[THEN iffD1])
  have "length (signals_of i (l_signals w)) \<le> 1" "count (content (l_queue w)) i = 0"
      "timers_of (pending (l_backend w)) i = {}"
    using op d sg by (cases "signals_of i (l_signals w)"; auto simp: op_inv_def split: op_phase.splits if_splits)+
  then show ?thesis unfolding w'
    by (intro loop_invI[OF _ _ inv, where i = i]) (use invarD[OF inv] notin c in \<open>auto simp: op_inv_def\<close>)
qed

lemma loop_step_inv:
  assumes "loop_step Q B fires room w w'"
    and "loop_inv content pending invar (l_callbacks w) w" and "l_stop w \<longrightarrow> l_callbacks w = []"
  shows "loop_inv content pending invar (l_callbacks w') w' \<and> (l_stop w' \<longrightarrow> l_callbacks w' = [])"
  using assms
proof (induction rule: loop_step.induct)
  case (start_loop_op w i)
  then show ?case using LoopOp_start_inv[of "l_callbacks w" w i] by (simp add: LoopOp_start_def)
next
  case (start_timed_op w i)
  then show ?case using TimedOp_start_inv[of w i] by (auto simp: TimedOp_start_callbacks)
next
  case (fire w tid dl i b')
  then show ?case using fire_inv[of "l_callbacks w" w tid dl i b'] by simp
next
  case (stop w)
  then show ?case using request_stop_inv[of w] by (simp add: request_stop_def fold_callbacks)
next
  case (execute w i q)
  then show ?case using execute_inv[of "l_callbacks w" w i q] by simp
next
  case (destroy w i)
  then show ?case using destroy_inv[of w i] by (simp add: TimedOp_destroy_def Let_def)
qed

lemma reachable_inv:
  assumes "loop_reachable Q B fires room w0 w"
    and "loop_inv content pending invar (l_callbacks w0) w0" and "l_stop w0 \<longrightarrow> l_callbacks w0 = []"
  shows "loop_inv content pending invar (l_callbacks w) w \<and> (l_stop w \<longrightarrow> l_callbacks w = [])"
  using assms(1)
proof (induction rule: loop_reachable.induct)
  case init
  then show ?case using assms(2,3) by simp
next
  case (step w w')
  then show ?case using loop_step_inv[of w w'] by blast
qed

lemma fresh_inv:
  assumes "content q = {#}" and "invar b" and "pending b = Map.empty"
    and "\<forall>i. to_phase (ops i) = Connected \<and> to_state (ops i) = Pending \<and> to_timerId (ops i) = 0"
  shows "loop_inv content pending invar (l_callbacks (fresh_loop q b ops)) (fresh_loop q b ops)"
  using assms by (simp add: loop_inv_def fresh_loop_def op_inv_def signals_of_def timers_of_def)

end

section \<open>The laws hold for LoopTimerBackend and a single producer\<close>

interpretation loop_fifo: fifo_queue "cq_enqueue fifo" "cq_try_dequeue fifo" "\<lambda>q. q"
  by unfold_locales (auto simp: fifo_def fifo_enqueue_def fifo_try_dequeue_def split: list.splits)

interpretation loop_firing: firing_backend "tb_ScheduleAt LoopBackend" "tb_Cancel LoopBackend" lb_pending lb_invar lb_room loop_fires
proof unfold_locales
  fix b b' :: "ref loop_backend" and dl and cb tid i
  assume b: "lb_invar b"
  show "lb_room b \<Longrightarrow> fst (tb_ScheduleAt LoopBackend dl cb b) \<noteq> InvalidTimerId \<and>
      lb_pending b (fst (tb_ScheduleAt LoopBackend dl cb b)) = None"
    using loop_timer.schedule_fresh[OF b] by (simp add: LoopBackend_def)
  show "lb_room b \<Longrightarrow> lb_pending (snd (tb_ScheduleAt LoopBackend dl cb b)) =
      (lb_pending b)(fst (tb_ScheduleAt LoopBackend dl cb b) \<mapsto> (dl, cb))"
    using loop_timer.schedule_pending[OF b] by (simp add: LoopBackend_def)
  show "lb_room b \<Longrightarrow> lb_invar (snd (tb_ScheduleAt LoopBackend dl cb b))"
    using loop_timer.schedule_invar[OF b] by (simp add: LoopBackend_def)
  show "fst (tb_Cancel LoopBackend tid b) \<longleftrightarrow> lb_pending b tid \<noteq> None"
    using loop_timer.cancel_result[OF b] by (simp add: LoopBackend_def)
  show "lb_pending (snd (tb_Cancel LoopBackend tid b)) = (lb_pending b)(tid := None)"
    using loop_timer.cancel_pending[OF b] by (simp add: LoopBackend_def)
  show "lb_invar (snd (tb_Cancel LoopBackend tid b))"
    using loop_timer.cancel_invar[OF b] by (simp add: LoopBackend_def)
  assume f: "loop_fires b tid dl i b'"
  show "lb_pending b tid = Some (dl, i)"
    using f by (auto simp: loop_fires_def lb_pending_def)
  show "lb_pending b' = (lb_pending b)(tid := None)"
  proof -
    from f obtain es where es: "lb_entries b = \<lparr>e_deadline = dl, e_id = tid, e_callback = i\<rparr> # es"
        "b' = b\<lparr>lb_entries := es\<rparr>" by (auto simp: loop_fires_def)
    then have "snd (Cancel tid b) = b'" by (simp add: Cancel_entries)
    then show ?thesis using loop_timer.cancel_pending[OF b, of tid] by simp
  qed
  show "lb_invar b'" using f b by (auto simp: loop_fires_def intro: lb_invar_pop)
qed

interpretation loop_exec: loop_env fifo mset LoopBackend lb_pending lb_invar lb_room loop_fires
  by unfold_locales

section \<open>Whole drains\<close>

lemma fifo_deq: "cq_try_dequeue fifo (x # q) = Some (x, q)" "cq_try_dequeue fifo [] = None"
  by (simp_all add: fifo_def fifo_try_dequeue_def)

lemma fifo_enq: "cq_enqueue fifo x q = q @ [x]"
  by (simp add: fifo_def fifo_enqueue_def)

abbreviation no_react :: "ref \<Rightarrow> signal \<Rightarrow> ('q, 'b, 'z) loop_scheme \<Rightarrow> ('q, 'b, 'z) loop_scheme" where
  "no_react \<equiv> \<lambda>_ _ w. w"

text \<open>A receiver that starts further operations: it enqueues the operations \<open>spawn i sig\<close>, in order.\<close>

definition spawning ::
  "(ref \<Rightarrow> signal \<Rightarrow> ref list) \<Rightarrow> ref \<Rightarrow> signal \<Rightarrow> (ref list, 'b, 'z) loop_scheme \<Rightarrow> (ref list, 'b, 'z) loop_scheme" where
  "spawning spawn i sig w = fold (Enqueue fifo) (spawn i sig) w"

lemma fold_Enqueue: "fold (Enqueue fifo) xs w = w\<lparr>l_queue := l_queue w @ xs\<rparr>"
  by (induction xs arbitrary: w) (auto simp: Enqueue_def fifo_enq)

lemma PureDrain_passive:
  "PureDrain fifo no_react n w =
     Some (n + length (l_queue w),
           w\<lparr>l_queue := [], l_signals := l_signals w @
              map (\<lambda>i. (i, if l_stop w then SetStopped else SetValue)) (l_queue w)\<rparr>)"
proof (induction "l_queue w" arbitrary: n w)
  case Nil
  then show ?case by (simp add: PureDrain.simps[of _ _ _ w] fifo_deq flip: Nil.hyps)
next
  case (Cons x q)
  have "PureDrain fifo no_react (Suc n) (Execute x (w\<lparr>l_queue := q\<rparr>)) =
      Some (Suc n + length q, (Execute x (w\<lparr>l_queue := q\<rparr>))\<lparr>l_queue := [],
        l_signals := l_signals (Execute x (w\<lparr>l_queue := q\<rparr>)) @
          map (\<lambda>i. (i, if l_stop w then SetStopped else SetValue)) q\<rparr>)"
    using Cons.hyps(1)[of "Execute x (w\<lparr>l_queue := q\<rparr>)" "Suc n"] by simp
  then show ?case
    by (simp add: PureDrain.simps[of _ _ _ w] fifo_deq Execute_def flip: Cons.hyps(2))
qed

lemma PureDrain_spawning:
  fixes rank :: "ref \<Rightarrow> nat"
  assumes "\<And>i sig j. j \<in> set (spawn i sig) \<Longrightarrow> rank j < rank i"
  shows "\<exists>ran. PureDrain fifo (spawning spawn) n w =
      Some (n + length ran, w\<lparr>l_queue := [], l_signals := l_signals w @
        map (\<lambda>i. (i, if l_stop w then SetStopped else SetValue)) ran\<rparr>) \<and>
      ran = l_queue w @ concat (map (\<lambda>i. spawn i (if l_stop w then SetStopped else SetValue)) ran)"
proof (induction "mset (map rank (l_queue w))" arbitrary: n w rule: wf_induct_rule[OF wf_mult1[OF wf_less_than]])
  case (1 w)
  let ?sig = "if l_stop w then SetStopped else SetValue"
  show ?case
  proof (cases "l_queue w")
    case Nil
    then show ?thesis
      by (intro exI[of _ "[]"], cases w) (simp add: PureDrain.simps fifo_deq)
  next
    case (Cons x q)
    let ?w = "spawning spawn x ?sig (Execute x (w\<lparr>l_queue := q\<rparr>))"
    have q: "l_queue ?w = q @ spawn x ?sig" and st: "l_stop ?w = l_stop w"
      by (simp_all add: spawning_def fold_Enqueue)
    have "(mset (map rank (l_queue ?w)), mset (map rank (l_queue w))) \<in> mult1 less_than"
      unfolding q Cons
      by (rule mult1I[of _ "rank x" "mset (map rank q)" _ "mset (map rank (spawn x ?sig))"])
         (use assms in auto)
    from 1[OF this, of "Suc n"] obtain ran where
      ran: "PureDrain fifo (spawning spawn) (Suc n) ?w = Some (Suc n + length ran, ?w\<lparr>l_queue := [],
          l_signals := l_signals ?w @ map (\<lambda>i. (i, ?sig)) ran\<rparr>)"
        "ran = l_queue ?w @ concat (map (\<lambda>i. spawn i ?sig) ran)"
      unfolding st by blast
    have "PureDrain fifo (spawning spawn) n w = PureDrain fifo (spawning spawn) (Suc n) ?w"
      by (simp add: PureDrain.simps[of _ _ _ w] Cons fifo_deq)
    then show ?thesis
      using ran q Cons
      by (intro exI[of _ "x # ran"]) (simp add: spawning_def fold_Enqueue Execute_def)
  qed
qed

section \<open>Reachable states\<close>

abbreviation connected_ops :: "(ref \<Rightarrow> top) \<Rightarrow> bool" where
  "connected_ops ops \<equiv> \<forall>i. ops i = connect_loop \<or> (\<exists>dl. ops i = connect_timed dl)"

abbreviation run_reachable :: "(ref \<Rightarrow> top) \<Rightarrow> (ref list, ref loop_backend) loop \<Rightarrow> bool" where
  "run_reachable ops \<equiv> loop_reachable fifo LoopBackend loop_fires lb_room (fresh_loop [] new_loop_backend ops)"

abbreviation run_inv :: "(ref list, ref loop_backend, 'z) loop_scheme \<Rightarrow> bool" where
  "run_inv w \<equiv> loop_inv mset lb_pending lb_invar (l_callbacks w) w \<and> (l_stop w \<longrightarrow> l_callbacks w = [])"

lemma new_loop_backend_invar: "lb_invar new_loop_backend" "lb_pending new_loop_backend = Map.empty"
  by (simp_all add: new_loop_backend_def lb_invar_def lb_pending_def)

lemma connected_opsD:
  assumes "connected_ops ops"
  shows "to_phase (ops i) = Connected" "to_state (ops i) = Pending" "to_timerId (ops i) = InvalidTimerId"
  using assms[rule_format, of i] by (auto simp: connect_loop_def connect_timed_def)

lemma run_reachable_inv:
  assumes "run_reachable ops w" and "connected_ops ops"
  shows "run_inv w"
proof (rule loop_exec.reachable_inv[OF assms(1)])
  let ?w = "fresh_loop [] new_loop_backend ops :: (ref list, ref loop_backend) loop"
  show "loop_inv mset lb_pending lb_invar (l_callbacks ?w) ?w"
    by (rule loop_exec.fresh_inv) (simp_all add: new_loop_backend_invar connected_opsD[OF assms(2)])
qed (simp add: fresh_loop_def)

lemma timers_of_entries:
  assumes "lb_invar b"
  shows "timers_of (lb_pending b) i = e_id ` {e \<in> set (lb_entries b). e_callback e = i}"
  using lb_pending_Some[OF assms] by (auto simp: timers_of_def image_iff)

text \<open>What a tick leaves unchanged, and which operations it can enqueue.\<close>

definition tick_rel :: "time_point \<Rightarrow> ('q, 'b, 'z) loop_scheme \<Rightarrow> ('q, 'b, 'z) loop_scheme \<Rightarrow> bool" where
  "tick_rel now w w' \<longleftrightarrow>
     l_stop w' = l_stop w \<and> l_signals w' = l_signals w \<and> l_callbacks w' = l_callbacks w \<and>
     (\<forall>i. to_phase (l_ops w' i) = to_phase (l_ops w i) \<and> to_kind (l_ops w' i) = to_kind (l_ops w i) \<and>
          to_deadline (l_ops w' i) = to_deadline (l_ops w i) \<and>
          (now < to_deadline (l_ops w i) \<longrightarrow> to_state (l_ops w' i) = to_state (l_ops w i)))"

lemma tick_step_inv:
  assumes inv: "run_inv w" and e: "lb_entries (l_backend w) = e # es" and due: "e_deadline e \<le> now"
    and rel: "tick_rel now w0 w"
  shows "run_inv (TimerCallback fifo (e_callback e) (w\<lparr>l_backend := (l_backend w)\<lparr>lb_entries := es\<rparr>\<rparr>))"
    and "tick_rel now w0 (TimerCallback fifo (e_callback e) (w\<lparr>l_backend := (l_backend w)\<lparr>lb_entries := es\<rparr>\<rparr>))"
proof -
  let ?i = "e_callback e"
  have f: "loop_fires (l_backend w) (e_id e) (e_deadline e) ?i ((l_backend w)\<lparr>lb_entries := es\<rparr>)"
    using e by (simp add: loop_fires_def)
  have li: "loop_inv mset lb_pending lb_invar (l_callbacks w) w" using inv by simp
  show "run_inv (TimerCallback fifo ?i (w\<lparr>l_backend := (l_backend w)\<lparr>lb_entries := es\<rparr>\<rparr>))"
    using loop_exec.fire_inv[OF li f] inv by simp
  have "lb_pending (l_backend w) (e_id e) = Some (e_deadline e, ?i)"
    using loop_firing.fires_pending[OF loop_exec.invarD[OF li] f] .
  moreover from this have "e_id e \<in> timers_of (lb_pending (l_backend w)) ?i" by (auto simp: timers_of_def)
  ultimately have "to_deadline (l_ops w ?i) = e_deadline e"
    using loop_exec.op_invD[OF li, of ?i]
    by (auto simp: op_inv_def split: op_phase.splits if_splits)
  with due rel show "tick_rel now w0 (TimerCallback fifo ?i (w\<lparr>l_backend := (l_backend w)\<lparr>lb_entries := es\<rparr>\<rparr>))"
    by (auto simp: tick_rel_def)
qed

lemma TickBackend_outcome:
  fixes w :: "(ref list, ref loop_backend, 'z) loop_scheme"
  assumes "run_inv w"
  obtains w' where "TickBackend fifo now w = Some w'" and "run_inv w'" and "tick_rel now w w'"
    and "\<forall>e\<in>set (lb_entries (l_backend w')). now < e_deadline e"
proof -
  have "\<exists>w'. TickBackend fifo now w = Some w' \<and> (run_inv w' \<and> tick_rel now w w') \<and>
      (\<forall>e es. lb_entries (l_backend w') = e # es \<longrightarrow> now < e_deadline e)"
    unfolding TickBackend_def
  proof (rule LoopTick_returns[where I = "\<lambda>s. run_inv s \<and> tick_rel now w s"])
    show "run_inv w \<and> tick_rel now w w" using assms by (simp add: tick_rel_def)
  next
    fix s :: "(ref list, ref loop_backend, 'z) loop_scheme" and e es
    assume "run_inv s \<and> tick_rel now w s" and "lb_entries (l_backend s) = e # es" and "e_deadline e \<le> now"
    then show "run_inv (TimerCallback fifo (e_callback e) (s\<lparr>l_backend := (l_backend s)\<lparr>lb_entries := es\<rparr>\<rparr>)) \<and>
        tick_rel now w (TimerCallback fifo (e_callback e) (s\<lparr>l_backend := (l_backend s)\<lparr>lb_entries := es\<rparr>\<rparr>))"
      using tick_step_inv[of s e es now w] by blast
  qed simp_all
  then obtain w' where w': "TickBackend fifo now w = Some w'" "run_inv w'" "tick_rel now w w'"
      "\<forall>e es. lb_entries (l_backend w') = e # es \<longrightarrow> now < e_deadline e" by blast
  then have "sorted (map e_deadline (lb_entries (l_backend w')))"
    by (auto simp: loop_inv_def lb_invar_def)
  from that[OF w'(1,2,3) sorted_front_not_due[OF this w'(4)]] show thesis .
qed

lemma signals_of_map: "signals_of i (map (\<lambda>j. (j, sig)) xs) = replicate (count (mset xs) i) (i, sig)"
  by (induction xs) (auto simp: signals_of_def)

lemma signals_of_app: "signals_of i (xs @ ys) = signals_of i xs @ signals_of i ys"
  by (simp add: signals_of_def)

lemma DrainQueue_no_react:
  assumes "TickBackend fifo now w = Some w1"
  shows "DrainQueue (TickBackend fifo now) fifo no_react w = Some (length (l_queue w1),
     w1\<lparr>l_queue := [], l_signals := l_signals w1 @
        map (\<lambda>i. (i, if l_stop w1 then SetStopped else SetValue)) (l_queue w1)\<rparr>)"
  using assms by (simp add: DrainQueue_def PureDrain_passive)

lemma request_stop_fields:
  "l_signals (request_stop Q B w) = l_signals w" "l_stop (request_stop Q B w)"
  "to_phase (l_ops (request_stop Q B w) i) = to_phase (l_ops w i)"
proof -
  have f: "l_signals (fold (TryEnqueueStop Q B) cs v) = l_signals v \<and> l_stop (fold (TryEnqueueStop Q B) cs v) = l_stop v \<and>
      to_phase (l_ops (fold (TryEnqueueStop Q B) cs v) i) = to_phase (l_ops v i)" for cs v
    by (induction cs arbitrary: v) auto
  show "l_signals (request_stop Q B w) = l_signals w" "l_stop (request_stop Q B w)"
    "to_phase (l_ops (request_stop Q B w) i) = to_phase (l_ops w i)"
    by (auto simp: request_stop_def f)
qed

lemma started_after_stop:
  assumes "run_inv w" and "l_stop w" and "to_phase (l_ops w i) = Started"
  shows "count (mset (l_queue w)) i + length (signals_of i (l_signals w)) = 1"
  using loop_exec.op_invD[of "l_callbacks w" w i] assms
  by (auto simp: op_inv_def split: if_splits)

section \<open>A concrete run\<close>

text \<open>
  One timed operation with deadline 5 is started (\<open>sample_started\<close>), its timer fires, the loop executes
  it (\<open>sample_done\<close>), and it is destroyed.
\<close>

abbreviation sample_ops :: "ref \<Rightarrow> top" where
  "sample_ops \<equiv> \<lambda>_. connect_timed 5"

abbreviation sample_started :: "(ref list, ref loop_backend) loop" where
  "sample_started \<equiv> TimedOp_start fifo LoopBackend 0 (fresh_loop [] new_loop_backend sample_ops)"

abbreviation sample_backend :: "ref loop_backend" where
  "sample_backend \<equiv> (l_backend sample_started)\<lparr>lb_entries := []\<rparr>"

abbreviation sample_done :: "(ref list, ref loop_backend) loop" where
  "sample_done \<equiv> Execute 0 ((TimerCallback fifo 0 (sample_started\<lparr>l_backend := sample_backend\<rparr>))\<lparr>l_queue := []\<rparr>)"

lemmas sample_simps = TimedOp_start_def TimedOp_destroy_def emplace_stop_callback_def fresh_loop_def
  connect_timed_def new_loop_backend_def LoopBackend_def ScheduleAt_def fifo_enq fifo_deq signals_of_def

lemma sample_connected: "connected_ops sample_ops"
  by blast

lemma sample_started_reachable: "run_reachable sample_ops sample_started"
  by (rule loop_reachable.step[OF loop_reachable.init loop_step.start_timed_op])
     (simp_all add: sample_simps lb_room_def word_less_alt unsigned_minus_1_eq_mask mask_eq_exp_minus_1)

lemma sample_done_reachable: "run_reachable sample_ops sample_done"
proof (rule loop_reachable.step[OF loop_reachable.step[OF sample_started_reachable]])
  show "loop_step fifo LoopBackend loop_fires lb_room sample_started
      (TimerCallback fifo 0 (sample_started\<lparr>l_backend := sample_backend\<rparr>))"
    by (rule loop_step.fire[of _ _ 1 5]) (simp add: sample_simps loop_fires_def)
  show "loop_step fifo LoopBackend loop_fires lb_room
      (TimerCallback fifo 0 (sample_started\<lparr>l_backend := sample_backend\<rparr>)) sample_done"
    by (rule loop_step.execute) (simp add: sample_simps)
qed

lemma sample_destroyed_reachable: "run_reachable sample_ops (TimedOp_destroy LoopBackend 0 sample_done)"
  by (rule loop_reachable.step[OF sample_done_reachable loop_step.destroy]) (simp add: sample_simps)

section \<open>Properties\<close>

text \<open>
  C5. Exactly-once completion: in every state reachable by any interleaving of starts, timer firings,
  stop requests, queue executions and destructions, no operation has been sent more than one completion
  signal, and an operation that has been started is in exactly one place: waiting with exactly one armed
  timer, or once in the queue, or completed.
\<close>

theorem operation_completes_exactly_once:
  assumes "run_reachable ops w" and "connected_ops ops"
  shows "length (signals_of i (l_signals w)) \<le> 1 \<and>
    (to_phase (l_ops w i) = Started \<longrightarrow>
       card {e \<in> set (lb_entries (l_backend w)). e_callback e = i} + count (mset (l_queue w)) i
         + length (signals_of i (l_signals w)) = 1)"
proof -
  have inv: "run_inv w" by (rule run_reachable_inv[OF assms])
  then have op: "op_inv (mset (l_queue w)) (lb_pending (l_backend w)) (l_callbacks w) (l_stop w) (l_signals w) i (l_ops w i)"
    and b: "lb_invar (l_backend w)" by (simp_all add: loop_inv_def)
  have "inj_on e_id (set (lb_entries (l_backend w)))"
    using b by (simp add: lb_invar_def distinct_map)
  then have "card {e \<in> set (lb_entries (l_backend w)). e_callback e = i} =
      card (timers_of (lb_pending (l_backend w)) i)"
    unfolding timers_of_entries[OF b] by (intro card_image[symmetric]) (auto simp: inj_on_def)
  with op show ?thesis by (auto simp: op_inv_def split: op_phase.splits if_splits)
qed

theorem operation_completes_exactly_once_witness:
  "run_reachable sample_ops sample_done \<and> l_signals sample_done = [(0, SetValue)] \<and>
   length (signals_of 0 (l_signals sample_done)) \<le> 1 \<and>
   card {e \<in> set (lb_entries (l_backend sample_done)). e_callback e = 0} + count (mset (l_queue sample_done)) 0
     + length (signals_of 0 (l_signals sample_done)) = 1"
proof (intro conjI)
  show "run_reachable sample_ops sample_done" by (rule sample_done_reachable)
  show "l_signals sample_done = [(0, SetValue)]" by (simp add: sample_simps)
  note once = operation_completes_exactly_once[OF sample_done_reachable sample_connected, of 0]
  have st: "to_phase (l_ops sample_done 0) = Started" by (simp add: sample_simps)
  show "length (signals_of 0 (l_signals sample_done)) \<le> 1" using once by blast
  show "card {e \<in> set (lb_entries (l_backend sample_done)). e_callback e = 0} + count (mset (l_queue sample_done)) 0
     + length (signals_of 0 (l_signals sample_done)) = 1" using once st by blast
qed

text \<open>
  C10. No dangling pointers: once an operation state has been destroyed, which P2300 allows only before its
  start or after its completion, neither the queue nor the timer backend nor the stop source refers to it.
\<close>

theorem destroyed_operation_is_unreferenced:
  assumes "run_reachable ops w" and "connected_ops ops" and "to_phase (l_ops w i) = Destroyed"
  shows "i \<notin> set (l_queue w) \<and> i \<notin> e_callback ` set (lb_entries (l_backend w)) \<and> i \<notin> set (l_callbacks w)"
proof -
  have inv: "run_inv w" by (rule run_reachable_inv[OF assms(1,2)])
  then have "op_inv (mset (l_queue w)) (lb_pending (l_backend w)) (l_callbacks w) (l_stop w) (l_signals w) i (l_ops w i)"
    and b: "lb_invar (l_backend w)" by (simp_all add: loop_inv_def)
  with assms(3) show ?thesis unfolding timers_of_entries[OF b] op_inv_def
    by (auto simp: timers_of_entries[OF b] image_iff)
qed

theorem destroyed_operation_is_unreferenced_witness:
  "let w = TimedOp_destroy LoopBackend 0 sample_done in
   run_reachable sample_ops w \<and> to_phase (l_ops w 0) = Destroyed \<and>
   0 \<notin> set (l_queue w) \<and> 0 \<notin> e_callback ` set (lb_entries (l_backend w)) \<and> 0 \<notin> set (l_callbacks w)"
proof -
  have "to_phase (l_ops (TimedOp_destroy LoopBackend 0 sample_done) 0) = Destroyed"
    by (simp add: sample_simps)
  with destroyed_operation_is_unreferenced[OF sample_destroyed_reachable sample_connected this] sample_destroyed_reachable
  show ?thesis unfolding Let_def by blast
qed

text \<open>
  C13. \<open>PureLoopContext::DrainQueue\<close> is greedy and first-in-first-out: for receivers that enqueue further
  operations (with no infinite chain of them) it returns with an empty queue; the operations it ran are
  the queued ones followed, in order, by those that the ones it ran enqueued; each got exactly the signal
  the stop flag demands, and the result is their number.
\<close>

theorem drain_is_greedy_fifo:
  fixes rank :: "ref \<Rightarrow> nat"
  assumes "\<And>i sig j. j \<in> set (spawn i sig) \<Longrightarrow> rank j < rank i"
    and "sig = (if l_stop w then SetStopped else SetValue)"
  shows "\<exists>ran w'. PureDrain fifo (spawning spawn) 0 w = Some (length ran, w') \<and>
     l_queue w' = [] \<and> l_signals w' = l_signals w @ map (\<lambda>i. (i, sig)) ran \<and>
     ran = l_queue w @ concat (map (\<lambda>i. spawn i sig) ran)"
proof -
  obtain ran where "PureDrain fifo (spawning spawn) 0 w =
      Some (length ran, w\<lparr>l_queue := [], l_signals := l_signals w @ map (\<lambda>i. (i, sig)) ran\<rparr>)"
      "ran = l_queue w @ concat (map (\<lambda>i. spawn i sig) ran)"
    using PureDrain_spawning[of spawn rank 0 w] assms(1) unfolding assms(2) by auto
  then show ?thesis by auto
qed

theorem drain_is_greedy_fifo_witness:
  "\<exists>ran w'. PureDrain fifo (spawning (\<lambda>i _. if i = 2 then [1, 0] else []))
       0 (fresh_loop [2, 0] new_loop_backend sample_ops :: (ref list, ref loop_backend) loop) = Some (length ran, w') \<and>
     l_queue w' = [] \<and> l_signals w' = map (\<lambda>i. (i, SetValue)) ran \<and>
     ran = [2, 0] @ concat (map (\<lambda>i. if i = 2 then [1, 0] else []) ran)"
proof -
  let ?spawn = "\<lambda>i (_ :: signal). if i = 2 then [1, 0] else [] :: ref list"
  let ?w = "fresh_loop [2, 0] new_loop_backend sample_ops :: (ref list, ref loop_backend) loop"
  have w: "l_queue ?w = [2, 0]" "l_signals ?w = []" "\<not> l_stop ?w" by (simp_all add: fresh_loop_def)
  have "\<exists>ran w'. PureDrain fifo (spawning ?spawn) 0 ?w = Some (length ran, w') \<and>
     l_queue w' = [] \<and> l_signals w' = l_signals ?w @ map (\<lambda>i. (i, SetValue)) ran \<and>
     ran = l_queue ?w @ concat (map (\<lambda>i. ?spawn i SetValue) ran)"
    by (rule drain_is_greedy_fifo[of _ "\<lambda>i. if i = 2 then 1 else 0"]) (auto simp: w split: if_splits)
  then show ?thesis unfolding w append_Nil .
qed



text \<open>
  C11. Cancellation is complete: \<open>request_stop\<close> followed by one \<open>DrainQueue\<close> completes every operation that
  has been started; each of them has then exactly one signal, which is \<open>set_stopped\<close> unless it had
  completed before.
\<close>

theorem stop_completes_every_started_operation:
  assumes "run_reachable ops w" and "connected_ops ops" and "to_phase (l_ops w i) = Started"
  shows "\<exists>n w'. DrainQueue (TickBackend fifo now) fifo no_react (request_stop fifo LoopBackend w) = Some (n, w') \<and>
     signals_of i (l_signals w') =
       (if signals_of i (l_signals w) = [] then [(i, SetStopped)] else signals_of i (l_signals w))"
proof -
  let ?v = "request_stop fifo LoopBackend w"
  have inv: "run_inv w" by (rule run_reachable_inv[OF assms(1,2)])
  have "loop_step fifo LoopBackend loop_fires lb_room w ?v" by (rule loop_step.stop)
  then have invv: "run_inv ?v" using loop_exec.loop_step_inv inv by blast
  obtain w1 where w1: "TickBackend fifo now ?v = Some w1" "run_inv w1" "tick_rel now ?v w1"
    using TickBackend_outcome[OF invv] by metis
  have eq: "l_stop w1" "l_signals w1 = l_signals w" "to_phase (l_ops w1 i) = Started"
    using w1(3) request_stop_fields[of fifo LoopBackend w] assms(3) by (auto simp: tick_rel_def)
  from started_after_stop[OF w1(2) eq(1,3)] eq(2)
  have "count (mset (l_queue w1)) i = (if signals_of i (l_signals w) = [] then 1 else 0)"
    by (cases "signals_of i (l_signals w)") auto
  then show ?thesis
    using DrainQueue_no_react[OF w1(1)] eq by (auto simp: signals_of_app signals_of_map)
qed

theorem stop_completes_every_started_operation_witness:
  "\<exists>n w'. DrainQueue (TickBackend fifo 3) fifo no_react (request_stop fifo LoopBackend sample_started) = Some (n, w') \<and>
     signals_of 0 (l_signals w') = [(0, SetStopped)]"
proof -
  have "to_phase (l_ops sample_started 0) = Started" and s: "signals_of 0 (l_signals sample_started) = []"
    by (simp_all add: sample_simps)
  from stop_completes_every_started_operation[OF sample_started_reachable sample_connected this(1), of 3]
  show ?thesis unfolding s by simp
qed

end
