(* ===== verification/Exec_Domain.thy ===== *)
theory Exec_Domain
  imports App_Runner Loop_Invariant
begin

text \<open>
  \<open>pkg/exec/Exec/Domain\<close>: the loop handler that drives a sender on a \<open>TimedLoopContext\<close>.

  The state of a domain is the state of its loop context, extended by the runner it sees through
  \<open>GetRunner()\<close> and by \<open>_opState\<close>. The operation state that \<open>stdexec::connect\<close> makes from the sender is
  third-party code: the parameter \<open>S\<close> says what starting it, delivering a signal to one of its inner
  receivers and destroying it do. \<open>exit\<close> is the runner's virtual \<open>Exit\<close> and \<open>tick\<close> the backend's \<open>Tick\<close>.
  A call that does not return (an endless drain, \<open>std::terminate\<close>, a null \<open>_opState\<close>) gives \<open>None\<close>.

  The second half instantiates \<open>S\<close> with straight-line coroutine tasks: awaits of the domain's scheduler
  followed by an exit code.
\<close>

section \<open>Domain\<close>

record ('q, 'b) domain = "('q, 'b) loop" +
  d_runner :: "unit rstate"
  d_opState :: "op_phase option"
  d_terminated :: bool

record ('q, 'b) op_state_box =
  ob_start :: "('q, 'b) domain \<Rightarrow> ('q, 'b) domain"
  ob_recv :: "ref \<Rightarrow> signal \<Rightarrow> ('q, 'b) domain \<Rightarrow> ('q, 'b) domain"
  ob_destroy :: "('q, 'b) domain \<Rightarrow> ('q, 'b) domain"

definition Completed ::
  "(int \<Rightarrow> unit rstate \<Rightarrow> unit rstate) \<Rightarrow> int \<Rightarrow> ('q, 'b) domain \<Rightarrow> ('q, 'b) domain" where
  "Completed exit exitCode w = w\<lparr>d_runner := exit exitCode (d_runner w)\<rparr>"

definition Stopped :: "(int \<Rightarrow> unit rstate \<Rightarrow> unit rstate) \<Rightarrow> ('q, 'b) domain \<Rightarrow> ('q, 'b) domain" where
  "Stopped exit w =
     (if Exiting (d_runner w) = None
      then w\<lparr>d_runner := exit ExitCode_Cancelled (d_runner w)\<rparr> else w)"

datatype completion = SetValueInt int | SetStoppedAll | SetErrorAny

fun DomainReceiver ::
  "(int \<Rightarrow> unit rstate \<Rightarrow> unit rstate) \<Rightarrow> completion \<Rightarrow> ('q, 'b) domain \<Rightarrow> ('q, 'b) domain" where
  "DomainReceiver exit (SetValueInt exitCode) w = Completed exit exitCode w"
| "DomainReceiver exit SetStoppedAll w = Stopped exit w"
| "DomainReceiver exit SetErrorAny w = w\<lparr>d_terminated := True\<rparr>"

definition alive :: "('q, 'b) domain \<Rightarrow> ('q, 'b) domain option" where
  "alive w = (if d_terminated w then None else Some w)"

definition Store :: "('q, 'b) domain \<Rightarrow> ('q, 'b) domain" where
  "Store w = w\<lparr>d_opState := Some Connected\<rparr>"

definition DomainStart :: "('q, 'b) op_state_box \<Rightarrow> ('q, 'b) domain \<Rightarrow> (bool \<times> ('q, 'b) domain) option" where
  "DomainStart S w =
     (case d_opState w of
        None \<Rightarrow> None
      | Some _ \<Rightarrow> map_option (Pair True) (alive (ob_start S (w\<lparr>d_opState := Some Started\<rparr>))))"

definition DomainUpdate ::
  "(('q, 'b) domain \<Rightarrow> ('q, 'b) domain option) \<Rightarrow> 'q cqueue \<Rightarrow> ('q, 'b) op_state_box \<Rightarrow>
   ('q, 'b) domain \<Rightarrow> ('q, 'b) domain option" where
  "DomainUpdate tick Q S w =
     (case DrainQueue tick Q (ob_recv S) w of None \<Rightarrow> None | Some (n, w1) \<Rightarrow> alive w1)"

definition DomainStop ::
  "(('q, 'b) domain \<Rightarrow> ('q, 'b) domain option) \<Rightarrow> 'q cqueue \<Rightarrow> 'b tbackend \<Rightarrow> ('q, 'b) op_state_box \<Rightarrow>
   ('q, 'b) domain \<Rightarrow> ('q, 'b) domain option" where
  "DomainStop tick Q B S w =
     (case DrainQueue tick Q (ob_recv S) (request_stop Q B w) of
        None \<Rightarrow> None
      | Some (n, w1) \<Rightarrow>
          (case alive w1 of
             None \<Rightarrow> None
           | Some w2 \<Rightarrow>
               (case d_opState w2 of
                  None \<Rightarrow> Some w2
                | Some _ \<Rightarrow> Some ((ob_destroy S w2)\<lparr>d_opState := None\<rparr>))))"

section \<open>Domains as handlers of one runner\<close>

text \<open>
  The domains of a program are the slots \<open>rs_world\<close>; a slot that is \<open>None\<close> belongs to a domain one of
  whose calls never returned, and nothing after that call is observed.
\<close>

definition with_domain ::
  "ref \<Rightarrow> (('q, 'b) domain \<Rightarrow> ('q, 'b) domain option) \<Rightarrow>
   (ref \<Rightarrow> ('q, 'b) domain option) rstate \<Rightarrow> (ref \<Rightarrow> ('q, 'b) domain option) rstate" where
  "with_domain h f r =
     (case rs_world r h of
        None \<Rightarrow> r
      | Some w \<Rightarrow>
          (case f (w\<lparr>d_runner := \<lparr>rs_exitCode = rs_exitCode r, rs_running = rs_running r, rs_world = ()\<rparr>\<rparr>) of
             None \<Rightarrow> r\<lparr>rs_world := (rs_world r)(h := None)\<rparr>
           | Some w1 \<Rightarrow>
               \<lparr>rs_exitCode = rs_exitCode (d_runner w1), rs_running = rs_running (d_runner w1),
                rs_world = (rs_world r)(h := Some w1)\<rparr>))"

definition DomainHandler ::
  "(UpdateCtx \<Rightarrow> ('q, 'b) domain \<Rightarrow> ('q, 'b) domain option) \<Rightarrow> (('q, 'b) domain \<Rightarrow> ('q, 'b) domain option) \<Rightarrow>
   'q cqueue \<Rightarrow> 'b tbackend \<Rightarrow> (ref \<Rightarrow> ('q, 'b) op_state_box) \<Rightarrow> ref \<Rightarrow>
   (ref \<Rightarrow> ('q, 'b) domain option) rstate handler" where
  "DomainHandler tick stop_tick Q B S h =
     \<lparr>h_Start = (\<lambda>r.
        let r1 = with_domain h (\<lambda>w. map_option snd (DomainStart (S h) w)) r
        in (rs_world r1 h \<noteq> None, r1)),
      h_Stop = with_domain h (DomainStop stop_tick Q B (S h)),
      h_Update = (\<lambda>ctx. with_domain h (DomainUpdate (tick ctx) Q (S h)))\<rparr>"

section \<open>Straight-line tasks\<close>

text \<open>
  A coroutine \<open>RunTask<int>\<close> that awaits the domain's scheduler a number of times, with
  \<open>co_await schedule()\<close> or \<open>co_await schedule_after(d)\<close>, and then returns its exit code. The operation of
  the \<open>k\<close>-th await is number \<open>k\<close>; \<open>clock k\<close> is the time at which it is evaluated.
\<close>

datatype await = AwaitSchedule | AwaitAfter duration

record task =
  t_awaits :: "await list"
  t_code :: int

definition task_next ::
  "(int \<Rightarrow> unit rstate \<Rightarrow> unit rstate) \<Rightarrow> 'q cqueue \<Rightarrow> 'b tbackend \<Rightarrow> (ref \<Rightarrow> time_point) \<Rightarrow> task \<Rightarrow> ref \<Rightarrow>
   ('q, 'b) domain \<Rightarrow> ('q, 'b) domain" where
  "task_next exit Q B clock t k w =
     (if k < length (t_awaits t)
      then (case t_awaits t ! k of
              AwaitSchedule \<Rightarrow> LoopOp_start Q k (set_op k (\<lambda>_. connect_loop) w)
            | AwaitAfter d \<Rightarrow> TimedOp_start Q B k (set_op k (\<lambda>_. schedule_after (clock k) d) w))
      else DomainReceiver exit (SetValueInt (t_code t)) w)"

definition task_box ::
  "(int \<Rightarrow> unit rstate \<Rightarrow> unit rstate) \<Rightarrow> 'q cqueue \<Rightarrow> 'b tbackend \<Rightarrow> (ref \<Rightarrow> time_point) \<Rightarrow> task \<Rightarrow>
   ('q, 'b) op_state_box" where
  "task_box exit Q B clock t =
     \<lparr>ob_start = task_next exit Q B clock t 0,
      ob_recv = (\<lambda>k sig w.
        case sig of
          SetValue \<Rightarrow> task_next exit Q B clock t (Suc k) (TimedOp_destroy B k w)
        | SetStopped \<Rightarrow> DomainReceiver exit SetStoppedAll (TimedOp_destroy B k w)),
      ob_destroy = (\<lambda>w. w)\<rparr>"

text \<open>The constructor from a sender wraps it in \<open>starts_on(GetScheduler(), sender)\<close>.\<close>

definition starts_on :: "task \<Rightarrow> task" where
  "starts_on t = t\<lparr>t_awaits := AwaitSchedule # t_awaits t\<rparr>"

definition new_domain :: "'q \<Rightarrow> 'b \<Rightarrow> ('q, 'b) domain" where
  "new_domain q b =
     \<lparr>l_queue = q, l_backend = b, l_ops = (\<lambda>_. connect_loop), l_stop = False, l_callbacks = [], l_signals = [],
      d_runner = \<lparr>rs_exitCode = None, rs_running = False, rs_world = ()\<rparr>,
      d_opState = Some Connected, d_terminated = False\<rparr>"

section \<open>The life-cycle contract\<close>

definition domain_ready :: "ref \<Rightarrow> (ref \<Rightarrow> ('q, 'b) domain option) rstate \<Rightarrow> bool" where
  "domain_ready h r \<longleftrightarrow> (case rs_world r h of None \<Rightarrow> False | Some w \<Rightarrow> d_opState w = Some Connected)"

definition domain_active :: "ref \<Rightarrow> (ref \<Rightarrow> ('q, 'b) domain option) rstate \<Rightarrow> bool" where
  "domain_active h r \<longleftrightarrow> (case rs_world r h of None \<Rightarrow> False | Some w \<Rightarrow> d_opState w = Some Started)"

lemma with_domain_other: "h \<noteq> k \<Longrightarrow> rs_world (with_domain h f r) k = rs_world r k"
  by (auto simp: with_domain_def split: option.splits)

lemma with_domain_self:
  "rs_world (with_domain h f r) h =
     (case rs_world r h of
        None \<Rightarrow> None
      | Some w \<Rightarrow> f (w\<lparr>d_runner := \<lparr>rs_exitCode = rs_exitCode r, rs_running = rs_running r, rs_world = ()\<rparr>\<rparr>))"
  by (auto simp: with_domain_def split: option.splits)

lemma DomainStop_inactive: "DomainStop tick Q B S w = Some w' \<Longrightarrow> d_opState w' = None"
  by (auto simp: DomainStop_def split: option.splits prod.splits)


lemma loop_ops_keep_domain [simp]:
  "d_opState (set_op i f w) = d_opState w"
  "d_runner (set_op i f w) = d_runner w" "d_terminated (set_op i f w) = d_terminated w"
  "d_opState (Enqueue Q i w) = d_opState w" "d_runner (Enqueue Q i w) = d_runner w"
  "d_terminated (Enqueue Q i w) = d_terminated w"
  "d_opState (Execute i w) = d_opState w" "d_runner (Execute i w) = d_runner w"
  "d_terminated (Execute i w) = d_terminated w"
  by (simp_all add: set_op_def Enqueue_def Execute_def)

lemma TryEnqueue_keeps_domain [simp]:
  "d_opState (TryEnqueue Q d i w) = d_opState w" "d_runner (TryEnqueue Q d i w) = d_runner w"
  "d_terminated (TryEnqueue Q d i w) = d_terminated w"
  "d_opState (TryEnqueueStop Q B i w) = d_opState w" "d_runner (TryEnqueueStop Q B i w) = d_runner w"
  "d_terminated (TryEnqueueStop Q B i w) = d_terminated w"
  "d_opState (TimerCallback Q i w) = d_opState w" "d_runner (TimerCallback Q i w) = d_runner w"
  "d_terminated (TimerCallback Q i w) = d_terminated w"
  by (simp_all add: TryEnqueue_def TryEnqueueStop_def TimerCallback_def Let_def)

lemma op_start_keeps_domain [simp]:
  "d_opState (LoopOp_start Q i w) = d_opState w" "d_runner (LoopOp_start Q i w) = d_runner w"
  "d_terminated (LoopOp_start Q i w) = d_terminated w"
  "d_opState (TimedOp_start Q B i w) = d_opState w" "d_runner (TimedOp_start Q B i w) = d_runner w"
  "d_terminated (TimedOp_start Q B i w) = d_terminated w"
  "d_opState (TimedOp_destroy B i w) = d_opState w" "d_runner (TimedOp_destroy B i w) = d_runner w"
  "d_terminated (TimedOp_destroy B i w) = d_terminated w"
  by (simp_all add: LoopOp_start_def TimedOp_start_def TimedOp_destroy_def emplace_stop_callback_def Let_def
      split: prod.splits)

lemma task_next_keeps_domain:
  "d_opState (task_next exit Q B clock t k w) = d_opState w"
  "d_terminated (task_next exit Q B clock t k w) = d_terminated w"
  by (simp_all add: task_next_def Completed_def split: await.splits)

interpretation domain_life: lifecycle "DomainHandler tick stop_tick Q B (\<lambda>h. task_box exit Q B clock (t h))"
    domain_ready domain_active
proof unfold_locales
  fix h k :: ref and s s' :: "(ref \<Rightarrow> ('a, 'b) domain option) rstate"
  let ?H = "DomainHandler tick stop_tick Q B (\<lambda>h. task_box exit Q B clock (t h))"
  show "domain_ready h s \<Longrightarrow> h_Start (?H h) s = (True, s') \<Longrightarrow> domain_active h s'"
    by (auto simp: domain_ready_def domain_active_def DomainHandler_def with_domain_self DomainStart_def
        task_box_def alive_def task_next_keeps_domain split: option.splits if_splits)
  show "domain_ready h s \<Longrightarrow> h_Start (?H h) s = (False, s') \<Longrightarrow> \<not> domain_active h s'"
    by (auto simp: domain_active_def DomainHandler_def Let_def)
  show "\<not> domain_active h (h_Stop (?H h) s)"
    by (auto simp: domain_active_def DomainHandler_def with_domain_self split: option.splits
        dest: DomainStop_inactive)
  show "h \<noteq> k \<Longrightarrow> domain_active k (snd (h_Start (?H h) s)) = domain_active k s"
    by (simp add: domain_active_def DomainHandler_def with_domain_other Let_def)
  show "h \<noteq> k \<Longrightarrow> domain_active k (h_Stop (?H h) s) = domain_active k s"
    by (simp add: domain_active_def DomainHandler_def with_domain_other)
  show "h \<noteq> k \<Longrightarrow> domain_ready k (snd (h_Start (?H h) s)) = domain_ready k s"
    by (simp add: domain_ready_def DomainHandler_def with_domain_other Let_def)
qed


section \<open>A task on the loop backend\<close>

abbreviation loop_task_box :: "(ref \<Rightarrow> time_point) \<Rightarrow> task \<Rightarrow> (ref list, ref loop_backend) op_state_box" where
  "loop_task_box \<equiv> task_box TightExit fifo LoopBackend"

text \<open>
  \<open>running_task\<close>: the first \<open>k\<close> awaits of the task have completed, each once and in order. \<open>parked\<close>: the
  task waits in its \<open>k\<close>-th await for a timer due at \<open>dl\<close>. \<open>resumable\<close>: the operation of its \<open>k\<close>-th await is queued.
  \<open>idle\<close>: nothing is left to do.
\<close>

definition running_task :: "ref \<Rightarrow> (ref list, ref loop_backend) domain \<Rightarrow> bool" where
  "running_task k w \<longleftrightarrow> \<not> l_stop w \<and> \<not> d_terminated w \<and> d_opState w = Some Started \<and>
     l_signals w = map (\<lambda>i. (i, SetValue)) [0..<k]"

definition parked :: "task \<Rightarrow> ref \<Rightarrow> time_point \<Rightarrow> (ref list, ref loop_backend) domain \<Rightarrow> bool" where
  "parked t k dl w \<longleftrightarrow> running_task k w \<and> k < length (t_awaits t) \<and> l_queue w = [] \<and> l_callbacks w = [k] \<and>
     lb_entries (l_backend w) =
       [\<lparr>e_deadline = dl, e_id = to_timerId (l_ops w k), e_callback = k\<rparr>] \<and>
     to_kind (l_ops w k) = TimedOp \<and> to_state (l_ops w k) = Pending"

definition resumable :: "task \<Rightarrow> ref \<Rightarrow> (ref list, ref loop_backend) domain \<Rightarrow> bool" where
  "resumable t k w \<longleftrightarrow> running_task k w \<and> k < length (t_awaits t) \<and> l_queue w = [k] \<and>
     l_callbacks w \<in> {[], [k]} \<and> lb_entries (l_backend w) = [] \<and> to_timerId (l_ops w k) = InvalidTimerId"

definition idle :: "task \<Rightarrow> (ref list, ref loop_backend) domain \<Rightarrow> bool" where
  "idle t w \<longleftrightarrow> running_task (length (t_awaits t)) w \<and> l_queue w = [] \<and> l_callbacks w = [] \<and>
     lb_entries (l_backend w) = []"

lemmas task_state_defs = running_task_def parked_def resumable_def idle_def

lemma task_states_runner [simp]:
  "running_task k (w\<lparr>d_runner := r\<rparr>) = running_task k w" "parked t k dl (w\<lparr>d_runner := r\<rparr>) = parked t k dl w"
  "idle t (w\<lparr>d_runner := r\<rparr>) = idle t w" "resumable t k (w\<lparr>d_runner := r\<rparr>) = resumable t k w"
  by (simp_all add: task_state_defs)

lemma PureDrain_empty: "l_queue w = [] \<Longrightarrow> PureDrain fifo recv n w = Some (n, w)"
  by (simp add: PureDrain.simps fifo_deq)

lemma PureDrain_step:
  "l_queue w = x # q \<Longrightarrow> PureDrain fifo recv n w =
     PureDrain fifo recv (Suc n) (recv x (if l_stop w then SetStopped else SetValue) (Execute x (w\<lparr>l_queue := q\<rparr>)))"
  by (simp add: PureDrain.simps[of _ _ _ w] fifo_deq)

text \<open>Where the task goes next, once nothing of it is left in the context.\<close>

lemma task_next_cases:
  fixes clock :: "ref \<Rightarrow> time_point"
  assumes "running_task k w" and "l_queue w = []" and "l_callbacks w = []" and "lb_entries (l_backend w) = []"
    and "k \<le> length (t_awaits t)"
  defines "v \<equiv> task_next TightExit fifo LoopBackend clock t k w"
  shows "resumable t k v \<and> d_runner v = d_runner w \<or> (\<exists>dl. parked t k dl v) \<and> d_runner v = d_runner w \<or>
     k = length (t_awaits t) \<and> idle t v \<and> d_runner v = TightExit (t_code t) (d_runner w)"
proof (cases "k < length (t_awaits t)")
  case False
  then have k: "k = length (t_awaits t)" using assms(5) by simp
  then have "idle t v" "d_runner v = TightExit (t_code t) (d_runner w)"
    using assms(1-4) by (auto simp: v_def task_next_def idle_def Completed_def)
  with k show ?thesis by simp
next
  case True
  show ?thesis
  proof (cases "t_awaits t ! k")
    case AwaitSchedule
    then have "resumable t k v" "d_runner v = d_runner w"
      using assms(1-4) True by (auto simp: v_def task_next_def LoopOp_start_def task_state_defs fifo_enq connect_loop_def)
    then show ?thesis by simp
  next
    case (AwaitAfter d)
    then have "parked t k (clock k + d) v" "d_runner v = d_runner w"
      using assms(1-4) True
      by (auto simp: v_def task_next_def TimedOp_start_def emplace_stop_callback_def task_state_defs
          schedule_after_def connect_timed_def LoopBackend_def ScheduleAt_def Let_def)
    then show ?thesis by blast
  qed
qed

lemma drain_task:
  assumes "resumable t k w"
  shows "\<exists>m w'. PureDrain fifo (ob_recv (loop_task_box clock t)) n w = Some (m, w') \<and>
     ((\<exists>k' dl. k < k' \<and> parked t k' dl w') \<and> d_runner w' = d_runner w \<or>
      idle t w' \<and> d_runner w' = TightExit (t_code t) (d_runner w))"
  using assms
proof (induction "length (t_awaits t) - k" arbitrary: k n w rule: less_induct)
  case less
  let ?recv = "ob_recv (loop_task_box clock t)"
  let ?u = "TimedOp_destroy LoopBackend k (Execute k (w\<lparr>l_queue := []\<rparr>))"
  let ?v = "task_next TightExit fifo LoopBackend clock t (Suc k) ?u"
  have step: "PureDrain fifo ?recv n w = PureDrain fifo ?recv (Suc n) ?v"
    using less.prems by (subst PureDrain_step[of _ k "[]"]) (auto simp: task_state_defs task_box_def)
  have u: "running_task (Suc k) ?u" "l_queue ?u = []" "l_callbacks ?u = []" "lb_entries (l_backend ?u) = []"
      "d_runner ?u = d_runner w" and k: "k < length (t_awaits t)"
    using less.prems by (auto simp: task_state_defs TimedOp_destroy_def Let_def)
  consider "resumable t (Suc k) ?v" "d_runner ?v = d_runner w"
    | dl where "parked t (Suc k) dl ?v" "d_runner ?v = d_runner w"
    | "idle t ?v" "d_runner ?v = TightExit (t_code t) (d_runner w)"
    using task_next_cases[OF u(1-4), of t clock] u(5) k by auto
  then show ?case
  proof cases
    case 1
    have "length (t_awaits t) - Suc k < length (t_awaits t) - k" using k by simp
    from less.hyps[OF this 1(1), of "Suc n"] show ?thesis
      unfolding step 1(2) by (meson Suc_lessD)
  next
    case 2
    then have "l_queue ?v = []" by (simp add: parked_def)
    with step 2 show ?thesis by (auto simp: PureDrain_empty)
  next
    case 3
    then have "l_queue ?v = []" by (simp add: idle_def)
    with step 3 show ?thesis by (auto simp: PureDrain_empty)
  qed
qed


lemma tick_nothing_due:
  "lb_entries (l_backend w) = [] \<Longrightarrow> TickBackend fifo now w = Some w"
  "lb_entries (l_backend w) = e # es \<Longrightarrow> now < e_deadline e \<Longrightarrow> TickBackend fifo now w = Some w"
  by (simp_all add: TickBackend_def LoopTick.simps)

lemma tick_parked:
  assumes "parked t k dl w" and "dl \<le> now"
  obtains w' where "TickBackend fifo now w = Some w'" and "resumable t k w'" and "d_runner w' = d_runner w"
proof -
  let ?w = "TimerCallback fifo k (w\<lparr>l_backend := (l_backend w)\<lparr>lb_entries := []\<rparr>\<rparr>)"
  have "TickBackend fifo now w = TickBackend fifo now ?w"
    using assms by (simp add: TickBackend_def LoopTick.simps[of _ _ _ _ w] parked_def)
  also have "\<dots> = Some ?w" by (rule tick_nothing_due(1)) simp
  finally show thesis
    by (rule that) (use assms(1) in \<open>auto simp: task_state_defs fifo_enq\<close>)
qed

lemma update_parked:
  assumes "parked t k dl w"
  shows "now < dl \<Longrightarrow> DomainUpdate (TickBackend fifo now) fifo (loop_task_box clock t) w = Some w"
    and "dl \<le> now \<Longrightarrow> \<exists>w'. DomainUpdate (TickBackend fifo now) fifo (loop_task_box clock t) w = Some w' \<and>
      ((\<exists>k' dl. k < k' \<and> parked t k' dl w') \<and> d_runner w' = d_runner w \<or>
       idle t w' \<and> d_runner w' = TightExit (t_code t) (d_runner w))"
proof -
  assume "now < dl"
  then have "TickBackend fifo now w = Some w"
    using assms by (intro tick_nothing_due(2)) (auto simp: parked_def)
  then show "DomainUpdate (TickBackend fifo now) fifo (loop_task_box clock t) w = Some w"
    using assms by (simp add: DomainUpdate_def DrainQueue_def PureDrain_empty task_state_defs alive_def)
next
  assume "dl \<le> now"
  then obtain w1 where w1: "TickBackend fifo now w = Some w1" "resumable t k w1" "d_runner w1 = d_runner w"
    using tick_parked[OF assms] by blast
  obtain m w' where w': "PureDrain fifo (ob_recv (loop_task_box clock t)) 0 w1 = Some (m, w')"
      "(\<exists>k' dl. k < k' \<and> parked t k' dl w') \<and> d_runner w' = d_runner w \<or>
       idle t w' \<and> d_runner w' = TightExit (t_code t) (d_runner w)"
    using drain_task[OF w1(2), of clock 0] unfolding w1(3) by blast
  then have "\<not> d_terminated w'" by (auto simp: task_state_defs)
  with w1(1) w' show "\<exists>w'. DomainUpdate (TickBackend fifo now) fifo (loop_task_box clock t) w = Some w' \<and>
      ((\<exists>k' dl. k < k' \<and> parked t k' dl w') \<and> d_runner w' = d_runner w \<or>
       idle t w' \<and> d_runner w' = TightExit (t_code t) (d_runner w))"
    by (intro exI[of _ w']) (simp add: DomainUpdate_def DrainQueue_def alive_def)
qed

section \<open>A task under TightRunner\<close>

text \<open>
  The handler of the domain in slot 0; the steady clock that \<open>LoopTimerBackend::Tick\<close> reads in a frame is
  \<open>lag\<close> of the frame's start time.
\<close>

definition task_handler ::
  "(time_point \<Rightarrow> time_point) \<Rightarrow> time_point \<Rightarrow> (ref \<Rightarrow> time_point) \<Rightarrow> task \<Rightarrow>
   (ref \<Rightarrow> (ref list, ref loop_backend) domain option) rstate handler" where
  "task_handler lag stop_time clock t =
     DomainHandler (\<lambda>ctx. TickBackend fifo (lag (f_startTime (u_frame ctx)))) (TickBackend fifo stop_time)
       fifo LoopBackend (\<lambda>_. loop_task_box clock t) 0"

text \<open>From here the loop ends, with the task's code recorded and nothing left in the context.\<close>

definition ends_with ::
  "(duration \<Rightarrow> real) \<Rightarrow> (nat \<Rightarrow> time_point) \<Rightarrow> (ref \<Rightarrow> (ref list, ref loop_backend) domain option) rstate handler \<Rightarrow>
   task \<Rightarrow> nat \<Rightarrow> UpdateCtx \<times> (ref \<Rightarrow> (ref list, ref loop_backend) domain option) rstate \<Rightarrow> bool" where
  "ends_with secs clk h t k st \<longleftrightarrow>
     (\<exists>st'. tight_loop secs clk h k st = Some st' \<and> rs_exitCode (snd st') = Some (t_code t) \<and>
        \<not> rs_running (snd st') \<and> (\<exists>w. rs_world (snd st') 0 = Some w \<and> idle t w))"


lemma ends_with_step:
  assumes "rs_running (snd st)" and "ends_with secs clk h t (Suc k) (tight_step secs (clk (Suc k)) h st)"
  shows "ends_with secs clk h t k st"
  using assms by (simp add: ends_with_def tight_loop.simps[of _ _ _ k])

lemma ends_with_now:
  assumes "\<not> rs_running r" and "rs_exitCode r = Some (t_code t)" and "rs_world r 0 = Some w" and "idle t w"
  shows "ends_with secs clk h t k (ctx, r)"
  using assms by (simp add: ends_with_def tight_loop.simps)

lemma task_step:
  assumes "rs_world r 0 = Some w"
    and "DomainUpdate (TickBackend fifo (lag time)) fifo (loop_task_box clock t)
       (w\<lparr>d_runner := \<lparr>rs_exitCode = rs_exitCode r, rs_running = rs_running r, rs_world = ()\<rparr>\<rparr>) = Some w'"
  shows "snd (tight_step secs time (task_handler lag stop_time clock t) (ctx, r)) =
     \<lparr>rs_exitCode = rs_exitCode (d_runner w'), rs_running = rs_running (d_runner w'), rs_world = (rs_world r)(0 := Some w')\<rparr>"
  using assms by (simp add: tight_step_def task_handler_def DomainHandler_def with_domain_def Tick_def Let_def)

lemma parked_task_ends:
  assumes clk: "mono clk" "\<forall>T. \<exists>n. T \<le> clk n" and lag: "\<forall>t. t \<le> lag t"
    and "parked t k dl w" and "rs_world (snd st) 0 = Some w" and "rs_running (snd st)"
  shows "ends_with secs clk (task_handler lag stop_time clock t) t m st"
  using assms(4-6)
proof (induction "length (t_awaits t) - k" arbitrary: k dl w st m rule: less_induct)
  case less
  let ?r = "\<lambda>st. \<lparr>rs_exitCode = rs_exitCode (snd st), rs_running = rs_running (snd st), rs_world = ()\<rparr>"
  have due: "ends_with secs clk (task_handler lag stop_time clock t) t m st"
    if prems: "parked t k dl w" "rs_world (snd st) 0 = Some w" "rs_running (snd st)" "dl \<le> lag (clk (Suc m))" for m st w
  proof -
    have "parked t k dl (w\<lparr>d_runner := ?r st\<rparr>)" using prems(1) by simp
    from update_parked(2)[OF this prems(4), of clock] obtain w' where
      up: "DomainUpdate (TickBackend fifo (lag (clk (Suc m)))) fifo (loop_task_box clock t) (w\<lparr>d_runner := ?r st\<rparr>) = Some w'"
      and w': "(\<exists>k' dl. k < k' \<and> parked t k' dl w') \<and> d_runner w' = ?r st \<or>
        idle t w' \<and> d_runner w' = TightExit (t_code t) (?r st)" by auto
    note step = task_step[of "snd st" w lag "clk (Suc m)" clock t _ secs stop_time "fst st", OF prems(2) up]
    show ?thesis
    proof (rule ends_with_step[OF prems(3)], cases "idle t w'")
      case True
      then show "ends_with secs clk (task_handler lag stop_time clock t) t (Suc m)
          (tight_step secs (clk (Suc m)) (task_handler lag stop_time clock t) st)"
        using w' step by (subst surjective_pairing, intro ends_with_now) (auto simp: TightExit_def SetExitCode_def task_state_defs)
    next
      case False
      with w' obtain k' dl' where k': "k < k'" "parked t k' dl' w'" "d_runner w' = ?r st" by auto
      then have "length (t_awaits t) - k' < length (t_awaits t) - k" by (auto simp: parked_def)
      from less.hyps[OF this k'(2)] show "ends_with secs clk (task_handler lag stop_time clock t) t (Suc m)
          (tight_step secs (clk (Suc m)) (task_handler lag stop_time clock t) st)"
        using step k'(3) prems(3) by simp
    qed
  qed
  obtain n where "dl \<le> clk n" using clk(2) by blast
  also have "clk n \<le> clk (Suc (m + n))" using clk(1) by (simp add: monoD)
  finally have "dl \<le> clk (Suc (m + n))" .
  with less.prems show ?case
  proof (induction n arbitrary: m st w)
    case (0 m st w)
    then have "dl \<le> lag (clk (Suc m))" using lag[rule_format, of "clk (Suc m)"] by simp
    with 0 show ?case by (intro due) auto
  next
    case (Suc n m st w)
    note step = task_step[of "snd st" w lag "clk (Suc m)" clock t _ secs stop_time "fst st", OF Suc.prems(2)]
    have p: "parked t k dl (w\<lparr>d_runner := ?r st\<rparr>)" using Suc.prems(1) by simp
    show ?case
    proof (cases "dl \<le> lag (clk (Suc m))")
      case False
      then have "DomainUpdate (TickBackend fifo (lag (clk (Suc m)))) fifo (loop_task_box clock t)
          (w\<lparr>d_runner := ?r st\<rparr>) = Some (w\<lparr>d_runner := ?r st\<rparr>)"
        by (intro update_parked(1)[OF p]) simp
      from step[OF this] show ?thesis
        by (intro ends_with_step[OF Suc.prems(3)], intro Suc.IH[OF p]) (use Suc.prems in auto)
    qed (use Suc.prems due in blast)
  qed
qed


lemma update_resumable:
  assumes "resumable t k w"
  shows "\<exists>w'. DomainUpdate (TickBackend fifo now) fifo (loop_task_box clock t) w = Some w' \<and>
      ((\<exists>k' dl. parked t k' dl w') \<and> d_runner w' = d_runner w \<or>
       idle t w' \<and> d_runner w' = TightExit (t_code t) (d_runner w))"
proof -
  have "TickBackend fifo now w = Some w" using assms by (intro tick_nothing_due) (simp add: resumable_def)
  moreover obtain m w' where "PureDrain fifo (ob_recv (loop_task_box clock t)) 0 w = Some (m, w')"
      "(\<exists>k' dl. parked t k' dl w') \<and> d_runner w' = d_runner w \<or>
       idle t w' \<and> d_runner w' = TightExit (t_code t) (d_runner w)"
    using drain_task[OF assms, of clock 0] by blast
  moreover from this(2) have "\<not> d_terminated w'" by (auto simp: task_state_defs)
  ultimately show ?thesis by (intro exI[of _ w']) (simp add: DomainUpdate_def DrainQueue_def alive_def)
qed

lemma started_task_ends:
  assumes "mono clk" "\<forall>T. \<exists>n. T \<le> clk n" "\<forall>t. t \<le> lag t"
    and w: "resumable t k w \<or> parked t k dl w" "rs_world (snd st) 0 = Some w" "rs_running (snd st)"
  shows "ends_with secs clk (task_handler lag stop_time clock t) t m st"
proof (cases "parked t k dl w")
  case True
  from parked_task_ends[OF assms(1-3) this w(2,3)] show ?thesis .
next
  case False
  let ?r = "\<lparr>rs_exitCode = rs_exitCode (snd st), rs_running = rs_running (snd st), rs_world = ()\<rparr>"
  from False w(1) have "resumable t k (w\<lparr>d_runner := ?r\<rparr>)" by simp
  from update_resumable[OF this, of "lag (clk (Suc m))" clock] obtain w' where
    up: "DomainUpdate (TickBackend fifo (lag (clk (Suc m)))) fifo (loop_task_box clock t) (w\<lparr>d_runner := ?r\<rparr>) = Some w'"
    and w': "(\<exists>k' dl. parked t k' dl w') \<and> d_runner w' = ?r \<or> idle t w' \<and> d_runner w' = TightExit (t_code t) ?r" by auto
  note step = task_step[of "snd st" w lag "clk (Suc m)" clock t _ secs stop_time "fst st", OF w(2) up]
  show ?thesis
  proof (rule ends_with_step[OF w(3)], cases "idle t w'")
    case True
    then show "ends_with secs clk (task_handler lag stop_time clock t) t (Suc m)
        (tight_step secs (clk (Suc m)) (task_handler lag stop_time clock t) st)"
      using w' step by (subst surjective_pairing, intro ends_with_now) (auto simp: TightExit_def SetExitCode_def task_state_defs)
  next
    case False
    with w' obtain k' dl' where k': "parked t k' dl' w'" "d_runner w' = ?r" by auto
    from parked_task_ends[OF assms(1-3) k'(1)] show "ends_with secs clk (task_handler lag stop_time clock t) t (Suc m)
        (tight_step secs (clk (Suc m)) (task_handler lag stop_time clock t) st)"
      using step k'(2) w(3) by simp
  qed
qed

lemma DomainStop_idle:
  assumes "idle t w"
  shows "DomainStop (TickBackend fifo now) fifo LoopBackend (loop_task_box clock t) w = Some (w\<lparr>l_stop := True, d_opState := None\<rparr>)"
proof -
  have "request_stop fifo LoopBackend w = w\<lparr>l_stop := True\<rparr>"
    using assms by (cases w) (simp add: request_stop_def task_state_defs)
  moreover have "DrainQueue (TickBackend fifo now) fifo (ob_recv (loop_task_box clock t)) (w\<lparr>l_stop := True\<rparr>) =
      Some (0, w\<lparr>l_stop := True\<rparr>)"
    using assms by (simp add: DrainQueue_def tick_nothing_due PureDrain_empty idle_def)
  ultimately show ?thesis
    using assms by (simp add: DomainStop_def alive_def task_state_defs task_box_def)
qed

lemma new_domain_start:
  assumes "t_awaits t \<noteq> []"
  shows "\<exists>w. DomainStart (loop_task_box clock t) ((new_domain [] new_loop_backend)\<lparr>d_runner := r\<rparr>) = Some (True, w) \<and>
     (resumable t 0 w \<or> (\<exists>dl. parked t 0 dl w)) \<and> d_runner w = r"
proof -
  let ?w = "(new_domain [] new_loop_backend)\<lparr>d_runner := r, d_opState := Some Started\<rparr>
    :: (ref list, ref loop_backend) domain"
  let ?v = "task_next TightExit fifo LoopBackend clock t 0 ?w"
  have "running_task 0 ?w" "l_queue ?w = []" "l_callbacks ?w = []" "lb_entries (l_backend ?w) = []"
    by (simp_all add: running_task_def new_domain_def new_loop_backend_def)
  from task_next_cases[OF this, of t clock] assms
  have v: "(resumable t 0 ?v \<or> (\<exists>dl. parked t 0 dl ?v)) \<and> d_runner ?v = d_runner ?w"
    by auto
  moreover have "\<not> d_terminated ?v" using v by (auto simp: task_state_defs)
  ultimately show ?thesis
    by (intro exI[of _ ?v]) (simp add: DomainStart_def task_box_def alive_def new_domain_def)
qed

lemma update_idle:
  assumes "idle t w"
  shows "DomainUpdate (TickBackend fifo now) fifo S w = Some w"
  using assms
  by (simp add: DomainUpdate_def DrainQueue_def tick_nothing_due PureDrain_empty alive_def task_state_defs)

lemma idle_task_never_ends:
  assumes "rs_world (snd st) 0 = Some w" and "idle t w" and "rs_running (snd st)"
  shows "rs_running (snd (tight_frames secs clk (task_handler lag stop_time clock t) m n st))"
  using assms
proof (induction n arbitrary: m st w)
  case 0
  then show ?case by simp
next
  case (Suc n)
  let ?w = "w\<lparr>d_runner := \<lparr>rs_exitCode = rs_exitCode (snd st), rs_running = rs_running (snd st), rs_world = ()\<rparr>\<rparr>"
  have idle: "idle t ?w" using Suc.prems(2) by simp
  note step = task_step[of "snd st" w lag "clk (Suc m)" clock t _ secs stop_time "fst st", OF Suc.prems(1) update_idle[OF idle]]
  show ?case unfolding tight_frames.simps
    by (rule Suc.IH[OF _ idle]) (use step Suc.prems(3) in simp_all)
qed

lemma stop_parked:
  assumes "parked t k dl w" and "to_timerId (l_ops w k) \<noteq> InvalidTimerId"
  defines "v \<equiv> request_stop fifo LoopBackend w"
  shows "l_queue v = [k]" "l_stop v" "l_callbacks v = []" "lb_entries (l_backend v) = []"
    "to_timerId (l_ops v k) = InvalidTimerId" "l_signals v = l_signals w" "d_runner v = d_runner w"
    "d_terminated v = d_terminated w" "d_opState v = d_opState w"
  using assms(1,2)
  by (simp_all add: v_def request_stop_def task_state_defs fifo_enq LoopBackend_def Cancel_def)

section \<open>Properties\<close>

abbreviation one_domain :: "(ref \<Rightarrow> (ref list, ref loop_backend) domain option) rstate" where
  "one_domain \<equiv> \<lparr>rs_exitCode = None, rs_running = False, rs_world = [0 \<mapsto> new_domain [] new_loop_backend]\<rparr>"

lemma task_run_ends:
  assumes "mono clk" and "\<forall>T. \<exists>n. T \<le> clk n" and "\<forall>t. t \<le> lag t" and "t_awaits t \<noteq> []"
  shows "\<exists>r w. TightRun secs clk (task_handler lag stop_time clock t) self one_domain = Some (t_code t, r) \<and>
     rs_world r 0 = Some w \<and> d_opState w = None \<and>
     l_signals w = map (\<lambda>i. (i, SetValue)) [0..<length (t_awaits t)] \<and>
     l_queue w = [] \<and> lb_entries (l_backend w) = [] \<and> l_callbacks w = []"
proof -
  let ?h = "task_handler lag stop_time clock t" and ?ctx = "Initialize (clk 0) (new_UpdateCtx self)"
  obtain w dl where w: "DomainStart (loop_task_box clock t)
        ((new_domain [] new_loop_backend)\<lparr>d_runner := \<lparr>rs_exitCode = None, rs_running = False, rs_world = ()\<rparr>\<rparr>) = Some (True, w)"
      "resumable t 0 w \<or> parked t 0 dl w"
    using new_domain_start[OF assms(4), of clock] by blast
  then have st: "h_Start ?h one_domain = (True, \<lparr>rs_exitCode = rs_exitCode (d_runner w),
      rs_running = rs_running (d_runner w), rs_world = [0 \<mapsto> w]\<rparr>)"
    by (simp add: task_handler_def DomainHandler_def with_domain_def)
  have "ends_with secs clk ?h t 0 (?ctx, (snd (h_Start ?h one_domain))\<lparr>rs_running := True\<rparr>)"
    by (rule started_task_ends[OF assms(1-3) w(2)]) (simp_all add: st)
  then obtain ctx' r v where e: "tight_loop secs clk ?h 0 (?ctx, (snd (h_Start ?h one_domain))\<lparr>rs_running := True\<rparr>) = Some (ctx', r)"
      "rs_exitCode r = Some (t_code t)" "rs_world r 0 = Some v" "idle t v"
    by (auto simp: ends_with_def)
  let ?v = "v\<lparr>d_runner := \<lparr>rs_exitCode = rs_exitCode r, rs_running = rs_running r, rs_world = ()\<rparr>\<rparr>"
  have "idle t ?v" using e(4) by simp
  then have "h_Stop ?h r = \<lparr>rs_exitCode = rs_exitCode r, rs_running = rs_running r,
      rs_world = (rs_world r)(0 \<mapsto> ?v\<lparr>l_stop := True, d_opState := None\<rparr>)\<rparr>"
    using e(3) by (simp add: task_handler_def DomainHandler_def with_domain_def DomainStop_idle)
  with e st show ?thesis
    by (auto simp: TightRun_def GetExitCode_def value_or_def task_state_defs Let_def)
qed

text \<open>
  C6. End to end: a domain that runs a straight-line task on the loop timer backend under \<open>TightRunner\<close>, with
  clocks that advance beyond every bound, always comes to an end. \<open>Run\<close> returns the task's own exit code; by
  then every await has completed exactly once, with a value and in program order, the operation state is
  gone, and no queued operation, timer or stop callback is left.
\<close>

theorem task_run_returns_its_code:
  assumes "mono clk" and "\<forall>T. \<exists>n. T \<le> clk n" and "\<forall>t. t \<le> lag t" and "t_awaits t \<noteq> []"
  shows "\<exists>r w. TightRun secs clk (task_handler lag stop_time clock t) self one_domain = Some (t_code t, r) \<and>
     rs_world r 0 = Some w \<and> d_opState w = None \<and>
     l_signals w = map (\<lambda>i. (i, SetValue)) [0..<length (t_awaits t)] \<and>
     l_queue w = [] \<and> lb_entries (l_backend w) = [] \<and> l_callbacks w = []"
  using task_run_ends[OF assms] .


theorem task_run_returns_its_code_witness:
  "\<exists>r w. TightRun (\<lambda>_. 0) int (task_handler (\<lambda>t. t) 0 int \<lparr>t_awaits = [AwaitSchedule, AwaitAfter 3], t_code = 7\<rparr>) 0
       one_domain = Some (7, r) \<and> rs_world r 0 = Some w \<and> d_opState w = None \<and>
     l_signals w = [(0, SetValue), (1, SetValue)] \<and> l_queue w = [] \<and> lb_entries (l_backend w) = [] \<and> l_callbacks w = []"
proof -
  let ?t = "\<lparr>t_awaits = [AwaitSchedule, AwaitAfter 3], t_code = 7\<rparr>"
  have "\<forall>T. \<exists>n. T \<le> int n" by (metis nat_le_iff order_refl)
  from task_run_returns_its_code[OF _ this, of "\<lambda>t. t" ?t "\<lambda>_. 0" 0 int 0]
  show ?thesis by (simp add: mono_def)
qed

text \<open>
  C21. A sender that completes inside \<open>Start\<close> (one built by a factory, which is not wrapped in \<open>starts_on\<close>)
  hangs the program: \<open>Completed\<close> records its exit code, but \<open>TightRunner::Run\<close> never returns.
\<close>

theorem inline_completion_never_exits:
  assumes "t_awaits t = []"
  shows "rs_exitCode (snd (h_Start (task_handler lag stop_time clock t) one_domain)) = Some (t_code t) \<and>
     TightRun secs clk (task_handler lag stop_time clock t) self one_domain = None"
proof -
  let ?h = "task_handler lag stop_time clock t"
  let ?w = "Completed TightExit (t_code t) ((new_domain [] new_loop_backend)\<lparr>d_opState := Some Started\<rparr>)
    :: (ref list, ref loop_backend) domain"
  have st: "h_Start ?h one_domain = (True, \<lparr>rs_exitCode = Some (t_code t), rs_running = False, rs_world = [0 \<mapsto> ?w]\<rparr>)"
    using assms by (simp add: task_handler_def DomainHandler_def with_domain_def DomainStart_def task_box_def
        task_next_def alive_def new_domain_def Completed_def TightExit_def SetExitCode_def)
  have "idle t ?w"
    using assms by (simp add: idle_def running_task_def Completed_def new_domain_def new_loop_backend_def)
  from idle_task_never_ends[OF _ this] show ?thesis
    by (simp add: st TightRun_def tight_loop_cases Let_def)
qed

theorem inline_completion_never_exits_witness:
  "rs_exitCode (snd (h_Start (task_handler (\<lambda>t. t) 0 int \<lparr>t_awaits = [], t_code = 42\<rparr>) one_domain)) = Some 42 \<and>
   TightRun (\<lambda>_. 0) int (task_handler (\<lambda>t. t) 0 int \<lparr>t_awaits = [], t_code = 42\<rparr>) 0 one_domain = None"
  using inline_completion_never_exits[of "\<lparr>t_awaits = [], t_code = 42\<rparr>" "\<lambda>t. t" 0 int "\<lambda>_. 0" int 0] by simp

text \<open>
  C20. \<open>Domain::Stop\<close> unwinds a task that waits for a timer: the timer is cancelled, the await completes with
  \<open>set_stopped\<close> and its operation is destroyed before the operation state goes, nothing refers to the task
  any more, and the runner exits with \<open>Cancelled\<close> unless an exit code had been requested, which is kept.
\<close>

theorem domain_stop_unwinds_waiting_task:
  assumes "parked t k dl w" and "to_timerId (l_ops w k) \<noteq> InvalidTimerId"
  shows "\<exists>w'. DomainStop (TickBackend fifo now) fifo LoopBackend (loop_task_box clock t) w = Some w' \<and>
     l_signals w' = l_signals w @ [(k, SetStopped)] \<and> to_phase (l_ops w' k) = Destroyed \<and> d_opState w' = None \<and>
     l_queue w' = [] \<and> lb_entries (l_backend w') = [] \<and> l_callbacks w' = [] \<and>
     d_runner w' = (if Exiting (d_runner w) = None then TightExit ExitCode_Cancelled (d_runner w) else d_runner w)"
proof -
  let ?v = "request_stop fifo LoopBackend w" and ?recv = "ob_recv (loop_task_box clock t)"
  let ?u = "Stopped TightExit (TimedOp_destroy LoopBackend k (Execute k (?v\<lparr>l_queue := []\<rparr>)))"
  note v = stop_parked[OF assms]
  have w: "\<not> d_terminated w" "d_opState w = Some Started" using assms(1) by (auto simp: task_state_defs)
  have u: "l_queue ?u = []" "lb_entries (l_backend ?u) = []" "l_callbacks ?u = []"
      "l_signals ?u = l_signals w @ [(k, SetStopped)]" "to_phase (l_ops ?u k) = Destroyed"
      "\<not> d_terminated ?u" "d_opState ?u = Some Started"
      "d_runner ?u = (if Exiting (d_runner w) = None then TightExit ExitCode_Cancelled (d_runner w) else d_runner w)"
    using v w by (auto simp: Stopped_def TimedOp_destroy_def Let_def)
  have "DrainQueue (TickBackend fifo now) fifo ?recv ?v = PureDrain fifo ?recv 1 ?u"
    using v by (simp add: DrainQueue_def tick_nothing_due PureDrain_step[of _ k "[]"] task_box_def)
  then show ?thesis using u by (simp add: DomainStop_def PureDrain_empty alive_def task_box_def)
qed

theorem domain_stop_unwinds_waiting_task_witness:
  "\<exists>w'. DomainStop (TickBackend fifo 1) fifo LoopBackend (loop_task_box int \<lparr>t_awaits = [AwaitAfter 3], t_code = 7\<rparr>)
       (task_next TightExit fifo LoopBackend int \<lparr>t_awaits = [AwaitAfter 3], t_code = 7\<rparr> 0
         ((new_domain [] new_loop_backend)\<lparr>d_opState := Some Started\<rparr>)) = Some w' \<and>
     l_signals w' = [(0, SetStopped)] \<and> rs_exitCode (d_runner w') = Some 130"
proof -
  let ?t = "\<lparr>t_awaits = [AwaitAfter 3], t_code = 7\<rparr>"
  let ?w = "task_next TightExit fifo LoopBackend int ?t 0 ((new_domain [] new_loop_backend)\<lparr>d_opState := Some Started\<rparr>)"
  have "parked ?t 0 3 ?w" and tid: "to_timerId (l_ops ?w 0) \<noteq> InvalidTimerId"
    and w: "l_signals ?w = []" "Exiting (d_runner ?w) = None"
    by (simp_all add: task_next_def TimedOp_start_def emplace_stop_callback_def task_state_defs schedule_after_def
        connect_timed_def LoopBackend_def ScheduleAt_def new_domain_def new_loop_backend_def Exiting_def GetExitCode_def)
  from domain_stop_unwinds_waiting_task[OF this(1,2), of 1 int] show ?thesis
    unfolding w by (auto simp: TightExit_def SetExitCode_def)
qed




end
