(* ===== verification/Thread_Timer.thy ===== *)
theory Thread_Timer
  imports Loop_Invariant
begin

text \<open>
  \<open>pkg/exec/Exec/Delay/ThreadTimerBackend\<close>: the timer backend with a thread of its own.

  The regions under \<open>_mutex\<close> are functions on the fields of the class; the threads are a step relation
  over these regions. The timer thread's program counter says where in \<open>RunTimerThread\<close> it is and so
  whether it holds the mutex. Between deciding to wait and being registered as a waiter it holds the
  mutex, so only code that does not take the mutex, the destructor, can run there. Spurious wake-ups
  are not steps: a program may not rely on them. \<open>tm_log\<close> records what clients can observe.
\<close>

section \<open>The fields and the regions under the mutex\<close>

record 'c thread_backend =
  tq_queue :: "'c entry list"
  tq_active :: "u64 set"
  tq_inflightId :: u64
  tq_nextId :: u64

definition new_thread_backend :: "'c thread_backend" where
  "new_thread_backend = \<lparr>tq_queue = [], tq_active = {}, tq_inflightId = InvalidTimerId, tq_nextId = 1\<rparr>"

definition ThreadScheduleAt :: "time_point \<Rightarrow> 'c \<Rightarrow> 'c thread_backend \<Rightarrow> u64 \<times> 'c thread_backend" where
  "ThreadScheduleAt deadline callback b =
     (let tid = tq_nextId b
      in (tid, b\<lparr>tq_nextId := tid + 1, tq_active := insert tid (tq_active b),
                tq_queue := \<lparr>e_deadline = deadline, e_id = tid, e_callback = callback\<rparr> # tq_queue b\<rparr>))"

text \<open>\<open>Cancel\<close> once the wait for \<open>_inflightId != id\<close> is over.\<close>

definition ThreadCancel :: "u64 \<Rightarrow> 'c thread_backend \<Rightarrow> bool \<times> 'c thread_backend" where
  "ThreadCancel tid b = (tid \<in> tq_active b, b\<lparr>tq_active := tq_active b - {tid}\<rparr>)"

text \<open>The top of the heap: an entry with the smallest deadline, any of them when there are several.\<close>

definition is_top :: "'c entry \<Rightarrow> 'c entry list \<Rightarrow> bool" where
  "is_top e q \<longleftrightarrow> e \<in> set q \<and> list_all (\<lambda>x. e_deadline e \<le> e_deadline x) q"

text \<open>Popping the top and, when it is still active, marking it in flight; the flag tells whether its callback is to be run.\<close>

definition ThreadPop :: "'c entry \<Rightarrow> 'c thread_backend \<Rightarrow> bool \<times> 'c thread_backend" where
  "ThreadPop e b =
     (let b1 = b\<lparr>tq_queue := remove1 e (tq_queue b)\<rparr>
      in if e_id e \<notin> tq_active b1 then (False, b1)
         else (True, b1\<lparr>tq_active := tq_active b1 - {e_id e}, tq_inflightId := e_id e\<rparr>))"

section \<open>The threads\<close>

datatype 'c tpc =
    AtLoop
  | AboutToWait
  | Blocked
  | Woken
  | AboutToWaitUntil time_point
  | BlockedUntil time_point
  | WokenUntil time_point
  | Draining
  | InCallback "'c entry"
  | InCancel "'c entry" u64
  | Exited

datatype dtor_pc = NotDestroying | StoredStopping | NotifiedAll

datatype tevent = EvSchedule u64 time_point | EvFire u64 time_point | EvCancel u64 bool

record 'c tmachine =
  tm_backend :: "'c thread_backend"
  tm_pc :: "'c tpc"
  tm_dtor :: dtor_pc
  tm_now :: time_point
  tm_log :: "tevent list"

fun holds_lock :: "'c tpc \<Rightarrow> bool" where
  "holds_lock AtLoop = True"
| "holds_lock AboutToWait = True"
| "holds_lock (AboutToWaitUntil _) = True"
| "holds_lock Draining = True"
| "holds_lock _ = False"

fun notify :: "'c tpc \<Rightarrow> 'c tpc" where
  "notify Blocked = Woken"
| "notify (BlockedUntil dl) = WokenUntil dl"
| "notify pc = pc"

definition stopping :: "'c tmachine \<Rightarrow> bool" where
  "stopping s \<longleftrightarrow> tm_dtor s \<noteq> NotDestroying"

definition issued :: "u64 \<Rightarrow> tevent list \<Rightarrow> bool" where
  "issued tid es \<longleftrightarrow> list_ex (\<lambda>e. case e of EvSchedule t _ \<Rightarrow> t = tid | _ \<Rightarrow> False) es"

definition new_tmachine :: "time_point \<Rightarrow> 'c tmachine" where
  "new_tmachine now =
     \<lparr>tm_backend = new_thread_backend, tm_pc = AtLoop, tm_dtor = NotDestroying, tm_now = now, tm_log = []\<rparr>"

inductive tt_step :: "'c tmachine \<Rightarrow> 'c tmachine \<Rightarrow> bool" where
  clock: "t \<ge> tm_now s \<Longrightarrow> tt_step s (s\<lparr>tm_now := t\<rparr>)"
| loop_exit: "tm_pc s = AtLoop \<Longrightarrow> stopping s \<Longrightarrow> tt_step s (s\<lparr>tm_pc := Exited\<rparr>)"
| wait_decide: "tm_pc s = AtLoop \<Longrightarrow> \<not> stopping s \<Longrightarrow> tq_queue (tm_backend s) = [] \<Longrightarrow>
     tt_step s (s\<lparr>tm_pc := AboutToWait\<rparr>)"
| wait_block: "tm_pc s = AboutToWait \<Longrightarrow> tt_step s (s\<lparr>tm_pc := Blocked\<rparr>)"
| wait_wake: "tm_pc s = Woken \<Longrightarrow>
     tt_step s (s\<lparr>tm_pc := if tq_queue (tm_backend s) \<noteq> [] \<or> stopping s then AtLoop else AboutToWait\<rparr>)"
| until_decide: "tm_pc s = AtLoop \<Longrightarrow> \<not> stopping s \<Longrightarrow> is_top e (tq_queue (tm_backend s)) \<Longrightarrow>
     tt_step s (s\<lparr>tm_pc := AboutToWaitUntil (e_deadline e)\<rparr>)"
| until_block: "tm_pc s = AboutToWaitUntil dl \<Longrightarrow> tt_step s (s\<lparr>tm_pc := BlockedUntil dl\<rparr>)"
| until_timeout: "tm_pc s = BlockedUntil dl \<Longrightarrow> dl \<le> tm_now s \<Longrightarrow> tt_step s (s\<lparr>tm_pc := Draining\<rparr>)"
| until_wake: "tm_pc s = WokenUntil dl \<Longrightarrow>
     tt_step s (s\<lparr>tm_pc := if dl \<le> tm_now s then Draining else AtLoop\<rparr>)"
| drain_pop: "tm_pc s = Draining \<Longrightarrow> is_top e (tq_queue (tm_backend s)) \<Longrightarrow> e_deadline e \<le> tm_now s \<Longrightarrow>
     ThreadPop e (tm_backend s) = (run, b) \<Longrightarrow>
     tt_step s (s\<lparr>tm_backend := b, tm_pc := if run then InCallback e else Draining,
                  tm_log := if run then tm_log s @ [EvFire (e_id e) (tm_now s)] else tm_log s\<rparr>)"
| drain_end: "tm_pc s = Draining \<Longrightarrow>
     (\<And>e. is_top e (tq_queue (tm_backend s)) \<Longrightarrow> tm_now s < e_deadline e) \<Longrightarrow> tt_step s (s\<lparr>tm_pc := AtLoop\<rparr>)"
| callback_return: "tm_pc s = InCallback e \<Longrightarrow>
     tt_step s (s\<lparr>tm_backend := (tm_backend s)\<lparr>tq_inflightId := InvalidTimerId\<rparr>, tm_pc := Draining\<rparr>)"
| callback_cancels: "tm_pc s = InCallback e \<Longrightarrow> issued tid (tm_log s) \<Longrightarrow> tt_step s (s\<lparr>tm_pc := InCancel e tid\<rparr>)"
| callback_cancel_returns: "tm_pc s = InCancel e tid \<Longrightarrow> tq_inflightId (tm_backend s) \<noteq> tid \<Longrightarrow>
     ThreadCancel tid (tm_backend s) = (r, b) \<Longrightarrow>
     tt_step s (s\<lparr>tm_backend := b, tm_pc := InCallback e, tm_log := tm_log s @ [EvCancel tid r]\<rparr>)"
| schedule: "\<not> holds_lock (tm_pc s) \<Longrightarrow> tm_dtor s = NotDestroying \<Longrightarrow> tq_nextId (tm_backend s) < - 1 \<Longrightarrow>
     ThreadScheduleAt dl cb (tm_backend s) = (tid, b) \<Longrightarrow>
     tt_step s (s\<lparr>tm_backend := b, tm_pc := notify (tm_pc s), tm_log := tm_log s @ [EvSchedule tid dl]\<rparr>)"
| cancel: "\<not> holds_lock (tm_pc s) \<Longrightarrow> tm_dtor s = NotDestroying \<Longrightarrow> issued tid (tm_log s) \<Longrightarrow>
     tq_inflightId (tm_backend s) \<noteq> tid \<Longrightarrow> ThreadCancel tid (tm_backend s) = (r, b) \<Longrightarrow>
     tt_step s (s\<lparr>tm_backend := b, tm_log := tm_log s @ [EvCancel tid r]\<rparr>)"
| dtor_store: "tm_dtor s = NotDestroying \<Longrightarrow> tt_step s (s\<lparr>tm_dtor := StoredStopping\<rparr>)"
| dtor_notify: "tm_dtor s = StoredStopping \<Longrightarrow>
     tt_step s (s\<lparr>tm_dtor := NotifiedAll, tm_pc := notify (tm_pc s)\<rparr>)"


section \<open>The invariant\<close>

inductive_cases tt_stepE: "tt_step s s'"

fun fired :: "tevent list \<Rightarrow> u64 list" where
  "fired [] = []"
| "fired (EvFire tid _ # es) = tid # fired es"
| "fired (_ # es) = fired es"

fun cancelled :: "tevent list \<Rightarrow> u64 list" where
  "cancelled [] = []"
| "cancelled (EvCancel tid _ # es) = tid # cancelled es"
| "cancelled (_ # es) = cancelled es"

lemma fired_append [simp]: "fired (xs @ ys) = fired xs @ fired ys"
  by (induction xs rule: fired.induct) auto

lemma cancelled_append [simp]: "cancelled (xs @ ys) = cancelled xs @ cancelled ys"
  by (induction xs rule: cancelled.induct) auto

lemma issued_append [simp]: "issued tid (xs @ ys) \<longleftrightarrow> issued tid xs \<or> issued tid ys"
  by (simp add: issued_def)

lemma issued_iff: "issued tid es \<longleftrightarrow> (\<exists>dl. EvSchedule tid dl \<in> set es)"
  by (induction es) (auto simp: issued_def split: tevent.splits)

lemma cancelled_iff: "tid \<in> set (cancelled es) \<longleftrightarrow> (\<exists>r. EvCancel tid r \<in> set es)"
  by (induction es rule: cancelled.induct) auto

lemma fired_iff: "tid \<in> set (fired es) \<longleftrightarrow> (\<exists>t. EvFire tid t \<in> set es)"
  by (induction es rule: fired.induct) auto

definition backend_inv :: "'c thread_backend \<Rightarrow> bool" where
  "backend_inv b \<longleftrightarrow> distinct (map e_id (tq_queue b)) \<and>
     (\<forall>e\<in>set (tq_queue b). e_id e \<noteq> InvalidTimerId \<and> e_id e < tq_nextId b) \<and>
     tq_active b \<subseteq> e_id ` set (tq_queue b) \<and> tq_nextId b \<noteq> InvalidTimerId"

text \<open>What the log says about the ids: those still active have neither fired nor been cancelled.\<close>

definition log_inv :: "'c thread_backend \<Rightarrow> tevent list \<Rightarrow> bool" where
  "log_inv b es \<longleftrightarrow>
     (\<forall>tid. issued tid es \<longrightarrow> tid \<noteq> InvalidTimerId \<and> tid < tq_nextId b) \<and>
     (\<forall>e\<in>set (tq_queue b). EvSchedule (e_id e) (e_deadline e) \<in> set es) \<and>
     (\<forall>tid\<in>tq_active b. tid \<notin> set (fired es) \<and> tid \<notin> set (cancelled es)) \<and>
     tq_inflightId b \<notin> set (cancelled es) \<and>
     (\<forall>tid\<in>set (fired es) \<union> set (cancelled es). issued tid es) \<and>
     distinct (fired es) \<and>
     (\<forall>tid. EvCancel tid True \<in> set es \<longrightarrow> tid \<notin> set (fired es)) \<and>
     (\<forall>tid t. EvFire tid t \<in> set es \<longrightarrow> (\<exists>dl\<le>t. EvSchedule tid dl \<in> set es))"

text \<open>Where the thread is and what it may have seen of the queue.\<close>

fun pc_inv :: "'c thread_backend \<Rightarrow> 'c tpc \<Rightarrow> bool" where
  "pc_inv b (InCallback e) \<longleftrightarrow> tq_inflightId b = e_id e \<and> e_id e \<noteq> InvalidTimerId"
| "pc_inv b (InCancel e _) \<longleftrightarrow> tq_inflightId b = e_id e \<and> e_id e \<noteq> InvalidTimerId"
| "pc_inv b AboutToWait \<longleftrightarrow> tq_inflightId b = InvalidTimerId \<and> tq_queue b = []"
| "pc_inv b Blocked \<longleftrightarrow> tq_inflightId b = InvalidTimerId \<and> tq_queue b = []"
| "pc_inv b (AboutToWaitUntil dl) \<longleftrightarrow> tq_inflightId b = InvalidTimerId \<and> (\<forall>e\<in>set (tq_queue b). dl \<le> e_deadline e)"
| "pc_inv b (BlockedUntil dl) \<longleftrightarrow> tq_inflightId b = InvalidTimerId \<and> (\<forall>e\<in>set (tq_queue b). dl \<le> e_deadline e)"
| "pc_inv b _ \<longleftrightarrow> tq_inflightId b = InvalidTimerId"

fun pc_log_inv :: "tevent list \<Rightarrow> 'c tpc \<Rightarrow> bool" where
  "pc_log_inv es (InCallback e) \<longleftrightarrow> issued (e_id e) es"
| "pc_log_inv es (InCancel e tid) \<longleftrightarrow> issued (e_id e) es \<and> issued tid es"
| "pc_log_inv es _ \<longleftrightarrow> True"

definition tt_inv :: "'c tmachine \<Rightarrow> bool" where
  "tt_inv s \<longleftrightarrow> backend_inv (tm_backend s) \<and> log_inv (tm_backend s) (tm_log s) \<and> pc_inv (tm_backend s) (tm_pc s) \<and>
     pc_log_inv (tm_log s) (tm_pc s)"

lemma pc_log_inv_notify [simp]: "pc_log_inv es (notify pc) \<longleftrightarrow> pc_log_inv es pc"
  by (cases pc) auto

lemma pc_log_inv_append: "pc_log_inv es pc \<Longrightarrow> pc_log_inv (es @ es') pc"
  by (cases pc) auto

lemma pc_inv_notify: "pc_inv b pc \<Longrightarrow> pc_inv b (notify pc)"
  by (cases pc) auto

lemma pc_inv_inflight:
  "pc_inv b pc \<Longrightarrow> \<not> holds_lock pc \<Longrightarrow> tq_inflightId b' = tq_inflightId b \<Longrightarrow> tq_queue b' = tq_queue b \<Longrightarrow> pc_inv b' pc"
  by (cases pc) auto

lemma ThreadScheduleAt_inv:
  assumes "backend_inv b" and "tq_nextId b < - 1" and "ThreadScheduleAt dl cb b = (tid, b')"
  shows "backend_inv b'" and "log_inv b es \<Longrightarrow> log_inv b' (es @ [EvSchedule tid dl])"
    and "pc_inv b pc \<Longrightarrow> \<not> holds_lock pc \<Longrightarrow> pc_inv b' (notify pc)"
proof -
  have nx: "tq_nextId b < tq_nextId b + 1" "tq_nextId b + 1 \<noteq> 0"
    using word_inc[of "tq_nextId b"] assms(2) by auto
  have b': "tid = tq_nextId b" "b' = b\<lparr>tq_nextId := tq_nextId b + 1, tq_active := insert tid (tq_active b),
      tq_queue := \<lparr>e_deadline = dl, e_id = tid, e_callback = cb\<rparr> # tq_queue b\<rparr>"
    using assms(3) by (auto simp: ThreadScheduleAt_def Let_def)
  have new: "tq_nextId b \<notin> e_id ` set (tq_queue b)" using assms(1) by (auto simp: backend_inv_def)
  have lt: "e_id e < tq_nextId b + 1" if "e \<in> set (tq_queue b)" for e
    using that assms(1) nx(1) by (auto simp: backend_inv_def intro: less_trans)
  show "backend_inv b'"
    using assms(1) nx new lt unfolding b' by (auto simp: backend_inv_def)
  show "pc_inv b pc \<Longrightarrow> \<not> holds_lock pc \<Longrightarrow> pc_inv b' (notify pc)"
    unfolding b' by (cases pc) auto
  assume l: "log_inv b es"
  then have "\<not> issued (tq_nextId b) es" by (auto simp: log_inv_def)
  moreover have "t < tq_nextId b + 1" if "issued t es" for t
    using l that nx(1) by (auto simp: log_inv_def intro: less_trans)
  moreover have "tq_nextId b \<noteq> 0" using assms(1) by (simp add: backend_inv_def)
  ultimately show "log_inv b' (es @ [EvSchedule tid dl])"
    using l nx unfolding b' log_inv_def by (auto simp: issued_iff) blast
qed

lemma ThreadCancel_inv:
  assumes "backend_inv b" and "issued tid es" and "tq_inflightId b \<noteq> tid" and "ThreadCancel tid b = (r, b')"
  shows "backend_inv b'" and "log_inv b es \<Longrightarrow> log_inv b' (es @ [EvCancel tid r])"
    and "tq_inflightId b' = tq_inflightId b" and "tq_queue b' = tq_queue b"
proof -
  have b': "r = (tid \<in> tq_active b)" "b' = b\<lparr>tq_active := tq_active b - {tid}\<rparr>"
    using assms(4) by (auto simp: ThreadCancel_def)
  show "backend_inv b'" "tq_inflightId b' = tq_inflightId b" "tq_queue b' = tq_queue b"
    using assms(1) unfolding b' by (auto simp: backend_inv_def)
  show "log_inv b es \<Longrightarrow> log_inv b' (es @ [EvCancel tid r])"
    using assms(2,3) unfolding b' log_inv_def by (auto simp: issued_def)
qed

lemma subset_image_remove: "A \<subseteq> f ` S \<Longrightarrow> A - {f x} \<subseteq> f ` (S - {x})"
  by blast

lemma ThreadPop_inv:
  assumes "backend_inv b" and "is_top e (tq_queue b)" and "e_deadline e \<le> now" and "tq_inflightId b = InvalidTimerId"
    and "ThreadPop e b = (run, b')"
  shows "backend_inv b'" and "log_inv b es \<Longrightarrow> log_inv b' (if run then es @ [EvFire (e_id e) now] else es)"
    and "tq_inflightId b' = (if run then e_id e else InvalidTimerId)" and "e_id e \<noteq> InvalidTimerId"
proof -
  have e: "e \<in> set (tq_queue b)" using assms(2) by (simp add: is_top_def)
  have d: "distinct (tq_queue b)" "inj_on e_id (set (tq_queue b))"
    using assms(1) by (auto simp: backend_inv_def distinct_map)
  have b': "run = (e_id e \<in> tq_active b)" "b' = (if run then b\<lparr>tq_queue := remove1 e (tq_queue b),
       tq_active := tq_active b - {e_id e}, tq_inflightId := e_id e\<rparr> else b\<lparr>tq_queue := remove1 e (tq_queue b)\<rparr>)"
    using assms(5) by (auto simp: ThreadPop_def Let_def split: if_splits)
  have dm: "distinct (map e_id (remove1 e (tq_queue b)))"
    using d by (auto simp: distinct_map inj_on_def)
  have act: "tq_active b - {e_id e} \<subseteq> e_id ` (set (tq_queue b) - {e})"
    using assms(1) by (intro subset_image_remove) (simp add: backend_inv_def)
  show "backend_inv b'"
    using assms(1) d dm act unfolding b' by (auto simp: backend_inv_def)
  show "tq_inflightId b' = (if run then e_id e else InvalidTimerId)" "e_id e \<noteq> InvalidTimerId"
    using assms(1,4) e unfolding b' by (auto simp: backend_inv_def)
  show "log_inv b es \<Longrightarrow> log_inv b' (if run then es @ [EvFire (e_id e) now] else es)"
    using assms(3) e d unfolding b' log_inv_def by (auto simp: issued_iff cancelled_iff)
qed


lemma tt_step_inv:
  assumes "tt_step s s'" and "tt_inv s"
  shows "tt_inv s'"
  using assms
proof (induction rule: tt_step.induct)
  case (drain_pop s e run b)
  then have "tq_inflightId (tm_backend s) = InvalidTimerId" by (simp add: tt_inv_def)
  note pop = ThreadPop_inv[OF _ drain_pop.hyps(2,3) this drain_pop.hyps(4)]
  have "issued (e_id e) (tm_log s)"
    using drain_pop.prems drain_pop.hyps(2) by (auto simp: tt_inv_def log_inv_def issued_iff is_top_def)
  then show ?case
    using pop(1,3,4) pop(2)[of "tm_log s"] drain_pop.prems by (auto simp: tt_inv_def)
next
  case (callback_return s e)
  then show ?case by (auto simp: tt_inv_def backend_inv_def log_inv_def)
next
  case (callback_cancel_returns s e tid r b)
  then have "issued tid (tm_log s)" by (simp add: tt_inv_def)
  with callback_cancel_returns show ?case
    using ThreadCancel_inv[of "tm_backend s" tid "tm_log s" r b] by (auto simp: tt_inv_def)
next
  case (schedule s dl cb tid b)
  then show ?case
    using ThreadScheduleAt_inv[of "tm_backend s" dl cb tid b] by (auto simp: tt_inv_def pc_log_inv_append)
next
  case (cancel s tid r b)
  then show ?case
    using ThreadCancel_inv[of "tm_backend s" tid "tm_log s" r b] pc_inv_inflight[of "tm_backend s" "tm_pc s" b]
    by (auto simp: tt_inv_def pc_log_inv_append)
next
  case (until_decide s e)
  then show ?case by (auto simp: tt_inv_def is_top_def list_all_iff)
qed (auto simp: tt_inv_def pc_inv_notify)


lemma new_tmachine_inv: "tt_inv (new_tmachine now)"
  by (simp add: new_tmachine_def new_thread_backend_def tt_inv_def backend_inv_def log_inv_def issued_def)

lemma tt_reachable_inv:
  assumes "rtranclp tt_step (new_tmachine now) s"
  shows "tt_inv s"
  using assms by (induction rule: rtranclp_induct) (auto intro: new_tmachine_inv tt_step_inv)

text \<open>A firing is only ever appended for an id that no returned \<open>Cancel\<close> has named.\<close>

definition quiet_after_cancel :: "tevent list \<Rightarrow> bool" where
  "quiet_after_cancel es \<longleftrightarrow> (\<forall>xs tid r ys. es = xs @ EvCancel tid r # ys \<longrightarrow> tid \<notin> set (fired ys))"

lemma quiet_after_cancel_append:
  assumes "quiet_after_cancel es" and "\<forall>tid t. e = EvFire tid t \<longrightarrow> tid \<notin> set (cancelled es)"
  shows "quiet_after_cancel (es @ [e])"
  unfolding quiet_after_cancel_def
proof (intro allI impI)
  fix xs tid r ys
  assume eq: "es @ [e] = xs @ EvCancel tid r # ys"
  show "tid \<notin> set (fired ys)"
  proof (cases ys rule: rev_cases)
    case (snoc zs z)
    with eq have "es = xs @ EvCancel tid r # zs" "e = z" by auto
    with assms snoc show ?thesis
      by (cases z) (auto simp: quiet_after_cancel_def)
  qed simp
qed

lemma tt_step_quiet:
  assumes "tt_step s s'" and "tt_inv s" and "quiet_after_cancel (tm_log s)"
  shows "quiet_after_cancel (tm_log s')"
  using assms
proof (induction rule: tt_step.induct)
  case (drain_pop s e run b)
  then have "run \<longrightarrow> e_id e \<notin> set (cancelled (tm_log s))"
    by (auto simp: ThreadPop_def Let_def tt_inv_def log_inv_def split: if_splits)
  with drain_pop show ?case by (auto intro: quiet_after_cancel_append)
qed (auto intro: quiet_after_cancel_append)

lemma tt_reachable_quiet:
  assumes "rtranclp tt_step (new_tmachine now) s"
  shows "quiet_after_cancel (tm_log s)"
  using assms
proof (induction rule: rtranclp_induct)
  case base
  then show ?case by (simp add: new_tmachine_def quiet_after_cancel_def)
next
  case (step s s')
  then show ?case using tt_step_quiet tt_reachable_inv by blast
qed


section \<open>The backend under a loop context\<close>

text \<open>
  For the main thread, the timer thread firing an active entry (popping it, running its callback and
  clearing \<open>_inflightId\<close>) is one event: \<open>Cancel\<close> waits for its end.
\<close>

definition ThreadBackend :: "ref thread_backend tbackend" where
  "ThreadBackend = \<lparr>tb_ScheduleAt = ThreadScheduleAt, tb_Cancel = ThreadCancel\<rparr>"

definition thread_pending :: "'c thread_backend \<Rightarrow> u64 \<rightharpoonup> time_point \<times> 'c" where
  "thread_pending b tid =
     (if tid \<in> tq_active b then map_of (map (\<lambda>e. (e_id e, (e_deadline e, e_callback e))) (tq_queue b)) tid else None)"

definition thread_room :: "'c thread_backend \<Rightarrow> bool" where
  "thread_room b \<longleftrightarrow> tq_nextId b < - 1"

definition thread_fires :: "'c thread_backend \<Rightarrow> u64 \<Rightarrow> time_point \<Rightarrow> 'c \<Rightarrow> 'c thread_backend \<Rightarrow> bool" where
  "thread_fires b tid dl cb b' \<longleftrightarrow>
     (let e = \<lparr>e_deadline = dl, e_id = tid, e_callback = cb\<rparr>; (run, b1) = ThreadPop e b
      in e \<in> set (tq_queue b) \<and> run \<and> b' = b1\<lparr>tq_inflightId := InvalidTimerId\<rparr>)"

lemma thread_pending_Some:
  assumes "backend_inv b"
  shows "thread_pending b tid = Some (dl, cb) \<longleftrightarrow>
     tid \<in> tq_active b \<and> \<lparr>e_deadline = dl, e_id = tid, e_callback = cb\<rparr> \<in> set (tq_queue b)"
proof -
  have "map_of (map (\<lambda>e. (e_id e, (e_deadline e, e_callback e))) (tq_queue b)) tid = Some (dl, cb) \<longleftrightarrow>
      (tid, (dl, cb)) \<in> set (map (\<lambda>e. (e_id e, (e_deadline e, e_callback e))) (tq_queue b))"
    using assms by (intro map_of_eq_Some_iff) (simp add: backend_inv_def comp_def)
  also have "\<dots> \<longleftrightarrow> \<lparr>e_deadline = dl, e_id = tid, e_callback = cb\<rparr> \<in> set (tq_queue b)"
  proof
    assume "(tid, (dl, cb)) \<in> set (map (\<lambda>e. (e_id e, (e_deadline e, e_callback e))) (tq_queue b))"
    then obtain e where "e \<in> set (tq_queue b)" "tid = e_id e" "dl = e_deadline e" "cb = e_callback e" by auto
    moreover from this have "\<lparr>e_deadline = dl, e_id = tid, e_callback = cb\<rparr> = e" by simp
    ultimately show "\<lparr>e_deadline = dl, e_id = tid, e_callback = cb\<rparr> \<in> set (tq_queue b)" by (simp only:)
  qed force
  finally show ?thesis by (simp add: thread_pending_def)
qed

lemma thread_pending_None: "backend_inv b \<Longrightarrow> thread_pending b tid = None \<longleftrightarrow> tid \<notin> tq_active b"
  by (auto simp: thread_pending_def backend_inv_def map_of_eq_None_iff image_iff)

interpretation thread_timer: timer_backend ThreadScheduleAt ThreadCancel thread_pending backend_inv thread_room
proof unfold_locales
  fix b :: "'a thread_backend" and dl cb i
  assume b: "backend_inv b"
  have "tq_nextId b \<notin> tq_active b" using b by (auto simp: backend_inv_def dest!: subsetD)
  then show "thread_room b \<Longrightarrow> fst (ThreadScheduleAt dl cb b) \<noteq> InvalidTimerId \<and>
      thread_pending b (fst (ThreadScheduleAt dl cb b)) = None"
    using b by (simp add: thread_pending_None) (simp add: ThreadScheduleAt_def backend_inv_def Let_def)
  show "thread_room b \<Longrightarrow> thread_pending (snd (ThreadScheduleAt dl cb b)) =
      (thread_pending b)(fst (ThreadScheduleAt dl cb b) \<mapsto> (dl, cb))"
    by (auto simp: thread_pending_def ThreadScheduleAt_def Let_def fun_eq_iff)
  show "thread_room b \<Longrightarrow> backend_inv (snd (ThreadScheduleAt dl cb b))"
    using ThreadScheduleAt_inv(1)[OF b] unfolding thread_room_def by (metis prod.collapse)
  show "fst (ThreadCancel i b) \<longleftrightarrow> thread_pending b i \<noteq> None"
    using b by (simp add: thread_pending_None ThreadCancel_def)
  show "thread_pending (snd (ThreadCancel i b)) = (thread_pending b)(i := None)"
    by (auto simp: thread_pending_def ThreadCancel_def fun_eq_iff)
  show "backend_inv (snd (ThreadCancel i b))"
    using b by (auto simp: backend_inv_def ThreadCancel_def)
qed

lemma thread_fires_effect:
  assumes "backend_inv b" and "thread_fires b tid dl cb b'"
  shows "thread_pending b tid = Some (dl, cb)" and "thread_pending b' = (thread_pending b)(tid := None)"
    and "backend_inv b'"
proof -
  let ?e = "\<lparr>e_deadline = dl, e_id = tid, e_callback = cb\<rparr>"
  have e: "?e \<in> set (tq_queue b)" "tid \<in> tq_active b"
    and b': "b' = b\<lparr>tq_queue := remove1 ?e (tq_queue b), tq_active := tq_active b - {tid}, tq_inflightId := InvalidTimerId\<rparr>"
    using assms(2) by (auto simp: thread_fires_def ThreadPop_def Let_def split: if_splits)
  have d: "distinct (map e_id (tq_queue b))" "distinct (tq_queue b)" "inj_on e_id (set (tq_queue b))"
    using assms(1) by (auto simp: backend_inv_def distinct_map)
  have act: "tq_active b - {tid} \<subseteq> e_id ` (set (tq_queue b) - {?e})"
    using assms(1) subset_image_remove[of "tq_active b" e_id "set (tq_queue b)" ?e] by (simp add: backend_inv_def)
  show "thread_pending b tid = Some (dl, cb)" using e by (simp add: thread_pending_Some[OF assms(1)])
  show inv: "backend_inv b'"
    using assms(1) d act unfolding b' by (auto simp: backend_inv_def distinct_map inj_on_def)
  show "thread_pending b' = (thread_pending b)(tid := None)"
  proof
    fix t
    show "thread_pending b' t = ((thread_pending b)(tid := None)) t"
    proof (cases "t = tid")
      case False
      then have "thread_pending b' t = Some (x, y) \<longleftrightarrow> thread_pending b t = Some (x, y)" for x y
        using d unfolding thread_pending_Some[OF inv] thread_pending_Some[OF assms(1)] by (auto simp: b')
      then have "thread_pending b' t = thread_pending b t"
        by (metis not_None_eq surj_pair)
      with False show ?thesis by simp
    qed (simp add: thread_pending_def b')
  qed
qed

interpretation thread_exec: loop_env fifo mset ThreadBackend thread_pending backend_inv thread_room thread_fires
  using thread_timer.schedule_fresh thread_timer.schedule_pending thread_timer.schedule_invar
    thread_timer.cancel_result thread_timer.cancel_pending thread_timer.cancel_invar thread_fires_effect
  by unfold_locales (simp_all add: ThreadBackend_def)


lemma self_cancel_stuck:
  assumes "tt_step s s'" and "tm_pc s = InCancel e (e_id e)" and "tq_inflightId (tm_backend s) = e_id e"
  shows "tm_pc s' = InCancel e (e_id e) \<and> tq_inflightId (tm_backend s') = e_id e"
  using assms by (cases rule: tt_stepE) (auto simp: ThreadScheduleAt_def ThreadCancel_def Let_def)

section \<open>A concrete run\<close>

abbreviation sample_entry :: "ref entry" where
  "sample_entry \<equiv> \<lparr>e_deadline = 0, e_id = 1, e_callback = 0\<rparr>"

abbreviation sample_tm :: "ref entry list \<Rightarrow> u64 set \<Rightarrow> u64 \<Rightarrow> u64 \<Rightarrow> ref tpc \<Rightarrow> tevent list \<Rightarrow> ref tmachine" where
  "sample_tm q act inflight next pc es \<equiv>
     \<lparr>tm_backend = \<lparr>tq_queue = q, tq_active = act, tq_inflightId = inflight, tq_nextId = next\<rparr>,
      tm_pc = pc, tm_dtor = NotDestroying, tm_now = 0, tm_log = es\<rparr>"

lemma sample_blocked: "rtranclp tt_step (new_tmachine 0) (sample_tm [] {} 0 1 Blocked [])"
proof -
  have 1: "tt_step (new_tmachine 0) (sample_tm [] {} 0 1 AboutToWait [])"
    using tt_step.wait_decide[of "new_tmachine 0 :: ref tmachine"]
    by (simp add: new_tmachine_def new_thread_backend_def stopping_def)
  have 2: "tt_step (sample_tm [] {} 0 1 AboutToWait []) (sample_tm [] {} 0 1 Blocked [])"
    using tt_step.wait_block[of "sample_tm [] {} 0 1 AboutToWait []"] by simp
  show ?thesis by (rule converse_rtranclp_into_rtranclp[OF 1 r_into_rtranclp[of tt_step, OF 2]])
qed

lemma sample_scheduled: "rtranclp tt_step (new_tmachine 0) (sample_tm [sample_entry] {1} 0 2 Woken [EvSchedule 1 0])"
proof -
  have "tt_step (sample_tm [] {} 0 1 Blocked []) (sample_tm [sample_entry] {1} 0 2 Woken [EvSchedule 1 0])"
    using tt_step.schedule[of "sample_tm [] {} 0 1 Blocked []" 0 0]
    by (simp add: ThreadScheduleAt_def word_less_alt unsigned_minus_1_eq_mask mask_eq_exp_minus_1)
  with sample_blocked show ?thesis by (rule rtranclp.rtrancl_into_rtrancl)
qed

lemma sample_cancelled:
  "rtranclp tt_step (new_tmachine 0) (sample_tm [sample_entry] {} 0 2 Woken [EvSchedule 1 0, EvCancel 1 True])"
proof -
  have "tt_step (sample_tm [sample_entry] {1} 0 2 Woken [EvSchedule 1 0])
      (sample_tm [sample_entry] {} 0 2 Woken [EvSchedule 1 0, EvCancel 1 True])"
    using tt_step.cancel[of "sample_tm [sample_entry] {1} 0 2 Woken [EvSchedule 1 0]" 1]
    by (simp add: ThreadCancel_def issued_def)
  with sample_scheduled show ?thesis by (rule rtranclp.rtrancl_into_rtrancl)
qed

lemma sample_in_callback:
  "rtranclp tt_step (new_tmachine 0) (sample_tm [] {} 1 2 (InCallback sample_entry) [EvSchedule 1 0, EvFire 1 0])"
proof -
  let ?m = "\<lambda>pc. sample_tm [sample_entry] {1} 0 2 pc [EvSchedule 1 0]"
  have top: "is_top sample_entry [sample_entry]" by (simp add: is_top_def)
  have 1: "tt_step (?m Woken) (?m AtLoop)" using tt_step.wait_wake[of "?m Woken"] by simp
  have 2: "tt_step (?m AtLoop) (?m (AboutToWaitUntil 0))"
    using tt_step.until_decide[of "?m AtLoop" sample_entry] top by (simp add: stopping_def)
  have 3: "tt_step (?m (AboutToWaitUntil 0)) (?m (BlockedUntil 0))"
    using tt_step.until_block[of "?m (AboutToWaitUntil 0)" 0] by simp
  have 4: "tt_step (?m (BlockedUntil 0)) (?m Draining)"
    using tt_step.until_timeout[of "?m (BlockedUntil 0)" 0] by simp
  have 5: "tt_step (?m Draining) (sample_tm [] {} 1 2 (InCallback sample_entry) [EvSchedule 1 0, EvFire 1 0])"
    using tt_step.drain_pop[of "?m Draining" sample_entry] top by (simp add: ThreadPop_def)
  show ?thesis
    by (rule rtranclp_trans[OF sample_scheduled converse_rtranclp_into_rtranclp[OF 1 converse_rtranclp_into_rtranclp[OF 2
        converse_rtranclp_into_rtranclp[OF 3 converse_rtranclp_into_rtranclp[OF 4 r_into_rtranclp[of tt_step, OF 5]]]]]])
qed

section \<open>Properties\<close>

text \<open>
  C14. Whatever the threads do, each id fires at most once, only after it was issued and not before its
  deadline, and never when a \<open>Cancel\<close> of it has returned true.
\<close>

theorem thread_timer_fires_once_and_on_time:
  assumes "rtranclp tt_step (new_tmachine now) s"
  shows "distinct (fired (tm_log s)) \<and>
     (\<forall>tid t. EvFire tid t \<in> set (tm_log s) \<longrightarrow>
        (\<exists>dl\<le>t. EvSchedule tid dl \<in> set (tm_log s)) \<and> EvCancel tid True \<notin> set (tm_log s))"
proof -
  have "log_inv (tm_backend s) (tm_log s)" using tt_reachable_inv[OF assms] by (simp add: tt_inv_def)
  then show ?thesis unfolding log_inv_def by (auto simp: fired_iff)
qed

theorem thread_timer_fires_once_and_on_time_witness:
  "let s = sample_tm [] {} 1 2 (InCallback sample_entry) [EvSchedule 1 0, EvFire 1 0] in
   rtranclp tt_step (new_tmachine 0) s \<and> EvFire 1 0 \<in> set (tm_log s) \<and>
   (\<exists>dl\<le>0. EvSchedule 1 dl \<in> set (tm_log s)) \<and> EvCancel 1 True \<notin> set (tm_log s)"
  using thread_timer_fires_once_and_on_time[OF sample_in_callback] sample_in_callback by simp

text \<open>
  C9. After \<open>Cancel(id)\<close> has returned, true or false, the callback of \<open>id\<close> is not executing and does not start
  any more, so the caller may destroy what the callback refers to.
\<close>

theorem thread_cancel_silences_callback:
  assumes "rtranclp tt_step (new_tmachine now) s" and "tm_log s = xs @ EvCancel tid r # ys"
  shows "tid \<notin> set (fired ys) \<and> tq_inflightId (tm_backend s) \<noteq> tid \<and>
    (\<forall>e k. tm_pc s \<in> {InCallback e, InCancel e k} \<longrightarrow> e_id e \<noteq> tid)"
proof -
  have inv: "tt_inv s" by (rule tt_reachable_inv[OF assms(1)])
  have "tid \<in> set (cancelled (tm_log s))" by (auto simp: assms(2))
  then have i: "tq_inflightId (tm_backend s) \<noteq> tid" using inv by (auto simp: tt_inv_def log_inv_def)
  then have "e_id e \<noteq> tid" if "tm_pc s \<in> {InCallback e, InCancel e k}" for e k
    using inv that by (auto simp: tt_inv_def)
  moreover have "tid \<notin> set (fired ys)"
    using tt_reachable_quiet[OF assms(1)] assms(2) unfolding quiet_after_cancel_def by blast
  ultimately show ?thesis using i by blast
qed

theorem thread_cancel_silences_callback_witness:
  "let s = sample_tm [sample_entry] {} 0 2 Woken [EvSchedule 1 0, EvCancel 1 True] in
   rtranclp tt_step (new_tmachine 0) s \<and> tq_inflightId (tm_backend s) \<noteq> 1"
  using thread_cancel_silences_callback[OF sample_cancelled, of "[EvSchedule 1 0]" 1 True "[]"] sample_cancelled by simp



text \<open>
  The destructor can hang: it sets \<open>_stopping\<close> and notifies without taking \<open>_mutex\<close>, so when it runs between
  the timer thread's check of the wait predicate and its going to sleep, the notification is lost. There is a
  reachable state in which the destructor has notified and joins, and from which the thread sleeps forever.
\<close>

lemma thread_timer_destructor_can_hang:
  "\<exists>s. rtranclp tt_step (new_tmachine now) s \<and> tm_dtor s = NotifiedAll \<and>
     {s'. rtranclp tt_step s s'} \<subseteq> {s'. tm_pc s' = Blocked}"
proof -
  let ?s = "(new_tmachine now)\<lparr>tm_pc := Blocked, tm_dtor := NotifiedAll\<rparr>"
  let ?s1 = "(new_tmachine now)\<lparr>tm_pc := AboutToWait\<rparr>"
  let ?s2 = "?s1\<lparr>tm_dtor := StoredStopping\<rparr>"
  let ?s3 = "?s2\<lparr>tm_dtor := NotifiedAll, tm_pc := notify (tm_pc ?s2)\<rparr>"
  have 1: "tt_step (new_tmachine now) ?s1"
    by (rule wait_decide) (simp_all add: new_tmachine_def new_thread_backend_def stopping_def)
  have 2: "tt_step ?s1 ?s2" by (rule dtor_store) (simp add: new_tmachine_def)
  have 3: "tt_step ?s2 ?s3" by (rule dtor_notify) simp
  have 4: "tt_step ?s3 (?s3\<lparr>tm_pc := Blocked\<rparr>)" by (rule wait_block) simp
  have eq: "?s3\<lparr>tm_pc := Blocked\<rparr> = ?s" by (simp add: new_tmachine_def)
  have "rtranclp tt_step (new_tmachine now) (?s3\<lparr>tm_pc := Blocked\<rparr>)"
    by (rule converse_rtranclp_into_rtranclp[OF 1 converse_rtranclp_into_rtranclp[OF 2
          converse_rtranclp_into_rtranclp[OF 3 r_into_rtranclp[of tt_step, OF 4]]]])
  then have "rtranclp tt_step (new_tmachine now) ?s" unfolding eq .
  moreover have "tm_pc s' = Blocked \<and> tm_dtor s' = NotifiedAll" if "rtranclp tt_step ?s s'" for s' :: "'a tmachine"
    using that by (induction rule: rtranclp_induct) (auto elim: tt_stepE)
  ultimately show ?thesis by (intro exI[of _ ?s]) auto
qed


text \<open>
  A callback that cancels its own id deadlocks, although the comment at the invocation says a callback may
  call \<open>Cancel\<close>: \<open>Cancel\<close> waits until \<open>_inflightId\<close> differs from the id, and only the return of this very
  callback changes it.
\<close>

lemma callback_cancelling_itself_deadlocks:
  assumes "rtranclp tt_step (new_tmachine now) s" and "tm_pc s = InCallback e"
  shows "\<exists>s1. tt_step s s1 \<and> {s'. rtranclp tt_step s1 s'} \<subseteq> {s'. tm_pc s' = InCancel e (e_id e)}"
proof -
  let ?s1 = "s\<lparr>tm_pc := InCancel e (e_id e)\<rparr>"
  have inv: "issued (e_id e) (tm_log s)" "tq_inflightId (tm_backend s) = e_id e"
    using tt_reachable_inv[OF assms(1)] assms(2) by (auto simp: tt_inv_def)
  have "tt_step s ?s1" by (rule callback_cancels[OF assms(2) inv(1)])
  moreover have "tm_pc s' = InCancel e (e_id e) \<and> tq_inflightId (tm_backend s') = e_id e"
    if "rtranclp tt_step ?s1 s'" for s'
    using that
  proof (induction rule: rtranclp_induct)
    case base
    then show ?case using inv(2) by simp
  next
    case (step a b)
    then show ?case using self_cancel_stuck by blast
  qed
  ultimately show ?thesis by blast
qed


lemma callback_cancelling_itself_deadlocks_witness:
  "\<exists>s1. tt_step (sample_tm [] {} 1 2 (InCallback sample_entry) [EvSchedule 1 0, EvFire 1 0]) s1 \<and>
     {s'. rtranclp tt_step s1 s'} \<subseteq> {s'. tm_pc s' = InCancel sample_entry 1}"
  using callback_cancelling_itself_deadlocks[OF sample_in_callback, of sample_entry] by simp




end
