(* ===== verification/Asio_Domain.thy ===== *)
theory Asio_Domain
  imports App_Runner
begin

text \<open>
  \<open>pkg/asio/Asio\<close>: \<open>AsioPoller\<close>, a handler that polls an \<open>io_context\<close> once per frame, and \<open>AsioDomain\<close>,
  which runs a coroutine \<open>awaitable<int>\<close> on it.

  Boost.Asio is third-party code: the record \<open>io_ops\<close> is its interface as the code uses it. \<open>io_co_spawn\<close>
  launches the main coroutine, \<open>io_emit\<close> emits the cancellation signal, and \<open>io_poll\<close> runs the ready handlers
  and returns, beside the new state and their number, the calls of the completion handler of \<open>co_spawn\<close>
  that were among them (an exception, or the coroutine's exit code). \<open>std::terminate\<close> is \<open>None\<close>.
\<close>

section \<open>State and operations\<close>

datatype coro_result = CoroException | CoroReturned int

record 'io io_ops =
  io_co_spawn :: "'io \<Rightarrow> 'io"
  io_emit :: "'io \<Rightarrow> 'io"
  io_stopped :: "'io \<Rightarrow> bool"
  io_poll :: "'io \<Rightarrow> nat \<times> coro_result list \<times> 'io"

record 'io asio =
  a_io :: 'io
  a_cancelled :: bool
  a_runner :: "unit rstate"
  a_service :: "ref option"

definition new_AsioPoller :: "'io \<Rightarrow> unit rstate \<Rightarrow> 'io asio" where
  "new_AsioPoller io r = \<lparr>a_io = io, a_cancelled = False, a_runner = r, a_service = None\<rparr>"

definition new_AsioDomain :: "ref \<Rightarrow> 'io \<Rightarrow> unit rstate \<Rightarrow> 'io asio" where
  "new_AsioDomain self io r = (new_AsioPoller io r)\<lparr>a_service := Some self\<rparr>"

definition FromExecutor :: "'io asio \<Rightarrow> ref option" where
  "FromExecutor w = (case a_service w of None \<Rightarrow> None | Some d \<Rightarrow> Some d)"

definition AsioCompleted ::
  "(int \<Rightarrow> unit rstate \<Rightarrow> unit rstate) \<Rightarrow> coro_result \<Rightarrow> 'io asio \<Rightarrow> 'io asio option" where
  "AsioCompleted exit res w =
     (case res of
        CoroException \<Rightarrow> None
      | CoroReturned exitCode \<Rightarrow>
          let code = (if a_cancelled w then ExitCode_Cancelled else exitCode)
          in if Exiting (a_runner w) = None then Some (w\<lparr>a_runner := exit code (a_runner w)\<rparr>) else Some w)"

fun completions ::
  "(int \<Rightarrow> unit rstate \<Rightarrow> unit rstate) \<Rightarrow> coro_result list \<Rightarrow> 'io asio \<Rightarrow> 'io asio option" where
  "completions exit [] w = Some w"
| "completions exit (r # rs) w =
     (case AsioCompleted exit r w of None \<Rightarrow> None | Some w1 \<Rightarrow> completions exit rs w1)"

definition poll ::
  "'io io_ops \<Rightarrow> (int \<Rightarrow> unit rstate \<Rightarrow> unit rstate) \<Rightarrow> 'io asio \<Rightarrow> 'io asio option" where
  "poll io exit w = (case io_poll io (a_io w) of (n, rs, s) \<Rightarrow> completions exit rs (w\<lparr>a_io := s\<rparr>))"

definition AsioUpdate ::
  "'io io_ops \<Rightarrow> (int \<Rightarrow> unit rstate \<Rightarrow> unit rstate) \<Rightarrow> UpdateCtx \<Rightarrow> 'io asio \<Rightarrow> 'io asio option" where
  "AsioUpdate io exit ctx w = poll io exit w"

definition AsioStart :: "'io io_ops \<Rightarrow> 'io asio \<Rightarrow> bool \<times> 'io asio" where
  "AsioStart io w = (True, w\<lparr>a_io := io_co_spawn io (a_io w)\<rparr>)"

definition AsioStop ::
  "'io io_ops \<Rightarrow> (int \<Rightarrow> unit rstate \<Rightarrow> unit rstate) \<Rightarrow> 'io asio \<Rightarrow> 'io asio option" where
  "AsioStop io exit w =
     (let w1 = w\<lparr>a_cancelled := True\<rparr>;
          w2 = w1\<lparr>a_io := io_emit io (a_io w1)\<rparr>
      in if \<not> io_stopped io (a_io w2) then poll io exit w2 else Some w2)"

section \<open>Which exit code the runner gets\<close>

text \<open>
  The first completion wins: the runner's code never changes once there is one. Before \<open>Stop\<close> it is the
  coroutine's own code, from \<open>Stop\<close> on it is \<open>Cancelled\<close>.
\<close>

definition first_code :: "bool \<Rightarrow> int option \<Rightarrow> coro_result list \<Rightarrow> int option" where
  "first_code cancelled old rs =
     (case old of
        Some c \<Rightarrow> Some c
      | None \<Rightarrow>
          (case rs of
             CoroReturned c # _ \<Rightarrow> Some (if cancelled then ExitCode_Cancelled else c)
           | _ \<Rightarrow> None))"

lemma completions_code:
  assumes exit: "\<And>c r. rs_exitCode (exit c r) = Some c"
    and "completions exit rs w = Some w'"
  shows "rs_exitCode (a_runner w') = first_code (a_cancelled w) (rs_exitCode (a_runner w)) rs \<and>
    a_cancelled w' = a_cancelled w \<and> a_io w' = a_io w"
  using assms(2)
proof (induction rs arbitrary: w)
  case Nil
  then show ?case by (auto simp: first_code_def split: option.splits)
next
  case (Cons r rs)
  then obtain c where c: "r = CoroReturned c"
    by (cases r) (auto simp: AsioCompleted_def)
  let ?w1 = "if Exiting (a_runner w) = None
    then w\<lparr>a_runner := exit (if a_cancelled w then ExitCode_Cancelled else c) (a_runner w)\<rparr> else w"
  have "completions exit rs ?w1 = Some w'"
    using Cons.prems c by (auto simp: AsioCompleted_def Let_def split: if_splits)
  from Cons.IH[OF this] show ?case
    using c exit by (auto simp: first_code_def Exiting_def GetExitCode_def split: option.splits)
qed

lemma poll_code:
  assumes "\<And>c r. rs_exitCode (exit c r) = Some c" and "poll io exit w = Some w'"
    and "io_poll io (a_io w) = (n, rs, s)"
  shows "rs_exitCode (a_runner w') = first_code (a_cancelled w) (rs_exitCode (a_runner w)) rs \<and>
    a_cancelled w' = a_cancelled w \<and> a_io w' = s"
  using completions_code[of exit rs "w\<lparr>a_io := s\<rparr>" w', OF assms(1)] assms(2,3)
  by (simp add: poll_def)


text \<open>\<open>n\<close> frames of the domain, and what the polls of \<open>n\<close> frames yield.\<close>

fun asio_frames ::
  "'io io_ops \<Rightarrow> (int \<Rightarrow> unit rstate \<Rightarrow> unit rstate) \<Rightarrow> UpdateCtx list \<Rightarrow> 'io asio \<Rightarrow> 'io asio option" where
  "asio_frames io exit [] w = Some w"
| "asio_frames io exit (ctx # cs) w =
     (case AsioUpdate io exit ctx w of None \<Rightarrow> None | Some w1 \<Rightarrow> asio_frames io exit cs w1)"

fun polled :: "'io io_ops \<Rightarrow> nat \<Rightarrow> 'io \<Rightarrow> coro_result list \<times> 'io" where
  "polled io 0 s = ([], s)"
| "polled io (Suc n) s =
     (let (_, rs, s1) = io_poll io s; (rs', s2) = polled io n s1 in (rs @ rs', s2))"

lemma first_code_append:
  assumes "\<forall>r\<in>set rs. r \<noteq> CoroException"
  shows "first_code b (first_code b old rs) rs' = first_code b old (rs @ rs')"
  using assms by (cases rs) (auto simp: first_code_def split: option.splits coro_result.splits list.splits)

lemma completions_no_exception: "completions exit rs w = Some w' \<Longrightarrow> \<forall>r\<in>set rs. r \<noteq> CoroException"
  by (induction rs arbitrary: w) (auto simp: AsioCompleted_def split: option.splits)

lemma asio_frames_code:
  assumes exit: "\<And>c r. rs_exitCode (exit c r) = Some c"
    and "asio_frames io exit cs w = Some w'" and "polled io (length cs) (a_io w) = (rs, s)"
  shows "rs_exitCode (a_runner w') = first_code (a_cancelled w) (rs_exitCode (a_runner w)) rs \<and>
    a_cancelled w' = a_cancelled w \<and> a_io w' = s"
  using assms(2,3)
proof (induction cs arbitrary: w rs)
  case Nil
  then show ?case by (auto simp: first_code_def split: option.splits)
next
  case (Cons ctx cs)
  obtain n rs1 s1 where p: "io_poll io (a_io w) = (n, rs1, s1)" by (cases "io_poll io (a_io w)") auto
  from Cons.prems(1) obtain w1 where w1: "poll io exit w = Some w1" "asio_frames io exit cs w1 = Some w'"
    by (auto simp: AsioUpdate_def split: option.splits)
  obtain rs2 where rs2: "polled io (length cs) s1 = (rs2, s)" "rs = rs1 @ rs2"
    using Cons.prems(2) p by (auto simp: split: prod.splits)
  have c1: "rs_exitCode (a_runner w1) = first_code (a_cancelled w) (rs_exitCode (a_runner w)) rs1"
      "a_cancelled w1 = a_cancelled w" "a_io w1 = s1"
    using poll_code[OF exit w1(1) p] by auto
  have "\<forall>r\<in>set rs1. r \<noteq> CoroException"
    using w1(1) p completions_no_exception by (simp add: poll_def)
  with Cons.IH[OF w1(2), of rs2] rs2 c1 first_code_append[of rs1 "a_cancelled w" "rs_exitCode (a_runner w)" rs2]
  show ?case by simp
qed

section \<open>Properties\<close>

text \<open>
  The exit code of an \<open>AsioDomain\<close>, over any number of frames followed by \<open>Stop\<close>: a code the runner
  already had is kept; otherwise the first completion of the coroutine decides, with its own exit code
  when it was polled in a frame and with \<open>Cancelled\<close> when it was polled in \<open>Stop\<close>; and with no completion
  there is no code. In all cases \<open>Stop\<close> has emitted the cancellation before polling.
\<close>

lemma asio_domain_exit_code:
  assumes "\<And>c r. rs_exitCode (exit c r) = Some c" and "\<not> a_cancelled w"
    and "asio_frames io exit cs w = Some w1" and "AsioStop io exit w1 = Some w2"
    and "polled io (length cs) (a_io w) = (rs, s)"
    and "\<not> io_stopped io (io_emit io s)" and "io_poll io (io_emit io s) = (n, rs', s')"
  shows "rs_exitCode (a_runner w2) =
    first_code True (first_code False (rs_exitCode (a_runner w)) rs) rs'"
proof -
  have w1: "rs_exitCode (a_runner w1) = first_code False (rs_exitCode (a_runner w)) rs"
      "a_io w1 = s"
    using asio_frames_code[OF assms(1,3,5)] assms(2) by auto
  let ?w = "w1\<lparr>a_cancelled := True, a_io := io_emit io s\<rparr>"
  have "poll io exit ?w = Some w2"
    using assms(4,6) w1(2) by (simp add: AsioStop_def Let_def split: if_splits)
  from poll_code[OF assms(1) this, of n rs' s'] w1(1) assms(7) show ?thesis by simp
qed

lemma asio_domain_exit_code_witness:
  "let io = \<lparr>io_co_spawn = id, io_emit = Suc, io_stopped = (\<lambda>_. False),
         io_poll = (\<lambda>s. (0, if s = 1 then [CoroReturned 5] else [], s))\<rparr>;
       w = new_AsioDomain 0 0 \<lparr>rs_exitCode = None, rs_running = True, rs_world = ()\<rparr>
   in \<exists>w1 w2. asio_frames io TightExit [new_UpdateCtx 0] w = Some w1 \<and> AsioStop io TightExit w1 = Some w2 \<and>
      rs_exitCode (a_runner w2) = Some 130"
proof -
  let ?io = "\<lparr>io_co_spawn = id, io_emit = Suc, io_stopped = (\<lambda>_. False),
         io_poll = (\<lambda>s. (0, if s = 1 then [CoroReturned 5] else [], s))\<rparr>"
  let ?w = "new_AsioDomain 0 (0 :: nat) \<lparr>rs_exitCode = None, rs_running = True, rs_world = ()\<rparr>"
  obtain w2 where run: "asio_frames ?io TightExit [new_UpdateCtx 0] ?w = Some ?w" "AsioStop ?io TightExit ?w = Some w2"
    by (auto simp: AsioUpdate_def poll_def AsioStop_def AsioCompleted_def new_AsioDomain_def new_AsioPoller_def
        Exiting_def GetExitCode_def)
  have "rs_exitCode (a_runner w2) = first_code True (first_code False (rs_exitCode (a_runner ?w)) []) [CoroReturned 5]"
    by (rule asio_domain_exit_code[where s = 0 and exit = TightExit, OF _ _ run])
       (simp_all add: TightExit_def SetExitCode_def new_AsioDomain_def new_AsioPoller_def)
  with run show ?thesis
    by (auto simp: first_code_def new_AsioDomain_def new_AsioPoller_def)
qed

end
