(* ===== verification/Rtt_Core.thy ===== *)
theory Rtt_Core
  imports Prelude "HOL-Library.Char_ord" "HOL-Library.List_Lexorder"
begin

text \<open>
  \<open>pkg/rtt/Rtt\<close>: what all transports share. A link handler is the pair of callbacks the application returns
  from \<open>OnLink\<close>; the model keeps which of the two are set. \<open>json_api\<close> is the interface of the JSON library as
  the signalling code uses it: \<open>None\<close> from \<open>j_parse\<close> is a discarded parse, from \<open>j_value\<close> and \<open>j_get\<close> an
  exception, and from \<open>j_find\<close> an absent member.
\<close>

section \<open>Errors and handlers\<close>

datatype Error = ConnectionRefused | Timeout | AddressInvalid | TransportClosed | Unknown

fun ErrorToString :: "Error \<Rightarrow> string" where
  "ErrorToString ConnectionRefused = ''ConnectionRefused''"
| "ErrorToString Timeout = ''Timeout''"
| "ErrorToString AddressInvalid = ''AddressInvalid''"
| "ErrorToString TransportClosed = ''TransportClosed''"
| "ErrorToString Unknown = ''Unknown''"

record link_handler =
  lh_onReceived :: bool
  lh_onDisconnected :: bool

definition no_handler :: link_handler where
  "no_handler = \<lparr>lh_onReceived = False, lh_onDisconnected = False\<rparr>"

section \<open>Peer ids\<close>

text \<open>
  \<open>PeerId\<close> with its defaulted \<open>operator<=>\<close>: the ids compare as their texts do, by the codes of their characters from the left. The theories below use the texts
  themselves, to which a \<open>PeerId\<close> converts.
\<close>

datatype PeerId = PeerId (pid_value: string)

instantiation PeerId :: linorder
begin

definition less_eq_PeerId :: "PeerId \<Rightarrow> PeerId \<Rightarrow> bool" where
  "less_eq_PeerId a b \<longleftrightarrow> pid_value a \<le> pid_value b"

definition less_PeerId :: "PeerId \<Rightarrow> PeerId \<Rightarrow> bool" where
  "less_PeerId a b \<longleftrightarrow> pid_value a < pid_value b"

instance
  by standard (auto simp: less_eq_PeerId_def less_PeerId_def less_le_not_le intro: PeerId.expand)

end

lemma PeerId_order:
  "PeerId (s @ t) < PeerId (s @ u) \<longleftrightarrow> PeerId t < PeerId u"
  "PeerId (c # t) < PeerId (d # u) \<longleftrightarrow> (of_char c < (of_char d :: nat)) \<or> c = d \<and> PeerId t < PeerId u"
  "PeerId [] < PeerId (c # t)"
proof -
  show "PeerId (s @ t) < PeerId (s @ u) \<longleftrightarrow> PeerId t < PeerId u"
    by (induction s) (auto simp: less_PeerId_def)
qed (auto simp: less_PeerId_def less_char_def)

section \<open>JSON\<close>

record 'j json_api =
  j_parse :: "string \<Rightarrow> 'j option"
  j_dump :: "'j \<Rightarrow> string"
  j_object :: "(string \<times> string) list \<Rightarrow> 'j"
  j_value :: "'j \<Rightarrow> string \<Rightarrow> string \<Rightarrow> string option"
  j_find :: "'j \<Rightarrow> string \<Rightarrow> 'j option"
  j_get :: "'j \<Rightarrow> string option"

end
