(* ===== verification/Udp_Transport.thy ===== *)
theory Udp_Transport
  imports Rtt_Core
begin

text \<open>
  \<open>pkg/rtt/udp/Udp\<close>: the UDP link in its two modes, the server that demultiplexes one socket into links, and
  the client.

  Links are numbered and live in a store; the state also records the calls made to acceptors and handlers
  and the datagrams handed to sockets. Sockets, resolution and executors are Boost.Asio: what they report
  (error codes, resolved endpoints, received datagrams) are arguments. What the application does inside
  \<open>OnLink\<close> and the callbacks of a link handler are the parameters \<open>onLink\<close>, \<open>onReceived\<close> and \<open>onDisconnected\<close>; an application may extend the
  state by its own.
\<close>

section \<open>UdpCommon\<close>

record endpoint =
  ep_address :: string
  ep_v6 :: bool
  ep_port :: u16

definition EndpointToPeerId :: "endpoint \<Rightarrow> string" where
  "EndpointToPeerId ep = ep_address ep @ '':'' @ digits (unat (ep_port ep))"

datatype asio_error = connection_refused | timed_out | host_not_found | host_not_found_try_again | other_error int

definition MapAsioError :: "asio_error \<Rightarrow> Error" where
  "MapAsioError ec =
     (if ec = connection_refused then ConnectionRefused
      else if ec = timed_out then Timeout
      else if ec = host_not_found \<or> ec = host_not_found_try_again then AddressInvalid
      else Unknown)"

section \<open>UdpLink\<close>

text \<open>
  \<open>ul_ownedSocket\<close> is the connected socket, with its \<open>is_open\<close>, or none in shared mode; \<open>ul_receiving\<close> says
  that an \<open>async_receive\<close> is outstanding on it.
\<close>

record udp_link =
  ul_ownedSocket :: "bool option"
  ul_sharedSocket :: bool
  ul_remoteEndpoint :: endpoint
  ul_localId :: string
  ul_remoteId :: string
  ul_maxDatagramSize :: nat
  ul_removeFromDispatch :: bool
  ul_handler :: link_handler
  ul_closed :: bool
  ul_receiving :: bool

datatype udp_call =
    CallOnLink ref
  | CallOnLinkError Error
  | CallReceived ref "byte list"
  | CallDisconnected ref

record listen =
  ls_links :: "endpoint \<rightharpoonup> ref"
  ls_store :: "ref \<Rightarrow> udp_link"
  ls_next :: ref
  ls_maxDatagramSize :: nat
  ls_localId :: string
  ls_stopped :: bool
  ls_receiving :: bool
  ls_socketOpen :: bool
  ls_calls :: "udp_call list"
  ls_sent :: "(ref \<times> endpoint option \<times> byte list) list"

definition no_endpoint :: endpoint where
  "no_endpoint = \<lparr>ep_address = ''0.0.0.0'', ep_v6 = False, ep_port = 0\<rparr>"

definition UdpLink_connected :: "string \<Rightarrow> string \<Rightarrow> nat \<Rightarrow> udp_link" where
  "UdpLink_connected localId remoteId maxDatagramSize =
     \<lparr>ul_ownedSocket = Some True, ul_sharedSocket = False, ul_remoteEndpoint = no_endpoint, ul_localId = localId,
      ul_remoteId = remoteId, ul_maxDatagramSize = maxDatagramSize, ul_removeFromDispatch = False,
      ul_handler = no_handler, ul_closed = False, ul_receiving = False\<rparr>"

definition UdpLink_shared :: "endpoint \<Rightarrow> string \<Rightarrow> string \<Rightarrow> nat \<Rightarrow> udp_link" where
  "UdpLink_shared remoteEndpoint localId remoteId maxDatagramSize =
     \<lparr>ul_ownedSocket = None, ul_sharedSocket = True, ul_remoteEndpoint = remoteEndpoint, ul_localId = localId,
      ul_remoteId = remoteId, ul_maxDatagramSize = maxDatagramSize, ul_removeFromDispatch = True,
      ul_handler = no_handler, ul_closed = False, ul_receiving = False\<rparr>"

definition set_link :: "ref \<Rightarrow> (udp_link \<Rightarrow> udp_link) \<Rightarrow> 'z listen_scheme \<Rightarrow> 'z listen_scheme" where
  "set_link k f w = w\<lparr>ls_store := (ls_store w)(k := f (ls_store w k))\<rparr>"

definition log_call :: "udp_call \<Rightarrow> 'z listen_scheme \<Rightarrow> 'z listen_scheme" where
  "log_call c w = w\<lparr>ls_calls := ls_calls w @ [c]\<rparr>"

text \<open>\<open>std::vector::resize\<close> of the send buffer: cut, or extended by zero bytes.\<close>

definition resize :: "nat \<Rightarrow> byte list \<Rightarrow> byte list" where
  "resize n xs = take n xs @ replicate (n - length xs) 0"

definition UdpLink_Send :: "ref \<Rightarrow> (byte list \<Rightarrow> nat \<times> byte list) \<Rightarrow> 'z listen_scheme \<Rightarrow> 'z listen_scheme" where
  "UdpLink_Send k writer w =
     (let l = ls_store w k in
      if ul_closed l then w
      else
        let (bytesWritten, buf) = writer (replicate (ul_maxDatagramSize l) 0) in
        if bytesWritten = 0 then w
        else if ul_ownedSocket l \<noteq> None then w\<lparr>ls_sent := ls_sent w @ [(k, None, resize bytesWritten buf)]\<rparr>
        else if ul_sharedSocket l
        then w\<lparr>ls_sent := ls_sent w @ [(k, Some (ul_remoteEndpoint l), resize bytesWritten buf)]\<rparr>
        else w)"

definition UdpLink_Disconnect :: "(ref \<Rightarrow> 'z listen_scheme \<Rightarrow> 'z listen_scheme) \<Rightarrow> ref \<Rightarrow> 'z listen_scheme \<Rightarrow> 'z listen_scheme" where
  "UdpLink_Disconnect onDisconnected k w =
     (let l = ls_store w k in
      if ul_closed l then w
      else
        let w1 = set_link k (\<lambda>l. l\<lparr>ul_closed := True\<rparr>) w;
            w2 = (if ul_ownedSocket l = Some True then set_link k (\<lambda>l. l\<lparr>ul_ownedSocket := Some False\<rparr>) w1 else w1);
            w3 = (if ul_removeFromDispatch l then w2\<lparr>ls_links := (ls_links w2)(ul_remoteEndpoint l := None)\<rparr> else w2)
        in if lh_onDisconnected (ul_handler l) then onDisconnected k (log_call (CallDisconnected k) w3) else w3)"

definition SetLinkHandler :: "ref \<Rightarrow> link_handler \<Rightarrow> 'z listen_scheme \<Rightarrow> 'z listen_scheme" where
  "SetLinkHandler k h w = set_link k (\<lambda>l. l\<lparr>ul_handler := h\<rparr>) w"

definition DeliverReceived ::
  "(ref \<Rightarrow> byte list \<Rightarrow> 'z listen_scheme \<Rightarrow> 'z listen_scheme) \<Rightarrow> ref \<Rightarrow> byte list \<Rightarrow> 'z listen_scheme \<Rightarrow> 'z listen_scheme" where
  "DeliverReceived onReceived k data w =
     (let l = ls_store w k in
      if \<not> ul_closed l \<and> lh_onReceived (ul_handler l)
      then onReceived k data (log_call (CallReceived k data) w) else w)"

definition DoReceive :: "ref \<Rightarrow> 'z listen_scheme \<Rightarrow> 'z listen_scheme" where
  "DoReceive k w =
     (if ul_closed (ls_store w k) \<or> ul_ownedSocket (ls_store w k) = None then w
      else set_link k (\<lambda>l. l\<lparr>ul_receiving := True\<rparr>) w)"

text \<open>The completion handler of \<open>async_receive\<close>: an error code, or the bytes received.\<close>

definition ReceiveHandler ::
  "(ref \<Rightarrow> 'z listen_scheme \<Rightarrow> 'z listen_scheme) \<Rightarrow>
   (ref \<Rightarrow> byte list \<Rightarrow> 'z listen_scheme \<Rightarrow> 'z listen_scheme) \<Rightarrow>
   ref \<Rightarrow> asio_error + byte list \<Rightarrow> 'z listen_scheme \<Rightarrow> 'z listen_scheme" where
  "ReceiveHandler onDisconnected onReceived k res w =
     (let w0 = set_link k (\<lambda>l. l\<lparr>ul_receiving := False\<rparr>) w in
      case res of
        Inl ec \<Rightarrow> if \<not> ul_closed (ls_store w0 k) then UdpLink_Disconnect onDisconnected k w0 else w0
      | Inr data \<Rightarrow>
          DoReceive k
            (if lh_onReceived (ul_handler (ls_store w0 k))
             then onReceived k data (log_call (CallReceived k data) w0) else w0))"

definition LinkStartReceive :: "ref \<Rightarrow> link_handler \<Rightarrow> 'z listen_scheme \<Rightarrow> 'z listen_scheme" where
  "LinkStartReceive k h w =
     (let w1 = set_link k (\<lambda>l. l\<lparr>ul_handler := h\<rparr>) w
      in if ul_ownedSocket (ls_store w1 k) \<noteq> None then DoReceive k w1 else w1)"

section \<open>UdpServer\<close>

definition StartReceive :: "'z listen_scheme \<Rightarrow> 'z listen_scheme" where
  "StartReceive w = (if ls_stopped w then w else w\<lparr>ls_receiving := True\<rparr>)"

definition OnReceived ::
  "(ref \<Rightarrow> 'z listen_scheme \<Rightarrow> link_handler \<times> 'z listen_scheme) \<Rightarrow> (ref \<Rightarrow> byte list \<Rightarrow> 'z listen_scheme \<Rightarrow> 'z listen_scheme) \<Rightarrow>
   endpoint \<Rightarrow> byte list \<Rightarrow> 'z listen_scheme \<Rightarrow> 'z listen_scheme" where
  "OnReceived onLink onReceived sender data w =
     (case ls_links w sender of
        Some k \<Rightarrow> DeliverReceived onReceived k data w
      | None \<Rightarrow>
          let k = ls_next w;
              link = UdpLink_shared sender (ls_localId w) (EndpointToPeerId sender) (ls_maxDatagramSize w);
              w1 = w\<lparr>ls_next := Suc k, ls_store := (ls_store w)(k := link), ls_links := (ls_links w)(sender \<mapsto> k)\<rparr>;
              (h, w2) = onLink k (log_call (CallOnLink k) w1)
          in DeliverReceived onReceived k data (SetLinkHandler k h w2))"

definition ServerReceiveHandler ::
  "(ref \<Rightarrow> 'z listen_scheme \<Rightarrow> link_handler \<times> 'z listen_scheme) \<Rightarrow> (ref \<Rightarrow> byte list \<Rightarrow> 'z listen_scheme \<Rightarrow> 'z listen_scheme) \<Rightarrow>
   asio_error + endpoint \<times> byte list \<Rightarrow> 'z listen_scheme \<Rightarrow> 'z listen_scheme" where
  "ServerReceiveHandler onLink onReceived res w =
     (let w0 = w\<lparr>ls_receiving := False\<rparr> in
      case res of
        Inl ec \<Rightarrow> w0
      | Inr (sender, data) \<Rightarrow>
          if ls_stopped w0 then w0 else StartReceive (OnReceived onLink onReceived sender data w0))"

definition new_ListenState :: "nat \<Rightarrow> endpoint \<Rightarrow> listen" where
  "new_ListenState maxDatagramSize local =
     \<lparr>ls_links = Map.empty, ls_store = (\<lambda>_. UdpLink_connected [] [] 0), ls_next = 0,
      ls_maxDatagramSize = maxDatagramSize, ls_localId = EndpointToPeerId local, ls_stopped = False,
      ls_receiving = False, ls_socketOpen = True, ls_calls = [], ls_sent = []\<rparr>"

text \<open>
  \<open>UdpServer::Open\<close>: the results of opening and binding the socket are arguments; the error of the option
  \<open>reuse_address\<close> is overwritten by that of \<open>bind\<close>. The result is the listening state, or the error the
  acceptor was given.
\<close>

definition UdpServer_Open ::
  "asio_error option \<Rightarrow> asio_error option \<Rightarrow> asio_error option \<Rightarrow> endpoint \<Rightarrow> nat \<Rightarrow> Error + listen" where
  "UdpServer_Open open_ec reuse_ec bind_ec local maxDatagramSize =
     (case open_ec of
        Some ec \<Rightarrow> Inl (MapAsioError ec)
      | None \<Rightarrow>
          (case bind_ec of
             Some ec \<Rightarrow> Inl (MapAsioError ec)
           | None \<Rightarrow> Inr (StartReceive (new_ListenState maxDatagramSize local))))"

definition LocalPort :: "endpoint \<Rightarrow> u16" where
  "LocalPort local = ep_port local"

definition UdpServer_destroy :: "'z listen_scheme \<Rightarrow> 'z listen_scheme" where
  "UdpServer_destroy w = w\<lparr>ls_stopped := True, ls_socketOpen := False\<rparr>"

section \<open>UdpClient\<close>

text \<open>
  The handler of \<open>async_resolve\<close>. \<open>connect\<close> is the result of connecting an IPv4 socket to an endpoint; the
  dereference of an empty result list is undefined, \<open>None\<close>.
\<close>

definition UdpClient_resolved ::
  "(endpoint \<Rightarrow> asio_error option) \<Rightarrow> endpoint \<Rightarrow> nat \<Rightarrow> (ref \<Rightarrow> 'z listen_scheme \<Rightarrow> link_handler \<times> 'z listen_scheme) \<Rightarrow>
   asio_error + endpoint list \<Rightarrow> 'z listen_scheme \<Rightarrow> 'z listen_scheme option" where
  "UdpClient_resolved connect localEp maxDgSize onLink res w =
     (case res of
        Inl ec \<Rightarrow> Some (log_call (CallOnLinkError (MapAsioError ec)) w)
      | Inr [] \<Rightarrow> None
      | Inr (remoteEp # _) \<Rightarrow>
          (case connect remoteEp of
             Some ec \<Rightarrow> Some (log_call (CallOnLinkError (MapAsioError ec)) w)
           | None \<Rightarrow>
               let k = ls_next w;
                   link = UdpLink_connected (EndpointToPeerId localEp) (EndpointToPeerId remoteEp) maxDgSize;
                   w1 = w\<lparr>ls_next := Suc k, ls_store := (ls_store w)(k := link)\<rparr>;
                   (h, w2) = onLink k (log_call (CallOnLink k) w1)
               in Some (LinkStartReceive k h w2)))"


section \<open>Peer ids\<close>

lemma digits_no_colon: "CHR '':'' \<notin> set (digits n)"
proof (induction n rule: digits.induct)
  case (1 n)
  have ne: "CHR '':'' \<noteq> char_of (48 + k)" if "k < 10" for k :: nat
  proof
    assume "CHR '':'' = char_of (48 + k)"
    then have "of_char (CHR '':'') = (of_char (char_of (48 + k) :: char) :: nat)" by simp
    with that show False by simp
  qed
  show ?case
  proof (cases "n < 10")
    case True
    with ne[of n] show ?thesis by (simp add: digits.simps[of n])
  next
    case False
    with 1 ne[of "n mod 10"] show ?thesis by (simp add: digits.simps[of n])
  qed
qed

lemma append_last_sep:
  assumes "xs @ c # ys = xs' @ c # ys'" and "c \<notin> set ys" and "c \<notin> set ys'"
  shows "xs = xs' \<and> ys = ys'"
  using assms
proof (induction xs arbitrary: xs')
  case Nil
  then show ?case by (cases xs') auto
next
  case (Cons x xs)
  then show ?case by (cases xs') auto
qed

section \<open>The server under datagrams, sends and disconnects\<close>

text \<open>
  An acceptor that takes every link with both callbacks and only records what they get; the application
  disconnects and sends at other times.
\<close>

definition accept_all :: "ref \<Rightarrow> listen \<Rightarrow> link_handler \<times> listen" where
  "accept_all k w = (\<lparr>lh_onReceived = True, lh_onDisconnected = True\<rparr>, w)"

definition note_only :: "ref \<Rightarrow> byte list \<Rightarrow> listen \<Rightarrow> listen" where
  "note_only k data w = w"

definition note_closed :: "ref \<Rightarrow> listen \<Rightarrow> listen" where
  "note_closed k w = w"

datatype udp_event = Datagram endpoint "byte list" | AppDisconnect ref | AppSend ref "byte list"

fun udp_apply :: "udp_event \<Rightarrow> listen \<Rightarrow> listen" where
  "udp_apply (Datagram ep data) w = ServerReceiveHandler accept_all note_only (Inr (ep, data)) w"
| "udp_apply (AppDisconnect k) w = (if k < ls_next w then UdpLink_Disconnect note_closed k w else w)"
| "udp_apply (AppSend k data) w =
     (if k < ls_next w then UdpLink_Send k (\<lambda>buf. (length data, data)) w else w)"

fun received_by :: "ref \<Rightarrow> udp_call list \<Rightarrow> byte list list" where
  "received_by k [] = []"
| "received_by k (CallReceived j data # cs) = (if j = k then data # received_by k cs else received_by k cs)"
| "received_by k (_ # cs) = received_by k cs"

definition count_call :: "udp_call \<Rightarrow> udp_call list \<Rightarrow> nat" where
  "count_call c cs = length (filter (\<lambda>x. x = c) cs)"

text \<open>
  What the server promises: a session per link, numbered in the order of creation, with its endpoint, the
  datagrams it got, and whether it is still open. A datagram goes to the open session of its sender, and
  opens a new one when there is none.
\<close>

type_synonym session = "endpoint \<times> byte list list \<times> bool"

definition find_open :: "endpoint \<Rightarrow> session list \<Rightarrow> nat option" where
  "find_open ep S = find (\<lambda>i. fst (S ! i) = ep \<and> snd (snd (S ! i))) [0..<length S]"

fun spec_apply :: "udp_event \<Rightarrow> session list \<Rightarrow> session list" where
  "spec_apply (Datagram ep data) S =
     (case find_open ep S of
        Some i \<Rightarrow> S[i := (ep, fst (snd (S ! i)) @ [data], True)]
      | None \<Rightarrow> S @ [(ep, [data], True)])"
| "spec_apply (AppDisconnect k) S =
     (if k < length S then S[k := (fst (S ! k), fst (snd (S ! k)), False)] else S)"
| "spec_apply (AppSend k data) S = S"

definition sessions :: "listen \<Rightarrow> session list" where
  "sessions w =
     map (\<lambda>k. (ul_remoteEndpoint (ls_store w k), received_by k (ls_calls w), \<not> ul_closed (ls_store w k))) [0..<ls_next w]"

definition link_ok :: "listen \<Rightarrow> ref \<Rightarrow> bool" where
  "link_ok w k \<longleftrightarrow>
     (if k < ls_next w
      then ul_ownedSocket (ls_store w k) = None \<and> ul_removeFromDispatch (ls_store w k) \<and>
        lh_onReceived (ul_handler (ls_store w k)) \<and> lh_onDisconnected (ul_handler (ls_store w k)) \<and>
        count_call (CallDisconnected k) (ls_calls w) = (if ul_closed (ls_store w k) then 1 else 0) \<and>
        count_call (CallOnLink k) (ls_calls w) = 1
      else received_by k (ls_calls w) = [] \<and> count_call (CallDisconnected k) (ls_calls w) = 0 \<and>
        count_call (CallOnLink k) (ls_calls w) = 0)"

definition server_inv :: "listen \<Rightarrow> bool" where
  "server_inv w \<longleftrightarrow> \<not> ls_stopped w \<and> (\<forall>k. link_ok w k) \<and>
     (\<forall>ep k. ls_links w ep = Some k \<longleftrightarrow>
        k < ls_next w \<and> ul_remoteEndpoint (ls_store w k) = ep \<and> \<not> ul_closed (ls_store w k))"

lemma received_by_append [simp]: "received_by k (xs @ ys) = received_by k xs @ received_by k ys"
  by (induction k xs rule: received_by.induct) auto

lemma count_call_append [simp]: "count_call c (xs @ ys) = count_call c xs + count_call c ys"
  by (simp add: count_call_def)

lemma count_call_simps [simp]:
  "count_call c [] = 0" "count_call c (d # ds) = (if d = c then 1 else 0) + count_call c ds"
  by (simp_all add: count_call_def)

lemma server_inv_links:
  "server_inv w \<Longrightarrow> k < ls_next w \<Longrightarrow> \<not> ul_closed (ls_store w k) \<Longrightarrow> ls_links w (ul_remoteEndpoint (ls_store w k)) = Some k"
  by (simp add: server_inv_def)

lemma set_link_simps [simp]:
  "ls_store (set_link k f w) = (ls_store w)(k := f (ls_store w k))" "ls_links (set_link k f w) = ls_links w"
  "ls_next (set_link k f w) = ls_next w" "ls_calls (set_link k f w) = ls_calls w"
  "ls_stopped (set_link k f w) = ls_stopped w" "ls_sent (set_link k f w) = ls_sent w"
  by (simp_all add: set_link_def)

lemma log_call_simps [simp]:
  "ls_store (log_call c w) = ls_store w" "ls_links (log_call c w) = ls_links w"
  "ls_next (log_call c w) = ls_next w" "ls_calls (log_call c w) = ls_calls w @ [c]"
  "ls_stopped (log_call c w) = ls_stopped w" "ls_sent (log_call c w) = ls_sent w"
  by (simp_all add: log_call_def)

lemma length_sessions [simp]: "length (sessions w) = ls_next w"
  by (simp add: sessions_def)

lemma nth_sessions:
  "k < ls_next w \<Longrightarrow> sessions w ! k =
     (ul_remoteEndpoint (ls_store w k), received_by k (ls_calls w), \<not> ul_closed (ls_store w k))"
  by (simp add: sessions_def)

lemma find_open_links:
  assumes "server_inv w"
  shows "find_open ep (sessions w) = ls_links w ep"
proof (cases "ls_links w ep")
  case None
  then have "find_open ep (sessions w) = None"
    using server_inv_links[OF assms]
    by (auto simp: find_open_def find_None_iff nth_sessions) (metis option.distinct(1))
  with None show ?thesis by simp
next
  case (Some k)
  have "\<exists>i. i < ls_next w \<and> fst (sessions w ! i) = ep \<and> snd (snd (sessions w ! i))"
    using Some assms by (intro exI[of _ k]) (simp add: server_inv_def nth_sessions)
  then have "find_open ep (sessions w) \<noteq> None" by (auto simp: find_open_def find_None_iff)
  then obtain i where i: "find_open ep (sessions w) = Some i" by auto
  then have "i < ls_next w" "fst (sessions w ! i) = ep" "snd (snd (sessions w ! i))"
    by (auto simp: find_open_def find_Some_iff)
  then have "ls_links w ep = Some i" using assms by (simp add: server_inv_def nth_sessions)
  with i show ?thesis by simp
qed

lemma sessions_eqI:
  assumes "ls_next w = length S"
    and "\<And>k. k < length S \<Longrightarrow>
      (ul_remoteEndpoint (ls_store w k), received_by k (ls_calls w), \<not> ul_closed (ls_store w k)) = S ! k"
  shows "sessions w = S"
  using assms by (intro nth_equalityI) (simp_all add: nth_sessions)

lemma datagram_old:
  fixes data :: "byte list"
  assumes inv: "server_inv w" and k: "ls_links w ep = Some k"
  defines "w' \<equiv> udp_apply (Datagram ep data) w"
  shows "server_inv w'" and "sessions w' = spec_apply (Datagram ep data) (sessions w)"
proof -
  have b: "k < ls_next w" "ul_remoteEndpoint (ls_store w k) = ep" "\<not> ul_closed (ls_store w k)"
      "lh_onReceived (ul_handler (ls_store w k))" "\<not> ls_stopped w"
    using inv k by (auto simp: server_inv_def link_ok_def)
  have w': "w' = (log_call (CallReceived k data) (w\<lparr>ls_receiving := False\<rparr>))\<lparr>ls_receiving := True\<rparr>"
    using b k by (simp add: w'_def ServerReceiveHandler_def OnReceived_def DeliverReceived_def note_only_def StartReceive_def Let_def)
  show "server_inv w'"
    using inv b unfolding w' by (auto simp: server_inv_def link_ok_def)
  have "find_open ep (sessions w) = Some k" using find_open_links[OF inv] k by simp
  then show "sessions w' = spec_apply (Datagram ep data) (sessions w)"
    using b unfolding w' by (intro sessions_eqI) (auto simp: nth_sessions nth_list_update)
qed

lemma datagram_new:
  fixes data :: "byte list"
  assumes inv: "server_inv w" and none: "ls_links w ep = None"
  defines "w' \<equiv> udp_apply (Datagram ep data) w"
  shows "server_inv w'" and "sessions w' = spec_apply (Datagram ep data) (sessions w)"
proof -
  let ?k = "ls_next w" and ?h = "\<lparr>lh_onReceived = True, lh_onDisconnected = True\<rparr>"
  let ?l = "UdpLink_shared ep (ls_localId w) (EndpointToPeerId ep) (ls_maxDatagramSize w)"
  have st: "\<not> ls_stopped w" and fresh: "link_ok w ?k" using inv by (auto simp: server_inv_def)
  have w': "ls_store w' = (ls_store w)(?k := ?l\<lparr>ul_handler := ?h\<rparr>)" "ls_links w' = (ls_links w)(ep \<mapsto> ?k)"
      "ls_next w' = Suc ?k" "ls_calls w' = ls_calls w @ [CallOnLink ?k, CallReceived ?k data]" "ls_stopped w' = ls_stopped w"
    using none st by (auto simp: w'_def ServerReceiveHandler_def OnReceived_def DeliverReceived_def accept_all_def
        note_only_def StartReceive_def SetLinkHandler_def UdpLink_shared_def Let_def)
  have "link_ok w' j" for j
    using inv fresh by (cases "j = ?k") (auto simp: server_inv_def link_ok_def w' UdpLink_shared_def split: if_splits)
  then show "server_inv w'"
    using inv none st
    by (auto simp: server_inv_def w' UdpLink_shared_def) (metis less_SucE option.distinct(1))
  have "find_open ep (sessions w) = None" using find_open_links[OF inv] none by simp
  then show "sessions w' = spec_apply (Datagram ep data) (sessions w)"
    using fresh by (intro sessions_eqI) (auto simp: w' nth_sessions nth_append UdpLink_shared_def link_ok_def less_Suc_eq)
qed


lemma disconnect_step:
  fixes k :: ref
  assumes inv: "server_inv w"
  defines "w' \<equiv> udp_apply (AppDisconnect k) w"
  shows "server_inv w'" and "sessions w' = spec_apply (AppDisconnect k) (sessions w)"
proof -
  have "server_inv w' \<and> sessions w' = spec_apply (AppDisconnect k) (sessions w)"
  proof (cases "k < ls_next w \<and> \<not> ul_closed (ls_store w k)")
    case False
    then have "w' = w" by (auto simp: w'_def UdpLink_Disconnect_def note_closed_def Let_def)
    moreover have "spec_apply (AppDisconnect k) (sessions w) = sessions w"
      using False by (auto intro!: nth_equalityI simp: nth_sessions nth_list_update)
    ultimately show ?thesis using inv by simp
  next
    case True
    have ok: "ul_ownedSocket (ls_store w k) = None" "ul_removeFromDispatch (ls_store w k)"
        "lh_onDisconnected (ul_handler (ls_store w k))"
      using inv True by (auto simp: server_inv_def link_ok_def)
    have w': "ls_store w' = (ls_store w)(k := (ls_store w k)\<lparr>ul_closed := True\<rparr>)"
        "ls_links w' = (ls_links w)(ul_remoteEndpoint (ls_store w k) := None)" "ls_next w' = ls_next w"
        "ls_calls w' = ls_calls w @ [CallDisconnected k]" "ls_stopped w' = ls_stopped w"
      using True ok by (simp_all add: w'_def UdpLink_Disconnect_def note_closed_def Let_def)
    have "link_ok w' j" for j
      using inv True by (cases "j = k") (auto simp: server_inv_def link_ok_def w' split: if_splits)
    moreover have "ls_links w' ep = Some j \<longleftrightarrow>
        j < ls_next w' \<and> ul_remoteEndpoint (ls_store w' j) = ep \<and> \<not> ul_closed (ls_store w' j)" for ep j
      using inv True server_inv_links[OF inv, of k] by (auto simp: server_inv_def w') (metis option.inject)
    ultimately have "server_inv w'" using inv by (simp add: server_inv_def w')
    moreover have "sessions w' = spec_apply (AppDisconnect k) (sessions w)"
      using True by (intro sessions_eqI) (auto simp: w' nth_sessions nth_list_update)
    ultimately show ?thesis by blast
  qed
  then show "server_inv w'" and "sessions w' = spec_apply (AppDisconnect k) (sessions w)" by blast+
qed

lemma udp_apply_refines:
  assumes "server_inv w"
  shows "server_inv (udp_apply e w)" and "sessions (udp_apply e w) = spec_apply e (sessions w)"
proof -
  have "server_inv (udp_apply e w) \<and> sessions (udp_apply e w) = spec_apply e (sessions w)"
  proof (cases e)
    case (Datagram ep data)
    then show ?thesis
      using datagram_old[OF assms, of ep _ data] datagram_new[OF assms, of ep data] by (cases "ls_links w ep") auto
  next
    case (AppDisconnect k)
    then show ?thesis using disconnect_step[OF assms, of k] by simp
  next
    case (AppSend k data)
    have eq: "ls_store (udp_apply e w) = ls_store w" "ls_links (udp_apply e w) = ls_links w" "ls_next (udp_apply e w) = ls_next w"
        "ls_calls (udp_apply e w) = ls_calls w" "ls_stopped (udp_apply e w) = ls_stopped w"
      using AppSend by (simp_all add: UdpLink_Send_def Let_def)
    then have "server_inv (udp_apply e w)" using assms by (simp add: server_inv_def link_ok_def)
    then show ?thesis using AppSend eq by (simp add: sessions_def)
  qed
  then show "server_inv (udp_apply e w)" and "sessions (udp_apply e w) = spec_apply e (sessions w)" by blast+
qed

lemma new_ListenState_inv: "server_inv (StartReceive (new_ListenState m local))"
    "sessions (StartReceive (new_ListenState m local)) = []"
  by (simp_all add: server_inv_def link_ok_def new_ListenState_def StartReceive_def sessions_def)

lemma udp_run_refines:
  assumes "server_inv w"
  shows "server_inv (fold udp_apply es w) \<and> sessions (fold udp_apply es w) = fold spec_apply es (sessions w)"
  using assms
proof (induction es arbitrary: w)
  case (Cons e es)
  then show ?case using udp_apply_refines[OF Cons.prems, of e] by simp
qed simp

section \<open>Properties\<close>

text \<open>
  C27. The server demultiplexes its socket into links as specified: after any sequence of datagrams, sends and
  disconnects on a freshly opened server, the links and what their handlers were given are exactly the
  sessions of the specification; the acceptor was called once per link, and \<open>onDisconnected\<close> once for each
  closed link and for no other.
\<close>

theorem udp_server_refines_sessions:
  "\<exists>w0. UdpServer_Open None reuse None local m = Inr w0 \<and>
     (let w = fold udp_apply es w0 in
      sessions w = fold spec_apply es [] \<and>
      map (\<lambda>k. count_call (CallOnLink k) (ls_calls w)) [0..<ls_next w] = replicate (ls_next w) 1 \<and>
      map (\<lambda>k. count_call (CallDisconnected k) (ls_calls w)) [0..<ls_next w] =
        map (\<lambda>(ep, data, open). if open then 0 else 1) (sessions w))"
proof -
  let ?start = "StartReceive (new_ListenState m local)"
  let ?w = "fold udp_apply es ?start"
  have r: "server_inv ?w" "sessions ?w = fold spec_apply es []"
    using udp_run_refines[OF new_ListenState_inv(1)[of m local], of es] by (simp_all add: new_ListenState_inv(2))
  then have ok: "link_ok ?w k" for k by (simp add: server_inv_def)
  have "map (\<lambda>k. count_call (CallOnLink k) (ls_calls ?w)) [0..<ls_next ?w] = replicate (ls_next ?w) 1"
    using ok by (intro nth_equalityI) (auto simp: link_ok_def)
  moreover have "map (\<lambda>k. count_call (CallDisconnected k) (ls_calls ?w)) [0..<ls_next ?w] =
      map (\<lambda>(ep, data, open). if open then 0 else 1) (sessions ?w)"
    using ok by (intro nth_equalityI) (auto simp: link_ok_def nth_sessions)
  moreover have "UdpServer_Open None reuse None local m = Inr ?start" by (simp add: UdpServer_Open_def)
  ultimately show ?thesis using r(2) by (intro exI[of _ ?start]) (simp add: Let_def)
qed

text \<open>
  Peer ids are unambiguous: endpoints with the same \<open>PeerId\<close> have the same address and the same port.
\<close>

lemma peer_id_determines_endpoint:
  assumes "EndpointToPeerId a = EndpointToPeerId b"
  shows "ep_address a = ep_address b \<and> ep_port a = ep_port b"
proof -
  have "ep_address a = ep_address b" "digits (unat (ep_port a)) = digits (unat (ep_port b))"
    using append_last_sep[of "ep_address a" "CHR '':''"] assms digits_no_colon
    by (auto simp: EndpointToPeerId_def)
  moreover from this(2) have "unat (ep_port a) = unat (ep_port b)" by (metis read_digits_digits)
  ultimately show ?thesis by (simp add: unat_arith_simps)
qed

lemma peer_id_determines_endpoint_witness:
  "ep_port \<lparr>ep_address = ''::1'', ep_v6 = True, ep_port = 80\<rparr> = (80 :: u16) \<and>
   EndpointToPeerId \<lparr>ep_address = ''::1'', ep_v6 = True, ep_port = 80\<rparr> = ''::1:80''"
  using peer_id_determines_endpoint[of "\<lparr>ep_address = ''::1'', ep_v6 = True, ep_port = 80\<rparr>"
      "\<lparr>ep_address = ''::1'', ep_v6 = True, ep_port = 80\<rparr>"]
  by (simp add: EndpointToPeerId_def digits.simps char_of_eq_iff)


text \<open>
  A connected link delivers data after it was disconnected: when the handler of \<open>async_receive\<close> already runs
  with a datagram while the link is closed, \<open>onReceived\<close> is called after \<open>onDisconnected\<close>; in shared mode
  \<open>DeliverReceived\<close> tests for this.
\<close>

lemma connected_link_delivers_after_disconnect:
  assumes "\<not> ul_closed (ls_store w k)" and "lh_onReceived (ul_handler (ls_store w k))"
    and "lh_onDisconnected (ul_handler (ls_store w k))"
  shows "ls_calls (ReceiveHandler note_closed note_only k (Inr data) (UdpLink_Disconnect note_closed k w)) =
      ls_calls w @ [CallDisconnected k, CallReceived k data] \<and>
    ls_calls (DeliverReceived note_only k data (UdpLink_Disconnect note_closed k w)) = ls_calls w @ [CallDisconnected k]"
  using assms
  by (simp add: ReceiveHandler_def UdpLink_Disconnect_def note_closed_def DoReceive_def DeliverReceived_def note_only_def Let_def)

lemma connected_link_delivers_after_disconnect_witness:
  "let w = LinkStartReceive 0 \<lparr>lh_onReceived = True, lh_onDisconnected = True\<rparr> (new_ListenState 1472 no_endpoint)
   in ls_calls (ReceiveHandler note_closed note_only 0 (Inr [1, 2]) (UdpLink_Disconnect note_closed 0 w)) =
      [CallDisconnected 0, CallReceived 0 [1, 2]]"
  using connected_link_delivers_after_disconnect[of
      "LinkStartReceive 0 \<lparr>lh_onReceived = True, lh_onDisconnected = True\<rparr> (new_ListenState 1472 no_endpoint)" 0 "[1, 2]"]
  by (simp add: LinkStartReceive_def DoReceive_def new_ListenState_def UdpLink_connected_def Let_def)

end
