(* ===== verification/Log_Core.thy ===== *)
theory Log_Core
  imports Prelude
begin

text \<open>
  \<open>pkg/log/Log\<close>: the front end of logging, its sinks with the startup buffer, and the parts of a line the
  formatter adds.

  spdlog is the library below: its logger is a level and a list of sinks, and \<open>log\<close> hands a message that passes the
  level to every sink in order. A sink is numbered; \<open>ls_out\<close> is what a sink has been given. The sink number 0 is the
  startup sink, whose messages go to its buffer. Formatting of the payload happens before the model: a message has its text.
  C strings have no 0 character; a null pointer is \<open>None\<close>.
\<close>

section \<open>Levels and sources\<close>

datatype Level = LvTrace | LvDebug | LvInfo | LvWarn | LvError | LvFatal

fun ToSpdLevel :: "Level \<Rightarrow> nat" where
  "ToSpdLevel LvTrace = 0"
| "ToSpdLevel LvDebug = 1"
| "ToSpdLevel LvInfo = 2"
| "ToSpdLevel LvWarn = 3"
| "ToSpdLevel LvError = 4"
| "ToSpdLevel LvFatal = 5"

record Src =
  sr_file :: string
  sr_line :: nat
  sr_func :: string
  sr_noFunc :: bool

record source_loc =
  sl_filename :: "string option"
  sl_line :: int
  sl_funcname :: "string option"

definition ToSpdLoc :: "Src \<Rightarrow> source_loc" where
  "ToSpdLoc src =
     \<lparr>sl_filename = Some (sr_file src), sl_line = int (sr_line src),
      sl_funcname = (if sr_noFunc src then None else Some (sr_func src))\<rparr>"

definition AreaLoggerLine :: int where
  "AreaLoggerLine = -1"

record log_msg =
  lm_loc :: source_loc
  lm_level :: nat
  lm_payload :: string

section \<open>StartupSink, AddSink and RemoveSink\<close>

record startup_sink =
  ss_buffer :: "log_msg list"
  ss_maxBufferSize :: nat

definition new_StartupSink :: startup_sink where
  "new_StartupSink = \<lparr>ss_buffer = [], ss_maxBufferSize = 1000\<rparr>"

definition sink_it :: "log_msg \<Rightarrow> startup_sink \<Rightarrow> startup_sink" where
  "sink_it msg s =
     (let s1 = (if ss_maxBufferSize s \<le> length (ss_buffer s) then s\<lparr>ss_buffer := tl (ss_buffer s)\<rparr> else s)
      in s1\<lparr>ss_buffer := ss_buffer s1 @ [msg]\<rparr>)"

definition ClearBuffer :: "startup_sink \<Rightarrow> startup_sink" where
  "ClearBuffer s = s\<lparr>ss_buffer := []\<rparr>"

record log_state =
  ls_inited :: bool
  ls_level :: nat
  ls_sinks :: "ref list"
  ls_startup :: startup_sink
  ls_out :: "ref \<Rightarrow> log_msg list"

definition startup_ref :: ref where
  "startup_ref = 0"

text \<open>The library's logger before the first use, with its own default sinks.\<close>

definition new_log_state :: "ref list \<Rightarrow> nat \<Rightarrow> log_state" where
  "new_log_state sinks level =
     \<lparr>ls_inited = False, ls_level = level, ls_sinks = sinks, ls_startup = new_StartupSink, ls_out = (\<lambda>_. [])\<rparr>"

definition InitLogger :: "log_state \<Rightarrow> log_state" where
  "InitLogger w = w\<lparr>ls_inited := True, ls_level := 0, ls_sinks := ls_sinks w @ [startup_ref]\<rparr>"

definition DefaultLoggerRaw :: "log_state \<Rightarrow> log_state" where
  "DefaultLoggerRaw w = (if ls_inited w then w else InitLogger w)"

text \<open>A sink's \<open>log\<close>, and \<open>spdlog::logger::log\<close>.\<close>

definition sink_log :: "ref \<Rightarrow> log_msg \<Rightarrow> log_state \<Rightarrow> log_state" where
  "sink_log s msg w =
     (if s = startup_ref then w\<lparr>ls_startup := sink_it msg (ls_startup w)\<rparr>
      else w\<lparr>ls_out := (ls_out w)(s := ls_out w s @ [msg])\<rparr>)"

definition should_log :: "nat \<Rightarrow> log_state \<Rightarrow> bool" where
  "should_log level w \<longleftrightarrow> ls_level w \<le> level"

definition raw_log :: "log_msg \<Rightarrow> log_state \<Rightarrow> log_state" where
  "raw_log msg w = (if should_log (lm_level msg) w then fold (\<lambda>s. sink_log s msg) (ls_sinks w) w else w)"

definition ReplayTo :: "ref \<Rightarrow> log_state \<Rightarrow> log_state" where
  "ReplayTo s w = fold (sink_log s) (ss_buffer (ls_startup w)) w"

definition AddSink :: "ref \<Rightarrow> log_state \<Rightarrow> log_state" where
  "AddSink s w =
     (let w1 = DefaultLoggerRaw w;
          w2 = ReplayTo s w1;
          w3 = w2\<lparr>ls_startup := ClearBuffer (ls_startup w2)\<rparr>
      in w3\<lparr>ls_sinks := ls_sinks w3 @ [s]\<rparr>)"

definition RemoveSink :: "ref \<Rightarrow> log_state \<Rightarrow> log_state" where
  "RemoveSink s w = (let w1 = DefaultLoggerRaw w in w1\<lparr>ls_sinks := filter (\<lambda>x. x \<noteq> s) (ls_sinks w1)\<rparr>)"

section \<open>Log and Logger\<close>

definition Enabled :: "Level \<Rightarrow> log_state \<Rightarrow> bool \<times> log_state" where
  "Enabled level w = (let w1 = DefaultLoggerRaw w in (should_log (ToSpdLevel level) w1, w1))"

definition Msg :: "Src \<Rightarrow> Level \<Rightarrow> string \<Rightarrow> log_state \<Rightarrow> log_state" where
  "Msg src level text w =
     raw_log \<lparr>lm_loc = ToSpdLoc src, lm_level = ToSpdLevel level, lm_payload = text\<rparr> (DefaultLoggerRaw w)"

definition area_loc :: "string option \<Rightarrow> source_loc \<Rightarrow> source_loc" where
  "area_loc area loc =
     (case area of None \<Rightarrow> loc | Some a \<Rightarrow> loc\<lparr>sl_filename := Some a, sl_line := AreaLoggerLine\<rparr>)"

text \<open>\<open>area\<close> is the logger's \<open>_area\<close>; \<open>LoggerMsgAt\<close> is what the macros call.\<close>

definition LoggerMsgAt :: "string option \<Rightarrow> source_loc \<Rightarrow> Level \<Rightarrow> string \<Rightarrow> log_state \<Rightarrow> log_state" where
  "LoggerMsgAt area loc level text w =
     raw_log \<lparr>lm_loc = area_loc area loc, lm_level = ToSpdLevel level, lm_payload = text\<rparr> (DefaultLoggerRaw w)"

definition LoggerMsg :: "string option \<Rightarrow> Src \<Rightarrow> Level \<Rightarrow> string \<Rightarrow> log_state \<Rightarrow> log_state" where
  "LoggerMsg area src level text w = LoggerMsgAt area (ToSpdLoc src) level text w"

section \<open>Line prefix\<close>

definition GetBasename :: "string \<Rightarrow> string" where
  "GetBasename path =
     (case rfind_upto (\<lambda>c. c = CHR ''/'' \<or> c = CHR 0x5C) path (length path) of
        None \<Rightarrow> path
      | Some pos \<Rightarrow> drop (pos + 1) path)"

definition GetWithoutExtension :: "string \<Rightarrow> string" where
  "GetWithoutExtension path =
     (case rfind_upto (\<lambda>c. c = CHR ''.'') path (length path) of
        None \<Rightarrow> path
      | Some pos \<Rightarrow> take pos path)"

text \<open>\<open>None\<close>: an area line without a name, where the view would be built from a null pointer.\<close>

definition GetAreaName :: "log_msg \<Rightarrow> string option" where
  "GetAreaName msg =
     (if sl_line (lm_loc msg) = AreaLoggerLine then sl_filename (lm_loc msg)
      else
        case sl_filename (lm_loc msg) of
          Some filename \<Rightarrow> Some (GetWithoutExtension (GetBasename filename))
        | None \<Rightarrow> Some ''<unknown>'')"

function name_end :: "string \<Rightarrow> nat \<Rightarrow> nat" where
  "name_end full e = (if e < length full \<and> full ! e \<noteq> CHR ''('' then name_end full (e + 1) else e)"
  by pat_completeness auto
termination by (relation "measure (\<lambda>(full, e). length full - e)") auto

fun name_start :: "string \<Rightarrow> nat \<Rightarrow> nat" where
  "name_start full 0 = 0"
| "name_start full (Suc k) = (if full ! k = CHR '' '' \<or> full ! k = CHR '':'' then Suc k else name_start full k)"

declare name_end.simps [simp del]

definition ExtractShortNameWithNamespace :: "string \<Rightarrow> string" where
  "ExtractShortNameWithNamespace full_name =
     (let func_end = name_end full_name 0; func_start = name_start full_name func_end
      in take (func_end - func_start) (drop func_start full_name))"

text \<open>The flags \<open>%N\<close> (without padding, as in the pattern) and \<open>%&\<close>, and the end of the pattern, \<open>%N: %&%v\<close>.\<close>

definition LoggerFlag :: "log_msg \<Rightarrow> string option" where
  "LoggerFlag msg = GetAreaName msg"

definition FunctionNameFlag :: "log_msg \<Rightarrow> string option" where
  "FunctionNameFlag msg =
     (case sl_funcname (lm_loc msg) of
        None \<Rightarrow> Some []
      | Some funcname \<Rightarrow>
          let shortName = ExtractShortNameWithNamespace funcname
          in map_option (\<lambda>area. if area \<noteq> shortName then shortName @ '': '' else []) (GetAreaName msg))"

definition format_tail :: "log_msg \<Rightarrow> string option" where
  "format_tail msg =
     (case (LoggerFlag msg, FunctionNameFlag msg) of
        (Some area, Some func) \<Rightarrow> Some (area @ '': '' @ func @ lm_payload msg)
      | _ \<Rightarrow> None)"

section \<open>Time and Scope\<close>

text \<open>
  \<open>fmt0\<close> and \<open>fmt3\<close> print the quotient of two numbers as \<open>{:.0f}\<close> and \<open>{:.3g}\<close> do. \<open>format_to_n\<close> cuts the text at the
  buffer's size.
\<close>

definition GetHumanReadableMicroseconds ::
  "(int \<Rightarrow> int \<Rightarrow> string) \<Rightarrow> (int \<Rightarrow> int \<Rightarrow> string) \<Rightarrow> int \<Rightarrow> nat \<Rightarrow> string" where
  "GetHumanReadableMicroseconds fmt0 fmt3 us bufSize =
     take bufSize
       (if 1000000 \<le> us
        then (if 100 * 1000000 \<le> us then fmt0 us 1000000 else fmt3 us 1000000) @ '' sec''
        else if 1000 \<le> us
        then (if 100 * 1000 \<le> us then fmt0 us 1000 else fmt3 us 1000) @ '' ms''
        else print_int us @ [CHR '' '', CHR 0xC2, CHR 0xB5, CHR ''s''])"

record log_scope =
  sc_start :: time_point
  sc_prefixes :: "string \<times> string"
  sc_level :: Level
  sc_src :: Src
  sc_msg :: string

definition DefaultPrefixes :: "string \<times> string" where
  "DefaultPrefixes = (''>>>'', ''<<<'')"

text \<open>The two basic constructors: with a message, and without one.\<close>

definition Scope_msg :: "time_point \<Rightarrow> string \<times> string \<Rightarrow> Level \<Rightarrow> Src \<Rightarrow> string \<Rightarrow> log_state \<Rightarrow> log_scope \<times> log_state" where
  "Scope_msg now prefixes level src text w =
     (\<lparr>sc_start = now, sc_prefixes = prefixes, sc_level = level, sc_src = src, sc_msg = text\<rparr>,
      Msg src level (fst prefixes @ '' '' @ text) w)"

definition Scope_plain :: "time_point \<Rightarrow> string \<times> string \<Rightarrow> Level \<Rightarrow> Src \<Rightarrow> log_state \<Rightarrow> log_scope \<times> log_state" where
  "Scope_plain now prefixes level src w =
     (\<lparr>sc_start = now, sc_prefixes = prefixes, sc_level = level, sc_src = src, sc_msg = []\<rparr>,
      Msg src level (fst prefixes) w)"

definition Scope_destroy ::
  "(int \<Rightarrow> int \<Rightarrow> string) \<Rightarrow> (int \<Rightarrow> int \<Rightarrow> string) \<Rightarrow> time_point \<Rightarrow> log_scope \<Rightarrow> log_state \<Rightarrow> log_state" where
  "Scope_destroy fmt0 fmt3 now s w =
     (let timeStr = GetHumanReadableMicroseconds fmt0 fmt3 (duration_cast_us (now - sc_start s)) 16
      in if sc_msg s = [] then Msg (sc_src s) (sc_level s) (snd (sc_prefixes s) @ '' / '' @ timeStr) w
         else Msg (sc_src s) (sc_level s) (snd (sc_prefixes s) @ '' '' @ sc_msg s @ '' / '' @ timeStr) w)"

section \<open>Sequences of messages and sinks\<close>

datatype log_event = EvMsg "string option" Src Level string | EvAdd ref | EvRemove ref

fun log_apply :: "log_event \<Rightarrow> log_state \<Rightarrow> log_state" where
  "log_apply (EvMsg area src level text) w = LoggerMsg area src level text w"
| "log_apply (EvAdd s) w = AddSink s w"
| "log_apply (EvRemove s) w = RemoveSink s w"

definition log_run :: "ref list \<Rightarrow> nat \<Rightarrow> log_event list \<Rightarrow> log_state" where
  "log_run sinks level es = fold log_apply es (new_log_state sinks level)"

definition the_msg :: "string option \<Rightarrow> Src \<Rightarrow> Level \<Rightarrow> string \<Rightarrow> log_msg" where
  "the_msg area src level text =
     \<lparr>lm_loc = area_loc area (ToSpdLoc src), lm_level = ToSpdLevel level, lm_payload = text\<rparr>"

fun logged :: "log_event list \<Rightarrow> log_msg list" where
  "logged [] = []"
| "logged (EvMsg area src level text # es) = the_msg area src level text # logged es"
| "logged (_ # es) = logged es"

definition lastn :: "nat \<Rightarrow> 'a list \<Rightarrow> 'a list" where
  "lastn n xs = drop (length xs - n) xs"

text \<open>Adding or removing any sink but the startup sink itself.\<close>

definition ordinary :: "log_event \<Rightarrow> bool" where
  "ordinary e \<longleftrightarrow> e \<noteq> EvAdd startup_ref \<and> e \<noteq> EvRemove startup_ref"

lemma sink_it_buffer:
  assumes "0 < ss_maxBufferSize s" and "ss_buffer s = lastn (ss_maxBufferSize s) ms"
  shows "ss_buffer (sink_it m s) = lastn (ss_maxBufferSize s) (ms @ [m])" "ss_maxBufferSize (sink_it m s) = ss_maxBufferSize s"
proof -
  have "tl (drop k ms) = drop (Suc k) ms" for k by (simp add: tl_drop drop_Suc)
  then show "ss_buffer (sink_it m s) = lastn (ss_maxBufferSize s) (ms @ [m])"
    using assms by (auto simp: sink_it_def lastn_def Let_def Suc_diff_le not_le)
  show "ss_maxBufferSize (sink_it m s) = ss_maxBufferSize s" by (simp add: sink_it_def Let_def)
qed

lemma fold_sinks:
  "ls_inited (fold (\<lambda>s. sink_log s m) ss w) = ls_inited w" "ls_level (fold (\<lambda>s. sink_log s m) ss w) = ls_level w"
  "ls_sinks (fold (\<lambda>s. sink_log s m) ss w) = ls_sinks w"
  "ls_startup (fold (\<lambda>s. sink_log s m) ss w) = (sink_it m ^^ count_list ss startup_ref) (ls_startup w)"
  "s \<noteq> startup_ref \<Longrightarrow> ls_out (fold (\<lambda>s. sink_log s m) ss w) s = ls_out w s @ replicate (count_list ss s) m"
  by (induction ss arbitrary: w) (auto simp: sink_log_def funpow_swap1 replicate_append_same[symmetric])

lemma replay_fields:
  assumes "s \<noteq> startup_ref"
  shows "ReplayTo s w = w\<lparr>ls_out := (ls_out w)(s := ls_out w s @ ss_buffer (ls_startup w))\<rparr>"
proof -
  have "fold (sink_log s) ms v = v\<lparr>ls_out := (ls_out v)(s := ls_out v s @ ms)\<rparr>" for ms v
    using assms by (induction ms arbitrary: v) (simp_all add: sink_log_def)
  then show ?thesis by (simp add: ReplayTo_def)
qed

text \<open>
  The state of a run with respect to a sink \<open>s\<close> that occurs \<open>k\<close> times in the logger: \<open>ms\<close> are the messages since the
  buffer was last cleared, \<open>out\<close> is what \<open>s\<close> has been given.
\<close>

definition sink_inv :: "ref \<Rightarrow> nat \<Rightarrow> log_msg list \<Rightarrow> log_msg list \<Rightarrow> log_state \<Rightarrow> bool" where
  "sink_inv s k ms out w \<longleftrightarrow>
     ss_maxBufferSize (ls_startup w) = 1000 \<and> ss_buffer (ls_startup w) = lastn 1000 ms \<and>
     count_list (ls_sinks w) s = k \<and> ls_out w s = out \<and>
     (if ls_inited w then ls_level w = 0 \<and> count_list (ls_sinks w) startup_ref = 1
      else ms = [] \<and> startup_ref \<notin> set (ls_sinks w))"

lemma sink_inv_init:
  assumes "sink_inv s k ms out w" and "s \<noteq> startup_ref"
  shows "sink_inv s k ms out (DefaultLoggerRaw w)" "ls_inited (DefaultLoggerRaw w)"
  using assms by (auto simp: sink_inv_def DefaultLoggerRaw_def InitLogger_def count_notin)

lemma sink_inv_msg:
  assumes "sink_inv s k ms out w" and "s \<noteq> startup_ref"
  shows "sink_inv s k (ms @ [the_msg area src level text]) (out @ replicate k (the_msg area src level text))
     (LoggerMsg area src level text w)"
proof -
  let ?w = "DefaultLoggerRaw w" and ?m = "the_msg area src level text"
  note i = sink_inv_init[OF assms]
  have e: "LoggerMsg area src level text w = fold (\<lambda>s. sink_log s ?m) (ls_sinks ?w) ?w"
    using i by (simp add: LoggerMsg_def LoggerMsgAt_def raw_log_def should_log_def sink_inv_def the_msg_def)
  show ?thesis
    using i assms(2) sink_it_buffer[of "ls_startup ?w" ms ?m]
    by (simp add: e sink_inv_def fold_sinks)
qed

lemma sink_inv_add:
  assumes "sink_inv s k ms out w" and "s \<noteq> startup_ref" and "r \<noteq> startup_ref"
  shows "sink_inv s (if r = s then Suc k else k) [] (if r = s then out @ lastn 1000 ms else out) (AddSink r w)"
  using sink_inv_init[OF assms(1,2)] assms(2,3)
  by (auto simp: AddSink_def replay_fields sink_inv_def ClearBuffer_def lastn_def Let_def)

lemma sink_inv_remove:
  assumes "sink_inv s k ms out w" and "s \<noteq> startup_ref" and "r \<noteq> startup_ref" and "r \<noteq> s"
  shows "sink_inv s k ms out (RemoveSink r w)"
proof -
  have "count_list (filter (\<lambda>x. x \<noteq> r) xs) y = count_list xs y" if "y \<noteq> r" for xs y
    using that by (induction xs) auto
  then show ?thesis using sink_inv_init[OF assms(1,2)] assms(2-4) by (simp add: RemoveSink_def sink_inv_def Let_def)
qed

lemma concat_replicate [simp]: "concat (map (replicate 0) xs) = []" "concat (map (replicate (Suc 0)) xs) = xs"
  by (induction xs) simp_all

definition unrelated :: "ref \<Rightarrow> log_event \<Rightarrow> bool" where
  "unrelated s e \<longleftrightarrow> ordinary e \<and> e \<noteq> EvAdd s \<and> e \<noteq> EvRemove s"

lemma sink_inv_run:
  assumes "sink_inv s k ms out w" and "s \<noteq> startup_ref" and "list_all (unrelated s) es"
  shows "\<exists>ms'. sink_inv s k ms' (out @ concat (map (replicate k) (logged es))) (fold log_apply es w) \<and>
     (set es \<inter> range EvAdd = {} \<longrightarrow> ms' = ms @ logged es)"
  using assms(1,3)
proof (induction es arbitrary: ms out w)
  case Nil
  then show ?case by (intro exI[of _ ms]) simp
next
  case (Cons e es)
  show ?case
  proof (cases e)
    case (EvMsg area src level t)
    from Cons.IH[OF sink_inv_msg[OF Cons.prems(1) assms(2)]] Cons.prems(2) EvMsg show ?thesis by fastforce
  next
    case (EvAdd r)
    then have "r \<noteq> startup_ref" "r \<noteq> s" using Cons.prems(2) by (auto simp: unrelated_def ordinary_def)
    with Cons.IH[of "[]" out] sink_inv_add[OF Cons.prems(1) assms(2), of r] Cons.prems(2) EvAdd show ?thesis by fastforce
  next
    case (EvRemove r)
    then have "r \<noteq> startup_ref" "r \<noteq> s" using Cons.prems(2) by (auto simp: unrelated_def ordinary_def)
    with Cons.IH[OF sink_inv_remove[OF Cons.prems(1) assms(2)]] Cons.prems(2) EvRemove show ?thesis by fastforce
  qed
qed

lemma sink_inv_after_add:
  assumes "sink_inv s k [] out w" and "s \<noteq> startup_ref" and "list_all (unrelated s) es"
    and "es = [] \<or> (\<exists>r. last es = EvAdd r)"
  shows "sink_inv s k [] (out @ concat (map (replicate k) (logged es))) (fold log_apply es w)"
proof (cases es rule: rev_cases)
  case (snoc fs e)
  then obtain r where e: "e = EvAdd r" "r \<noteq> startup_ref" "r \<noteq> s"
    using assms(3,4) by (auto simp: unrelated_def ordinary_def)
  have "logged (fs @ [EvAdd r]) = logged fs" by (induction fs rule: logged.induct) auto
  moreover obtain ms' where "sink_inv s k ms' (out @ concat (map (replicate k) (logged fs))) (fold log_apply fs w)"
    using sink_inv_run[OF assms(1,2), of fs] assms(3) snoc by auto
  ultimately show ?thesis using sink_inv_add[OF _ assms(2) e(2)] e(1,3) snoc by fastforce
qed (use assms in simp)

section \<open>Properties\<close>

text \<open>
  C36. A sink that is added late misses nothing that the startup buffer can hold: it is first given, in order, the last
  1000 messages logged since the previous sink was added (since the start for the first one), and then every
  later message, each exactly once, whatever other sinks come and go.
\<close>

theorem late_sink_catches_up:
  assumes "s \<noteq> startup_ref" and "s \<notin> set sinks" and "startup_ref \<notin> set sinks"
    and "list_all (unrelated s) (pre @ mid @ post)" and "pre = [] \<or> (\<exists>r. last pre = EvAdd r)" and "set mid \<inter> range EvAdd = {}"
  shows "ls_out (log_run sinks level (pre @ mid @ [EvAdd s] @ post)) s = lastn 1000 (logged mid) @ logged post"
proof -
  let ?w0 = "new_log_state sinks level"
  have "sink_inv s 0 [] [] ?w0"
    using assms(2,3) by (simp add: sink_inv_def new_log_state_def new_StartupSink_def lastn_def count_notin)
  then have "sink_inv s 0 [] [] (fold log_apply pre ?w0)"
    using sink_inv_after_add[OF _ assms(1), of 0 "[]" ?w0 pre] assms(4,5) by simp
  then have "sink_inv s 0 (logged mid) [] (fold log_apply mid (fold log_apply pre ?w0))"
    using sink_inv_run[OF _ assms(1), of 0 "[]" "[]" _ mid] assms(4,6) by fastforce
  then have "sink_inv s 1 [] (lastn 1000 (logged mid)) (AddSink s (fold log_apply mid (fold log_apply pre ?w0)))"
    using sink_inv_add[OF _ assms(1) assms(1)] by fastforce
  then obtain ms' where "sink_inv s 1 ms' (lastn 1000 (logged mid) @ concat (map (replicate 1) (logged post)))
      (fold log_apply post (AddSink s (fold log_apply mid (fold log_apply pre ?w0))))"
    using sink_inv_run[OF _ assms(1), of 1 "[]" _ _ post] assms(4) by fastforce
  then show ?thesis by (simp add: log_run_def sink_inv_def)
qed

definition sample_src :: Src where
  "sample_src = \<lparr>sr_file = ''src/main.cpp'', sr_line = 3, sr_func = ''int main()'', sr_noFunc = False\<rparr>"

theorem late_sink_catches_up_witness:
  "map lm_payload (ls_out (log_run [5] 2
     ([EvMsg None sample_src LvInfo ''a'', EvAdd 7] @ [EvMsg None sample_src LvTrace ''b''] @ [EvAdd 8] @
      [EvMsg (Some ''Net'') sample_src LvWarn ''c'', EvRemove 7])) 8) = [''b'', ''c'']"
  by (subst late_sink_catches_up)
     (auto simp: startup_ref_def unrelated_def ordinary_def lastn_def the_msg_def)

end
