(* ===== verification/Boot.thy ===== *)
theory Boot
  imports Log_Core
begin

text \<open>
  \<open>pkg/boot/Boot\<close>: command line arguments, one-time initialisation, the header written to the log, the description of
  the build and the abort handlers.

  What the program reads of its surroundings is an argument: the stamped build information, the local time, the working
  directory, and the macros the compiler defines.
\<close>

section \<open>CliArgs\<close>

datatype cli_error = invalid_argument | result_out_of_range

definition Contains :: "string list \<Rightarrow> string \<Rightarrow> bool" where
  "Contains args str \<longleftrightarrow> list_ex (\<lambda>arg. arg = str) args"

text \<open>\<open>std::from_chars\<close> for \<open>int\<close>: the longest prefix that is a number.\<close>

definition is_digit :: "char \<Rightarrow> bool" where
  "is_digit c \<longleftrightarrow> of_char c \<in> {48..57::nat}"

definition from_chars_int :: "string \<Rightarrow> (cli_error, int) expected" where
  "from_chars_int arg =
     (let neg = (arg \<noteq> [] \<and> hd arg = CHR ''-'');
          ds = takeWhile is_digit (if neg then tl arg else arg);
          v = (if neg then - int (read_digits ds) else int (read_digits ds))
      in if ds = [] then Inl invalid_argument
         else if v < - (2 ^ 31) \<or> 2 ^ 31 - 1 < v then Inl result_out_of_range
         else Inr v)"

definition GetIntArg :: "string list \<Rightarrow> nat \<Rightarrow> (cli_error, int) expected" where
  "GetIntArg args index =
     (if length args \<le> index then Inl invalid_argument
      else
        case from_chars_int (args ! index) of
          Inl ec \<Rightarrow> Inl ec
        | Inr value \<Rightarrow> Inr value)"

section \<open>LogHeader\<close>

record build_info =
  bi_sha :: string
  bi_branch :: string
  bi_status :: string
  bi_user :: string
  bi_host :: string
  bi_time :: string

definition bar :: string where
  "bar = [CHR 0xE2, CHR 0x95, CHR 0x91]"

definition Line :: "Src \<Rightarrow> string \<Rightarrow> log_state \<Rightarrow> log_state" where
  "Line src t w = LoggerMsg (Some ''Boot'') (src\<lparr>sr_noFunc := True\<rparr>) LvInfo (bar @ t) w"

definition GetAppName :: "string list \<Rightarrow> string" where
  "GetAppName args = (if args = [] then ''<unknown>'' else GetWithoutExtension (GetBasename (hd args)))"

fun find_char :: "char \<Rightarrow> string \<Rightarrow> nat \<Rightarrow> nat option" where
  "find_char c [] i = None"
| "find_char c (x # xs) i = (if x = c then Some i else find_char c xs (Suc i))"

text \<open>\<open>substr(pos, n)\<close>; the count \<open>tzPos - tPos - 1\<close> is unsigned, so it is huge when \<open>tzPos < tPos\<close>.\<close>

definition version_line :: "build_info \<Rightarrow> string" where
  "version_line bi =
     (let sha7 = take (min 7 (length (bi_sha bi))) (bi_sha bi);
          dirty = (if bi_status bi = ''dirty'' then ''*'' else []);
          rest = bi_branch bi @ '' '' @ dirty @ sha7 @ '' | '' @ bi_user bi @ ''@'' @ bi_host bi;
          time = bi_time bi
      in case (find_char CHR ''T'' time 0, rfind_upto (\<lambda>c. c = CHR ''+'' \<or> c = CHR ''-'') time (length time)) of
           (Some tPos, Some tzPos) \<Rightarrow>
             let date = take tPos time;
                 timeOfDay = (if tPos < tzPos then take (tzPos - tPos - 1) (drop (tPos + 1) time) else drop (tPos + 1) time);
                 timezone = drop tzPos time
             in '' Version: '' @ date @ '' '' @ timeOfDay @ '' '' @ timezone @ '' | '' @ rest
         | _ \<Rightarrow> '' Version: '' @ time @ '' | '' @ rest)"

text \<open>\<open>stamp\<close> is the formatted local time, \<open>tzOffset\<close> the offset in minutes; a directory that cannot be read is \<open>Inl\<close> its message.\<close>

definition runtime_line :: "string \<Rightarrow> int \<Rightarrow> string" where
  "runtime_line stamp tzOffset =
     (let h = nat (\<bar>tzOffset\<bar> div 60)
      in '' Runtime: '' @ stamp @ '' '' @ (if 0 \<le> tzOffset then ''+'' else ''-'') @
         (if h < 10 then ''0'' @ digits h else digits h) @ '':00'')"

definition header_lines :: "string list \<Rightarrow> string \<Rightarrow> build_info \<Rightarrow> string \<Rightarrow> int \<Rightarrow> string + string \<Rightarrow> string list" where
  "header_lines args description bi stamp tzOffset cwd =
     ['' App: '' @ GetAppName args, '' Compile: '' @ description, version_line bi, runtime_line stamp tzOffset,
      (case cwd of Inr dir \<Rightarrow> '' Directory: '' @ dir | Inl m \<Rightarrow> '' Directory: <error: '' @ m @ ''>''),
      '' Command:''] @
     map (\<lambda>i. ''  ['' @ digits i @ ''] '' @ args ! i) [0..<length args]"

definition LogHeader ::
  "Src \<Rightarrow> string list \<Rightarrow> string \<Rightarrow> build_info \<Rightarrow> string \<Rightarrow> int \<Rightarrow> string + string \<Rightarrow> log_state \<Rightarrow> log_state" where
  "LogHeader src args description bi stamp tzOffset cwd w =
     fold (Line src) (header_lines args description bi stamp tzOffset cwd) w"

section \<open>Abort handlers\<close>

datatype terminate_handler = PrevTerminate nat | BootTerminate | NullTerminate

datatype signal_handler = SigDefault | SigBoot

record abort_state =
  ab_terminate :: terminate_handler
  ab_sigabrt :: signal_handler
  ab_prev :: terminate_handler
  ab_traces :: nat

text \<open>\<open>emscripten\<close> builds have no signals.\<close>

definition SetupAbortHandlers :: "bool \<Rightarrow> abort_state \<Rightarrow> abort_state" where
  "SetupAbortHandlers emscripten a =
     (let a1 = a\<lparr>ab_prev := ab_terminate a, ab_terminate := BootTerminate\<rparr>
      in if emscripten then a1 else a1\<lparr>ab_sigabrt := SigBoot\<rparr>)"

definition RestoreAbortHandlers :: "bool \<Rightarrow> abort_state \<Rightarrow> abort_state" where
  "RestoreAbortHandlers emscripten a =
     (let a1 = (if emscripten then a else a\<lparr>ab_sigabrt := SigDefault\<rparr>)
      in a1\<lparr>ab_terminate := ab_prev a1, ab_prev := NullTerminate\<rparr>)"

text \<open>
  \<open>std::abort\<close> raises the signal; the default action ends the process, and Boot's handler prints a stack trace, restores
  the handlers and aborts again. \<open>None\<close>: the bound \<open>n\<close> on nested handlers is used up.
\<close>

fun abort_process :: "nat \<Rightarrow> bool \<Rightarrow> abort_state \<Rightarrow> abort_state option" where
  "abort_process n emscripten a =
     (case ab_sigabrt a of
        SigDefault \<Rightarrow> Some a
      | SigBoot \<Rightarrow>
          (case n of
             0 \<Rightarrow> None
           | Suc m \<Rightarrow> abort_process m emscripten (RestoreAbortHandlers emscripten (a\<lparr>ab_traces := Suc (ab_traces a)\<rparr>))))"

definition boot_terminate :: "nat \<Rightarrow> bool \<Rightarrow> abort_state \<Rightarrow> abort_state option" where
  "boot_terminate n emscripten a =
     abort_process n emscripten (RestoreAbortHandlers emscripten (a\<lparr>ab_traces := Suc (ab_traces a)\<rparr>))"

section \<open>DefaultInit\<close>

record boot_state =
  bt_inited :: bool
  bt_args :: "string list"
  bt_log :: log_state
  bt_abort :: abort_state

definition GetDefaultArgs :: "boot_state \<Rightarrow> string list" where
  "GetDefaultArgs b = bt_args b"

definition DefaultInit ::
  "(string list \<Rightarrow> log_state \<Rightarrow> log_state) \<Rightarrow> bool \<Rightarrow> string list \<Rightarrow> boot_state \<Rightarrow> string list \<times> boot_state" where
  "DefaultInit logHeader emscripten argv b =
     (if bt_inited b then (bt_args b, b)
      else
        let b1 = b\<lparr>bt_args := argv\<rparr>;
            b2 = b1\<lparr>bt_log := logHeader (bt_args b1) (bt_log b1)\<rparr>;
            b3 = b2\<lparr>bt_abort := SetupAbortHandlers emscripten (bt_abort b2)\<rparr>
        in (bt_args b3, b3\<lparr>bt_inited := True\<rparr>))"

section \<open>BuildDescription\<close>

text \<open>The predefined macros: which are defined, and the numeric ones.\<close>

record macros =
  mc_defined :: "string \<Rightarrow> bool"
  mc_value :: "string \<Rightarrow> nat"

definition platform_name :: "macros \<Rightarrow> string" where
  "platform_name m =
     (if mc_defined m ''__wasm__'' \<or> mc_defined m ''__EMSCRIPTEN__''
      then ''WebAssembly'' @ (if mc_defined m ''__EMSCRIPTEN__'' then '' (Emscripten)'' else [])
      else if mc_defined m ''_WIN32'' \<or> mc_defined m ''_WIN64''
      then ''Windows'' @ (if mc_defined m ''_WIN64'' then '' (64)'' else '' (32)'')
      else if mc_defined m ''__ANDROID__'' then ''Android''
      else if mc_defined m ''__APPLE__'' then ''macOS''
      else if mc_defined m ''__linux__'' then ''Linux''
      else ''<Unknown OS>'')"

definition arch_name :: "macros \<Rightarrow> string" where
  "arch_name m =
     (if mc_defined m ''__arm64__'' \<or> mc_defined m ''__aarch64__'' \<or> mc_defined m ''_M_ARM64'' then ''ARM64''
      else if mc_defined m ''__arm__'' \<or> mc_defined m ''_M_ARM'' then ''ARM32''
      else if mc_defined m ''__x86_64__'' \<or> mc_defined m ''_M_X64'' \<or> mc_defined m ''__amd64__'' then ''x64''
      else if mc_defined m ''__i386__'' \<or> mc_defined m ''_M_IX86'' \<or> mc_defined m ''__i386'' then ''x86''
      else if mc_defined m ''__riscv'' \<and> mc_value m ''__riscv_xlen'' = 64 then ''RISC-V 64''
      else if mc_defined m ''__riscv'' \<and> mc_value m ''__riscv_xlen'' = 32 then ''RISC-V 32''
      else ''<Unknown Arch>'')"

definition version3 :: "macros \<Rightarrow> string \<Rightarrow> string \<Rightarrow> string \<Rightarrow> string" where
  "version3 m x y z = digits (mc_value m x) @ ''.'' @ digits (mc_value m y) @ ''.'' @ digits (mc_value m z)"

definition compiler_name :: "macros \<Rightarrow> string" where
  "compiler_name m =
     (if mc_defined m ''__clang__'' then ''Clang '' @ version3 m ''__clang_major__'' ''__clang_minor__'' ''__clang_patchlevel__''
      else if mc_defined m ''__GNUC__'' then ''GCC '' @ version3 m ''__GNUC__'' ''__GNUC_MINOR__'' ''__GNUC_PATCHLEVEL__''
      else if mc_defined m ''_MSC_VER'' then ''MSVC '' @ digits (mc_value m ''_MSC_VER'')
      else ''<Unknown Compiler>'')"

definition standard_name :: "macros \<Rightarrow> string" where
  "standard_name m =
     (let v = (if mc_defined m ''_MSC_VER'' then mc_value m ''_MSVC_LANG'' else mc_value m ''__cplusplus'')
      in if 202300 \<le> v then ''26''
         else if 202002 \<le> v then ''20''
         else if 201703 \<le> v then ''17''
         else if 201402 \<le> v then ''14''
         else if 201103 \<le> v then ''11''
         else ''<Unknown Standard>'')"

definition BuildDescription :: "macros \<Rightarrow> string" where
  "BuildDescription m =
     platform_name m @ '' | '' @ arch_name m @ '' | '' @ compiler_name m @ '' | C++'' @ standard_name m @ '' | '' @
     (if mc_defined m ''NDEBUG'' then ''Release'' else ''Debug'')"

text \<open>C++23, where \<open>__cplusplus\<close> is 202302, is described as C++26.\<close>

lemma cpp23_described_as_26:
  "\<not> mc_defined m ''_MSC_VER'' \<Longrightarrow> mc_value m ''__cplusplus'' = 202302 \<Longrightarrow> standard_name m = ''26''"
  by (simp add: standard_name_def)

text \<open>A time stamp in UTC (\<open>Z\<close>) has no sign after the \<open>T\<close>, so the last minus of the date is taken for the time zone.\<close>

lemma utc_stamp_misread:
  "version_line \<lparr>bi_sha = ''0123456789'', bi_branch = ''main'', bi_status = ''clean'', bi_user = ''u'', bi_host = ''h'',
     bi_time = ''2026-01-26T21:50:00Z''\<rparr> = '' Version: 2026-01-26 21:50:00Z -26T21:50:00Z | main 0123456 | u@h''"
  by (simp add: version_line_def eval_nat_numeral)

text \<open>The minutes of the time zone are not printed.\<close>

lemma half_hour_zone_misprinted: "runtime_line stamp 330 = runtime_line stamp 300"
  by (simp add: runtime_line_def)

text \<open>An abort after \<open>SetupAbortHandlers\<close> prints one trace and ends the process by the default action.\<close>

lemma abort_prints_one_trace:
  "\<exists>a'. abort_process 1 False (SetupAbortHandlers False a) = Some a' \<and> ab_traces a' = Suc (ab_traces a) \<and>
     ab_sigabrt a' = SigDefault \<and> ab_terminate a' = ab_terminate a"
  "\<exists>a'. boot_terminate 0 False (SetupAbortHandlers False a) = Some a' \<and> ab_traces a' = Suc (ab_traces a)"
  by (simp_all add: SetupAbortHandlers_def RestoreAbortHandlers_def boot_terminate_def Let_def)

lemma digits_are_digits: "list_all is_digit (digits n)" "digits n \<noteq> []"
proof (induction n rule: digits.induct)
  case (1 n)
  have d: "is_digit (char_of (48 + k))" if "k < 10" for k :: nat using that by (simp add: is_digit_def)
  {
    case 1
    show ?case using "1.IH"(1) d[of n] d[of "n mod 10"] by (cases "n < 10") (simp_all add: digits.simps[of n])
  next
    case 2
    show ?case by (simp add: digits.simps[of n])
  }
qed

lemma takeWhile_digits:
  assumes "rest = [] \<or> \<not> is_digit (hd rest)"
  shows "takeWhile is_digit (digits n @ rest) = digits n"
proof -
  have "takeWhile is_digit rest = []" using assms by (cases rest) auto
  then show ?thesis using digits_are_digits(1)[of n] by (simp add: takeWhile_append2 list_all_iff)
qed

lemma from_chars_int_print:
  assumes "rest = [] \<or> \<not> is_digit (hd rest)"
  shows "from_chars_int (print_int v @ rest) = (if - (2 ^ 31) \<le> v \<and> v < 2 ^ 31 then Inr v else Inl result_out_of_range)"
proof (cases "v < 0")
  case True
  then show ?thesis
    using digits_are_digits(2)[of "nat (- v)"]
    by (auto simp: from_chars_int_def print_int_def takeWhile_digits[OF assms] read_digits_digits Let_def)
next
  case False
  have "\<not> is_digit (CHR ''-'')" by (simp add: is_digit_def)
  then have "hd (digits (nat v) @ rest) \<noteq> CHR ''-''"
    using digits_are_digits[of "nat v"] by (cases "digits (nat v)") auto
  then show ?thesis
    using False digits_are_digits(2)[of "nat v"]
    by (auto simp: from_chars_int_def print_int_def takeWhile_digits[OF assms] read_digits_digits Let_def)
qed

section \<open>Properties\<close>

text \<open>
  C38. \<open>GetIntArg\<close> reads back every \<open>int\<close> that was printed into an argument, whatever else that is not a digit follows it,
  and numbers outside the range of \<open>int\<close> are errors.
\<close>

theorem int_arg_reads_printed_number:
  assumes "index < length args" and "args ! index = print_int v @ rest" and "rest = [] \<or> \<not> is_digit (hd rest)"
  shows "GetIntArg args index = (if - (2 ^ 31) \<le> v \<and> v < 2 ^ 31 then Inr v else Inl result_out_of_range)"
  using assms(1,2) from_chars_int_print[OF assms(3), of v] by (simp add: GetIntArg_def split: sum.splits)

theorem int_arg_reads_printed_number_witness:
  "GetIntArg [''app'', ''-42px''] 1 = Inr (- 42)"
proof -
  have "char_of (52 :: nat) = CHR ''4''" "char_of (50 :: nat) = CHR ''2''" by (simp_all add: char_of_eq_iff)
  then have "digits 42 = ''42''" by (simp add: digits.simps)
  then show ?thesis
    using int_arg_reads_printed_number[of 1 "[''app'', ''-42px'']" "- 42" "''px''"] by (simp add: print_int_def is_digit_def)
qed

end
