(* ===== verification/Udp_Demo.thy ===== *)
theory Udp_Demo
  imports Udp_Transport Boot
begin

text \<open>
  \<open>demo/pkg/rtt/udp\<close>: the client and the server program over the UDP transport, and the bridge between the transport's
  callbacks and their coroutines.

  The state of a program is that of its transport, extended by the bridge and by where its coroutine is. A coroutine that
  awaits the bridge is resumed by its domain's scheduler some time after the bridge has completed the await, so that
  \<open>LinkReady\<close> and \<open>MessageReady\<close>, with the value to be returned, are states of their own and resuming is an event. What the
  sockets and the clock report are arguments of the events.
\<close>

section \<open>The bridge\<close>

type_synonym msg = "byte list option"

datatype task_state =
    AwaitingLink
  | LinkReady ref
  | AwaitingMessage ref
  | MessageReady ref msg
  | Returned int

datatype demo_line = PeerConnected ref | MessageReceived "byte list" | PeerLost

text \<open>
  \<open>br_onLink\<close> and \<open>br_onMessage\<close> say whether the slots are filled; only the coroutine's current await fills them. \<open>dm_got\<close>
  lists the messages that awaits have returned, \<open>dm_lines\<close> what was logged of the peers.
\<close>

record app = listen +
  br_onLink :: bool
  br_onMessage :: bool
  br_pending :: "msg list"
  dm_task :: task_state
  dm_got :: "msg list"
  dm_lines :: "demo_line list"
  dm_resolving :: bool

definition complete_link :: "ref \<Rightarrow> app \<Rightarrow> app" where
  "complete_link k w = w\<lparr>br_onLink := False, dm_task := LinkReady k\<rparr>"

definition complete_message :: "msg \<Rightarrow> app \<Rightarrow> app" where
  "complete_message payload w =
     (case dm_task w of
        AwaitingMessage k \<Rightarrow> w\<lparr>br_onMessage := False, dm_task := MessageReady k payload, dm_got := dm_got w @ [payload]\<rparr>
      | _ \<Rightarrow> w)"

definition bridge_Deliver :: "msg \<Rightarrow> app \<Rightarrow> app" where
  "bridge_Deliver payload w =
     (if br_onMessage w then complete_message payload w else w\<lparr>br_pending := br_pending w @ [payload]\<rparr>)"

definition MakeHandler :: link_handler where
  "MakeHandler = \<lparr>lh_onReceived = True, lh_onDisconnected = True\<rparr>"

definition bridge_onReceived :: "ref \<Rightarrow> byte list \<Rightarrow> app \<Rightarrow> app" where
  "bridge_onReceived k data w = bridge_Deliver (Some data) w"

definition bridge_onDisconnected :: "ref \<Rightarrow> app \<Rightarrow> app" where
  "bridge_onDisconnected k w = bridge_Deliver None w"

definition BridgeAcceptor_OnLink :: "(Error, ref) expected \<Rightarrow> app \<Rightarrow> link_handler \<times> app" where
  "BridgeAcceptor_OnLink result w =
     (case result of
        Inl e \<Rightarrow> (no_handler, w)
      | Inr k \<Rightarrow> (MakeHandler, if br_onLink w then complete_link k w else w))"

definition AwaitLink :: "app \<Rightarrow> app" where
  "AwaitLink w = w\<lparr>br_onLink := True, dm_task := AwaitingLink\<rparr>"

definition AwaitMessage :: "ref \<Rightarrow> app \<Rightarrow> app" where
  "AwaitMessage k w =
     (case br_pending w of
        payload # rest \<Rightarrow>
          w\<lparr>br_pending := rest, dm_task := MessageReady k payload, dm_got := dm_got w @ [payload]\<rparr>
      | [] \<Rightarrow> w\<lparr>br_onMessage := True, dm_task := AwaitingMessage k\<rparr>)"

section \<open>Texts\<close>

definition two_digits :: "nat \<Rightarrow> string" where
  "two_digits n = [char_of (48 + n div 10 mod 10), char_of (48 + n mod 10)]"

text \<open>\<open>{:%H:%M:%S}\<close> of a time in whole seconds since the epoch.\<close>

definition Timestamp :: "nat \<Rightarrow> string" where
  "Timestamp now =
     two_digits (now div 3600 mod 24) @ '':'' @ two_digits (now div 60 mod 60) @ '':'' @ two_digits (now mod 60)"

definition bytes_of :: "string \<Rightarrow> byte list" where
  "bytes_of s = map of_char s"

text \<open>The writers copy the text to the front of the buffer, which is longer (\<open>texts_fit\<close> below).\<close>

definition write_text :: "string \<Rightarrow> byte list \<Rightarrow> nat \<times> byte list" where
  "write_text s buf = (length s, bytes_of s @ drop (length s) buf)"

definition client_greeting :: "nat \<Rightarrow> string" where
  "client_greeting now = ''Hello from client at '' @ Timestamp now"

definition server_greeting :: "nat \<Rightarrow> string" where
  "server_greeting now = ''Hello from server at '' @ Timestamp now"

section \<open>The server\<close>

definition new_app :: "bool \<Rightarrow> listen \<Rightarrow> app" where
  "new_app resolving l = listen.extend l
     \<lparr>br_onLink = False, br_onMessage = False, br_pending = [], dm_task = AwaitingLink, dm_got = [], dm_lines = [],
      dm_resolving = resolving\<rparr>"

text \<open>
  \<open>ServerTask\<close> up to its first await. When \<open>Open\<close> fails the acceptor is given the error, and there is no listening
  state: nothing is ever received.
\<close>

definition no_server :: "endpoint \<Rightarrow> listen" where
  "no_server local = UdpServer_destroy (new_ListenState 1472 local)"

definition ServerTask_start ::
  "asio_error option \<Rightarrow> asio_error option \<Rightarrow> asio_error option \<Rightarrow> endpoint \<Rightarrow> app" where
  "ServerTask_start open_ec reuse_ec bind_ec local =
     AwaitLink
       (case UdpServer_Open open_ec reuse_ec bind_ec local 1472 of
          Inl e \<Rightarrow> snd (BridgeAcceptor_OnLink (Inl e) (new_app False (no_server local)))
        | Inr l \<Rightarrow> new_app False l)"

text \<open>\<open>co_return\<close> destroys the coroutine's server.\<close>

definition server_return :: "int \<Rightarrow> app \<Rightarrow> app" where
  "server_return code w = UdpServer_destroy (w\<lparr>dm_task := Returned code\<rparr>)"

definition ServerTask_resume :: "bool \<Rightarrow> nat \<Rightarrow> app \<Rightarrow> app" where
  "ServerTask_resume keepAlive now w =
     (case dm_task w of
        LinkReady k \<Rightarrow>
          AwaitMessage k
            (UdpLink_Send k (write_text (server_greeting now)) (w\<lparr>dm_lines := dm_lines w @ [PeerConnected k]\<rparr>))
      | MessageReady k None \<Rightarrow>
          let w1 = w\<lparr>dm_lines := dm_lines w @ [PeerLost]\<rparr> in
          if \<not> keepAlive then server_return 0 w1 else AwaitLink (w1\<lparr>br_onLink := False\<rparr>)
      | MessageReady k (Some data) \<Rightarrow>
          let w1 = UdpLink_Disconnect bridge_onDisconnected k (w\<lparr>dm_lines := dm_lines w @ [MessageReceived data]\<rparr>) in
          if \<not> keepAlive then server_return 0 w1 else AwaitLink (w1\<lparr>br_onLink := False\<rparr>)
      | _ \<Rightarrow> w)"

datatype server_event = ServerReceive "asio_error + endpoint \<times> byte list" | ServerResume nat

text \<open>The handler of \<open>async_receive_from\<close> runs only when a receive is outstanding.\<close>

fun server_apply :: "bool \<Rightarrow> server_event \<Rightarrow> app \<Rightarrow> app" where
  "server_apply keepAlive (ServerReceive res) w =
     (if ls_receiving w
      then ServerReceiveHandler (\<lambda>k. BridgeAcceptor_OnLink (Inr k)) bridge_onReceived res w else w)"
| "server_apply keepAlive (ServerResume now) w = ServerTask_resume keepAlive now w"

definition server_run :: "bool \<Rightarrow> server_event list \<Rightarrow> app \<Rightarrow> app" where
  "server_run keepAlive es w = fold (server_apply keepAlive) es w"

section \<open>The client\<close>

definition ClientTask_start :: app where
  "ClientTask_start = AwaitLink (new_app True (new_ListenState 1472 no_endpoint))"

definition ClientTask_resume :: "nat \<Rightarrow> app \<Rightarrow> app" where
  "ClientTask_resume now w =
     (case dm_task w of
        LinkReady k \<Rightarrow>
          AwaitMessage k
            (UdpLink_Send k (write_text (client_greeting now)) (w\<lparr>dm_lines := dm_lines w @ [PeerConnected k]\<rparr>))
      | MessageReady k None \<Rightarrow> w\<lparr>dm_lines := dm_lines w @ [PeerLost], dm_task := Returned 1\<rparr>
      | MessageReady k (Some data) \<Rightarrow>
          (UdpLink_Disconnect bridge_onDisconnected k (w\<lparr>dm_lines := dm_lines w @ [MessageReceived data]\<rparr>))
            \<lparr>dm_task := Returned 0\<rparr>
      | _ \<Rightarrow> w)"

datatype client_event =
    ClientResolved "endpoint \<Rightarrow> asio_error option" endpoint "asio_error + endpoint list"
  | ClientReceive ref "asio_error + byte list"
  | ClientResume nat

fun client_apply :: "client_event \<Rightarrow> app \<Rightarrow> app option" where
  "client_apply (ClientResolved connect localEp res) w =
     (if dm_resolving w
      then UdpClient_resolved connect localEp 1472 (\<lambda>k. BridgeAcceptor_OnLink (Inr k)) res (w\<lparr>dm_resolving := False\<rparr>)
      else Some w)"
| "client_apply (ClientReceive k res) w =
     Some (if k < ls_next w \<and> ul_receiving (ls_store w k)
           then ReceiveHandler bridge_onDisconnected bridge_onReceived k res w else w)"
| "client_apply (ClientResume now) w = Some (ClientTask_resume now w)"

fun client_run :: "client_event list \<Rightarrow> app \<Rightarrow> app option" where
  "client_run [] w = Some w"
| "client_run (e # es) w = Option.bind (client_apply e w) (client_run es)"

section \<open>Arguments\<close>

definition DefaultHost :: string where
  "DefaultHost = ''127.0.0.1''"

definition DefaultPort :: u16 where
  "DefaultPort = 6000"

text \<open>The host and the port the programs use, or the exit code of \<open>main\<close>.\<close>

definition client_main_args :: "string list \<Rightarrow> int + string \<times> u16" where
  "client_main_args args =
     (if 1 < length args then
        if 2 < length args then
          case GetIntArg args 2 of
            Inl ec \<Rightarrow> Inl 1
          | Inr p \<Rightarrow> Inr (args ! 1, word_of_int p)
        else Inr (args ! 1, DefaultPort)
      else Inr (DefaultHost, DefaultPort))"

definition server_main_args :: "string list \<Rightarrow> bool \<times> u16" where
  "server_main_args args =
     (Contains args ''-k'',
      if 1 < length args then
        case GetIntArg args 1 of
          Inl ec \<Rightarrow> DefaultPort
        | Inr p \<Rightarrow> word_of_int p
      else DefaultPort)"


section \<open>The bridge is a queue\<close>

fun bridge_msgs :: "udp_call list \<Rightarrow> msg list" where
  "bridge_msgs [] = []"
| "bridge_msgs (CallReceived k data # cs) = Some data # bridge_msgs cs"
| "bridge_msgs (CallDisconnected k # cs) = None # bridge_msgs cs"
| "bridge_msgs (_ # cs) = bridge_msgs cs"

lemma bridge_msgs_append [simp]: "bridge_msgs (xs @ ys) = bridge_msgs xs @ bridge_msgs ys"
  by (induction xs rule: bridge_msgs.induct) simp_all

text \<open>
  What the transport reported is what the coroutine has got, followed by what is pending; a slot is filled exactly while the
  coroutine is in the await that filled it (so that no slot outlives its await's operation state), and nothing is pending
  while a message is awaited.
\<close>

definition bridge_ok :: "app \<Rightarrow> bool" where
  "bridge_ok w \<longleftrightarrow> dm_got w @ br_pending w = bridge_msgs (ls_calls w) \<and>
     (br_onLink w \<longleftrightarrow> dm_task w = AwaitingLink) \<and>
     (br_onMessage w \<longleftrightarrow> (\<exists>k. dm_task w = AwaitingMessage k)) \<and>
     (br_onMessage w \<longrightarrow> br_pending w = [])"

lemma bridge_ok_cong:
  assumes "dm_got v = dm_got w" "br_pending v = br_pending w" "ls_calls v = ls_calls w" "br_onLink v = br_onLink w"
    "br_onMessage v = br_onMessage w" "dm_task v = dm_task w"
  shows "bridge_ok v = bridge_ok w"
  using assms by (simp add: bridge_ok_def)

lemma set_link_app [simp]:
  "dm_got (set_link k f w) = dm_got w" "br_pending (set_link k f w) = br_pending w"
  "br_onLink (set_link k f w) = br_onLink w" "br_onMessage (set_link k f w) = br_onMessage w"
  "dm_task (set_link k f w) = dm_task w" "dm_lines (set_link k f w) = dm_lines w"
  "dm_resolving (set_link k f w) = dm_resolving w" "ls_receiving (set_link k f w) = ls_receiving w"
  by (simp_all add: set_link_def)

lemma log_call_app [simp]:
  "dm_got (log_call c w) = dm_got w" "br_pending (log_call c w) = br_pending w"
  "br_onLink (log_call c w) = br_onLink w" "br_onMessage (log_call c w) = br_onMessage w"
  "dm_task (log_call c w) = dm_task w" "dm_lines (log_call c w) = dm_lines w"
  "dm_resolving (log_call c w) = dm_resolving w" "ls_receiving (log_call c w) = ls_receiving w"
  by (simp_all add: log_call_def)

lemma UdpLink_Send_app [simp]:
  "dm_got (UdpLink_Send k f w) = dm_got w" "br_pending (UdpLink_Send k f w) = br_pending w"
  "br_onLink (UdpLink_Send k f w) = br_onLink w" "br_onMessage (UdpLink_Send k f w) = br_onMessage w"
  "dm_task (UdpLink_Send k f w) = dm_task w" "dm_lines (UdpLink_Send k f w) = dm_lines w"
  "ls_calls (UdpLink_Send k f w) = ls_calls w" "ls_store (UdpLink_Send k f w) = ls_store w"
  "ls_links (UdpLink_Send k f w) = ls_links w" "ls_next (UdpLink_Send k f w) = ls_next w"
  "ls_stopped (UdpLink_Send k f w) = ls_stopped w" "ls_receiving (UdpLink_Send k f w) = ls_receiving w"
  by (simp_all add: UdpLink_Send_def Let_def split: prod.splits)

lemma bridge_ok_updates [simp]:
  "bridge_ok (set_link k f w) = bridge_ok w" "bridge_ok (w\<lparr>ls_receiving := b\<rparr>) = bridge_ok w"
  "bridge_ok (w\<lparr>ls_links := m\<rparr>) = bridge_ok w" "bridge_ok (w\<lparr>dm_lines := ls\<rparr>) = bridge_ok w"
  "bridge_ok (w\<lparr>dm_resolving := b\<rparr>) = bridge_ok w" "bridge_ok (UdpLink_Send k g w) = bridge_ok w"
  "bridge_ok (w\<lparr>ls_stopped := b, ls_socketOpen := b'\<rparr>) = bridge_ok w"
  "bridge_ok (w\<lparr>ls_next := n, ls_store := s\<rparr>) = bridge_ok w"
  "bridge_ok (w\<lparr>ls_next := n, ls_store := s, ls_links := m\<rparr>) = bridge_ok w"
  "bridge_ok (log_call (CallOnLink k) w) = bridge_ok w" "bridge_ok (log_call (CallOnLinkError e) w) = bridge_ok w"
  by (simp_all add: bridge_ok_def)

lemma bridge_Deliver_ok:
  "bridge_ok w \<Longrightarrow> bridge_ok (bridge_onReceived k data (log_call (CallReceived k data) w))"
  "bridge_ok w \<Longrightarrow> bridge_ok (bridge_onDisconnected k (log_call (CallDisconnected k) w))"
  by (auto simp: bridge_ok_def bridge_onReceived_def bridge_onDisconnected_def bridge_Deliver_def complete_message_def
      split: task_state.splits)

lemma OnLink_ok: "bridge_ok w \<Longrightarrow> BridgeAcceptor_OnLink res w = (h, w') \<Longrightarrow> bridge_ok w'"
  by (auto simp: bridge_ok_def BridgeAcceptor_OnLink_def complete_link_def split: sum.splits if_splits)

lemma AwaitMessage_ok: "bridge_ok w \<Longrightarrow> dm_task w = LinkReady j \<Longrightarrow> bridge_ok (AwaitMessage k w)"
  by (auto simp: bridge_ok_def AwaitMessage_def split: list.splits)

lemma AwaitLink_ok: "bridge_ok w \<Longrightarrow> dm_task w = MessageReady k m \<Longrightarrow> bridge_ok (AwaitLink (w\<lparr>br_onLink := b\<rparr>))"
  by (auto simp: bridge_ok_def AwaitLink_def)

lemma return_ok: "bridge_ok w \<Longrightarrow> dm_task w = MessageReady k m \<Longrightarrow> bridge_ok (w\<lparr>dm_task := Returned c\<rparr>)"
  by (auto simp: bridge_ok_def)

lemma UdpLink_Disconnect_ok: "bridge_ok w \<Longrightarrow> bridge_ok (UdpLink_Disconnect bridge_onDisconnected k w)"
  by (auto simp: UdpLink_Disconnect_def Let_def intro!: bridge_Deliver_ok)

lemma Disconnect_keeps_ready:
  "bridge_ok w \<Longrightarrow> dm_task w = MessageReady j m \<Longrightarrow> dm_task (UdpLink_Disconnect bridge_onDisconnected k w) = MessageReady j m"
  by (auto simp: bridge_ok_def UdpLink_Disconnect_def bridge_onDisconnected_def bridge_Deliver_def Let_def)

lemma DeliverReceived_ok: "bridge_ok w \<Longrightarrow> bridge_ok (DeliverReceived bridge_onReceived k data w)"
  by (auto simp: DeliverReceived_def Let_def intro!: bridge_Deliver_ok)

lemmas bridge_oks = bridge_Deliver_ok OnLink_ok AwaitMessage_ok AwaitLink_ok return_ok UdpLink_Disconnect_ok DeliverReceived_ok

lemma server_apply_ok: "bridge_ok w \<Longrightarrow> bridge_ok (server_apply keepAlive e w)"
proof (cases e)
  case (ServerReceive res)
  assume "bridge_ok w"
  with ServerReceive show ?thesis
    by (auto simp: ServerReceiveHandler_def OnReceived_def StartReceive_def SetLinkHandler_def Let_def
        intro!: DeliverReceived_ok split: sum.splits option.splits prod.splits dest: OnLink_ok[rotated])
next
  case (ServerResume now)
  assume ok: "bridge_ok w"
  show ?thesis
  proof (cases "dm_task w")
    case (MessageReady k m)
    let ?w = "UdpLink_Disconnect bridge_onDisconnected k (w\<lparr>dm_lines := dm_lines w @ [MessageReceived (the m)]\<rparr>)"
    have "bridge_ok ?w" "dm_task ?w = MessageReady k m"
      using ok MessageReady Disconnect_keeps_ready[of "w\<lparr>dm_lines := dm_lines w @ [MessageReceived (the m)]\<rparr>" k m k]
      by (auto intro: UdpLink_Disconnect_ok)
    then show ?thesis
      using ServerResume ok MessageReady AwaitLink_ok return_ok[of ?w k m]
        return_ok[of "w\<lparr>dm_lines := dm_lines w @ [PeerLost]\<rparr>" k m]
      by (cases m) (auto simp: ServerTask_resume_def server_return_def UdpServer_destroy_def Let_def)
  qed (use ServerResume ok in \<open>auto simp: ServerTask_resume_def intro!: AwaitMessage_ok\<close>)
qed

lemma ClientTask_resume_ok: "bridge_ok w \<Longrightarrow> bridge_ok (ClientTask_resume now w)"
proof (cases "dm_task w")
  case (MessageReady k m)
  assume ok: "bridge_ok w"
  let ?w = "UdpLink_Disconnect bridge_onDisconnected k (w\<lparr>dm_lines := dm_lines w @ [MessageReceived (the m)]\<rparr>)"
  have "bridge_ok ?w" "dm_task ?w = MessageReady k m"
    using ok MessageReady Disconnect_keeps_ready[of "w\<lparr>dm_lines := dm_lines w @ [MessageReceived (the m)]\<rparr>" k m k]
    by (auto intro: UdpLink_Disconnect_ok)
  then show ?thesis
    using ok MessageReady return_ok[of ?w k m] return_ok[of "w\<lparr>dm_lines := dm_lines w @ [PeerLost]\<rparr>" k m]
    by (cases m) (auto simp: ClientTask_resume_def)
qed (auto simp: ClientTask_resume_def intro!: AwaitMessage_ok)

lemma client_apply_ok: "bridge_ok w \<Longrightarrow> client_apply e w = Some w' \<Longrightarrow> bridge_ok w'"
proof (cases e)
  case (ClientResolved connect localEp res)
  assume "bridge_ok w" "client_apply e w = Some w'"
  with ClientResolved show ?thesis
    by (auto simp: UdpClient_resolved_def LinkStartReceive_def DoReceive_def Let_def
        split: if_splits sum.splits list.splits option.splits prod.splits dest: OnLink_ok[rotated])
next
  case (ClientReceive k res)
  assume "bridge_ok w" "client_apply e w = Some w'"
  with ClientReceive show ?thesis
    by (auto simp: ReceiveHandler_def DoReceive_def Let_def split: sum.splits if_splits
        intro!: bridge_Deliver_ok UdpLink_Disconnect_ok)
qed (auto intro: ClientTask_resume_ok)

lemma start_ok: "bridge_ok (ServerTask_start open_ec reuse_ec bind_ec local)" "bridge_ok ClientTask_start"
  by (simp_all add: bridge_ok_def ServerTask_start_def ClientTask_start_def AwaitLink_def new_app_def listen.defs
      UdpServer_Open_def no_server_def UdpServer_destroy_def StartReceive_def new_ListenState_def BridgeAcceptor_OnLink_def
      split: option.splits)

lemma server_run_ok: "bridge_ok w \<Longrightarrow> bridge_ok (server_run keepAlive es w)"
  unfolding server_run_def by (induction es arbitrary: w) (auto intro: server_apply_ok)

lemma client_run_ok: "bridge_ok w \<Longrightarrow> client_run es w = Some w' \<Longrightarrow> bridge_ok w'"
proof (induction es arbitrary: w)
  case (Cons e es)
  then show ?case by (auto simp: bind_eq_Some_conv intro: client_apply_ok)
qed simp

section \<open>Outcomes of the two programs\<close>

lemma texts_fit: "length (client_greeting now) < 1472" "length (server_greeting now) < 1472"
  by (simp_all add: client_greeting_def server_greeting_def Timestamp_def two_digits_def)

lemma length_bytes_of [simp]: "length (bytes_of s) = length s"
  by (simp add: bytes_of_def)

lemma resize_text: "resize (length s) (bytes_of s @ buf) = bytes_of s"
  by (simp add: resize_def)

text \<open>A text goes out as one datagram, on the link's own socket or to its endpoint.\<close>

lemma send_text:
  assumes "\<not> ul_closed (ls_store w k)" and "s \<noteq> []" and "ul_ownedSocket (ls_store w k) \<noteq> None \<or> ul_sharedSocket (ls_store w k)"
  shows "ls_sent (UdpLink_Send k (write_text s) w) = ls_sent w @
     [(k, if ul_ownedSocket (ls_store w k) \<noteq> None then None else Some (ul_remoteEndpoint (ls_store w k)), bytes_of s)]"
  using assms by (auto simp: UdpLink_Send_def write_text_def resize_text)

lemma text_not_empty [simp]: "client_greeting now \<noteq> []" "server_greeting now \<noteq> []"
  by (simp_all add: client_greeting_def server_greeting_def)

fun resumes :: "server_event list \<Rightarrow> nat list" where
  "resumes [] = []"
| "resumes (ServerResume now # es) = now # resumes es"
| "resumes (ServerReceive res # es) = resumes es"

text \<open>The state of an application that no transport event touches while its slots are empty, and link 0 of a server.\<close>

definition visible :: "app \<Rightarrow> task_state \<times> demo_line list \<times> (ref \<times> endpoint option \<times> byte list) list \<times> bool \<times> bool" where
  "visible w = (dm_task w, dm_lines w, ls_sent w, br_onLink w, br_onMessage w)"

definition peer_link :: "endpoint \<Rightarrow> app \<Rightarrow> bool" where
  "peer_link ep w \<longleftrightarrow> 0 < ls_next w \<and> \<not> ul_closed (ls_store w 0) \<and> ul_ownedSocket (ls_store w 0) = None \<and>
     ul_sharedSocket (ls_store w 0) \<and> ul_remoteEndpoint (ls_store w 0) = ep"

lemma server_receive_invisible:
  fixes w :: app and keepAlive :: bool and res :: "asio_error + endpoint \<times> byte list"
  assumes "\<not> br_onLink w" and "\<not> br_onMessage w"
  defines "v \<equiv> server_apply keepAlive (ServerReceive res) w"
  shows "visible v = visible w" and "\<exists>ms. br_pending v = br_pending w @ ms" and "peer_link ep w \<Longrightarrow> peer_link ep v"
    and "ls_socketOpen v = ls_socketOpen w"
  using assms(1,2)
  by (auto simp: v_def visible_def peer_link_def ServerReceiveHandler_def OnReceived_def StartReceive_def SetLinkHandler_def
      DeliverReceived_def bridge_onReceived_def bridge_Deliver_def BridgeAcceptor_OnLink_def log_call_def set_link_def Let_def
      split: sum.splits option.splits)

lemma disconnect_invisible:
  assumes "\<not> br_onMessage w"
  shows "visible (UdpLink_Disconnect bridge_onDisconnected k w) = visible w"
    and "dm_resolving (UdpLink_Disconnect bridge_onDisconnected k w) = dm_resolving w"
  using assms
  by (simp_all add: visible_def UdpLink_Disconnect_def bridge_onDisconnected_def bridge_Deliver_def log_call_def set_link_def Let_def)

definition answering :: "endpoint \<Rightarrow> byte list \<Rightarrow> app \<Rightarrow> bool" where
  "answering ep data w \<longleftrightarrow> visible w = (LinkReady 0, [], [], False, False) \<and> peer_link ep w \<and>
     (\<exists>ms. br_pending w = Some data # ms)"

definition answered :: "endpoint \<Rightarrow> byte list \<Rightarrow> nat \<Rightarrow> app \<Rightarrow> bool" where
  "answered ep data now w \<longleftrightarrow>
     visible w = (MessageReady 0 (Some data), [PeerConnected 0], [(0, Some ep, bytes_of (server_greeting now))], False, False)"

definition server_done :: "endpoint \<Rightarrow> byte list \<Rightarrow> nat \<Rightarrow> app \<Rightarrow> bool" where
  "server_done ep data now w \<longleftrightarrow> \<not> ls_socketOpen w \<and>
     visible w = (Returned 0, [PeerConnected 0, MessageReceived data], [(0, Some ep, bytes_of (server_greeting now))], False, False)"

lemma server_steps:
  "answering ep data w \<Longrightarrow> answering ep data (server_apply False (ServerReceive res) w)"
  "answering ep data w \<Longrightarrow> answered ep data now (server_apply False (ServerResume now) w)"
  "answered ep data now w \<Longrightarrow> answered ep data now (server_apply False (ServerReceive res) w)"
  "answered ep data now w \<Longrightarrow> server_done ep data now (server_apply False (ServerResume now') w)"
  "server_done ep data now w \<Longrightarrow> server_done ep data now (server_apply False e w)"
proof -
  show "answering ep data w \<Longrightarrow> answering ep data (server_apply False (ServerReceive res) w)"
    using server_receive_invisible[where w = w and keepAlive = False and res = res] by (auto simp: answering_def) (auto simp: visible_def)
  show "answered ep data now w \<Longrightarrow> answered ep data now (server_apply False (ServerReceive res) w)"
    using server_receive_invisible[where w = w and keepAlive = False and res = res] by (auto simp: answered_def) (auto simp: visible_def)
  show "answering ep data w \<Longrightarrow> answered ep data now (server_apply False (ServerResume now) w)"
    using send_text[of "w\<lparr>dm_lines := [PeerConnected 0]\<rparr>" 0 "server_greeting now"]
    by (auto simp: answering_def answered_def visible_def peer_link_def ServerTask_resume_def AwaitMessage_def)
  show "answered ep data now w \<Longrightarrow> server_done ep data now (server_apply False (ServerResume now') w)"
    using disconnect_invisible(1)[of "w\<lparr>dm_lines := dm_lines w @ [MessageReceived data]\<rparr>" 0]
    by (simp add: answered_def server_done_def visible_def ServerTask_resume_def server_return_def UdpServer_destroy_def Let_def)
  show "server_done ep data now w \<Longrightarrow> server_done ep data now (server_apply False e w)"
    using server_receive_invisible[where w = w and keepAlive = False]
    by (cases e) (auto simp: server_done_def visible_def ServerTask_resume_def)
qed

lemma server_done_run: "server_done ep data now w \<Longrightarrow> server_done ep data now (server_run False es w)"
  by (induction es arbitrary: w) (auto simp: server_run_def intro: server_steps(5))

lemma answered_run:
  "answered ep data now w \<Longrightarrow> resumes es \<noteq> [] \<Longrightarrow> server_done ep data now (server_run False es w)"
proof (induction es arbitrary: w rule: resumes.induct)
  case (2 now' es)
  then show ?case using server_done_run[OF server_steps(4)] by (simp add: server_run_def)
next
  case (3 res es)
  then show ?case using server_steps(3) by (simp add: server_run_def)
qed simp

lemma answering_run:
  "answering ep data w \<Longrightarrow> 2 \<le> length (resumes es) \<Longrightarrow> server_done ep data (hd (resumes es)) (server_run False es w)"
proof (induction es arbitrary: w rule: resumes.induct)
  case (2 now es)
  then show ?case using answered_run[OF server_steps(2)[of ep data w now], of es] by (cases "resumes es") (auto simp: server_run_def)
next
  case (3 res es)
  then show ?case using server_steps(1) by (simp add: server_run_def)
qed simp

lemma waiting_run: "dm_task w = AwaitingLink \<Longrightarrow> server_run keepAlive (map ServerResume ts) w = w"
  by (induction ts) (simp_all add: server_run_def ServerTask_resume_def)

lemma first_datagram:
  "answering ep data (server_apply False (ServerReceive (Inr (ep, data))) (ServerTask_start None reuse None local))"
  by (simp add: answering_def visible_def peer_link_def ServerTask_start_def AwaitLink_def new_app_def listen.defs
      UdpServer_Open_def StartReceive_def new_ListenState_def ServerReceiveHandler_def OnReceived_def SetLinkHandler_def
      DeliverReceived_def bridge_onReceived_def bridge_Deliver_def BridgeAcceptor_OnLink_def complete_link_def MakeHandler_def
      UdpLink_shared_def log_call_def set_link_def Let_def)

text \<open>
  Without \<open>-k\<close> the server answers the peer whose datagram comes first, takes that datagram as its message, and ends with code 0, whatever
  arrives from other peers and whenever its coroutine is resumed.
\<close>

lemma server_answers_first_peer:
  assumes "2 \<le> length (resumes es)"
  shows "server_done ep data (hd (resumes es))
     (server_run False (map ServerResume ts @ ServerReceive (Inr (ep, data)) # es) (ServerTask_start None reuse None local))"
proof -
  let ?start = "ServerTask_start None reuse None local"
  have "dm_task ?start = AwaitingLink" by (simp add: ServerTask_start_def AwaitLink_def)
  then have "server_run False (map ServerResume ts @ ServerReceive (Inr (ep, data)) # es) ?start =
      server_run False es (server_apply False (ServerReceive (Inr (ep, data))) ?start)"
    using waiting_run[of ?start False ts] by (simp add: server_run_def)
  then show ?thesis using answering_run[OF first_datagram assms(1)] by simp
qed

definition connected_link :: "app \<Rightarrow> bool" where
  "connected_link w \<longleftrightarrow> 0 < ls_next w \<and> \<not> ul_closed (ls_store w 0) \<and> ul_ownedSocket (ls_store w 0) \<noteq> None \<and>
     ul_receiving (ls_store w 0) \<and> ul_handler (ls_store w 0) = MakeHandler"

definition client_sent :: "task_state \<Rightarrow> demo_line list \<Rightarrow> bool \<Rightarrow> nat \<Rightarrow> app \<Rightarrow> bool" where
  "client_sent t lines waiting now w \<longleftrightarrow> \<not> dm_resolving w \<and>
     visible w = (t, PeerConnected 0 # lines, [(0, None, bytes_of (client_greeting now))], False, waiting)"

lemma client_connects:
  assumes "connect srv = None"
  shows "\<exists>w. client_apply (ClientResolved connect localEp (Inr (srv # eps))) ClientTask_start = Some w \<and>
     connected_link w \<and> \<not> dm_resolving w \<and> br_pending w = [] \<and> visible w = (LinkReady 0, [], [], False, False)"
  using assms
  by (simp add: connected_link_def visible_def ClientTask_start_def AwaitLink_def new_app_def listen.defs new_ListenState_def
      UdpClient_resolved_def LinkStartReceive_def DoReceive_def BridgeAcceptor_OnLink_def complete_link_def MakeHandler_def
      UdpLink_connected_def log_call_def set_link_def Let_def) blast

lemma client_greets:
  assumes "connected_link w" and "\<not> dm_resolving w" and "br_pending w = []" and "visible w = (LinkReady 0, [], [], False, False)"
  shows "\<exists>v. client_apply (ClientResume now) w = Some v \<and> connected_link v \<and> br_pending v = [] \<and>
     client_sent (AwaitingMessage 0) [] True now v"
proof -
  have "dm_resolving (UdpLink_Send k f u) = dm_resolving u" for k f and u :: app
    by (simp add: UdpLink_Send_def Let_def split: prod.splits)
  then show ?thesis
    using assms send_text[of "w\<lparr>dm_lines := [PeerConnected 0]\<rparr>" 0 "client_greeting now"]
    by (simp add: connected_link_def client_sent_def visible_def ClientTask_resume_def AwaitMessage_def)
qed

lemma client_waits: "client_sent (AwaitingMessage 0) [] True now w \<Longrightarrow> client_run (map ClientResume ts @ es) w = client_run es w"
  by (induction ts) (auto simp: client_sent_def visible_def ClientTask_resume_def)

lemma client_gets_reply:
  assumes "connected_link w" and "client_sent (AwaitingMessage 0) [] True now w"
  shows "\<exists>v. client_apply (ClientReceive 0 (Inr reply)) w = Some v \<and> client_sent (MessageReady 0 (Some reply)) [] False now v"
  using assms
  by (auto simp: connected_link_def client_sent_def visible_def ReceiveHandler_def DoReceive_def MakeHandler_def
      bridge_onReceived_def bridge_Deliver_def complete_message_def log_call_def set_link_def Let_def)

lemma client_receive_invisible:
  assumes "client_sent t lines False now w"
  shows "client_sent t lines False now
     (if k < ls_next w \<and> ul_receiving (ls_store w k)
      then ReceiveHandler bridge_onDisconnected bridge_onReceived k res w else w)"
  using assms
  by (auto simp: client_sent_def visible_def ReceiveHandler_def DoReceive_def UdpLink_Disconnect_def bridge_onReceived_def
      bridge_onDisconnected_def bridge_Deliver_def log_call_def set_link_def Let_def split: sum.splits)

fun client_resumes :: "client_event list \<Rightarrow> nat" where
  "client_resumes [] = 0"
| "client_resumes (ClientResume now # es) = Suc (client_resumes es)"
| "client_resumes (ClientResolved connect localEp res # es) = client_resumes es"
| "client_resumes (ClientReceive k res # es) = client_resumes es"

lemma client_finishes:
  assumes "client_sent (MessageReady 0 (Some reply)) [] False now w \<and> 0 < client_resumes es \<or>
    client_sent (Returned 0) [MessageReceived reply] False now w"
  shows "\<exists>v. client_run es w = Some v \<and> client_sent (Returned 0) [MessageReceived reply] False now v"
  using assms
proof (induction es arbitrary: w rule: client_resumes.induct)
  case (2 now' es)
  let ?v = "ClientTask_resume now' w"
  have "client_sent (Returned 0) [MessageReceived reply] False now ?v"
    using "2.prems" disconnect_invisible[of "w\<lparr>dm_lines := dm_lines w @ [MessageReceived reply]\<rparr>" 0]
    by (auto simp: client_sent_def visible_def ClientTask_resume_def)
  then show ?case using "2.IH"[of ?v] by simp
next
  case (3 connect localEp res es)
  then show ?case by (auto simp: client_sent_def)
next
  case (4 k res es)
  then show ?case using client_receive_invisible[of _ _ now w k res] by fastforce
qed auto

lemma client_exchanges:
  assumes "connect srv = None" and "ts \<noteq> []" and "0 < client_resumes es"
  shows "\<exists>c. client_run (ClientResolved connect localEp (Inr (srv # eps)) # map ClientResume ts @ ClientReceive 0 (Inr reply) # es)
       ClientTask_start = Some c \<and> client_sent (Returned 0) [MessageReceived reply] False (hd ts) c"
proof -
  obtain t ts' where ts: "ts = t # ts'" using assms(2) by (cases ts) auto
  obtain w1 where w1: "client_apply (ClientResolved connect localEp (Inr (srv # eps))) ClientTask_start = Some w1"
      "connected_link w1" "\<not> dm_resolving w1" "br_pending w1 = []" "visible w1 = (LinkReady 0, [], [], False, False)"
    using client_connects[of connect srv localEp eps, OF assms(1)] by blast
  obtain w2 where w2: "client_apply (ClientResume t) w1 = Some w2" "connected_link w2"
      "client_sent (AwaitingMessage 0) [] True t w2"
    using client_greets[OF w1(2-5)] by blast
  obtain w3 where w3: "client_apply (ClientReceive 0 (Inr reply)) w2 = Some w3"
      "client_sent (MessageReady 0 (Some reply)) [] False t w3"
    using client_gets_reply[OF w2(2,3)] by blast
  obtain c where "client_run es w3 = Some c" "client_sent (Returned 0) [MessageReceived reply] False t c"
    using client_finishes[of reply t w3 es] w3(2) assms(3) by blast
  then show ?thesis
    using w1(1) w2(1,3) w3(1) client_waits[of t w2 ts'] by (simp add: ts del: client_apply.simps)
qed

section \<open>Properties\<close>

text \<open>
  C28. The two programs do their exchange: a client that resolves and connects and a server without \<open>-k\<close> that opens its port each send one
  greeting, each get the other's, and both end with code 0 -- when the client's datagram is the first the server gets and the
  server's is the first the client gets, and both coroutines are resumed, whatever else arrives at either of them afterwards.
\<close>

theorem udp_programs_exchange_greetings:
  assumes "connect srv = None" and "ts \<noteq> []" and "0 < client_resumes ces" and "2 \<le> length (resumes ses)"
  defines "greeting \<equiv> bytes_of (client_greeting (hd ts))" and "reply \<equiv> bytes_of (server_greeting (hd (resumes ses)))"
  shows "\<exists>c s.
     client_run (ClientResolved connect localEp (Inr (srv # eps)) # map ClientResume ts @ ClientReceive 0 (Inr reply) # ces)
       ClientTask_start = Some c \<and>
     server_run False (map ServerResume ts' @ ServerReceive (Inr (localEp, greeting)) # ses)
       (ServerTask_start None reuse None srv) = s \<and>
     ls_sent c = [(0, None, greeting)] \<and> ls_sent s = [(0, Some localEp, reply)] \<and>
     dm_lines c = [PeerConnected 0, MessageReceived reply] \<and> dm_lines s = [PeerConnected 0, MessageReceived greeting] \<and>
     dm_task c = Returned 0 \<and> dm_task s = Returned 0 \<and> \<not> ls_socketOpen s"
proof -
  obtain c where "client_run (ClientResolved connect localEp (Inr (srv # eps)) # map ClientResume ts @ ClientReceive 0 (Inr reply) # ces)
       ClientTask_start = Some c" "client_sent (Returned 0) [MessageReceived reply] False (hd ts) c"
    using client_exchanges[of connect srv ts ces localEp eps reply] assms(1-3) by blast
  then show ?thesis
    using server_answers_first_peer[OF assms(4), of localEp greeting ts' reuse srv]
    by (auto simp: client_sent_def server_done_def visible_def greeting_def reply_def)
qed

lemma server_greeting_7: "server_greeting 7 = ''Hello from server at 00:00:07''"
  by (simp add: server_greeting_def Timestamp_def two_digits_def char_of_eq_iff)

theorem udp_programs_exchange_greetings_witness:
  "\<exists>c s.
     client_run [ClientResolved (\<lambda>_. None) no_endpoint (Inr [no_endpoint]), ClientResume 5,
       ClientReceive 0 (Inr (bytes_of (server_greeting 7))), ClientReceive 0 (Inl timed_out), ClientResume 8] ClientTask_start = Some c \<and>
     server_run False [ServerReceive (Inr (no_endpoint, bytes_of (client_greeting 5))),
         ServerReceive (Inr (no_endpoint\<lparr>ep_port := 9\<rparr>, [1])), ServerResume 7, ServerResume 8]
       (ServerTask_start None None None no_endpoint) = s \<and>
     dm_lines c = [PeerConnected 0, MessageReceived (bytes_of ''Hello from server at 00:00:07'')] \<and>
     dm_task c = Returned 0 \<and> dm_task s = Returned 0"
  using udp_programs_exchange_greetings[of "\<lambda>_. None" no_endpoint "[5]" "[ClientReceive 0 (Inl timed_out), ClientResume 8]"
      "[ServerReceive (Inr (no_endpoint\<lparr>ep_port := 9\<rparr>, [1])), ServerResume 7, ServerResume 8]" no_endpoint "[]" "[]" None]
  by (simp add: server_greeting_7 del: client_run.simps) blast

text \<open>
  The bridge loses, duplicates and reorders nothing: what awaits have returned, followed by what is pending, is what the transport
  reported, and a slot is filled exactly while its await is suspended.
\<close>

lemma bridge_passes_messages_in_order:
  "bridge_ok (server_run keepAlive es (ServerTask_start open_ec reuse_ec bind_ec local))"
  "client_run ces ClientTask_start = Some c \<Longrightarrow> bridge_ok c"
  using server_run_ok[OF start_ok(1)] client_run_ok[OF start_ok(2)] by blast+

text \<open>
  But one bridge serves all links of a server. With \<open>-k\<close>, the disconnect that the server itself makes after the first peer stays pending and
  is taken for the second peer's; the second peer's message, which had arrived, is then taken for the third's.
\<close>

lemmas server_eval = ServerTask_resume_def ServerReceiveHandler_def OnReceived_def StartReceive_def SetLinkHandler_def
  DeliverReceived_def bridge_onReceived_def bridge_onDisconnected_def bridge_Deliver_def BridgeAcceptor_OnLink_def complete_link_def
  MakeHandler_def UdpLink_shared_def UdpLink_Disconnect_def AwaitMessage_def AwaitLink_def UdpLink_Send_def write_text_def
  log_call_def set_link_def

definition pending_after :: "msg list \<Rightarrow> demo_line list \<Rightarrow> (endpoint \<Rightarrow> bool) \<Rightarrow> app \<Rightarrow> bool" where
  "pending_after ms ls known w \<longleftrightarrow> dm_task w = AwaitingLink \<and> br_onLink w \<and> \<not> br_onMessage w \<and> br_pending w = ms \<and>
     dm_lines w = ls \<and> ls_receiving w \<and> \<not> ls_stopped w \<and> (\<forall>ep. ls_links w ep \<noteq> None \<longrightarrow> known ep)"

text \<open>One round of the loop with a new peer, by the message at the front of the queue.\<close>

lemma keepalive_round:
  assumes "pending_after ms ls known w" and "\<not> known ep" and "ms @ [Some data] = m # rest"
  shows "pending_after (case m of None \<Rightarrow> rest | Some _ \<Rightarrow> rest @ [None])
     (ls @ [PeerConnected (ls_next w), case m of None \<Rightarrow> PeerLost | Some d \<Rightarrow> MessageReceived d]) (\<lambda>e. known e \<or> e = ep)
     (server_run True [ServerReceive (Inr (ep, data)), ServerResume t, ServerResume t'] w) \<and>
   ls_next (server_run True [ServerReceive (Inr (ep, data)), ServerResume t, ServerResume t'] w) = Suc (ls_next w)"
proof -
  have "ls_links w ep = None" using assms(1,2) by (cases "ls_links w ep") (auto simp: pending_after_def)
  then show ?thesis
    using assms by (cases m) (auto simp: pending_after_def server_run_def server_eval Let_def)
qed

lemma ServerTask_start_pending: "pending_after [] [] (\<lambda>_. False) (ServerTask_start None reuse None local) \<and>
    ls_next (ServerTask_start None reuse None local) = 0"
  by (simp add: pending_after_def ServerTask_start_def AwaitLink_def new_app_def listen.defs UdpServer_Open_def
      StartReceive_def new_ListenState_def)

lemma keepalive_server_confuses_peers:
  assumes "distinct [e1, e2, e3]"
  shows "dm_lines (server_run True
       [ServerReceive (Inr (e1, d1)), ServerResume t1, ServerResume t2, ServerReceive (Inr (e2, d2)), ServerResume t3, ServerResume t4,
        ServerReceive (Inr (e3, d3)), ServerResume t5, ServerResume t6] (ServerTask_start None reuse None local)) =
     [PeerConnected 0, MessageReceived d1, PeerConnected 1, PeerLost, PeerConnected 2, MessageReceived d2]"
proof -
  let ?w = "ServerTask_start None reuse None local"
  let ?w1 = "server_run True [ServerReceive (Inr (e1, d1)), ServerResume t1, ServerResume t2] ?w"
  let ?w2 = "server_run True [ServerReceive (Inr (e2, d2)), ServerResume t3, ServerResume t4] ?w1"
  let ?w3 = "server_run True [ServerReceive (Inr (e3, d3)), ServerResume t5, ServerResume t6] ?w2"
  have 1: "pending_after [None] [PeerConnected 0, MessageReceived d1] (\<lambda>e. e = e1) ?w1" "ls_next ?w1 = 1"
    using keepalive_round[of "[]" "[]" "\<lambda>_. False" ?w e1 d1 "Some d1" "[]" t1 t2] ServerTask_start_pending[of reuse local] by simp_all
  have 2: "pending_after [Some d2] [PeerConnected 0, MessageReceived d1, PeerConnected 1, PeerLost] (\<lambda>e. e = e1 \<or> e = e2) ?w2"
      "ls_next ?w2 = 2"
    using keepalive_round[OF 1(1), of e2 d2 None "[Some d2]" t3 t4] 1(2) assms by auto
  have "dm_lines ?w3 = [PeerConnected 0, MessageReceived d1, PeerConnected 1, PeerLost, PeerConnected 2, MessageReceived d2]"
    using keepalive_round[OF 2(1), of e3 d3 "Some d2" "[Some d3]" t5 t6] 2(2) assms by (auto simp: pending_after_def)
  then show ?thesis by (simp add: server_run_def del: server_apply.simps)
qed

text \<open>
  A client that cannot resolve or connect, and a server that cannot bind its port, wait for a link forever: the acceptor drops
  the error.
\<close>

lemma client_hangs_on_error:
  assumes "res = Inl ec \<or> res = Inr (srv # eps) \<and> connect srv = Some ec"
  shows "\<exists>c. client_run (ClientResolved connect localEp res # es) ClientTask_start = Some c \<and> dm_task c = AwaitingLink"
proof -
  define stuck :: "app \<Rightarrow> bool" where "stuck w \<longleftrightarrow> dm_task w = AwaitingLink \<and> \<not> dm_resolving w \<and> ls_next w = 0" for w
  have run: "\<exists>c. client_run es w = Some c \<and> stuck c" if "stuck w" for w
    using that
  proof (induction es arbitrary: w)
    case (Cons e es)
    then show ?case by (cases e) (auto simp: stuck_def ClientTask_resume_def)
  qed simp
  have "\<exists>w. client_apply (ClientResolved connect localEp res) ClientTask_start = Some w \<and> stuck w"
    using assms
    by (auto simp: stuck_def ClientTask_start_def AwaitLink_def new_app_def listen.defs new_ListenState_def UdpClient_resolved_def
        log_call_def)
  then obtain w where w: "client_apply (ClientResolved connect localEp res) ClientTask_start = Some w" "stuck w" by blast
  obtain c where "client_run es w = Some c" "stuck c" using run[OF w(2)] by blast
  then show ?thesis using w(1) by (simp add: stuck_def del: client_apply.simps)
qed

lemma server_hangs_when_port_is_taken:
  "dm_task (server_run keepAlive es (ServerTask_start None reuse (Some ec) local)) = AwaitingLink"
proof -
  define stuck :: "app \<Rightarrow> bool" where "stuck w \<longleftrightarrow> dm_task w = AwaitingLink \<and> \<not> ls_receiving w" for w
  have "stuck (server_run keepAlive es w)" if "stuck w" for w
    using that
  proof (induction es arbitrary: w)
    case (Cons e es)
    then show ?case by (cases e) (auto simp: stuck_def server_run_def ServerTask_resume_def)
  qed (simp add: server_run_def)
  moreover have "stuck (ServerTask_start None reuse (Some ec) local)"
    by (simp add: stuck_def ServerTask_start_def AwaitLink_def new_app_def listen.defs UdpServer_Open_def no_server_def
        UdpServer_destroy_def new_ListenState_def BridgeAcceptor_OnLink_def)
  ultimately show ?thesis by (auto simp: stuck_def)
qed

text \<open>Ports are taken modulo \<open>2 ^ 16\<close> without a check, and the server ignores a port that follows \<open>-k\<close>.\<close>

lemma port_arguments:
  "GetIntArg args 2 = Inr p \<Longrightarrow> client_main_args args = Inr (args ! 1, word_of_int (p mod 65536))"
  "GetIntArg args 1 = Inr p \<Longrightarrow> snd (server_main_args args) = word_of_int (p mod 65536)"
  "server_main_args [prog, ''-k'', port] = (True, DefaultPort)"
proof -
  have w: "(word_of_int (p mod 65536) :: u16) = word_of_int p"
    by (rule word_uint_eqI) (simp add: uint_word_of_int)
  show "GetIntArg args 2 = Inr p \<Longrightarrow> client_main_args args = Inr (args ! 1, word_of_int (p mod 65536))"
    using w by (auto simp: client_main_args_def GetIntArg_def split: if_splits sum.splits)
  show "GetIntArg args 1 = Inr p \<Longrightarrow> snd (server_main_args args) = word_of_int (p mod 65536)"
    using w by (auto simp: server_main_args_def GetIntArg_def split: if_splits sum.splits)
  show "server_main_args [prog, ''-k'', port] = (True, DefaultPort)"
    by (simp add: server_main_args_def Contains_def GetIntArg_def from_chars_int_def is_digit_def)
qed

end
