(* ===== verification/Rtc_Link.thy ===== *)
theory Rtc_Link
  imports Rtt_Core
begin

text \<open>
  \<open>pkg/rtt/rtc/Rtt/Rtc/Dc/DcRtcLink\<close>: a link over a WebRTC data channel.

  libdatachannel is third-party code: what the link asks of it is logged (\<open>dl_pc\<close>), what it reports are
  the arguments of the callbacks below. \<open>None\<close> is undefined behaviour: \<open>Send\<close> copies as many bytes as the
  writer claims to have written, which must not exceed the buffer.
\<close>

section \<open>State\<close>

datatype desc_type = OfferDesc | AnswerDesc

datatype pc_state = PcNew | PcConnecting | PcConnected | PcDisconnected | PcFailed | PcClosed

datatype gathering_state = GNew | GInProgress | GComplete

datatype pc_call =
    CreateDataChannel string
  | SetRemote string desc_type
  | AddCandidate string string
  | DcSend "byte list"
  | DcClose
  | PcClose

datatype link_call = LinkReceived "byte list" | LinkDisconnected

record dc_link =
  dl_localId :: string
  dl_remoteId :: string
  dl_maxMessageSize :: nat
  dl_dc :: "bool option"
  dl_handler :: link_handler
  dl_disconnectRequested :: bool
  dl_closedFired :: bool
  dl_remoteDescSet :: bool
  dl_pendingCandidates :: "(string \<times> string) list"
  dl_pc :: "pc_call list"
  dl_calls :: "link_call list"

fun GatheringToStringView :: "gathering_state \<Rightarrow> string" where
  "GatheringToStringView GNew = ''New''"
| "GatheringToStringView GInProgress = ''InProgress''"
| "GatheringToStringView GComplete = ''Complete''"

fun StateToStringView :: "pc_state \<Rightarrow> string" where
  "StateToStringView PcNew = ''New''"
| "StateToStringView PcConnecting = ''Connecting''"
| "StateToStringView PcConnected = ''Connected''"
| "StateToStringView PcDisconnected = ''Disconnected''"
| "StateToStringView PcFailed = ''Failed''"
| "StateToStringView PcClosed = ''Closed''"

section \<open>Operations\<close>

definition new_DcRtcLink :: "string \<Rightarrow> string \<Rightarrow> nat \<Rightarrow> dc_link" where
  "new_DcRtcLink localId remoteId maxMessageSize =
     \<lparr>dl_localId = localId, dl_remoteId = remoteId, dl_maxMessageSize = maxMessageSize, dl_dc = None,
      dl_handler = no_handler, dl_disconnectRequested = False, dl_closedFired = False, dl_remoteDescSet = False,
      dl_pendingCandidates = [], dl_pc = [], dl_calls = []\<rparr>"

text \<open>The payloads that the callbacks set in the constructor send to the remote peer.\<close>

definition onLocalDescription :: "'j json_api \<Rightarrow> string \<Rightarrow> string \<Rightarrow> string" where
  "onLocalDescription J typeString desc = j_dump J (j_object J [(''type'', typeString), (''description'', desc)])"

definition onLocalCandidate :: "'j json_api \<Rightarrow> string \<Rightarrow> string \<Rightarrow> string" where
  "onLocalCandidate J cand mid =
     j_dump J (j_object J [(''type'', ''candidate''), (''candidate'', cand), (''mid'', mid)])"

definition Attach :: "dc_link \<Rightarrow> dc_link" where
  "Attach l = l\<lparr>dl_dc := Some True\<rparr>"

text \<open>The data channel's \<open>onMessage\<close>: \<open>None\<close> is a text message.\<close>

definition dc_onMessage :: "byte list option \<Rightarrow> dc_link \<Rightarrow> dc_link" where
  "dc_onMessage data l =
     (if dl_disconnectRequested l then l
      else
        case data of
          None \<Rightarrow> l
        | Some bin \<Rightarrow>
            if lh_onReceived (dl_handler l) then l\<lparr>dl_calls := dl_calls l @ [LinkReceived bin]\<rparr> else l)"

definition terminal :: "pc_state \<Rightarrow> bool" where
  "terminal st \<longleftrightarrow> st = PcClosed \<or> st = PcDisconnected \<or> st = PcFailed"

text \<open>The part of the attached \<open>onStateChange\<close> that concerns the link.\<close>

definition pc_onStateChange :: "pc_state \<Rightarrow> dc_link \<Rightarrow> dc_link" where
  "pc_onStateChange st l =
     (if terminal st
      then if dl_closedFired l then l
           else
             let l1 = l\<lparr>dl_closedFired := True\<rparr>
             in if lh_onDisconnected (dl_handler l1) then l1\<lparr>dl_calls := dl_calls l1 @ [LinkDisconnected]\<rparr> else l1
      else l)"

definition flush_candidates :: "(string \<times> string) list \<Rightarrow> dc_link \<Rightarrow> dc_link" where
  "flush_candidates pending l = l\<lparr>dl_pc := dl_pc l @ map (\<lambda>(cand, mid). AddCandidate cand mid) pending\<rparr>"

definition SetRemoteDescription :: "string \<Rightarrow> desc_type \<Rightarrow> dc_link \<Rightarrow> dc_link" where
  "SetRemoteDescription sdp type l =
     (let l1 = l\<lparr>dl_pc := dl_pc l @ [SetRemote sdp type]\<rparr>;
          pending = dl_pendingCandidates l1;
          l2 = l1\<lparr>dl_remoteDescSet := True, dl_pendingCandidates := []\<rparr>
      in if pending = [] then l2 else flush_candidates pending l2)"

definition AddRemoteCandidate :: "string \<Rightarrow> string \<Rightarrow> dc_link \<Rightarrow> dc_link" where
  "AddRemoteCandidate cand mid l =
     (if dl_remoteDescSet l then l\<lparr>dl_pc := dl_pc l @ [AddCandidate cand mid]\<rparr>
      else l\<lparr>dl_pendingCandidates := dl_pendingCandidates l @ [(cand, mid)]\<rparr>)"

definition DcSetHandler :: "link_handler \<Rightarrow> dc_link \<Rightarrow> dc_link" where
  "DcSetHandler h l = l\<lparr>dl_handler := h\<rparr>"

definition DcRtcLink_Send :: "(byte list \<Rightarrow> nat \<times> byte list) \<Rightarrow> dc_link \<Rightarrow> dc_link option" where
  "DcRtcLink_Send writer l =
     (if dl_disconnectRequested l \<or> dl_dc l \<noteq> Some True then Some l
      else
        let (bytesWritten, buf) = writer (replicate (dl_maxMessageSize l) 0)
        in if bytesWritten = 0 then Some l
           else if bytesWritten > length buf then None
           else Some (l\<lparr>dl_pc := dl_pc l @ [DcSend (take bytesWritten buf)]\<rparr>))"

definition DcRtcLink_Disconnect :: "dc_link \<Rightarrow> dc_link" where
  "DcRtcLink_Disconnect l =
     (if dl_disconnectRequested l then l
      else
        let l1 = l\<lparr>dl_disconnectRequested := True\<rparr>;
            l2 = (if dl_dc l1 \<noteq> None then l1\<lparr>dl_dc := Some False, dl_pc := dl_pc l1 @ [DcClose]\<rparr> else l1)
        in l2\<lparr>dl_pc := dl_pc l2 @ [PcClose]\<rparr>)"

section \<open>Any sequence of callbacks and calls\<close>

text \<open>
  Before \<open>Attach\<close> there is no data channel, and the state callback that the constructor set only logs.
\<close>

datatype link_event =
    LeRemote string desc_type
  | LeCandidate string string
  | LeAttach
  | LeHandler link_handler
  | LeMessage "byte list option"
  | LeState pc_state
  | LeSend "byte list"
  | LeDisconnect

fun link_apply :: "link_event \<Rightarrow> dc_link \<Rightarrow> dc_link" where
  "link_apply (LeRemote sdp type) l = SetRemoteDescription sdp type l"
| "link_apply (LeCandidate cand mid) l = AddRemoteCandidate cand mid l"
| "link_apply LeAttach l = Attach l"
| "link_apply (LeHandler h) l = DcSetHandler h l"
| "link_apply (LeMessage data) l = (if dl_dc l = None then l else dc_onMessage data l)"
| "link_apply (LeState st) l = (if dl_dc l = None then l else pc_onStateChange st l)"
| "link_apply (LeSend data) l =
     (case DcRtcLink_Send (\<lambda>buf. (min (length data) (length buf), take (length buf) data @ drop (length data) buf)) l of
        None \<Rightarrow> l
      | Some l' \<Rightarrow> l')"
| "link_apply LeDisconnect l = DcRtcLink_Disconnect l"

fun candidates_in :: "pc_call list \<Rightarrow> (string \<times> string) list" where
  "candidates_in [] = []"
| "candidates_in (AddCandidate c m # cs) = (c, m) # candidates_in cs"
| "candidates_in (_ # cs) = candidates_in cs"

fun candidates_of :: "link_event list \<Rightarrow> (string \<times> string) list" where
  "candidates_of [] = []"
| "candidates_of (LeCandidate c m # es) = (c, m) # candidates_of es"
| "candidates_of (_ # es) = candidates_of es"

definition has_remote :: "pc_call list \<Rightarrow> bool" where
  "has_remote cs = list_ex (\<lambda>c. case c of SetRemote _ _ \<Rightarrow> True | _ \<Rightarrow> False) cs"

text \<open>No candidate reaches the peer connection before a remote description.\<close>

fun described_first :: "pc_call list \<Rightarrow> bool" where
  "described_first [] = True"
| "described_first (SetRemote _ _ # cs) = True"
| "described_first (AddCandidate _ _ # cs) = False"
| "described_first (_ # cs) = described_first cs"

lemma candidates_in_append [simp]: "candidates_in (xs @ ys) = candidates_in xs @ candidates_in ys"
  by (induction xs rule: candidates_in.induct) auto

lemma candidates_in_map [simp]: "candidates_in (map (\<lambda>(c, m). AddCandidate c m) ps) = ps"
  by (induction ps) auto

lemma candidates_of_append [simp]: "candidates_of (xs @ ys) = candidates_of xs @ candidates_of ys"
  by (induction xs rule: candidates_of.induct) auto

lemma described_first_append:
  "described_first (xs @ ys) \<longleftrightarrow> described_first xs \<and> (has_remote xs \<or> described_first ys)"
  by (induction xs rule: described_first.induct) (auto simp: has_remote_def)

lemma has_remote_append [simp]: "has_remote (xs @ ys) \<longleftrightarrow> has_remote xs \<or> has_remote ys"
  by (simp add: has_remote_def)

definition link_inv :: "(string \<times> string) list \<Rightarrow> dc_link \<Rightarrow> bool" where
  "link_inv added l \<longleftrightarrow>
     candidates_in (dl_pc l) @ dl_pendingCandidates l = added \<and> described_first (dl_pc l) \<and>
     (dl_remoteDescSet l \<longleftrightarrow> has_remote (dl_pc l)) \<and>
     (dl_remoteDescSet l \<longrightarrow> dl_pendingCandidates l = []) \<and>
     length (filter (\<lambda>c. c = LinkDisconnected) (dl_calls l)) \<le> (if dl_closedFired l then 1 else 0)"

lemma link_apply_inv:
  assumes "link_inv added l"
  shows "link_inv (added @ candidates_of [e]) (link_apply e l)"
proof (cases e)
  case (LeRemote sdp ty)
  then show ?thesis
    using assms by (cases "dl_pendingCandidates l = []")
      (auto simp: link_inv_def SetRemoteDescription_def flush_candidates_def described_first_append has_remote_def Let_def)
next
  case (LeCandidate c m)
  then show ?thesis
    using assms by (auto simp: link_inv_def AddRemoteCandidate_def described_first_append has_remote_def)
next
  case (LeSend data)
  then show ?thesis
    using assms by (auto simp: link_inv_def DcRtcLink_Send_def described_first_append has_remote_def Let_def split: option.splits if_splits)
next
  case LeDisconnect
  then show ?thesis
    using assms by (auto simp: link_inv_def DcRtcLink_Disconnect_def described_first_append has_remote_def Let_def)
next
  case (LeMessage data)
  then show ?thesis using assms by (auto simp: link_inv_def dc_onMessage_def split: option.splits)
next
  case (LeState st)
  then show ?thesis using assms by (auto simp: link_inv_def pc_onStateChange_def Let_def split: if_splits)
qed (use assms in \<open>auto simp: link_inv_def Attach_def DcSetHandler_def\<close>)

lemma link_run_inv:
  assumes "link_inv added l"
  shows "link_inv (added @ candidates_of es) (fold link_apply es l)"
  using assms
proof (induction es arbitrary: added l)
  case Nil
  then show ?case by simp
next
  case (Cons e es)
  have "candidates_of (e # es) = candidates_of [e] @ candidates_of es"
    using candidates_of_append[of "[e]" es] by simp
  then show ?case using Cons.IH[OF link_apply_inv[OF Cons.prems, of e]] by simp
qed

lemma new_link_inv: "link_inv [] (new_DcRtcLink a b m)"
  by (simp add: link_inv_def new_DcRtcLink_def has_remote_def)

section \<open>Properties\<close>


text \<open>
  After \<open>Disconnect\<close> the link is silent: no message reaches the handler and nothing is sent, and the peer
  connection's terminal state, however often it is reported, calls \<open>onDisconnected\<close> exactly once.
\<close>

lemma disconnected_link_is_silent:
  assumes "lh_onDisconnected (dl_handler l)" and "\<not> dl_closedFired l" and "terminal st"
  shows "dl_calls (dc_onMessage data (DcRtcLink_Disconnect l)) = dl_calls l \<and>
    DcRtcLink_Send writer (DcRtcLink_Disconnect l) = Some (DcRtcLink_Disconnect l) \<and>
    DcRtcLink_Disconnect (DcRtcLink_Disconnect l) = DcRtcLink_Disconnect l \<and>
    dl_calls (pc_onStateChange st' (pc_onStateChange st (DcRtcLink_Disconnect l))) = dl_calls l @ [LinkDisconnected]"
  using assms
  by (auto simp: dc_onMessage_def DcRtcLink_Disconnect_def DcRtcLink_Send_def pc_onStateChange_def Let_def)

lemma disconnected_link_is_silent_witness:
  "let l = Attach (DcSetHandler \<lparr>lh_onReceived = True, lh_onDisconnected = True\<rparr> (new_DcRtcLink ''a'' ''b'' 10))
   in dl_calls (pc_onStateChange PcClosed (pc_onStateChange PcDisconnected (DcRtcLink_Disconnect l))) = [LinkDisconnected]"
  using disconnected_link_is_silent[of
      "Attach (DcSetHandler \<lparr>lh_onReceived = True, lh_onDisconnected = True\<rparr> (new_DcRtcLink ''a'' ''b'' 10))"
      PcDisconnected None "\<lambda>b. (0, b)" PcClosed]
  by (simp add: Attach_def DcSetHandler_def new_DcRtcLink_def terminal_def)

end
