(* ===== verification/Signaling.thy ===== *)
theory Signaling
  imports Prelude
begin

text \<open>
  \<open>pkg/rtt/Rtt/Rtc\<close>: \<open>SigHub\<close>, its registered users (\<open>SigHub::HubUser\<close>) and \<open>LocalSigClient\<close>, the in-process
  signalling layer.

  Users and handlers are numbered; the hub's state holds the store of users, which of them and of the
  handlers are still alive (what \<open>weak_ptr::lock\<close> tests), and the calls made to handlers in order. A
  handler reacts to a call by a list of actions (parameter \<open>R\<close>), which run before the call returns.
  Locking a user's \<open>_handlerMutex\<close> that the same thread holds is a deadlock, an error value here.
  \<open>hb_accepted\<close> is a ghost: the messages handed to \<open>Deliver\<close>, with their target and address.
\<close>

section \<open>State\<close>

record SigMessage =
  sm_from :: string
  sm_payload :: string

datatype left_code = LeftClean | LeftConnectionLost

datatype hcall = OnMessage ref ref SigMessage | OnLeft ref ref left_code

datatype action = DoSend ref string string | DoLeave ref

datatype stuck = Deadlock | OutOfFuel

record hub_user =
  hu_localId :: string
  hu_handler :: "ref option"
  hu_pending :: "SigMessage list"
  hu_left :: bool
  hu_locked :: bool

record hub =
  hb_peers :: "string \<rightharpoonup> ref"
  hb_users :: "ref \<Rightarrow> hub_user"
  hb_next :: ref
  hb_userAlive :: "ref \<Rightarrow> bool"
  hb_handlerAlive :: "ref \<Rightarrow> bool"
  hb_exists :: bool
  hb_calls :: "hcall list"
  hb_accepted :: "(ref \<times> string \<times> SigMessage) list"

record reactions =
  r_OnMessage :: "ref \<Rightarrow> SigMessage \<Rightarrow> action list"
  r_OnLeft :: "ref \<Rightarrow> action list"

definition new_HubUser :: "string \<Rightarrow> hub_user" where
  "new_HubUser lid = \<lparr>hu_localId = lid, hu_handler = None, hu_pending = [], hu_left = False, hu_locked = False\<rparr>"

definition new_hub :: "(ref \<Rightarrow> bool) \<Rightarrow> hub" where
  "new_hub handlers =
     \<lparr>hb_peers = Map.empty, hb_users = (\<lambda>_. new_HubUser []), hb_next = 0, hb_userAlive = (\<lambda>_. False),
      hb_handlerAlive = handlers, hb_exists = True, hb_calls = [], hb_accepted = []\<rparr>"

definition set_user :: "ref \<Rightarrow> (hub_user \<Rightarrow> hub_user) \<Rightarrow> hub \<Rightarrow> hub" where
  "set_user u f w = w\<lparr>hb_users := (hb_users w)(u := f (hb_users w u))\<rparr>"

definition called :: "hcall \<Rightarrow> hub \<Rightarrow> hub" where
  "called c w = w\<lparr>hb_calls := hb_calls w @ [c]\<rparr>"

definition lock_handler :: "ref option \<Rightarrow> hub \<Rightarrow> ref option" where
  "lock_handler h w = (case h of None \<Rightarrow> None | Some x \<Rightarrow> if hb_handlerAlive w x then Some x else None)"

section \<open>HubUser and SigHub\<close>

text \<open>\<open>run\<close> performs the actions of a handler while the call to it is on the stack.\<close>

definition Deliver ::
  "(action list \<Rightarrow> hub \<Rightarrow> stuck + hub) \<Rightarrow> reactions \<Rightarrow> ref \<Rightarrow> SigMessage \<Rightarrow> hub \<Rightarrow> stuck + hub" where
  "Deliver run R u msg w =
     (if hu_locked (hb_users w u) then Inl Deadlock
      else
        let w1 = w\<lparr>hb_accepted := hb_accepted w @ [(u, hu_localId (hb_users w u), msg)]\<rparr> in
        case lock_handler (hu_handler (hb_users w u)) w of
          Some h \<Rightarrow>
            (case run (r_OnMessage R h msg) (called (OnMessage u h msg) (set_user u (\<lambda>p. p\<lparr>hu_locked := True\<rparr>) w1)) of
               Inl e \<Rightarrow> Inl e
             | Inr w2 \<Rightarrow> Inr (set_user u (\<lambda>p. p\<lparr>hu_locked := False\<rparr>) w2))
        | None \<Rightarrow> Inr (set_user u (\<lambda>p. p\<lparr>hu_pending := hu_pending p @ [msg]\<rparr>) w1))"

definition Dispatch_lookup :: "string \<Rightarrow> hub \<Rightarrow> ref option \<times> hub" where
  "Dispatch_lookup to w =
     (case hb_peers w to of
        None \<Rightarrow> (None, w)
      | Some u \<Rightarrow> if hb_userAlive w u then (Some u, w) else (None, w\<lparr>hb_peers := (hb_peers w)(to := None)\<rparr>))"

definition Dispatch ::
  "(action list \<Rightarrow> hub \<Rightarrow> stuck + hub) \<Rightarrow> reactions \<Rightarrow> string \<Rightarrow> string \<Rightarrow> string \<Rightarrow> hub \<Rightarrow> stuck + hub" where
  "Dispatch run R from to payload w =
     (case Dispatch_lookup to w of
        (None, w1) \<Rightarrow> Inr w1
      | (Some u, w1) \<Rightarrow> Deliver run R u \<lparr>sm_from = from, sm_payload = payload\<rparr> w1)"

definition Unregister :: "string \<Rightarrow> hub \<Rightarrow> hub" where
  "Unregister lid w = w\<lparr>hb_peers := (hb_peers w)(lid := None)\<rparr>"

definition HubUser_Send ::
  "(action list \<Rightarrow> hub \<Rightarrow> stuck + hub) \<Rightarrow> reactions \<Rightarrow> ref \<Rightarrow> string \<Rightarrow> string \<Rightarrow> hub \<Rightarrow> stuck + hub" where
  "HubUser_Send run R u to payload w =
     (if hb_exists w then Dispatch run R (hu_localId (hb_users w u)) to payload w else Inr w)"

definition HubUser_Leave ::
  "(action list \<Rightarrow> hub \<Rightarrow> stuck + hub) \<Rightarrow> reactions \<Rightarrow> ref \<Rightarrow> hub \<Rightarrow> stuck + hub" where
  "HubUser_Leave run R u w =
     (if hu_left (hb_users w u) then Inr w
      else
        let w1 = set_user u (\<lambda>p. p\<lparr>hu_left := True\<rparr>) w;
            w2 = (if hb_exists w1 then Unregister (hu_localId (hb_users w1 u)) w1 else w1)
        in if hu_locked (hb_users w2 u) then Inl Deadlock
           else
             (case lock_handler (hu_handler (hb_users w2 u)) w2 of
                None \<Rightarrow> Inr w2
              | Some h \<Rightarrow> run (r_OnLeft R h) (called (OnLeft u h LeftClean) w2)))"

fun replay ::
  "(action list \<Rightarrow> hub \<Rightarrow> stuck + hub) \<Rightarrow> reactions \<Rightarrow> ref \<Rightarrow> ref \<Rightarrow> SigMessage list \<Rightarrow> hub \<Rightarrow> stuck + hub" where
  "replay run R u h [] w = Inr w"
| "replay run R u h (m # ms) w =
     (case run (r_OnMessage R h m) (called (OnMessage u h m) w) of
        Inl e \<Rightarrow> Inl e
      | Inr w1 \<Rightarrow> replay run R u h ms w1)"

definition SetHandler ::
  "(action list \<Rightarrow> hub \<Rightarrow> stuck + hub) \<Rightarrow> reactions \<Rightarrow> ref \<Rightarrow> ref option \<Rightarrow> hub \<Rightarrow> stuck + hub" where
  "SetHandler run R u handler w =
     (if hu_locked (hb_users w u) then Inl Deadlock
      else
        let pending = hu_pending (hb_users w u);
            w1 = set_user u (\<lambda>p. p\<lparr>hu_locked := True, hu_handler := handler, hu_pending := []\<rparr>) w
        in case (case lock_handler handler w1 of
                   Some h \<Rightarrow> replay run R u h pending w1
                 | None \<Rightarrow> Inr w1) of
             Inl e \<Rightarrow> Inl e
           | Inr w2 \<Rightarrow> Inr (set_user u (\<lambda>p. p\<lparr>hu_locked := False\<rparr>) w2))"

definition Register_begin :: "string \<Rightarrow> hub \<Rightarrow> ref \<times> hub" where
  "Register_begin lid w =
     (let u = hb_next w
      in (u, w\<lparr>hb_next := Suc u, hb_users := (hb_users w)(u := new_HubUser lid),
               hb_userAlive := (hb_userAlive w)(u := True), hb_peers := (hb_peers w)(lid \<mapsto> u)\<rparr>))"

definition Register_end ::
  "(action list \<Rightarrow> hub \<Rightarrow> stuck + hub) \<Rightarrow> reactions \<Rightarrow> string \<Rightarrow> ref \<Rightarrow> ref option \<Rightarrow> hub \<Rightarrow> stuck + hub" where
  "Register_end run R lid u whandler w =
     (if lock_handler whandler w = None then Inr (w\<lparr>hb_peers := (hb_peers w)(lid := None)\<rparr>)
      else SetHandler run R u whandler w)"

definition Register ::
  "(action list \<Rightarrow> hub \<Rightarrow> stuck + hub) \<Rightarrow> reactions \<Rightarrow> (ref \<Rightarrow> ref option \<times> action list) \<Rightarrow> string \<Rightarrow> hub \<Rightarrow> stuck + hub" where
  "Register run R onJoined lid w =
     (let (u, w1) = Register_begin lid w; (whandler, acts) = onJoined u
      in case run acts w1 of Inl e \<Rightarrow> Inl e | Inr w2 \<Rightarrow> Register_end run R lid u whandler w2)"

definition LocalSigClient_Join ::
  "(action list \<Rightarrow> hub \<Rightarrow> stuck + hub) \<Rightarrow> reactions \<Rightarrow> string \<Rightarrow> (ref \<Rightarrow> ref option \<times> action list) \<Rightarrow> hub \<Rightarrow> stuck + hub" where
  "LocalSigClient_Join run R localId onJoined w = Register run R onJoined localId w"

text \<open>Performing actions, with a bound on how many are performed in all.\<close>

definition do_action ::
  "(action list \<Rightarrow> hub \<Rightarrow> stuck + hub) \<Rightarrow> reactions \<Rightarrow> action \<Rightarrow> hub \<Rightarrow> stuck + hub" where
  "do_action run R a w =
     (case a of
        DoSend u to payload \<Rightarrow> HubUser_Send run R u to payload w
      | DoLeave u \<Rightarrow> HubUser_Leave run R u w)"

primrec run_actions :: "nat \<Rightarrow> reactions \<Rightarrow> action list \<Rightarrow> hub \<Rightarrow> stuck + hub" where
  "run_actions 0 = (\<lambda>R as w. if as = [] then Inr w else Inl OutOfFuel)"
| "run_actions (Suc n) = (\<lambda>R as w.
     case as of
       [] \<Rightarrow> Inr w
     | a # as' \<Rightarrow>
         (case do_action (run_actions n R) R a w of
            Inl e \<Rightarrow> Inl e
          | Inr w1 \<Rightarrow> run_actions n R as' w1))"

section \<open>Interleaved threads\<close>

text \<open>
  Threads interleave between the regions that hold a mutex: a registration between publishing the user
  and setting its handler, a dispatch between looking the target up and delivering. \<open>fl\<close> holds the
  dispatches in flight. Handlers only record here what they are told.
\<close>

definition quiet :: reactions where
  "quiet = \<lparr>r_OnMessage = (\<lambda>_ _. []), r_OnLeft = (\<lambda>_. [])\<rparr>"

definition no_actions :: "action list \<Rightarrow> hub \<Rightarrow> stuck + hub" where
  "no_actions as w = Inr w"

datatype sig_event =
    EvRegister string
  | EvSetHandler ref "ref option"
  | EvLookup string string string
  | EvDeliver nat
  | EvLeave ref
  | EvUserDies ref
  | EvHandlerDies ref
  | EvHubDies

definition settle :: "hub \<Rightarrow> stuck + hub \<Rightarrow> hub" where
  "settle w r = (case r of Inl _ \<Rightarrow> w | Inr w' \<Rightarrow> w')"

fun sig_apply :: "sig_event \<Rightarrow> hub \<times> (ref \<times> SigMessage) list \<Rightarrow> hub \<times> (ref \<times> SigMessage) list" where
  "sig_apply (EvRegister lid) (w, fl) = (if hb_exists w then (snd (Register_begin lid w), fl) else (w, fl))"
| "sig_apply (EvSetHandler u wh) (w, fl) =
     (if u < hb_next w \<and> hb_exists w
      then (settle w (Register_end no_actions quiet (hu_localId (hb_users w u)) u wh w), fl) else (w, fl))"
| "sig_apply (EvLookup from to payload) (w, fl) =
     (if \<not> hb_exists w then (w, fl)
      else
        case Dispatch_lookup to w of
          (None, w1) \<Rightarrow> (w1, fl)
        | (Some u, w1) \<Rightarrow> (w1, fl @ [(u, \<lparr>sm_from = from, sm_payload = payload\<rparr>)]))"
| "sig_apply (EvDeliver k) (w, fl) =
     (if k < length fl
      then (settle w (Deliver no_actions quiet (fst (fl ! k)) (snd (fl ! k)) w), take k fl @ drop (Suc k) fl)
      else (w, fl))"
| "sig_apply (EvLeave u) (w, fl) =
     (if u < hb_next w then (settle w (HubUser_Leave no_actions quiet u w), fl) else (w, fl))"
| "sig_apply (EvUserDies u) (w, fl) = (w\<lparr>hb_userAlive := (hb_userAlive w)(u := False)\<rparr>, fl)"
| "sig_apply (EvHandlerDies h) (w, fl) = (w\<lparr>hb_handlerAlive := (hb_handlerAlive w)(h := False)\<rparr>, fl)"
| "sig_apply EvHubDies (w, fl) = (w\<lparr>hb_exists := False\<rparr>, fl)"

definition sig_run :: "(ref \<Rightarrow> bool) \<Rightarrow> sig_event list \<Rightarrow> hub \<times> (ref \<times> SigMessage) list" where
  "sig_run handlers es = fold sig_apply es (new_hub handlers, [])"


section \<open>The invariant of all interleavings\<close>

fun received :: "ref \<Rightarrow> hcall list \<Rightarrow> SigMessage list" where
  "received u [] = []"
| "received u (OnMessage v h m # cs) = (if v = u then m # received u cs else received u cs)"
| "received u (OnLeft v h c # cs) = received u cs"

fun left_calls :: "ref \<Rightarrow> hcall list \<Rightarrow> left_code list" where
  "left_calls u [] = []"
| "left_calls u (OnMessage v h m # cs) = left_calls u cs"
| "left_calls u (OnLeft v h c # cs) = (if v = u then c # left_calls u cs else left_calls u cs)"

definition accepted_for :: "ref \<Rightarrow> (ref \<times> string \<times> SigMessage) list \<Rightarrow> SigMessage list" where
  "accepted_for u acc = map (snd \<circ> snd) (filter (\<lambda>x. fst x = u) acc)"

definition user_ok :: "hub \<Rightarrow> ref \<Rightarrow> bool" where
  "user_ok w u \<longleftrightarrow>
     accepted_for u (hb_accepted w) = received u (hb_calls w) @ hu_pending (hb_users w u) \<and>
     (lock_handler (hu_handler (hb_users w u)) w \<noteq> None \<longrightarrow> hu_pending (hb_users w u) = []) \<and>
     \<not> hu_locked (hb_users w u) \<and>
     (left_calls u (hb_calls w) = [] \<or> left_calls u (hb_calls w) = [LeftClean] \<and> hu_left (hb_users w u))"

definition peer_ok :: "hub \<Rightarrow> string \<Rightarrow> bool" where
  "peer_ok w to \<longleftrightarrow>
     (\<forall>u. hb_peers w to = Some u \<longrightarrow>
        u < hb_next w \<and> hu_localId (hb_users w u) = to \<and> (hb_exists w \<longrightarrow> \<not> hu_left (hb_users w u)))"

definition addressed_ok :: "hub \<Rightarrow> ref \<times> string \<times> SigMessage \<Rightarrow> bool" where
  "addressed_ok w x \<longleftrightarrow> (case x of (u, to, m) \<Rightarrow> u < hb_next w \<and> hu_localId (hb_users w u) = to)"

definition fresh_ok :: "hub \<Rightarrow> ref \<Rightarrow> bool" where
  "fresh_ok w u \<longleftrightarrow> hb_next w \<le> u \<longrightarrow>
     received u (hb_calls w) = [] \<and> left_calls u (hb_calls w) = [] \<and> accepted_for u (hb_accepted w) = []"

definition hub_inv :: "hub \<Rightarrow> (ref \<times> SigMessage) list \<Rightarrow> bool" where
  "hub_inv w fl \<longleftrightarrow> (\<forall>u. user_ok w u) \<and> (\<forall>to. peer_ok w to) \<and> (\<forall>x\<in>set (hb_accepted w). addressed_ok w x) \<and>
     (\<forall>u. fresh_ok w u) \<and> (\<forall>x\<in>set fl. fst x < hb_next w)"

lemmas hub_inv_parts = user_ok_def peer_ok_def addressed_ok_def fresh_ok_def

lemma received_append [simp]: "received u (xs @ ys) = received u xs @ received u ys"
  by (induction u xs rule: received.induct) auto

lemma left_calls_append [simp]: "left_calls u (xs @ ys) = left_calls u xs @ left_calls u ys"
  by (induction u xs rule: left_calls.induct) auto

lemma received_map [simp]: "received u (map (OnMessage v h) ms) = (if v = u then ms else [])"
  by (induction ms) auto

lemma left_calls_map [simp]: "left_calls u (map (OnMessage v h) ms) = []"
  by (induction ms) auto

lemma accepted_for_append [simp]:
  "accepted_for u (acc @ [(v, to, m)]) = accepted_for u acc @ (if v = u then [m] else [])"
  by (simp add: accepted_for_def)

lemma set_user_simps [simp]:
  "hb_users (set_user u f w) = (hb_users w)(u := f (hb_users w u))" "hb_peers (set_user u f w) = hb_peers w"
  "hb_calls (set_user u f w) = hb_calls w" "hb_accepted (set_user u f w) = hb_accepted w"
  "hb_next (set_user u f w) = hb_next w" "hb_exists (set_user u f w) = hb_exists w"
  "hb_handlerAlive (set_user u f w) = hb_handlerAlive w" "hb_userAlive (set_user u f w) = hb_userAlive w"
  by (simp_all add: set_user_def)

lemma called_simps [simp]:
  "hb_users (called c w) = hb_users w" "hb_peers (called c w) = hb_peers w"
  "hb_calls (called c w) = hb_calls w @ [c]" "hb_accepted (called c w) = hb_accepted w"
  "hb_next (called c w) = hb_next w" "hb_exists (called c w) = hb_exists w"
  "hb_handlerAlive (called c w) = hb_handlerAlive w" "hb_userAlive (called c w) = hb_userAlive w"
  by (simp_all add: called_def)

lemma lock_handler_cong: "hb_handlerAlive w' = hb_handlerAlive w \<Longrightarrow> lock_handler h w' = lock_handler h w"
  by (cases h) (simp_all add: lock_handler_def)

lemma lock_handler_simps [simp]:
  "lock_handler h (set_user u f w) = lock_handler h w" "lock_handler h (Unregister l w) = lock_handler h w"
  "lock_handler h (called c w) = lock_handler h w" "lock_handler h (w\<lparr>hb_peers := ps\<rparr>) = lock_handler h w"
  "lock_handler h (w\<lparr>hb_userAlive := al\<rparr>) = lock_handler h w" "lock_handler h (w\<lparr>hb_exists := b\<rparr>) = lock_handler h w"
  "lock_handler h (w\<lparr>hb_calls := cs\<rparr>) = lock_handler h w" "lock_handler h (w\<lparr>hb_users := us\<rparr>) = lock_handler h w"
  by (rule lock_handler_cong, simp add: Unregister_def)+

lemma replay_quiet:
  "replay no_actions R u h ms w = Inr (w\<lparr>hb_calls := hb_calls w @ map (OnMessage u h) ms\<rparr>)"
  by (induction ms arbitrary: w) (simp_all add: no_actions_def called_def)

lemma hub_invD:
  assumes "hub_inv w fl"
  shows "user_ok w u" "peer_ok w to" "x \<in> set (hb_accepted w) \<Longrightarrow> addressed_ok w x" "fresh_ok w u"
    "y \<in> set fl \<Longrightarrow> fst y < hb_next w"
  using assms by (simp_all add: hub_inv_def)

lemma hub_invI:
  assumes "\<And>u. user_ok w u" "\<And>to. peer_ok w to" "\<And>x. x \<in> set (hb_accepted w) \<Longrightarrow> addressed_ok w x"
    "\<And>u. fresh_ok w u" "\<And>y. y \<in> set fl \<Longrightarrow> fst y < hb_next w"
  shows "hub_inv w fl"
  using assms by (simp add: hub_inv_def)

lemma register_inv:
  assumes "hub_inv w fl" and "hb_exists w"
  shows "hub_inv (snd (Register_begin lid w)) fl"
proof (rule hub_invI)
  let ?v = "snd (Register_begin lid w)" and ?n = "hb_next w"
  have v: "hb_users ?v = (hb_users w)(?n := new_HubUser lid)" "hb_peers ?v = (hb_peers w)(lid \<mapsto> ?n)"
      "hb_next ?v = Suc ?n" "hb_calls ?v = hb_calls w" "hb_accepted ?v = hb_accepted w"
      "hb_handlerAlive ?v = hb_handlerAlive w" "hb_exists ?v = hb_exists w"
    by (simp_all add: Register_begin_def Let_def)
  note inv = hub_invD[OF assms(1)]
  show "user_ok ?v u" for u
    using inv(1)[of u] inv(4)[of u] lock_handler_cong[OF v(6)]
    by (cases "u = ?n") (auto simp: user_ok_def fresh_ok_def v new_HubUser_def)
  show "peer_ok ?v to" for to
    using inv(2)[of to] by (auto simp: peer_ok_def v new_HubUser_def split: option.splits)
  show "x \<in> set (hb_accepted ?v) \<Longrightarrow> addressed_ok ?v x" for x
    using inv(3)[of x] by (auto simp: addressed_ok_def v)
  show "fresh_ok ?v u" for u using inv(4)[of u] by (auto simp: fresh_ok_def v)
  show "y \<in> set fl \<Longrightarrow> fst y < hb_next ?v" for y using inv(5)[of y] by (simp add: v)
qed

text \<open>A change of one user that keeps its address, with calls and messages that concern it alone.\<close>

lemma hub_inv_user:
  assumes inv: "hub_inv w fl" and u: "u < hb_next w" and ok: "user_ok v u"
    and "hb_users v = (hb_users w)(u := p)" "hu_localId p = hu_localId (hb_users w u)"
    and "hb_next v = hb_next w" "hb_handlerAlive v = hb_handlerAlive w" "hb_exists v = hb_exists w"
    and "hb_calls v = hb_calls w @ cs" "\<And>k. k \<noteq> u \<Longrightarrow> received k cs = [] \<and> left_calls k cs = []"
    and "hb_accepted v = hb_accepted w @ map (\<lambda>m. (u, hu_localId p, m)) ms"
    and "\<And>to. peer_ok v to" and "\<And>y. y \<in> set fl' \<Longrightarrow> fst y < hb_next w"
  shows "hub_inv v fl'"
proof (rule hub_invI)
  note D = hub_invD[OF inv]
  have acc: "k \<noteq> u \<Longrightarrow> accepted_for k (hb_accepted v) = accepted_for k (hb_accepted w)" for k
    using assms(11) by (simp add: accepted_for_def filter_empty_conv)
  show "user_ok v k" for k
    using ok D(1)[of k] acc[of k] assms(4,9) assms(10)[of k] lock_handler_cong[OF assms(7)]
    by (cases "k = u") (simp_all add: user_ok_def)
  show "x \<in> set (hb_accepted v) \<Longrightarrow> addressed_ok v x" for x
    using D(3)[of x] assms(4,5,6,11) u by (auto simp: addressed_ok_def split: prod.splits)
  show "fresh_ok v k" for k
    using D(4)[of k] acc[of k] assms(6,9) assms(10)[of k] u by (cases "k = u") (auto simp: fresh_ok_def)
qed (use assms in auto)


lemma unlocked_idem: "\<not> hu_locked p \<Longrightarrow> p\<lparr>hu_locked := False\<rparr> = p"
  by (cases p) simp

lemma Deliver_quiet:
  assumes "\<not> hu_locked (hb_users w u)"
  shows "\<exists>v p cs. Deliver no_actions quiet u msg w = Inr v \<and> hb_users v = (hb_users w)(u := p) \<and>
    hb_peers v = hb_peers w \<and> hb_next v = hb_next w \<and> hb_handlerAlive v = hb_handlerAlive w \<and>
    hb_exists v = hb_exists w \<and> hb_accepted v = hb_accepted w @ [(u, hu_localId (hb_users w u), msg)] \<and>
    hb_calls v = hb_calls w @ cs \<and>
    (case lock_handler (hu_handler (hb_users w u)) w of
       Some h \<Rightarrow> cs = [OnMessage u h msg] \<and> p = hb_users w u
     | None \<Rightarrow> cs = [] \<and> p = (hb_users w u)\<lparr>hu_pending := hu_pending (hb_users w u) @ [msg]\<rparr>)"
  using assms
  by (auto simp: Deliver_def no_actions_def unlocked_idem Let_def split: option.splits)

lemma deliver_inv:
  assumes inv: "hub_inv w fl" and u: "u < hb_next w" and fl': "set fl' \<subseteq> set fl"
  shows "hub_inv (settle w (Deliver no_actions quiet u msg w)) fl'"
proof -
  note D = hub_invD[OF inv]
  have "\<not> hu_locked (hb_users w u)" using D(1)[of u] by (simp add: user_ok_def)
  from Deliver_quiet[OF this, of msg] obtain v p cs where v: "Deliver no_actions quiet u msg w = Inr v"
    "hb_users v = (hb_users w)(u := p)" "hb_peers v = hb_peers w" "hb_next v = hb_next w"
    "hb_handlerAlive v = hb_handlerAlive w" "hb_exists v = hb_exists w"
    "hb_accepted v = hb_accepted w @ [(u, hu_localId (hb_users w u), msg)]" "hb_calls v = hb_calls w @ cs"
    and c: "case lock_handler (hu_handler (hb_users w u)) w of
       Some h \<Rightarrow> cs = [OnMessage u h msg] \<and> p = hb_users w u
     | None \<Rightarrow> cs = [] \<and> p = (hb_users w u)\<lparr>hu_pending := hu_pending (hb_users w u) @ [msg]\<rparr>" by blast
  have p: "hu_localId p = hu_localId (hb_users w u)" "hu_left p = hu_left (hb_users w u)"
    using c by (auto split: option.splits)
  have "hub_inv v fl'"
  proof (rule hub_inv_user[OF inv u, where p = p and cs = cs and ms = "[msg]"])
    show "user_ok v u"
      using D(1)[of u] c v lock_handler_cong[OF v(5)] by (auto simp: user_ok_def split: option.splits)
    show "k \<noteq> u \<Longrightarrow> received k cs = [] \<and> left_calls k cs = []" for k using c by (auto split: option.splits)
    show "peer_ok v to" for to
      using D(2)[of to] v p by (auto simp: peer_ok_def split: option.splits)
  qed (use v p D(5) fl' in auto)
  with v(1) show ?thesis by (simp add: settle_def)
qed

lemma set_handler_inv:
  assumes inv: "hub_inv w fl" and u: "u < hb_next w"
  shows "hub_inv (settle w (Register_end no_actions quiet (hu_localId (hb_users w u)) u wh w)) fl"
proof (cases "lock_handler wh w")
  case None
  let ?v = "w\<lparr>hb_peers := (hb_peers w)(hu_localId (hb_users w u) := None)\<rparr>"
  have "hub_inv ?v fl"
    using hub_invD[OF inv]
    by (intro hub_inv_user[OF inv u, where p = "hb_users w u" and cs = "[]" and ms = "[]"])
       (auto simp: user_ok_def peer_ok_def)
  then show ?thesis using None by (simp add: Register_end_def settle_def)
next
  case (Some h)
  note D = hub_invD[OF inv]
  let ?ms = "hu_pending (hb_users w u)"
  let ?p = "(hb_users w u)\<lparr>hu_handler := wh, hu_pending := []\<rparr>"
  let ?v = "w\<lparr>hb_users := (hb_users w)(u := ?p), hb_calls := hb_calls w @ map (OnMessage u h) ?ms\<rparr>"
  have ul: "\<not> hu_locked (hb_users w u)" using D(1)[of u] by (simp add: user_ok_def)
  have "Register_end no_actions quiet (hu_localId (hb_users w u)) u wh w = Inr ?v"
    using Some ul by (simp add: Register_end_def SetHandler_def replay_quiet Let_def)
      (cases "hb_users w u", simp add: set_user_def)
  moreover have "hub_inv ?v fl"
    by (rule hub_inv_user[OF inv u, where p = ?p and cs = "map (OnMessage u h) ?ms" and ms = "[]"])
       (use D(1)[of u] D(2) D(5) in \<open>auto simp: user_ok_def peer_ok_def split: option.splits\<close>)
  ultimately show ?thesis by (simp add: settle_def)
qed

lemma leave_inv:
  assumes inv: "hub_inv w fl" and u: "u < hb_next w"
  shows "hub_inv (settle w (HubUser_Leave no_actions quiet u w)) fl"
proof (cases "hu_left (hb_users w u)")
  case True
  then show ?thesis using inv by (simp add: HubUser_Leave_def settle_def)
next
  case False
  note D = hub_invD[OF inv]
  let ?p = "(hb_users w u)\<lparr>hu_left := True\<rparr>"
  let ?cs = "case lock_handler (hu_handler (hb_users w u)) w of None \<Rightarrow> [] | Some h \<Rightarrow> [OnLeft u h LeftClean]"
  let ?v = "w\<lparr>hb_users := (hb_users w)(u := ?p), hb_calls := hb_calls w @ ?cs,
     hb_peers := if hb_exists w then (hb_peers w)(hu_localId (hb_users w u) := None) else hb_peers w\<rparr>"
  have ul: "\<not> hu_locked (hb_users w u)" using D(1)[of u] by (simp add: user_ok_def)
  have "HubUser_Leave no_actions quiet u w = Inr ?v"
    using False ul
    by (cases "lock_handler (hu_handler (hb_users w u)) w")
       (simp_all add: HubUser_Leave_def no_actions_def Unregister_def set_user_def called_def Let_def)
  moreover have "hub_inv ?v fl"
  proof (rule hub_inv_user[OF inv u, where p = ?p and cs = ?cs and ms = "[]"])
    show "user_ok ?v u"
      using D(1)[of u] False by (auto simp: user_ok_def split: option.splits)
    show "peer_ok ?v to" for to
      unfolding peer_ok_def
    proof (intro allI impI)
      fix x
      assume x: "hb_peers ?v to = Some x"
      then have "hb_peers w to = Some x" and ne: "hb_exists w \<Longrightarrow> to \<noteq> hu_localId (hb_users w u)"
        by (auto split: if_splits)
      with D(2)[of to] have a: "x < hb_next w" "hu_localId (hb_users w x) = to" "hb_exists w \<longrightarrow> \<not> hu_left (hb_users w x)"
        by (simp_all add: peer_ok_def)
      then have "hb_exists w \<Longrightarrow> x \<noteq> u" using ne by metis
      then show "x < hb_next ?v \<and> hu_localId (hb_users ?v x) = to \<and> (hb_exists ?v \<longrightarrow> \<not> hu_left (hb_users ?v x))"
        using a by auto
    qed
  qed (use D(5) in \<open>auto split: option.splits\<close>)
  ultimately show ?thesis by (simp add: settle_def)
qed

lemma sig_apply_inv:
  assumes "hub_inv w fl"
  shows "hub_inv (fst (sig_apply e (w, fl))) (snd (sig_apply e (w, fl)))"
proof (cases e)
  case (EvRegister lid)
  then show ?thesis using register_inv[OF assms] assms by simp
next
  case (EvSetHandler u wh)
  then show ?thesis using set_handler_inv[OF assms, of u wh] assms by simp
next
  case (EvLookup frm to payload)
  note D = hub_invD[OF assms]
  have "hub_inv (w\<lparr>hb_peers := (hb_peers w)(to := None)\<rparr>) fl"
    using D by (intro hub_invI) (auto simp: hub_inv_parts)
  moreover have "u < hb_next w" if "hb_peers w to = Some u" for u
    using D(2)[of to] that by (simp add: peer_ok_def)
  moreover from this have "hub_inv w (fl @ [(u, m)])" if "hb_peers w to = Some u" for u m
    using assms that by (simp add: hub_inv_def)
  ultimately show ?thesis using EvLookup assms by (auto simp: Dispatch_lookup_def split: option.splits)
next
  case (EvDeliver k)
  have "set (take k fl @ drop (Suc k) fl) \<subseteq> set fl"
    by (auto dest: in_set_takeD in_set_dropD)
  moreover have "k < length fl \<Longrightarrow> fst (fl ! k) < hb_next w" using hub_invD(5)[OF assms] by simp
  ultimately show ?thesis
    using EvDeliver assms deliver_inv[OF assms, of "fst (fl ! k)" "take k fl @ drop (Suc k) fl" "snd (fl ! k)"]
    by simp
next
  case (EvLeave u)
  then show ?thesis using leave_inv[OF assms, of u] assms by simp
next
  case (EvHandlerDies h)
  have "lock_handler k (w\<lparr>hb_handlerAlive := (hb_handlerAlive w)(h := False)\<rparr>) \<noteq> None \<Longrightarrow> lock_handler k w \<noteq> None" for k
    by (auto simp: lock_handler_def split: option.splits if_splits)
  then show ?thesis
    using EvHandlerDies hub_invD[OF assms]
    by (auto intro!: hub_invI simp: hub_inv_parts) 
next
  case (EvUserDies u)
  then show ?thesis
    using hub_invD[OF assms] by (auto intro!: hub_invI simp: hub_inv_parts)
next
  case EvHubDies
  then show ?thesis
    using hub_invD[OF assms] by (auto intro!: hub_invI simp: hub_inv_parts)
qed

lemma sig_run_inv: "hub_inv (fst (sig_run handlers es)) (snd (sig_run handlers es))"
proof -
  have "hub_inv w fl \<Longrightarrow> hub_inv (fst (fold sig_apply es (w, fl))) (snd (fold sig_apply es (w, fl)))" for w fl
  proof (induction es arbitrary: w fl)
    case (Cons e es)
    then show ?case using sig_apply_inv[OF Cons.prems, of e] by (cases "sig_apply e (w, fl)") simp
  qed simp
  moreover have "hub_inv (new_hub handlers) []"
    by (simp add: hub_inv_def hub_inv_parts new_hub_def new_HubUser_def accepted_for_def)
  ultimately show ?thesis by (simp add: sig_run_def)
qed


text \<open>
  A dispatch that looked its target up before \<open>Leave\<close> still delivers after it: user 0 is told that it has left
  and then gets a message.
\<close>

lemma message_after_leave:
  "hb_calls (fst (sig_run (\<lambda>_. True) [EvRegister ''a'', EvSetHandler 0 (Some 7), EvLookup ''b'' ''a'' ''x'', EvLeave 0, EvDeliver 0]))
     = [OnLeft 0 7 LeftClean, OnMessage 0 7 \<lparr>sm_from = ''b'', sm_payload = ''x''\<rparr>]"
  by (simp add: sig_run_def new_hub_def new_HubUser_def Register_begin_def Register_end_def SetHandler_def set_user_def
      called_def settle_def lock_handler_def Dispatch_lookup_def HubUser_Leave_def Unregister_def Deliver_def no_actions_def Let_def)

text \<open>A user that leaves inside the join callback never gets \<open>OnLeft\<close>, although its handler is installed afterwards.\<close>

lemma leave_in_join_is_not_reported:
  "\<exists>w. Register (run_actions 1 quiet) quiet (\<lambda>u. (Some 7, [DoLeave u])) ''a'' (new_hub (\<lambda>_. True)) = Inr w \<and>
     hu_left (hb_users w 0) \<and> hu_handler (hb_users w 0) = Some 7 \<and> hb_calls w = []"
  by (simp add: Register_def Register_begin_def Register_end_def SetHandler_def new_hub_def new_HubUser_def set_user_def
      do_action_def HubUser_Leave_def Unregister_def lock_handler_def Let_def)

section \<open>Properties\<close>


text \<open>
  \<open>OnLeft\<close> is called at most once for a user, only after \<open>Leave\<close> and with an empty error code; and while the
  hub exists, no id resolves to a user that has left.
\<close>

lemma hub_user_leaves_once:
  "let w = fst (sig_run handlers es) in
   (left_calls u (hb_calls w) = [] \<or> left_calls u (hb_calls w) = [LeftClean] \<and> hu_left (hb_users w u)) \<and>
   \<not> (hb_exists w \<and> u \<in> ran (hb_peers w) \<and> hu_left (hb_users w u))"
proof -
  let ?w = "fst (sig_run handlers es)"
  note D = hub_invD[OF sig_run_inv[of handlers es]]
  have "\<not> hu_left (hb_users ?w u)" if "hb_exists ?w" "hb_peers ?w to = Some u" for to
    using D(2)[of to] that by (simp add: peer_ok_def)
  then show ?thesis using D(1)[of u] by (auto simp: user_ok_def Let_def ran_def)
qed

text \<open>
  A replaced user that leaves takes the newer registration with it: \<open>Leave\<close> unregisters by id, so after the
  id was registered again the current user, which has not left, can no longer be reached.
\<close>

lemma stale_leave_unregisters_newer_user:
  assumes "hb_exists w" and "hb_peers w lid = Some v" and "hb_userAlive w v" and "v \<noteq> u"
    and "hu_localId (hb_users w u) = lid" and "\<not> hu_left (hb_users w u)" and "\<not> hu_locked (hb_users w u)"
  shows "\<exists>w'. HubUser_Leave no_actions quiet u w = Inr w' \<and> hb_peers w' lid = None \<and>
     hb_users w' v = hb_users w v \<and> Dispatch no_actions quiet from lid payload w' = Inr w'"
  using assms
  by (cases "lock_handler (hu_handler (hb_users w u)) w")
     (simp_all add: HubUser_Leave_def no_actions_def Unregister_def Dispatch_def Dispatch_lookup_def Let_def)

lemma stale_leave_unregisters_newer_user_witness:
  "let w = snd (Register_begin ''a'' (snd (Register_begin ''a'' (new_hub (\<lambda>_. True))))) in
   hb_peers w ''a'' = Some 1 \<and>
   (\<exists>w'. HubUser_Leave no_actions quiet 0 w = Inr w' \<and> hb_peers w' ''a'' = None \<and>
      hb_users w' 1 = hb_users w 1 \<and> Dispatch no_actions quiet ''b'' ''a'' ''x'' w' = Inr w')"
  using stale_leave_unregisters_newer_user[of
      "snd (Register_begin ''a'' (snd (Register_begin ''a'' (new_hub (\<lambda>_. True)))))" "''a''" 1 0 "''b''" "''x''"]
  by (simp add: Register_begin_def new_hub_def new_HubUser_def)

text \<open>
  A handler that, while it handles a message, leaves or sends a message to its own id deadlocks: \<open>Deliver\<close>
  calls \<open>OnMessage\<close> with \<open>_handlerMutex\<close> locked, although the hub documents re-entrant calls as allowed.
\<close>

lemma reentrant_handler_deadlocks:
  assumes "hb_exists w" and "hb_peers w lid = Some u" and "hb_userAlive w u"
    and "hu_localId (hb_users w u) = lid" and "\<not> hu_left (hb_users w u)"
    and "lock_handler (hu_handler (hb_users w u)) w = Some h"
    and "r_OnMessage R h msg = [DoLeave u] \<or> r_OnMessage R h msg = [DoSend u lid reply]"
  shows "Deliver (run_actions (Suc n) R) R u msg w = Inl Deadlock"
  using assms(7)
proof
  assume "r_OnMessage R h msg = [DoLeave u]"
  with assms(1-6) show ?thesis
    by (simp add: Deliver_def do_action_def HubUser_Leave_def Unregister_def Let_def)
next
  assume "r_OnMessage R h msg = [DoSend u lid reply]"
  with assms(1-6) show ?thesis
    by (simp add: Deliver_def do_action_def HubUser_Send_def Dispatch_def Dispatch_lookup_def Let_def)
qed


lemma reentrant_handler_deadlocks_witness:
  "let w = set_user 0 (\<lambda>p. p\<lparr>hu_handler := Some 7\<rparr>) (snd (Register_begin ''a'' (new_hub (\<lambda>_. True))));
       R = \<lparr>r_OnMessage = (\<lambda>_ _. [DoSend 0 ''a'' ''x'']), r_OnLeft = (\<lambda>_. [])\<rparr>
   in Deliver (run_actions 5 R) R 0 \<lparr>sm_from = ''b'', sm_payload = ''hello''\<rparr> w = Inl Deadlock"
  using reentrant_handler_deadlocks[of
      "set_user 0 (\<lambda>p. p\<lparr>hu_handler := Some 7\<rparr>) (snd (Register_begin ''a'' (new_hub (\<lambda>_. True))))" "''a''" 0 7
      "\<lparr>r_OnMessage = (\<lambda>_ _. [DoSend 0 ''a'' ''x'']), r_OnLeft = (\<lambda>_. [])\<rparr>"
      "\<lparr>sm_from = ''b'', sm_payload = ''hello''\<rparr>" "''x''" 4]
  by (simp add: Register_begin_def new_hub_def new_HubUser_def lock_handler_def eval_nat_numeral)

end
