(* ===== verification/Rtc_Transport.thy ===== *)
theory Rtc_Transport
  imports Rtc_Link Signaling
begin

text \<open>
  \<open>pkg/rtt/rtc/Rtt/Rtc/Dc/DcRtcTransport\<close>: the WebRTC transport, which offers a connection to its remote peer
  and accepts offers of others up to a limit.

  \<open>rt_side\<close> records the closures that \<open>Attach\<close> stores with a link's peer connection: none before the data
  channel is there, \<open>onClosed\<close>/\<open>onFailed\<close> of the offerer, or \<open>onGone\<close> of the answerer. A link is alive while
  the map of peers or the application (\<open>rt_held\<close>) refers to it. \<open>None\<close> is an exception of the JSON library,
  which nothing catches. Every link is in the map, if at all, under its own remote id.
\<close>

section \<open>State\<close>

datatype link_side = NotAttached | OffererSide string | AnswererSide string

datatype rtc_call = RcLink ref | RcError Error

record rtc_options =
  ro_localId :: string
  ro_remoteId :: string
  ro_iceServers :: "string list"
  ro_maxMessageSize :: nat
  ro_maxInboundConnections :: nat

record rtc_state =
  rt_localId :: string
  rt_remoteId :: string
  rt_config :: "string list"
  rt_maxMessageSize :: nat
  rt_maxInboundConnections :: nat
  rt_sigUser :: bool
  rt_peers :: "string \<rightharpoonup> ref"
  rt_inboundCount :: nat
  rt_links :: "ref \<Rightarrow> dc_link"
  rt_side :: "ref \<Rightarrow> link_side"
  rt_held :: "ref \<Rightarrow> bool"
  rt_next :: ref
  rt_alive :: bool
  rt_acceptorAlive :: bool
  rt_calls :: "rtc_call list"

definition default_options :: "string \<Rightarrow> rtc_options" where
  "default_options localId =
     \<lparr>ro_localId = localId, ro_remoteId = [], ro_iceServers = [], ro_maxMessageSize = 65535,
      ro_maxInboundConnections = 4096\<rparr>"

definition BuildConfiguration :: "rtc_options \<Rightarrow> string list" where
  "BuildConfiguration options = ro_iceServers options"

definition isOfferer :: "rtc_state \<Rightarrow> bool" where
  "isOfferer w \<longleftrightarrow> rt_remoteId w \<noteq> []"

definition link_alive :: "rtc_state \<Rightarrow> ref \<Rightarrow> bool" where
  "link_alive w k \<longleftrightarrow> rt_peers w (dl_remoteId (rt_links w k)) = Some k \<or> rt_held w k"

definition set_dc :: "ref \<Rightarrow> (dc_link \<Rightarrow> dc_link) \<Rightarrow> rtc_state \<Rightarrow> rtc_state" where
  "set_dc k f w = w\<lparr>rt_links := (rt_links w)(k := f (rt_links w k))\<rparr>"

definition acceptor_call :: "rtc_call \<Rightarrow> rtc_state \<Rightarrow> rtc_state" where
  "acceptor_call c w = w\<lparr>rt_calls := rt_calls w @ [c]\<rparr>"

section \<open>Operations\<close>

text \<open>A new link under a peer id, as both roles make it.\<close>

definition add_link :: "string \<Rightarrow> rtc_state \<Rightarrow> rtc_state" where
  "add_link remote w =
     (let k = rt_next w
      in w\<lparr>rt_next := Suc k, rt_links := (rt_links w)(k := new_DcRtcLink (rt_localId w) remote (rt_maxMessageSize w)),
           rt_side := (rt_side w)(k := NotAttached), rt_held := (rt_held w)(k := False),
           rt_peers := (rt_peers w)(remote \<mapsto> k)\<rparr>)"

definition OpenOfferer :: "rtc_state \<Rightarrow> rtc_state" where
  "OpenOfferer w =
     set_dc (rt_next w) (\<lambda>l. l\<lparr>dl_pc := dl_pc l @ [CreateDataChannel ''data'']\<rparr>) (add_link (rt_remoteId w) w)"

definition HandleOffer :: "string \<Rightarrow> string \<Rightarrow> rtc_state \<Rightarrow> rtc_state" where
  "HandleOffer fromId sdp w =
     (let k = rt_next w;
          w1 = add_link fromId w;
          w2 = w1\<lparr>rt_inboundCount := Suc (rt_inboundCount w1)\<rparr>
      in set_dc k (SetRemoteDescription sdp OfferDesc) w2)"

definition on_offer :: "string \<Rightarrow> string \<Rightarrow> rtc_state \<Rightarrow> rtc_state" where
  "on_offer fromId sdp w =
     (if rt_maxInboundConnections w = 0 \<or> rt_maxInboundConnections w \<le> rt_inboundCount w then w
      else HandleOffer fromId sdp w)"

definition on_answer :: "string \<Rightarrow> rtc_state \<Rightarrow> rtc_state" where
  "on_answer sdp w =
     (if \<not> isOfferer w then w
      else
        case rt_peers w (rt_remoteId w) of
          None \<Rightarrow> w
        | Some k \<Rightarrow> set_dc k (SetRemoteDescription sdp AnswerDesc) w)"

definition on_candidate :: "string \<Rightarrow> string \<Rightarrow> string \<Rightarrow> rtc_state \<Rightarrow> rtc_state" where
  "on_candidate fromId cand mid w =
     (case rt_peers w fromId of
        None \<Rightarrow> w
      | Some k \<Rightarrow> set_dc k (AddRemoteCandidate cand mid) w)"

definition RtcOnMessage :: "'j json_api \<Rightarrow> SigMessage \<Rightarrow> rtc_state \<Rightarrow> rtc_state option" where
  "RtcOnMessage J msg w =
     (case j_parse J (sm_payload msg) of
        None \<Rightarrow> Some w
      | Some j \<Rightarrow>
          (case j_value J j ''type'' [] of
             None \<Rightarrow> None
           | Some type \<Rightarrow>
               if type = ''offer''
               then if rt_maxInboundConnections w = 0 \<or> rt_maxInboundConnections w \<le> rt_inboundCount w then Some w
                    else map_option (\<lambda>sdp. on_offer (sm_from msg) sdp w) (j_value J j ''description'' [])
               else if type = ''answer''
               then if \<not> isOfferer w then Some w
                    else map_option (\<lambda>sdp. on_answer sdp w) (j_value J j ''description'' [])
               else if type = ''candidate''
               then (case j_value J j ''candidate'' [] of
                       None \<Rightarrow> None
                     | Some cand \<Rightarrow> map_option (\<lambda>mid. on_candidate (sm_from msg) cand mid w) (j_value J j ''mid'' []))
               else Some w))"

definition RtcOnLeft :: "left_code \<Rightarrow> rtc_state \<Rightarrow> rtc_state" where
  "RtcOnLeft ec w = (if ec \<noteq> LeftClean then acceptor_call (RcError TransportClosed) w else w)"

text \<open>
  The data channel opens: for the offerer by \<open>dc->onOpen\<close>, for the answerer by \<open>pc.onDataChannel\<close>. \<open>onLink\<close> is the
  handler the application returns, and whether it keeps the link.
\<close>

definition attach_link :: "(ref \<Rightarrow> link_handler \<times> bool) \<Rightarrow> ref \<Rightarrow> link_side \<Rightarrow> rtc_state \<Rightarrow> rtc_state" where
  "attach_link onLink k side w =
     (let w1 = (set_dc k Attach w)\<lparr>rt_side := (rt_side w)(k := side)\<rparr>;
          (h, keep) = onLink k;
          w2 = (acceptor_call (RcLink k) w1)\<lparr>rt_held := (rt_held w1)(k := keep)\<rparr>
      in set_dc k (DcSetHandler h) w2)"

definition offerer_onOpen :: "(ref \<Rightarrow> link_handler \<times> bool) \<Rightarrow> ref \<Rightarrow> rtc_state \<Rightarrow> rtc_state" where
  "offerer_onOpen onLink k w =
     (if \<not> rt_alive w \<or> \<not> link_alive w k \<or> \<not> rt_acceptorAlive w then w
      else attach_link onLink k (OffererSide (rt_remoteId w)) w)"

definition answerer_onDataChannel :: "(ref \<Rightarrow> link_handler \<times> bool) \<Rightarrow> ref \<Rightarrow> rtc_state \<Rightarrow> rtc_state" where
  "answerer_onDataChannel onLink k w =
     (if \<not> link_alive w k \<or> \<not> rt_acceptorAlive w then w
      else attach_link onLink k (AnswererSide (dl_remoteId (rt_links w k))) w)"

definition offerer_onClosed :: "string \<Rightarrow> rtc_state \<Rightarrow> rtc_state" where
  "offerer_onClosed remId w = (if rt_alive w then w\<lparr>rt_peers := (rt_peers w)(remId := None)\<rparr> else w)"

definition offerer_onFailed :: "string \<Rightarrow> rtc_state \<Rightarrow> rtc_state" where
  "offerer_onFailed remId w =
     (let w1 = (if rt_alive w then w\<lparr>rt_peers := (rt_peers w)(remId := None)\<rparr> else w)
      in if rt_acceptorAlive w1 then acceptor_call (RcError Unknown) w1 else w1)"

definition onGone :: "string \<Rightarrow> rtc_state \<Rightarrow> rtc_state" where
  "onGone fromId w =
     (if rt_alive w
      then let w1 = w\<lparr>rt_peers := (rt_peers w)(fromId := None)\<rparr>
           in if 0 < rt_inboundCount w1 then w1\<lparr>rt_inboundCount := rt_inboundCount w1 - 1\<rparr> else w1
      else w)"

definition RtcOnStateChange :: "ref \<Rightarrow> pc_state \<Rightarrow> rtc_state \<Rightarrow> rtc_state" where
  "RtcOnStateChange k st w =
     (case rt_side w k of
        NotAttached \<Rightarrow> w
      | side \<Rightarrow>
          let w1 =
            (if st = PcClosed \<or> st = PcDisconnected
             then (case side of
                     OffererSide remId \<Rightarrow> offerer_onClosed remId w
                   | AnswererSide fromId \<Rightarrow> onGone fromId w
                   | NotAttached \<Rightarrow> w)
             else if st = PcFailed
             then (case side of
                     OffererSide remId \<Rightarrow> offerer_onFailed remId w
                   | AnswererSide fromId \<Rightarrow> onGone fromId w
                   | NotAttached \<Rightarrow> w)
             else w)
          in if link_alive w1 k then set_dc k (pc_onStateChange st) w1 else w1)"

definition new_rtc_state :: "rtc_options \<Rightarrow> rtc_state" where
  "new_rtc_state options =
     \<lparr>rt_localId = ro_localId options, rt_remoteId = ro_remoteId options, rt_config = BuildConfiguration options,
      rt_maxMessageSize = ro_maxMessageSize options, rt_maxInboundConnections = ro_maxInboundConnections options,
      rt_sigUser = False, rt_peers = Map.empty, rt_inboundCount = 0,
      rt_links = (\<lambda>_. new_DcRtcLink [] [] 0), rt_side = (\<lambda>_. NotAttached), rt_held = (\<lambda>_. False), rt_next = 0,
      rt_alive = True, rt_acceptorAlive = True, rt_calls = []\<rparr>"

text \<open>The join callback of \<open>Open\<close>; its result says whether it returned a handler.\<close>

definition onJoined :: "Error + unit \<Rightarrow> rtc_state \<Rightarrow> bool \<times> rtc_state" where
  "onJoined result w =
     (if \<not> rt_alive w then (False, w)
      else
        case result of
          Inl e \<Rightarrow> (False, acceptor_call (RcError e) w)
        | Inr _ \<Rightarrow>
            let w1 = w\<lparr>rt_sigUser := True\<rparr>
            in (True, if isOfferer w1 then OpenOfferer w1 else w1))"

definition DcRtcTransport_Open :: "rtc_options \<Rightarrow> Error + unit \<Rightarrow> bool \<times> rtc_state" where
  "DcRtcTransport_Open options result = onJoined result (new_rtc_state options)"

datatype transport_choice = MakeJsRtc | MakeDcRtc

definition MakeDefaultTransport :: "bool \<Rightarrow> transport_choice" where
  "MakeDefaultTransport emscripten = (if emscripten then MakeJsRtc else MakeDcRtc)"

definition RtcServer_MakeDefault :: "bool \<Rightarrow> transport_choice" where
  "RtcServer_MakeDefault emscripten = (if emscripten then MakeJsRtc else MakeDcRtc)"

section \<open>Sequences of events\<close>

datatype rtc_event =
    ReOffer string string
  | ReAnswer string
  | ReCandidate string string string
  | ReChannel ref
  | ReState ref pc_state

definition keep_all :: "ref \<Rightarrow> link_handler \<times> bool" where
  "keep_all k = (\<lparr>lh_onReceived = True, lh_onDisconnected = True\<rparr>, True)"

fun rtc_apply :: "rtc_event \<Rightarrow> rtc_state \<Rightarrow> rtc_state" where
  "rtc_apply (ReOffer from sdp) w = on_offer from sdp w"
| "rtc_apply (ReAnswer sdp) w = on_answer sdp w"
| "rtc_apply (ReCandidate from cand mid) w = on_candidate from cand mid w"
| "rtc_apply (ReChannel k) w = (if k < rt_next w then answerer_onDataChannel keep_all k w else w)"
| "rtc_apply (ReState k st) w = (if k < rt_next w then RtcOnStateChange k st w else w)"

definition rtc_run :: "rtc_options \<Rightarrow> rtc_event list \<Rightarrow> rtc_state" where
  "rtc_run options es = fold rtc_apply es (new_rtc_state options)"

text \<open>The inbound links that the application has been given and whose connection has not ended.\<close>

definition live_inbound :: "rtc_state \<Rightarrow> nat" where
  "live_inbound w =
     length (filter (\<lambda>k. (case rt_side w k of AnswererSide _ \<Rightarrow> True | _ \<Rightarrow> False) \<and> \<not> dl_closedFired (rt_links w k))
       [0..<rt_next w])"

lemma acceptor_call_simps [simp]:
  "rt_inboundCount (acceptor_call c w) = rt_inboundCount w"
  "rt_maxInboundConnections (acceptor_call c w) = rt_maxInboundConnections w"
  by (simp_all add: acceptor_call_def)

lemma set_dc_simps [simp]:
  "rt_inboundCount (set_dc k f w) = rt_inboundCount w" "rt_maxInboundConnections (set_dc k f w) = rt_maxInboundConnections w"
  "rt_side (set_dc k f w) = rt_side w" "rt_next (set_dc k f w) = rt_next w" "rt_peers (set_dc k f w) = rt_peers w"
  by (simp_all add: set_dc_def)

lemma rtc_apply_limit:
  "rt_maxInboundConnections (rtc_apply e w) = rt_maxInboundConnections w \<and>
   (rt_inboundCount w \<le> rt_maxInboundConnections w \<longrightarrow> rt_inboundCount (rtc_apply e w) \<le> rt_maxInboundConnections w)"
  by (cases e)
     (auto simp: on_offer_def HandleOffer_def add_link_def on_answer_def on_candidate_def answerer_onDataChannel_def
       attach_link_def RtcOnStateChange_def offerer_onClosed_def offerer_onFailed_def onGone_def Let_def keep_all_def
       split: option.splits link_side.splits)

lemma rtc_run_limit:
  "rt_maxInboundConnections (rtc_run options es) = ro_maxInboundConnections options \<and>
   rt_inboundCount (rtc_run options es) \<le> ro_maxInboundConnections options"
proof -
  have "rt_inboundCount w \<le> rt_maxInboundConnections w \<Longrightarrow>
      rt_maxInboundConnections (fold rtc_apply es w) = rt_maxInboundConnections w \<and>
      rt_inboundCount (fold rtc_apply es w) \<le> rt_maxInboundConnections w" for w
  proof (induction es arbitrary: w)
    case (Cons e es)
    then show ?case using rtc_apply_limit[of e w] Cons.IH[of "rtc_apply e w"] by simp
  qed simp
  from this[of "new_rtc_state options"] show ?thesis by (simp add: rtc_run_def new_rtc_state_def)
qed


definition is_offer :: "rtc_event \<Rightarrow> bool" where
  "is_offer e = (case e of ReOffer _ _ \<Rightarrow> True | _ \<Rightarrow> False)"

definition is_channel :: "rtc_event \<Rightarrow> bool" where
  "is_channel e = (case e of ReChannel _ \<Rightarrow> True | _ \<Rightarrow> False)"

lemma unopened_step:
  assumes "\<forall>k. rt_side w k = NotAttached" and "\<not> is_channel e"
  shows "(\<forall>k. rt_side (rtc_apply e w) k = NotAttached) \<and>
    rt_inboundCount (rtc_apply e w) =
      (if is_offer e \<and> rt_inboundCount w < rt_maxInboundConnections w then Suc (rt_inboundCount w) else rt_inboundCount w)"
  using assms
  by (cases e)
     (auto simp: is_offer_def is_channel_def on_offer_def HandleOffer_def add_link_def on_answer_def on_candidate_def
       RtcOnStateChange_def Let_def split: option.splits)

lemma unopened_run:
  assumes "\<forall>k. rt_side w k = NotAttached" and "\<forall>e\<in>set es. \<not> is_channel e"
    and "rt_inboundCount w \<le> rt_maxInboundConnections w"
  shows "rt_inboundCount (fold rtc_apply es w) =
    min (rt_maxInboundConnections w) (rt_inboundCount w + length (filter is_offer es))"
  using assms
proof (induction es arbitrary: w)
  case (Cons e es)
  have "rt_inboundCount (fold rtc_apply es (rtc_apply e w)) =
      min (rt_maxInboundConnections w) (rt_inboundCount (rtc_apply e w) + length (filter is_offer es))"
    using Cons.IH[of "rtc_apply e w"] Cons.prems unopened_step[of w e] rtc_apply_limit[of e w] by simp
  then show ?case using unopened_step[of w e] Cons.prems by auto
qed simp

text \<open>An inbound connection from its offer to its open channel, and its end.\<close>

definition open_inbound :: "string \<Rightarrow> rtc_state \<Rightarrow> rtc_state" where
  "open_inbound a w = rtc_apply (ReChannel (rt_next w)) (rtc_apply (ReOffer a ''x'') w)"

definition end_inbound :: "ref \<Rightarrow> rtc_state \<Rightarrow> rtc_state" where
  "end_inbound k w = rtc_apply (ReState k PcClosed) (rtc_apply (ReState k PcDisconnected) w)"

lemma open_inbound_at:
  "rt_next w = k \<Longrightarrow> open_inbound a w = rtc_apply (ReChannel k) (rtc_apply (ReOffer a ''x'') w)"
  by (simp add: open_inbound_def)

lemma open_inbound_fields:
  assumes "rt_inboundCount w < rt_maxInboundConnections w" and "rt_acceptorAlive w"
  shows "rt_next (open_inbound a w) = Suc (rt_next w)" "rt_inboundCount (open_inbound a w) = Suc (rt_inboundCount w)"
    "rt_side (open_inbound a w) = (rt_side w)(rt_next w := AnswererSide a)"
    "rt_held (open_inbound a w) = (rt_held w)(rt_next w := True)" "rt_alive (open_inbound a w) = rt_alive w"
    "rt_acceptorAlive (open_inbound a w)" "rt_maxInboundConnections (open_inbound a w) = rt_maxInboundConnections w"
    "dl_closedFired (rt_links (open_inbound a w) k) = (if k = rt_next w then False else dl_closedFired (rt_links w k))"
  using assms
  by (simp_all add: open_inbound_def on_offer_def HandleOffer_def add_link_def set_dc_def SetRemoteDescription_def
      new_DcRtcLink_def answerer_onDataChannel_def link_alive_def attach_link_def keep_all_def acceptor_call_def
      Attach_def DcSetHandler_def fun_eq_iff Let_def)

lemma end_inbound_fields:
  assumes "rt_side w k = AnswererSide a" and "rt_held w k" and "rt_alive w" and "k < rt_next w"
  shows "rt_next (end_inbound k w) = rt_next w" "rt_inboundCount (end_inbound k w) = rt_inboundCount w - 2"
    "rt_side (end_inbound k w) = rt_side w" "rt_held (end_inbound k w) = rt_held w" "rt_alive (end_inbound k w)"
    "rt_acceptorAlive (end_inbound k w) = rt_acceptorAlive w"
    "rt_maxInboundConnections (end_inbound k w) = rt_maxInboundConnections w"
    "dl_closedFired (rt_links (end_inbound k w) j) = (j = k \<or> dl_closedFired (rt_links w j))"
  using assms
  by (auto simp: end_inbound_def RtcOnStateChange_def onGone_def set_dc_def link_alive_def pc_onStateChange_def
      terminal_def Let_def)

section \<open>Properties\<close>

text \<open>
  The counter of inbound connections respects the limit in every sequence of offers, answers, candidates,
  opened channels and state changes; with the limit 0 no offer is ever taken.
\<close>

lemma inbound_count_within_limit:
  "rt_inboundCount (rtc_run options es) \<le> ro_maxInboundConnections options"
  using rtc_run_limit by blast

text \<open>
  C34. The limit itself is not kept: \<open>onGone\<close> runs for every terminal state a connection reports, so one that is
  first \<open>Disconnected\<close> and then \<open>Closed\<close> gives its slot back twice. With a limit of 2, four offers and one
  ended connection leave three inbound links open.
\<close>

theorem inbound_limit_can_be_exceeded:
  "let w = rtc_run ((default_options ''s'')\<lparr>ro_maxInboundConnections := 2\<rparr>)
     [ReOffer ''a'' ''x'', ReChannel 0, ReOffer ''b'' ''x'', ReChannel 1, ReState 0 PcDisconnected, ReState 0 PcClosed,
      ReOffer ''c'' ''x'', ReChannel 2, ReOffer ''d'' ''x'', ReChannel 3]
   in live_inbound w = 3 \<and> rt_inboundCount w = 2"
proof -
  let ?s = "new_rtc_state ((default_options ''s'')\<lparr>ro_maxInboundConnections := 2\<rparr>)"
  define w1 where "w1 = open_inbound ''b'' (open_inbound ''a'' ?s)"
  define w2 where "w2 = end_inbound 0 w1"
  define w3 where "w3 = open_inbound ''d'' (open_inbound ''c'' w2)"
  have s: "rt_next ?s = 0" "rt_inboundCount ?s = 0" "rt_maxInboundConnections ?s = 2" "rt_acceptorAlive ?s" "rt_alive ?s"
    by (simp_all add: new_rtc_state_def default_options_def)
  have 1: "rt_next w1 = 2" "rt_inboundCount w1 = 2" "rt_maxInboundConnections w1 = 2" "rt_acceptorAlive w1" "rt_alive w1"
      "rt_side w1 = (rt_side ?s)(0 := AnswererSide ''a'', 1 := AnswererSide ''b'')" "rt_held w1 0"
      "\<not> dl_closedFired (rt_links w1 1)"
    by (simp_all add: w1_def open_inbound_fields s)
  have 2: "rt_next w2 = 2" "rt_inboundCount w2 = 0" "rt_maxInboundConnections w2 = 2" "rt_acceptorAlive w2"
      "rt_side w2 = rt_side w1" "dl_closedFired (rt_links w2 0)" "\<not> dl_closedFired (rt_links w2 1)"
    by (simp_all add: w2_def end_inbound_fields[of w1 0 "''a''"] 1 1(8)[simplified])
  have 3: "rt_next w3 = 4" "rt_inboundCount w3 = 2" "dl_closedFired (rt_links w3 0)" "\<not> dl_closedFired (rt_links w3 1)"
      "rt_side w3 = (rt_side w1)(2 := AnswererSide ''c'', 3 := AnswererSide ''d'')"
      "\<not> dl_closedFired (rt_links w3 2)" "\<not> dl_closedFired (rt_links w3 3)"
    by (simp_all add: w3_def open_inbound_fields 2 2(7)[simplified])
  have a: "rt_next (open_inbound ''a'' ?s) = 1" by (simp add: open_inbound_fields s)
  have c: "rt_next (open_inbound ''c'' w2) = 3" by (simp add: open_inbound_fields 2)
  have "rtc_run ((default_options ''s'')\<lparr>ro_maxInboundConnections := 2\<rparr>)
     [ReOffer ''a'' ''x'', ReChannel 0, ReOffer ''b'' ''x'', ReChannel 1, ReState 0 PcDisconnected, ReState 0 PcClosed,
      ReOffer ''c'' ''x'', ReChannel 2, ReOffer ''d'' ''x'', ReChannel 3] = w3"
    unfolding w3_def open_inbound_at[OF c]
    unfolding open_inbound_at[OF 2(1)]
    unfolding w2_def end_inbound_def w1_def open_inbound_at[OF a]
    unfolding open_inbound_at[OF s(1)]
    by (simp del: rtc_apply.simps add: rtc_run_def)
  moreover have "[0..<4] = [0::nat, 1, 2, 3]" by (simp add: upt_rec)
  then have "live_inbound w3 = 3" by (simp add: live_inbound_def 3 3(4)[simplified] 1(6))
  ultimately show ?thesis using 3(2) by simp
qed

text \<open>
  Offers whose data channel never opens use up the limit for good: until a channel is opened no state change
  of any connection gives a slot back, so after as many offers as the limit allows every further one is
  rejected.
\<close>

lemma unopened_offers_exhaust_limit:
  assumes "\<forall>e\<in>set es. \<not> is_channel e" and "ro_maxInboundConnections options \<le> length (filter is_offer es)"
  shows "on_offer from sdp (rtc_run options es) = rtc_run options es"
proof -
  have "rt_inboundCount (rtc_run options es) =
      min (ro_maxInboundConnections options) (0 + length (filter is_offer es))"
    using unopened_run[of "new_rtc_state options" es] assms(1) by (simp add: rtc_run_def new_rtc_state_def)
  then show ?thesis using assms(2) rtc_run_limit[of options es] by (simp add: on_offer_def)
qed

lemma unopened_offers_exhaust_limit_witness:
  "let options = (default_options ''s'')\<lparr>ro_maxInboundConnections := 1\<rparr>;
       w = rtc_run options [ReOffer ''a'' ''x'', ReState 0 PcFailed, ReState 0 PcClosed]
   in on_offer ''b'' ''y'' w = w"
  using unopened_offers_exhaust_limit[of "[ReOffer ''a'' ''x'', ReState 0 PcFailed, ReState 0 PcClosed]"
      "(default_options ''s'')\<lparr>ro_maxInboundConnections := 1\<rparr>" "''b''" "''y''"]
  by (simp add: is_channel_def is_offer_def default_options_def)

end
