(* ===== verification/Js_Rtc.thy ===== *)
theory Js_Rtc
  imports Rtc_Transport
begin

text \<open>
  \<open>pkg/rtt/rtc/Rtt/Rtc/Js/JsRtcTransport.cpp\<close>: the WebRTC transport of the browser build.

  A peer context is allocated on the heap for every connection; JavaScript keeps, under its address, an entry with
  the peer connection, the data channel and the candidates that wait for the remote description (\<open>js_map\<close>,
  \<open>js_entries\<close>), and all event handlers have captured the address (\<open>js_closure\<close>). When the data channel opens the
  context passes to a link, whose destructor frees it; a freed address may be used again. \<open>None\<close> is undefined
  behaviour (access to a freed context or link, reading past a buffer) or an uncaught exception of the JSON library.

  What the code asks of a peer connection or its channel is logged in the entry (\<open>en_pc\<close>); what the browser
  reports are the events below. \<open>en_promises\<close> counts the calls of \<open>setRemoteDescription\<close> that have not been
  resolved. \<open>jp_entry\<close> is a ghost: the entry made for the context. The state owns its acceptor and its signalling
  user, so that \<open>waccept.lock()\<close> and \<open>sigUser.lock()\<close> succeed while the state is alive (\<open>js_alive\<close>).
\<close>

section \<open>State\<close>

datatype js_role = OffererRole | AnswererRole

record js_entry =
  en_ice :: "(string \<times> string) list list"
  en_dc :: bool
  en_dcOpen :: bool
  en_descSet :: bool
  en_pendingCandidates :: "(string \<times> string) list"
  en_promises :: nat
  en_closed :: bool
  en_pc :: "pc_call list"

record js_peer =
  jp_localId :: string
  jp_remoteId :: string
  jp_opened :: bool
  jp_link :: "ref option"
  jp_role :: js_role
  jp_entry :: ref

record js_link =
  jl_localId :: string
  jl_remoteId :: string
  jl_ctx :: ref
  jl_maxMessageSize :: nat
  jl_role :: js_role
  jl_handler :: link_handler
  jl_closedFired :: bool
  jl_disconnectRequested :: bool
  jl_calls :: "link_call list"

record js_rtc =
  js_localId :: string
  js_remoteId :: string
  js_iceServers :: "string list"
  js_maxMessageSize :: nat
  js_maxInboundConnections :: nat
  js_sigUser :: bool
  js_peers :: "string \<rightharpoonup> ref"
  js_inboundCount :: nat
  js_alive :: bool
  js_sent :: "(string \<times> string) list"
  js_calls :: "rtc_call list"
  js_map :: "ref \<rightharpoonup> ref"
  js_entries :: "ref \<Rightarrow> js_entry"
  js_closure :: "ref \<Rightarrow> ref"
  js_nextEntry :: ref
  js_ctx :: "ref \<rightharpoonup> js_peer"
  js_fresh :: ref
  js_links :: "ref \<rightharpoonup> js_link"
  js_nextLink :: ref

definition set_entry :: "ref \<Rightarrow> (js_entry \<Rightarrow> js_entry) \<Rightarrow> js_rtc \<Rightarrow> js_rtc" where
  "set_entry e f w = w\<lparr>js_entries := (js_entries w)(e := f (js_entries w e))\<rparr>"

definition js_isOfferer :: "js_rtc \<Rightarrow> bool" where
  "js_isOfferer w \<longleftrightarrow> js_remoteId w \<noteq> []"

definition js_acceptor_call :: "rtc_call \<Rightarrow> js_rtc \<Rightarrow> js_rtc" where
  "js_acceptor_call c w = w\<lparr>js_calls := js_calls w @ [c]\<rparr>"

section \<open>JavaScript side\<close>

definition new_entry :: "(string \<times> string) list list \<Rightarrow> js_entry" where
  "new_entry ice =
     \<lparr>en_ice = ice, en_dc = False, en_dcOpen = False, en_descSet = False, en_pendingCandidates = [], en_promises = 0,
      en_closed = False, en_pc = []\<rparr>"

definition add_entry :: "ref \<Rightarrow> js_entry \<Rightarrow> js_rtc \<Rightarrow> js_rtc" where
  "add_entry ctx en w =
     w\<lparr>js_nextEntry := Suc (js_nextEntry w), js_entries := (js_entries w)(js_nextEntry w := en),
       js_closure := (js_closure w)(js_nextEntry w := ctx), js_map := (js_map w)(ctx \<mapsto> js_nextEntry w)\<rparr>"

definition JsRtcPc_SetupOfferer :: "ref \<Rightarrow> (string \<times> string) list list \<Rightarrow> js_rtc \<Rightarrow> js_rtc" where
  "JsRtcPc_SetupOfferer ctx ice w =
     add_entry ctx ((new_entry ice)\<lparr>en_dc := True, en_pc := [CreateDataChannel ''data'']\<rparr>) w"

definition JsRtcPc_SetupAnswerer :: "ref \<Rightarrow> string \<Rightarrow> (string \<times> string) list list \<Rightarrow> js_rtc \<Rightarrow> js_rtc" where
  "JsRtcPc_SetupAnswerer ctx offerSdp ice w =
     add_entry ctx ((new_entry ice)\<lparr>en_promises := 1, en_pc := [SetRemote (c_string offerSdp) OfferDesc]\<rparr>) w"

definition JsRtcPc_SetRemoteAnswer :: "ref \<Rightarrow> string \<Rightarrow> js_rtc \<Rightarrow> js_rtc" where
  "JsRtcPc_SetRemoteAnswer ctx answerSdp w =
     (case js_map w ctx of
        None \<Rightarrow> w
      | Some e \<Rightarrow>
          set_entry e (\<lambda>en. en\<lparr>en_pc := en_pc en @ [SetRemote (c_string answerSdp) AnswerDesc],
            en_promises := Suc (en_promises en)\<rparr>) w)"

text \<open>
  What follows in \<open>then\<close> once \<open>setRemoteDescription\<close> is resolved, in both roles: the waiting candidates are handed
  over. (The answerer goes on to create its answer, which the browser reports later.)
\<close>

definition remote_resolved :: "js_entry \<Rightarrow> js_entry" where
  "remote_resolved en =
     (let pending = en_pendingCandidates en
      in en\<lparr>en_promises := en_promises en - 1, en_descSet := True, en_pendingCandidates := [],
            en_pc := en_pc en @ map (\<lambda>(cand, mid). AddCandidate cand mid) pending\<rparr>)"

definition JsRtcPc_AddIceCandidate :: "ref \<Rightarrow> string \<Rightarrow> string \<Rightarrow> js_rtc \<Rightarrow> js_rtc" where
  "JsRtcPc_AddIceCandidate ctx cand mid w =
     (case js_map w ctx of
        None \<Rightarrow> w
      | Some e \<Rightarrow>
          set_entry e (\<lambda>en.
            if en_descSet en then en\<lparr>en_pc := en_pc en @ [AddCandidate (c_string cand) (c_string mid)]\<rparr>
            else en\<lparr>en_pendingCandidates := en_pendingCandidates en @ [(c_string cand, c_string mid)]\<rparr>) w)"

definition JsRtcPc_Send :: "ref \<Rightarrow> byte list \<Rightarrow> js_rtc \<Rightarrow> js_rtc" where
  "JsRtcPc_Send ctx data w =
     (case js_map w ctx of
        None \<Rightarrow> w
      | Some e \<Rightarrow>
          if \<not> en_dc (js_entries w e) \<or> \<not> en_dcOpen (js_entries w e) then w
          else set_entry e (\<lambda>en. en\<lparr>en_pc := en_pc en @ [DcSend data]\<rparr>) w)"

definition JsRtcPc_Close :: "ref \<Rightarrow> js_rtc \<Rightarrow> js_rtc" where
  "JsRtcPc_Close ctx w =
     (case js_map w ctx of
        None \<Rightarrow> w
      | Some e \<Rightarrow>
          set_entry e (\<lambda>en. en\<lparr>en_closed := True, en_dcOpen := False, en_pc := en_pc en @ [PcClose]\<rparr>)
            (w\<lparr>js_map := (js_map w)(ctx := None)\<rparr>))"

section \<open>Links\<close>

definition free_peer :: "ref \<Rightarrow> js_rtc \<Rightarrow> js_rtc option" where
  "free_peer ctx w = (if js_ctx w ctx = None then None else Some (w\<lparr>js_ctx := (js_ctx w)(ctx := None)\<rparr>))"

definition set_jlink :: "ref \<Rightarrow> js_link \<Rightarrow> js_rtc \<Rightarrow> js_rtc" where
  "set_jlink k l w = w\<lparr>js_links := (js_links w)(k \<mapsto> l)\<rparr>"

text \<open>The closures \<open>onGone\<close> of the offerer and of the answerer.\<close>

definition js_onGone :: "js_role \<Rightarrow> string \<Rightarrow> js_rtc \<Rightarrow> js_rtc" where
  "js_onGone role remId w =
     (if \<not> js_alive w then w
      else
        let w1 = w\<lparr>js_peers := (js_peers w)(remId := None)\<rparr>
        in (case role of
              OffererRole \<Rightarrow> w1
            | AnswererRole \<Rightarrow>
                if 0 < js_inboundCount w1 then w1\<lparr>js_inboundCount := js_inboundCount w1 - 1\<rparr> else w1))"

definition JsRtcLink_destroy :: "ref \<Rightarrow> js_link \<Rightarrow> js_rtc \<Rightarrow> js_rtc option" where
  "JsRtcLink_destroy k l w =
     (case free_peer (jl_ctx l) (JsRtcPc_Close (jl_ctx l) w) of
        None \<Rightarrow> None
      | Some w1 \<Rightarrow> Some (js_onGone (jl_role l) (jl_remoteId l) (w1\<lparr>js_links := (js_links w1)(k := None)\<rparr>)))"

definition JsRtcLink_Send :: "(byte list \<Rightarrow> nat \<times> byte list) \<Rightarrow> js_link \<Rightarrow> js_rtc \<Rightarrow> js_rtc option" where
  "JsRtcLink_Send writer l w =
     (if jl_disconnectRequested l then Some w
      else
        let (written, buf) = writer (replicate (jl_maxMessageSize l) 0)
        in if written = 0 then Some w
           else if written > length buf then None
           else Some (JsRtcPc_Send (jl_ctx l) (take written buf) w))"

definition JsRtcLink_Disconnect :: "ref \<Rightarrow> js_link \<Rightarrow> js_rtc \<Rightarrow> js_rtc" where
  "JsRtcLink_Disconnect k l w =
     (if jl_disconnectRequested l then w
      else JsRtcPc_Close (jl_ctx l) (set_jlink k (l\<lparr>jl_disconnectRequested := True\<rparr>) w))"

definition JsRtcLink_OnClose :: "js_link \<Rightarrow> js_link" where
  "JsRtcLink_OnClose l =
     (if jl_closedFired l then l
      else
        let l1 = l\<lparr>jl_closedFired := True\<rparr>
        in if lh_onDisconnected (jl_handler l1) then l1\<lparr>jl_calls := jl_calls l1 @ [LinkDisconnected]\<rparr> else l1)"

definition JsRtcLink_OnMessage :: "byte list \<Rightarrow> js_link \<Rightarrow> js_link" where
  "JsRtcLink_OnMessage data l =
     (if lh_onReceived (jl_handler l) then l\<lparr>jl_calls := jl_calls l @ [LinkReceived data]\<rparr> else l)"

section \<open>Calls from JavaScript\<close>

text \<open>
  The closures \<open>onDcOpen\<close> of both roles, which differ in the \<open>onGone\<close> they give to the link. The acceptor returns the
  handler \<open>h\<close>, and \<open>keep\<close> says whether it keeps the link: otherwise the closure holds the last reference.
\<close>

definition onDcOpen :: "link_handler \<Rightarrow> bool \<Rightarrow> ref \<Rightarrow> js_peer \<Rightarrow> js_rtc \<Rightarrow> js_rtc option" where
  "onDcOpen h keep ctx c w =
     (if \<not> js_alive w then free_peer ctx (JsRtcPc_Close ctx w)
      else
        let k = js_nextLink w;
            l = \<lparr>jl_localId = jp_localId c, jl_remoteId = jp_remoteId c, jl_ctx = ctx, jl_maxMessageSize = js_maxMessageSize w,
                 jl_role = jp_role c, jl_handler = no_handler, jl_closedFired = False, jl_disconnectRequested = False,
                 jl_calls = []\<rparr>;
            w1 = w\<lparr>js_nextLink := Suc k, js_ctx := (js_ctx w)(ctx \<mapsto> c\<lparr>jp_link := Some k\<rparr>)\<rparr>;
            l1 = l\<lparr>jl_handler := h\<rparr>;
            w2 = set_jlink k l1 (js_acceptor_call (RcLink k) w1)
        in if keep then Some w2 else JsRtcLink_destroy k l1 w2)"

definition JsRtcPc_OnDataChannelOpen :: "link_handler \<Rightarrow> bool \<Rightarrow> ref \<Rightarrow> js_rtc \<Rightarrow> js_rtc option" where
  "JsRtcPc_OnDataChannelOpen h keep ctx w =
     (case js_ctx w ctx of
        None \<Rightarrow> None
      | Some c \<Rightarrow>
          if jp_opened c then Some w
          else
            let c1 = c\<lparr>jp_opened := True\<rparr>
            in onDcOpen h keep ctx c1 (w\<lparr>js_ctx := (js_ctx w)(ctx \<mapsto> c1)\<rparr>))"

text \<open>\<open>ctx->link\<close> is a raw pointer: calling a destroyed link through it is undefined.\<close>

definition on_ctx_link :: "(js_link \<Rightarrow> js_link) \<Rightarrow> ref \<Rightarrow> js_rtc \<Rightarrow> js_rtc option" where
  "on_ctx_link f ctx w =
     (case js_ctx w ctx of
        None \<Rightarrow> None
      | Some c \<Rightarrow>
          (case jp_link c of
             None \<Rightarrow> Some w
           | Some k \<Rightarrow>
               (case js_links w k of
                  None \<Rightarrow> None
                | Some l \<Rightarrow> Some (set_jlink k (f l) w))))"

definition JsRtcPc_OnDataChannelClose :: "ref \<Rightarrow> js_rtc \<Rightarrow> js_rtc option" where
  "JsRtcPc_OnDataChannelClose ctx w = on_ctx_link JsRtcLink_OnClose ctx w"

definition JsRtcPc_OnMessage :: "ref \<Rightarrow> byte list \<Rightarrow> js_rtc \<Rightarrow> js_rtc option" where
  "JsRtcPc_OnMessage ctx data w = on_ctx_link (JsRtcLink_OnMessage data) ctx w"

definition js_signal :: "ref \<Rightarrow> string \<Rightarrow> js_rtc \<Rightarrow> js_rtc option" where
  "js_signal ctx payload w =
     (case js_ctx w ctx of
        None \<Rightarrow> None
      | Some c \<Rightarrow>
          if js_sigUser w \<and> js_alive w then Some (w\<lparr>js_sent := js_sent w @ [(jp_remoteId c, payload)]\<rparr>) else Some w)"

definition JsRtcPc_OnLocalDescription :: "'j json_api \<Rightarrow> ref \<Rightarrow> string \<Rightarrow> string \<Rightarrow> js_rtc \<Rightarrow> js_rtc option" where
  "JsRtcPc_OnLocalDescription J ctx typeStr sdp w =
     js_signal ctx (j_dump J (j_object J [(''type'', c_string typeStr), (''description'', c_string sdp)])) w"

definition JsRtcPc_OnLocalCandidate :: "'j json_api \<Rightarrow> ref \<Rightarrow> string \<Rightarrow> string \<Rightarrow> js_rtc \<Rightarrow> js_rtc option" where
  "JsRtcPc_OnLocalCandidate J ctx cand mid w =
     js_signal ctx (j_dump J (j_object J
       [(''type'', ''candidate''), (''candidate'', c_string cand), (''mid'', c_string mid)])) w"

text \<open>
  The event handlers that JavaScript wraps around these: \<open>pc.onicecandidate\<close> passes over the end of the candidates and
  takes a missing \<open>sdpMid\<close> for the empty one, \<open>dc.onmessage\<close> passes over anything but an \<open>ArrayBuffer\<close>.
\<close>

definition pc_onicecandidate :: "'j json_api \<Rightarrow> ref \<Rightarrow> (string \<times> string option) option \<Rightarrow> js_rtc \<Rightarrow> js_rtc option" where
  "pc_onicecandidate J ctx candidate w =
     (case candidate of
        None \<Rightarrow> Some w
      | Some (cand, sdpMid) \<Rightarrow> JsRtcPc_OnLocalCandidate J ctx cand (value_or sdpMid []) w)"

definition js_dc_onmessage :: "ref \<Rightarrow> byte list option \<Rightarrow> js_rtc \<Rightarrow> js_rtc option" where
  "js_dc_onmessage ctx data w =
     (case data of
        None \<Rightarrow> Some w
      | Some view \<Rightarrow> JsRtcPc_OnMessage ctx view w)"

section \<open>Transport\<close>

text \<open>The array of objects, which JavaScript parses back from its text.\<close>

definition BuildIceJson :: "string list \<Rightarrow> (string \<times> string) list list" where
  "BuildIceJson iceServers = map (\<lambda>srv. [(''urls'', srv)]) iceServers"

text \<open>
  \<open>new JsRtcPeerContext\<close>: the address is a freed one (\<open>hint\<close>), or one never used before, which covers all choices of
  the allocator up to the naming of addresses.
\<close>

definition alloc_peer :: "ref \<Rightarrow> js_rtc \<Rightarrow> ref" where
  "alloc_peer hint w = (if hint < js_fresh w \<and> js_ctx w hint = None then hint else js_fresh w)"

definition new_peer :: "ref \<Rightarrow> js_role \<Rightarrow> string \<Rightarrow> js_rtc \<Rightarrow> js_rtc" where
  "new_peer ctx role remote w =
     w\<lparr>js_fresh := max (js_fresh w) (Suc ctx),
       js_ctx := (js_ctx w)(ctx \<mapsto> \<lparr>jp_localId = js_localId w, jp_remoteId = remote, jp_opened = False, jp_link = None,
         jp_role = role, jp_entry = js_nextEntry w\<rparr>)\<rparr>"

definition Js_OpenOfferer :: "ref \<Rightarrow> js_rtc \<Rightarrow> js_rtc" where
  "Js_OpenOfferer hint w =
     (let ice = BuildIceJson (js_iceServers w);
          ctx = alloc_peer hint w;
          w1 = new_peer ctx OffererRole (js_remoteId w) w;
          w2 = w1\<lparr>js_peers := (js_peers w1)(js_remoteId w \<mapsto> ctx)\<rparr>
      in JsRtcPc_SetupOfferer ctx ice w2)"

definition Js_HandleOffer :: "ref \<Rightarrow> string \<Rightarrow> string \<Rightarrow> js_rtc \<Rightarrow> js_rtc" where
  "Js_HandleOffer hint fromId offerSdp w =
     (let ice = BuildIceJson (js_iceServers w);
          ctx = alloc_peer hint w;
          w1 = new_peer ctx AnswererRole fromId w;
          w2 = w1\<lparr>js_peers := (js_peers w1)(fromId \<mapsto> ctx), js_inboundCount := Suc (js_inboundCount w1)\<rparr>
      in JsRtcPc_SetupAnswerer ctx offerSdp ice w2)"

definition js_on_offer :: "ref \<Rightarrow> string \<Rightarrow> string \<Rightarrow> js_rtc \<Rightarrow> js_rtc" where
  "js_on_offer hint fromId sdp w =
     (if js_maxInboundConnections w = 0 \<or> js_maxInboundConnections w \<le> js_inboundCount w then w
      else Js_HandleOffer hint fromId sdp w)"

definition js_on_answer :: "string \<Rightarrow> string \<Rightarrow> js_rtc \<Rightarrow> js_rtc" where
  "js_on_answer fromId sdp w =
     (if \<not> js_isOfferer w then w
      else
        case js_peers w fromId of
          None \<Rightarrow> w
        | Some ctx \<Rightarrow> JsRtcPc_SetRemoteAnswer ctx sdp w)"

definition js_on_candidate :: "string \<Rightarrow> string \<Rightarrow> string \<Rightarrow> js_rtc \<Rightarrow> js_rtc" where
  "js_on_candidate fromId cand mid w =
     (case js_peers w fromId of
        None \<Rightarrow> w
      | Some ctx \<Rightarrow> JsRtcPc_AddIceCandidate ctx cand mid w)"

definition JsRtc_OnMessage :: "'j json_api \<Rightarrow> ref \<Rightarrow> SigMessage \<Rightarrow> js_rtc \<Rightarrow> js_rtc option" where
  "JsRtc_OnMessage J hint msg w =
     (case j_parse J (sm_payload msg) of
        None \<Rightarrow> Some w
      | Some j \<Rightarrow>
          (case j_value J j ''type'' [] of
             None \<Rightarrow> None
           | Some type \<Rightarrow>
               if type = ''offer''
               then if js_maxInboundConnections w = 0 \<or> js_maxInboundConnections w \<le> js_inboundCount w then Some w
                    else map_option (\<lambda>sdp. js_on_offer hint (sm_from msg) sdp w) (j_value J j ''description'' [])
               else if type = ''answer''
               then if \<not> js_isOfferer w then Some w
                    else map_option (\<lambda>sdp. js_on_answer (sm_from msg) sdp w) (j_value J j ''description'' [])
               else if type = ''candidate''
               then (case j_value J j ''candidate'' [] of
                       None \<Rightarrow> None
                     | Some cand \<Rightarrow>
                         map_option (\<lambda>mid. js_on_candidate (sm_from msg) cand mid w) (j_value J j ''mid'' []))
               else Some w))"

definition JsRtc_OnLeft :: "left_code \<Rightarrow> js_rtc \<Rightarrow> js_rtc" where
  "JsRtc_OnLeft ec w = (if ec \<noteq> LeftClean then js_acceptor_call (RcError TransportClosed) w else w)"

definition new_js_rtc :: "rtc_options \<Rightarrow> js_rtc" where
  "new_js_rtc options =
     \<lparr>js_localId = ro_localId options, js_remoteId = ro_remoteId options, js_iceServers = ro_iceServers options,
      js_maxMessageSize = ro_maxMessageSize options, js_maxInboundConnections = ro_maxInboundConnections options,
      js_sigUser = False, js_peers = Map.empty, js_inboundCount = 0, js_alive = True, js_sent = [], js_calls = [],
      js_map = Map.empty, js_entries = (\<lambda>_. new_entry []), js_closure = (\<lambda>_. 0), js_nextEntry = 0,
      js_ctx = Map.empty, js_fresh = 0, js_links = Map.empty, js_nextLink = 0\<rparr>"

text \<open>The join callback of \<open>Open\<close>; its result says whether it returned a handler, and so kept the user.\<close>

definition js_onJoined :: "ref \<Rightarrow> Error + unit \<Rightarrow> js_rtc \<Rightarrow> bool \<times> js_rtc" where
  "js_onJoined hint result w =
     (if \<not> js_alive w then (False, w)
      else
        case result of
          Inl e \<Rightarrow> (False, js_acceptor_call (RcError e) w)
        | Inr _ \<Rightarrow>
            let w1 = w\<lparr>js_sigUser := True\<rparr>
            in (True, if js_isOfferer w1 then Js_OpenOfferer hint w1 else w1))"

definition JsRtcTransport_Open :: "rtc_options \<Rightarrow> Error + unit \<Rightarrow> bool \<times> js_rtc" where
  "JsRtcTransport_Open options result = js_onJoined 0 result (new_js_rtc options)"

end
