(* ===== verification/Ws_Signaling.thy ===== *)
theory Ws_Signaling
  imports Rtt_Core Signaling
begin

text \<open>
  \<open>pkg/rtt/rtc/Rtt/Rtc/Dc\<close>: signalling over WebSockets, the client (\<open>DcWsSigClient\<close> with its \<open>DcWsSigUser\<close>) and
  the server (\<open>DcWsSigServer\<close>), which registers every connection as a user of the hub.

  The sockets are libdatachannel's: what the code asks of a socket is logged, what the library reports are the
  arguments of the callbacks. A socket is open from its open event until it is closed by either side
  (\<open>isOpen\<close>). A frame is a text, or \<open>None\<close> for a binary one. \<open>None\<close> as the result of an operation is an
  exception of the JSON library, which nothing catches.
\<close>

section \<open>Wire format\<close>

datatype ws_call = WsOpen string | WsSend string | WsClose

definition envelope :: "'j json_api \<Rightarrow> string \<Rightarrow> string \<Rightarrow> string" where
  "envelope J peer payload = j_dump J (j_object J [(''id'', peer), (''payload'', payload)])"

text \<open>\<open>Some None\<close>: the frame is ignored.\<close>

definition read_envelope :: "'j json_api \<Rightarrow> string \<Rightarrow> (string \<times> string) option option" where
  "read_envelope J text =
     (case j_parse J text of
        None \<Rightarrow> Some None
      | Some msg \<Rightarrow>
          (case (j_find J msg ''id'', j_find J msg ''payload'') of
             (Some peer, Some payload) \<Rightarrow>
               (case (j_get J peer, j_get J payload) of
                  (Some x, Some y) \<Rightarrow> Some (Some (x, y))
                | _ \<Rightarrow> None)
           | _ \<Rightarrow> Some None))"

section \<open>Client\<close>

datatype sig_call = Joined | JoinFailed Error | CcMessage ref SigMessage | CcLeft ref left_code

record ws_client =
  wc_id :: string
  wc_isOpen :: bool
  wc_fired :: bool
  wc_user :: bool
  wc_handler :: "ref option"
  wc_handlerAlive :: "ref \<Rightarrow> bool"
  wc_pending :: "SigMessage list"
  wc_leaving :: bool
  wc_ws :: "ws_call list"
  wc_calls :: "sig_call list"

record ws_options =
  wo_host :: string
  wo_port :: u16

definition default_ws_options :: ws_options where
  "default_ws_options = \<lparr>wo_host = ''localhost'', wo_port = 8000\<rparr>"

definition client_lock :: "ws_client \<Rightarrow> ref option" where
  "client_lock c =
     (case wc_handler c of None \<Rightarrow> None | Some h \<Rightarrow> if wc_handlerAlive c h then Some h else None)"

definition notify_call :: "sig_call \<Rightarrow> ws_client \<Rightarrow> ws_client" where
  "notify_call x c = c\<lparr>wc_calls := wc_calls c @ [x]\<rparr>"

definition ws_close :: "ws_client \<Rightarrow> ws_client" where
  "ws_close c = c\<lparr>wc_isOpen := False, wc_ws := wc_ws c @ [WsClose]\<rparr>"

definition WsUser_Send :: "'j json_api \<Rightarrow> string \<Rightarrow> string \<Rightarrow> ws_client \<Rightarrow> ws_client" where
  "WsUser_Send J to payload c =
     (if \<not> wc_isOpen c then c else c\<lparr>wc_ws := wc_ws c @ [WsSend (envelope J to payload)]\<rparr>)"

definition NotifyClosed :: "ws_client \<Rightarrow> ws_client" where
  "NotifyClosed c =
     (case client_lock c of
        None \<Rightarrow> c
      | Some h \<Rightarrow> notify_call (CcLeft h (if wc_leaving c then LeftClean else LeftConnectionLost)) c)"

definition WsUser_Leave :: "ws_client \<Rightarrow> ws_client" where
  "WsUser_Leave c =
     (if wc_leaving c then c
      else let c1 = c\<lparr>wc_leaving := True\<rparr> in if wc_isOpen c1 then ws_close c1 else NotifyClosed c1)"

text \<open>\<open>SetHandler\<close> takes the buffered messages under the mutex and replays them after releasing it.\<close>

definition WsSetHandler_swap :: "ref option \<Rightarrow> ws_client \<Rightarrow> SigMessage list \<times> ws_client" where
  "WsSetHandler_swap handler c = (wc_pending c, c\<lparr>wc_handler := handler, wc_pending := []\<rparr>)"

definition WsSetHandler_replay :: "SigMessage list \<Rightarrow> ws_client \<Rightarrow> ws_client" where
  "WsSetHandler_replay pending c =
     (case client_lock c of
        None \<Rightarrow> c
      | Some h \<Rightarrow> c\<lparr>wc_calls := wc_calls c @ map (CcMessage h) pending\<rparr>)"

definition WsSetHandler :: "ref option \<Rightarrow> ws_client \<Rightarrow> ws_client" where
  "WsSetHandler handler c = (let (pending, c1) = WsSetHandler_swap handler c in WsSetHandler_replay pending c1)"

definition WsDeliver :: "SigMessage \<Rightarrow> ws_client \<Rightarrow> ws_client" where
  "WsDeliver msg c =
     (case client_lock c of
        Some h \<Rightarrow> notify_call (CcMessage h msg) c
      | None \<Rightarrow> c\<lparr>wc_pending := wc_pending c @ [msg]\<rparr>)"

text \<open>The destructor; afterwards \<open>sharedUser\<close> has expired.\<close>

definition WsUser_destroy :: "ws_client \<Rightarrow> ws_client" where
  "WsUser_destroy c = (let c1 = (if wc_isOpen c then ws_close c else c) in c1\<lparr>wc_user := False\<rparr>)"

definition WsJoin :: "ws_options \<Rightarrow> string \<Rightarrow> (ref \<Rightarrow> bool) \<Rightarrow> ws_client" where
  "WsJoin options lid handlers =
     \<lparr>wc_id = lid, wc_isOpen = False, wc_fired = False, wc_user = False, wc_handler = None,
      wc_handlerAlive = handlers, wc_pending = [], wc_leaving = False,
      wc_ws = [WsOpen (''ws://'' @ wo_host options @ '':'' @ digits (unat (wo_port options)) @ ''/'' @ lid)],
      wc_calls = []\<rparr>"

text \<open>
  The callbacks of the socket. \<open>onOpen\<close> up to and including the call of the join handler, and as a whole when
  that handler returns \<open>handler\<close>.
\<close>

definition WsOnOpen_begin :: "ws_client \<Rightarrow> ws_client" where
  "WsOnOpen_begin c = (if wc_fired c then c else notify_call Joined (c\<lparr>wc_fired := True, wc_user := True\<rparr>))"

definition WsOnOpen :: "ref option \<Rightarrow> ws_client \<Rightarrow> ws_client" where
  "WsOnOpen handler c = (if wc_fired c then c else WsSetHandler handler (WsOnOpen_begin c))"

definition WsOnError :: "ws_client \<Rightarrow> ws_client" where
  "WsOnError c =
     (if wc_fired c then c else notify_call (JoinFailed ConnectionRefused) (c\<lparr>wc_fired := True\<rparr>))"

definition WsOnClosed :: "ws_client \<Rightarrow> ws_client" where
  "WsOnClosed c = (if wc_user c then NotifyClosed c else c)"

definition WsOnMessage :: "'j json_api \<Rightarrow> string option \<Rightarrow> ws_client \<Rightarrow> ws_client option" where
  "WsOnMessage J raw c =
     (case raw of
        None \<Rightarrow> Some c
      | Some text \<Rightarrow>
          if \<not> wc_user c then Some c
          else
            (case read_envelope J text of
               None \<Rightarrow> None
             | Some None \<Rightarrow> Some c
             | Some (Some (peer, payload)) \<Rightarrow> Some (WsDeliver \<lparr>sm_from = peer, sm_payload = payload\<rparr> c)))"

datatype sig_client_choice = MakeJsWs | MakeDcWs

definition WsSigClient_MakeDefault :: "bool \<Rightarrow> sig_client_choice" where
  "WsSigClient_MakeDefault emscripten = (if emscripten then MakeJsWs else MakeDcWs)"

section \<open>Server\<close>

text \<open>
  A connection's \<open>WsClientHandler\<close> has the number of its socket as a handler of the hub; \<open>so_handler\<close> says that it
  exists, \<open>so_user\<close> is its \<open>user\<close>, and \<open>so_listening\<close> that the message and close callbacks are set.
\<close>

record ws_socket =
  so_isOpen :: bool
  so_handler :: bool
  so_listening :: bool
  so_connId :: string
  so_user :: "ref option"
  so_ws :: "ws_call list"

record ws_server =
  sv_port :: "u16 option"
  sv_hub :: hub
  sv_connections :: "string \<rightharpoonup> ref"
  sv_sockets :: "ref \<Rightarrow> ws_socket"

definition new_socket :: ws_socket where
  "new_socket =
     \<lparr>so_isOpen = False, so_handler = False, so_listening = False, so_connId = [], so_user = None, so_ws = []\<rparr>"

definition new_DcWsSigServer :: "hub \<Rightarrow> ws_server" where
  "new_DcWsSigServer w =
     \<lparr>sv_port = None, sv_hub = w, sv_connections = Map.empty, sv_sockets = (\<lambda>_. new_socket)\<rparr>"

text \<open>\<open>port\<close> is what the library reports, the requested one or one chosen by the system.\<close>

definition WsServer_Start :: "u16 \<Rightarrow> ws_server \<Rightarrow> ws_server" where
  "WsServer_Start port sv = sv\<lparr>sv_port := Some port, sv_connections := Map.empty\<rparr>"

definition WsServer_Port :: "ws_server \<Rightarrow> u16" where
  "WsServer_Port sv = value_or (sv_port sv) 0"

definition set_socket :: "ref \<Rightarrow> (ws_socket \<Rightarrow> ws_socket) \<Rightarrow> ws_server \<Rightarrow> ws_server" where
  "set_socket s f sv = sv\<lparr>sv_sockets := (sv_sockets sv)(s := f (sv_sockets sv s))\<rparr>"

definition socket_close :: "ws_socket \<Rightarrow> ws_socket" where
  "socket_close so = so\<lparr>so_isOpen := False, so_ws := so_ws so @ [WsClose]\<rparr>"

definition WsClientHandler_OnMessage :: "'j json_api \<Rightarrow> SigMessage \<Rightarrow> ws_socket \<Rightarrow> ws_socket" where
  "WsClientHandler_OnMessage J msg so =
     (if \<not> so_isOpen so then so else so\<lparr>so_ws := so_ws so @ [WsSend (envelope J (sm_from msg) (sm_payload msg))]\<rparr>)"

text \<open>
  What the hub's calls do to the handlers that are connections. \<open>OnMessage\<close> of such a handler touches only its
  socket and never the hub, so the calls of one hub operation are carried out after it, in order. \<open>OnLeft\<close> does
  nothing.
\<close>

fun forward_call :: "'j json_api \<Rightarrow> hcall \<Rightarrow> ws_server \<Rightarrow> ws_server" where
  "forward_call J (OnMessage u h msg) sv =
     (if so_handler (sv_sockets sv h) then set_socket h (WsClientHandler_OnMessage J msg) sv else sv)"
| "forward_call J (OnLeft u h ec) sv = sv"

definition hub_step :: "'j json_api \<Rightarrow> (hub \<Rightarrow> stuck + hub) \<Rightarrow> ws_server \<Rightarrow> ws_server" where
  "hub_step J f sv =
     (let w = settle (sv_hub sv) (f (sv_hub sv))
      in fold (forward_call J) (drop (length (hb_calls (sv_hub sv))) (hb_calls w)) (sv\<lparr>sv_hub := w\<rparr>))"

definition connId_of :: "string option \<Rightarrow> string" where
  "connId_of path = (let p = value_or path [] in if p = [] then p else tl p)"

definition WsServer_onOpen :: "'j json_api \<Rightarrow> ref \<Rightarrow> string option \<Rightarrow> ws_server \<Rightarrow> ws_server" where
  "WsServer_onOpen J s path sv =
     (let connId = connId_of path
      in if connId = [] then set_socket s socket_close sv
         else
           let u = hb_next (sv_hub sv);
               sv1 = set_socket s (\<lambda>so. so\<lparr>so_handler := True, so_connId := connId, so_user := Some u\<rparr>) sv;
               sv2 = hub_step J (Register no_actions quiet (\<lambda>_. (Some s, [])) connId) sv1;
               sv3 = sv2\<lparr>sv_connections := (sv_connections sv2)(connId \<mapsto> s)\<rparr>
           in set_socket s (\<lambda>so. so\<lparr>so_listening := True\<rparr>) sv3)"

definition WsServer_onMessage :: "'j json_api \<Rightarrow> ref \<Rightarrow> string option \<Rightarrow> ws_server \<Rightarrow> ws_server option" where
  "WsServer_onMessage J s raw sv =
     (case raw of
        None \<Rightarrow> Some sv
      | Some text \<Rightarrow>
          (case read_envelope J text of
             None \<Rightarrow> None
           | Some None \<Rightarrow> Some sv
           | Some (Some (to, payload)) \<Rightarrow>
               Some (hub_step J (Dispatch no_actions quiet (so_connId (sv_sockets sv s)) to payload) sv)))"

definition WsServer_onClosed :: "'j json_api \<Rightarrow> ref \<Rightarrow> ws_server \<Rightarrow> ws_server" where
  "WsServer_onClosed J s sv =
     (let so = sv_sockets sv s;
          sv1 = sv\<lparr>sv_connections := (sv_connections sv)(so_connId so := None)\<rparr>
      in case so_user so of
           None \<Rightarrow> sv1
         | Some u \<Rightarrow> hub_step J (HubUser_Leave no_actions quiet u) sv1)"

definition DisconnectPeer :: "string \<Rightarrow> ws_server \<Rightarrow> ws_server" where
  "DisconnectPeer peerId sv =
     (if sv_port sv = None then sv
      else
        case sv_connections sv peerId of
          None \<Rightarrow> sv
        | Some s \<Rightarrow> if so_isOpen (sv_sockets sv s) then set_socket s socket_close sv else sv)"

section \<open>Interleaved callbacks of the client\<close>

text \<open>
  The library calls back from several threads, so frames may arrive before \<open>onOpen\<close> has returned and between the
  two parts of \<open>SetHandler\<close>. The handler is set once, after the join handler was called, and the user lives at
  least until then. The last component of the state is a ghost: the messages handed to \<open>Deliver\<close>.
\<close>

datatype replay_state = NotSet | Replaying "SigMessage list" | HandlerSet

datatype ws_event =
    WeOpen
  | WeError
  | WeClosing
  | WeClosed
  | WeFrame "string option"
  | WeSwap "ref option"
  | WeReplay
  | WeSend string string
  | WeLeave
  | WeDrop

definition accepted_frame :: "'j json_api \<Rightarrow> string option \<Rightarrow> ws_client \<Rightarrow> SigMessage list" where
  "accepted_frame J raw c =
     (case raw of
        None \<Rightarrow> []
      | Some text \<Rightarrow>
          if \<not> wc_user c then []
          else
            (case read_envelope J text of
               Some (Some (peer, payload)) \<Rightarrow> [\<lparr>sm_from = peer, sm_payload = payload\<rparr>]
             | _ \<Rightarrow> []))"

fun ws_apply ::
  "'j json_api \<Rightarrow> ws_event \<Rightarrow> ws_client \<times> replay_state \<times> SigMessage list \<Rightarrow> ws_client \<times> replay_state \<times> SigMessage list"
where
  "ws_apply J WeOpen (c, st, acc) = (WsOnOpen_begin (c\<lparr>wc_isOpen := True\<rparr>), st, acc)"
| "ws_apply J WeError (c, st, acc) = (WsOnError c, st, acc)"
| "ws_apply J WeClosing (c, st, acc) = (c\<lparr>wc_isOpen := False\<rparr>, st, acc)"
| "ws_apply J WeClosed (c, st, acc) = (WsOnClosed (c\<lparr>wc_isOpen := False\<rparr>), st, acc)"
| "ws_apply J (WeFrame raw) (c, st, acc) = (value_or (WsOnMessage J raw c) c, st, acc @ accepted_frame J raw c)"
| "ws_apply J (WeSwap h) (c, st, acc) =
     (if st = NotSet \<and> Joined \<in> set (wc_calls c)
      then (snd (WsSetHandler_swap h c), Replaying (fst (WsSetHandler_swap h c)), acc)
      else (c, st, acc))"
| "ws_apply J WeReplay (c, st, acc) =
     (case st of
        Replaying pending \<Rightarrow> (WsSetHandler_replay pending c, HandlerSet, acc)
      | _ \<Rightarrow> (c, st, acc))"
| "ws_apply J (WeSend to payload) (c, st, acc) = (if wc_user c then WsUser_Send J to payload c else c, st, acc)"
| "ws_apply J WeLeave (c, st, acc) = (if wc_user c then WsUser_Leave c else c, st, acc)"
| "ws_apply J WeDrop (c, st, acc) = (if st = HandlerSet \<and> wc_user c then WsUser_destroy c else c, st, acc)"

definition ws_run ::
  "'j json_api \<Rightarrow> ws_options \<Rightarrow> string \<Rightarrow> (ref \<Rightarrow> bool) \<Rightarrow> ws_event list \<Rightarrow>
     ws_client \<times> replay_state \<times> SigMessage list" where
  "ws_run J options lid handlers es = fold (ws_apply J) es (WsJoin options lid handlers, NotSet, [])"

fun replaying :: "replay_state \<Rightarrow> SigMessage list" where
  "replaying (Replaying ms) = ms"
| "replaying _ = []"

fun delivered :: "sig_call list \<Rightarrow> SigMessage list" where
  "delivered [] = []"
| "delivered (CcMessage h m # cs) = m # delivered cs"
| "delivered (_ # cs) = delivered cs"

fun join_calls :: "sig_call list \<Rightarrow> sig_call list" where
  "join_calls [] = []"
| "join_calls (Joined # cs) = Joined # join_calls cs"
| "join_calls (JoinFailed e # cs) = JoinFailed e # join_calls cs"
| "join_calls (_ # cs) = join_calls cs"

lemma delivered_append [simp]: "delivered (xs @ ys) = delivered xs @ delivered ys"
  by (induction xs rule: delivered.induct) auto

lemma join_calls_append [simp]: "join_calls (xs @ ys) = join_calls xs @ join_calls ys"
  by (induction xs rule: join_calls.induct) auto

lemma delivered_map [simp]: "delivered (map (CcMessage h) ms) = ms"
  by (induction ms) auto

lemma join_calls_map [simp]: "join_calls (map (CcMessage h) ms) = []"
  by (induction ms) auto

lemma join_calls_Joined: "Joined \<in> set (join_calls cs) \<longleftrightarrow> Joined \<in> set cs"
  by (induction cs rule: join_calls.induct) auto

definition ws_inv :: "(ref \<Rightarrow> bool) \<Rightarrow> ws_client \<times> replay_state \<times> SigMessage list \<Rightarrow> bool" where
  "ws_inv handlers x \<longleftrightarrow> (case x of (c, st, acc) \<Rightarrow>
     mset (delivered (wc_calls c)) + mset (replaying st) + mset (wc_pending c) = mset acc \<and>
     length (join_calls (wc_calls c)) = (if wc_fired c then 1 else 0) \<and>
     wc_handlerAlive c = handlers \<and>
     (st = NotSet \<longrightarrow> wc_handler c = None) \<and>
     (st \<noteq> NotSet \<longrightarrow> client_lock c \<noteq> None \<and> wc_pending c = []))"

lemmas client_ops = WsOnOpen_begin_def WsOnError_def WsOnClosed_def NotifyClosed_def notify_call_def ws_close_def
  WsUser_Send_def WsUser_Leave_def WsUser_destroy_def client_lock_def Let_def

lemma ws_apply_inv:
  assumes "ws_inv handlers (c, st, acc)" and "\<forall>h. e = WeSwap h \<longrightarrow> h \<in> Some ` Collect handlers"
  shows "ws_inv handlers (ws_apply J e (c, st, acc))"
proof (cases e)
  case (WeFrame raw)
  then show ?thesis
    using assms(1)
    by (cases st) (auto simp: ws_inv_def WsOnMessage_def accepted_frame_def WsDeliver_def notify_call_def client_lock_def
        split: option.splits if_splits)
next
  case (WeSwap h)
  then show ?thesis using assms by (auto simp: ws_inv_def WsSetHandler_swap_def client_lock_def)
next
  case WeReplay
  then show ?thesis
    using assms(1) by (cases st) (auto simp: ws_inv_def WsSetHandler_replay_def client_lock_def split: option.splits if_splits)
next
  case WeClosed
  then show ?thesis using assms(1) by (cases st) (auto simp: ws_inv_def client_ops split: option.splits)
next
  case WeLeave
  then show ?thesis using assms(1) by (cases st) (auto simp: ws_inv_def client_ops split: option.splits)
qed (use assms(1) in \<open>auto simp: ws_inv_def client_ops split: option.splits if_splits\<close>)

lemma ws_run_inv:
  assumes "{h. WeSwap h \<in> set es} \<subseteq> Some ` Collect handlers"
  shows "ws_inv handlers (ws_run J options lid handlers es)"
proof -
  have "ws_inv handlers x \<Longrightarrow> \<forall>e\<in>set es. \<forall>h. e = WeSwap h \<longrightarrow> h \<in> Some ` Collect handlers \<Longrightarrow>
      ws_inv handlers (fold (ws_apply J) es x)" for x
  proof (induction es arbitrary: x)
    case (Cons e es)
    then show ?case using ws_apply_inv[of handlers "fst x" "fst (snd x)" "snd (snd x)" e J] by simp
  qed simp
  moreover have "ws_inv handlers (WsJoin options lid handlers, NotSet, [])" by (simp add: ws_inv_def WsJoin_def)
  ultimately show ?thesis using assms unfolding ws_run_def by blast
qed

text \<open>A connection that the other side drops and that the user then leaves reports \<open>OnLeft\<close> twice.\<close>

lemma left_reported_twice:
  "wc_calls (fst (ws_run J options lid (\<lambda>_. True) [WeOpen, WeSwap (Some 7), WeReplay, WeClosed, WeLeave]))
     = [Joined, CcLeft 7 LeftConnectionLost, CcLeft 7 LeftClean]"
  by (simp add: ws_run_def WsJoin_def client_ops WsSetHandler_swap_def WsSetHandler_replay_def)

text \<open>A join handler that returns no handler leaves the connection open.\<close>

lemma connection_without_handler_stays_open:
  "let c = fst (ws_run J options lid (\<lambda>_. True) [WeOpen, WeSwap None, WeReplay])
   in wc_isOpen c \<and> WsClose \<notin> set (wc_ws c)"
  by (simp add: ws_run_def WsJoin_def client_ops WsSetHandler_swap_def WsSetHandler_replay_def)

section \<open>Properties\<close>

text \<open>
  C35. The WebSocket client reports a join exactly once, by success or by failure, and, when the join handler
  returns a live handler, loses and duplicates no message: in every interleaving of the socket's callbacks with the
  installation of the handler, the messages given to the handler, those being replayed and those still buffered are
  together the messages that arrived, and once the handler is set nothing stays behind. (Their order is not kept, as
  the witness shows: a frame that arrives between the two parts of \<open>SetHandler\<close> overtakes the buffered ones.)
\<close>

theorem ws_client_delivers_each_message_once:
  assumes "{h. WeSwap h \<in> set es} \<subseteq> Some ` Collect handlers"
    and "ws_run J options lid handlers es = (c, st, acc)"
  shows "mset (delivered (wc_calls c)) + mset (replaying st) + mset (wc_pending c) = mset acc \<and>
     length (join_calls (wc_calls c)) = (if wc_fired c then 1 else 0) \<and>
     (st = NotSet \<or> wc_pending c = [])"
  using ws_run_inv[OF assms(1), of J options lid] unfolding assms(2) by (auto simp: ws_inv_def)

definition pair_json :: "(string \<times> string) json_api" where
  "pair_json =
     \<lparr>j_parse = (\<lambda>t. case t of [x, y] \<Rightarrow> Some ([x], [y]) | _ \<Rightarrow> None),
      j_dump = (\<lambda>(x, y). x @ y),
      j_object = (\<lambda>kvs. (value_or (map_of kvs ''id'') [], value_or (map_of kvs ''payload'') [])),
      j_value = (\<lambda>_ _ _. None),
      j_find = (\<lambda>(x, y) k. if k = ''id'' then Some (x, []) else if k = ''payload'' then Some (y, []) else None),
      j_get = (\<lambda>(x, _). Some x)\<rparr>"

theorem ws_client_delivers_each_message_once_witness:
  "let es = [WeOpen, WeFrame (Some ''b1''), WeSwap (Some 7), WeFrame (Some ''b2''), WeReplay];
       (c, st, acc) = ws_run pair_json default_ws_options ''a'' (\<lambda>h. h = 7) es
   in map sm_payload acc = [''1'', ''2''] \<and> map sm_payload (delivered (wc_calls c)) = [''2'', ''1''] \<and>
      mset (delivered (wc_calls c)) = mset acc \<and> length (join_calls (wc_calls c)) = 1"
proof -
  let ?es = "[WeOpen, WeFrame (Some ''b1''), WeSwap (Some 7), WeFrame (Some ''b2''), WeReplay]"
  let ?m = "\<lambda>p. \<lparr>sm_from = ''b'', sm_payload = p\<rparr>"
  obtain c st acc where r: "ws_run pair_json default_ws_options ''a'' (\<lambda>h. h = 7) ?es = (c, st, acc)"
    by (cases "ws_run pair_json default_ws_options ''a'' (\<lambda>h. h = 7) ?es") auto
  then have v: "st = HandlerSet" "acc = [?m ''1'', ?m ''2'']" "delivered (wc_calls c) = [?m ''2'', ?m ''1'']" "wc_fired c"
    by (auto simp: ws_run_def WsJoin_def client_ops WsSetHandler_swap_def WsSetHandler_replay_def WsOnMessage_def
        WsDeliver_def accepted_frame_def read_envelope_def pair_json_def)
  then show ?thesis
    using ws_client_delivers_each_message_once[OF _ r] r by auto
qed

end
