(* ===== verification/Js_Rtc_Safety.thy ===== *)
theory Js_Rtc_Safety
  imports Js_Rtc Ws_Signaling
begin

text \<open>
  The WebRTC transport of the browser build (\<open>Js_Rtc\<close>) under any sequence of events: the invariant that ties the heap of peer
  contexts, the entries of JavaScript and the links together, its preservation by every event, and what follows for
  the safety of memory and the limit of inbound connections.
\<close>

section \<open>Events\<close>

text \<open>
  Signalling messages reach the transport while its state is alive. A peer connection reports nothing after it was closed
  (\<open>pc_live\<close>), save for the close event of its data channel, which browsers may or may not fire then (\<open>late\<close>).
\<close>

datatype jr_event =
    JvOffer ref string string
  | JvAnswer string string
  | JvCandidate string string string
  | JvLeft left_code
  | JvRemoteSet ref
  | JvLocalDescription ref string string
  | JvLocalCandidate ref "(string \<times> string option) option"
  | JvDataChannel ref
  | JvOpen ref link_handler bool
  | JvClose ref
  | JvData ref "byte list option"
  | JvSend ref "byte list"
  | JvDisconnect ref
  | JvDrop ref
  | JvTransportGone

definition pc_live :: "ref \<Rightarrow> js_rtc \<Rightarrow> bool" where
  "pc_live e w \<longleftrightarrow> e < js_nextEntry w \<and> \<not> en_closed (js_entries w e)"

definition with_link :: "ref \<Rightarrow> (js_link \<Rightarrow> js_rtc \<Rightarrow> js_rtc option) \<Rightarrow> js_rtc \<Rightarrow> js_rtc option" where
  "with_link k f w = (case js_links w k of None \<Rightarrow> Some w | Some l \<Rightarrow> f l w)"

fun jr_apply :: "'j json_api \<Rightarrow> bool \<Rightarrow> jr_event \<Rightarrow> js_rtc \<Rightarrow> js_rtc option" where
  "jr_apply J late (JvOffer hint from sdp) w = Some (if js_alive w then js_on_offer hint from sdp w else w)"
| "jr_apply J late (JvAnswer from sdp) w = Some (if js_alive w then js_on_answer from sdp w else w)"
| "jr_apply J late (JvCandidate from cand mid) w = Some (if js_alive w then js_on_candidate from cand mid w else w)"
| "jr_apply J late (JvLeft ec) w = Some (if js_alive w then JsRtc_OnLeft ec w else w)"
| "jr_apply J late (JvRemoteSet e) w =
     Some (if pc_live e w \<and> 0 < en_promises (js_entries w e) then set_entry e remote_resolved w else w)"
| "jr_apply J late (JvLocalDescription e type sdp) w =
     (if pc_live e w then JsRtcPc_OnLocalDescription J (js_closure w e) type sdp w else Some w)"
| "jr_apply J late (JvLocalCandidate e cand) w =
     (if pc_live e w then pc_onicecandidate J (js_closure w e) cand w else Some w)"
| "jr_apply J late (JvDataChannel e) w = Some (if pc_live e w then set_entry e (\<lambda>en. en\<lparr>en_dc := True\<rparr>) w else w)"
| "jr_apply J late (JvOpen e h keep) w =
     (if pc_live e w \<and> en_dc (js_entries w e)
      then JsRtcPc_OnDataChannelOpen h keep (js_closure w e) (set_entry e (\<lambda>en. en\<lparr>en_dcOpen := True\<rparr>) w) else Some w)"
| "jr_apply J late (JvClose e) w =
     (if e < js_nextEntry w \<and> en_dc (js_entries w e) \<and> (late \<or> pc_live e w)
      then JsRtcPc_OnDataChannelClose (js_closure w e) (set_entry e (\<lambda>en. en\<lparr>en_dcOpen := False\<rparr>) w) else Some w)"
| "jr_apply J late (JvData e data) w =
     (if pc_live e w \<and> en_dcOpen (js_entries w e) then js_dc_onmessage (js_closure w e) data w else Some w)"
| "jr_apply J late (JvSend k data) w =
     with_link k (JsRtcLink_Send (\<lambda>buf. (min (length data) (length buf), take (length buf) data @ drop (length data) buf))) w"
| "jr_apply J late (JvDisconnect k) w = with_link k (\<lambda>l w. Some (JsRtcLink_Disconnect k l w)) w"
| "jr_apply J late (JvDrop k) w = with_link k (JsRtcLink_destroy k) w"
| "jr_apply J late JvTransportGone w = Some (w\<lparr>js_alive := False\<rparr>)"

fun jr_run :: "'j json_api \<Rightarrow> bool \<Rightarrow> jr_event list \<Rightarrow> js_rtc \<Rightarrow> js_rtc option" where
  "jr_run J late [] w = Some w"
| "jr_run J late (e # es) w = (case jr_apply J late e w of None \<Rightarrow> None | Some w1 \<Rightarrow> jr_run J late es w1)"

section \<open>Invariant\<close>

text \<open>
  \<open>map_ok\<close>: an entry of the map is the one made for the context at its address, and every peer connection that is not
  closed has such an entry. \<open>own_ok\<close>: an opened context belongs to exactly one link, which refers to it. \<open>count_ok\<close>: while
  the state is alive, the counter is the number of contexts made for offers and the peers refer to live contexts.
\<close>

definition inbound_ctx :: "js_rtc \<Rightarrow> ref set" where
  "inbound_ctx w = {a. \<exists>c. js_ctx w a = Some c \<and> jp_role c = AnswererRole}"

definition inbound_links :: "js_rtc \<Rightarrow> ref set" where
  "inbound_links w = {k. \<exists>l. js_links w k = Some l \<and> jl_role l = AnswererRole}"

definition map_ok :: "js_rtc \<Rightarrow> bool" where
  "map_ok w \<longleftrightarrow>
     (\<forall>a e. js_map w a = Some e \<longrightarrow> e < js_nextEntry w \<and> js_closure w e = a \<and> (\<exists>c. js_ctx w a = Some c \<and> jp_entry c = e)) \<and>
     (\<forall>e < js_nextEntry w. en_closed (js_entries w e) \<or> js_map w (js_closure w e) = Some e)"

definition own_ok :: "js_rtc \<Rightarrow> bool" where
  "own_ok w \<longleftrightarrow>
     (\<forall>a c. js_ctx w a = Some c \<longrightarrow> a < js_fresh w \<and> (jp_opened c \<longleftrightarrow> jp_link c \<noteq> None)) \<and>
     (\<forall>a c k. js_ctx w a = Some c \<longrightarrow> jp_link c = Some k \<longrightarrow>
        (\<exists>l. js_links w k = Some l \<and> jl_ctx l = a \<and> jl_role l = jp_role c \<and> jl_remoteId l = jp_remoteId c)) \<and>
     (\<forall>k l. js_links w k = Some l \<longrightarrow> k < js_nextLink w \<and> (\<exists>c. js_ctx w (jl_ctx l) = Some c \<and> jp_link c = Some k))"

definition count_ok :: "js_rtc \<Rightarrow> bool" where
  "count_ok w \<longleftrightarrow>
     js_alive w \<longrightarrow> js_inboundCount w = card (inbound_ctx w) \<and> js_inboundCount w \<le> js_maxInboundConnections w \<and>
       (\<forall>s a. js_peers w s = Some a \<longrightarrow> (\<exists>c. js_ctx w a = Some c \<and> jp_remoteId c = s))"

definition jr_inv :: "js_rtc \<Rightarrow> bool" where
  "jr_inv w \<longleftrightarrow> map_ok w \<and> own_ok w \<and> count_ok w"

definition jr_ok :: "js_rtc option \<Rightarrow> bool" where
  "jr_ok r \<longleftrightarrow> (case r of None \<Rightarrow> False | Some w \<Rightarrow> jr_inv w)"

lemma jr_ok_Some [simp]: "jr_ok (Some w) = jr_inv w"
  by (simp add: jr_ok_def)

lemma jr_inv_new: "jr_inv (new_js_rtc options)"
  by (simp add: jr_inv_def map_ok_def own_ok_def count_ok_def new_js_rtc_def inbound_ctx_def)

lemma finite_inbound: "own_ok w \<Longrightarrow> finite (inbound_ctx w)"
  by (rule finite_subset[of _ "{..<js_fresh w}"]) (auto simp: inbound_ctx_def own_ok_def)

lemma map_ok_cong:
  "js_map w' = js_map w \<Longrightarrow> js_ctx w' = js_ctx w \<Longrightarrow> js_closure w' = js_closure w \<Longrightarrow> js_nextEntry w' = js_nextEntry w \<Longrightarrow>
   (\<And>e. en_closed (js_entries w' e) = en_closed (js_entries w e)) \<Longrightarrow> map_ok w' = map_ok w"
  by (simp add: map_ok_def)

lemma own_ok_cong:
  "js_ctx w' = js_ctx w \<Longrightarrow> js_fresh w' = js_fresh w \<Longrightarrow> js_links w' = js_links w \<Longrightarrow> js_nextLink w' = js_nextLink w \<Longrightarrow>
   own_ok w' = own_ok w"
  by (simp add: own_ok_def)

lemma count_ok_cong:
  "js_ctx w' = js_ctx w \<Longrightarrow> js_alive w' = js_alive w \<Longrightarrow> js_inboundCount w' = js_inboundCount w \<Longrightarrow>
   js_maxInboundConnections w' = js_maxInboundConnections w \<Longrightarrow> js_peers w' = js_peers w \<Longrightarrow> count_ok w' = count_ok w"
  by (simp add: count_ok_def inbound_ctx_def)

lemmas jr_cong = map_ok_cong own_ok_cong count_ok_cong

lemma own_linkD:
  assumes "own_ok w" and "js_ctx w a = Some c" and "jp_link c = Some k"
  obtains l where "js_links w k = Some l" "jl_ctx l = a" "jl_role l = jp_role c" "jl_remoteId l = jp_remoteId c"
  using assms unfolding own_ok_def by blast

lemma set_entry_inv:
  assumes "jr_inv w" and "en_closed (f (js_entries w e)) = en_closed (js_entries w e)"
  shows "jr_inv (set_entry e f w)"
  using assms jr_cong[where w' = "set_entry e f w" and w = w] by (simp add: jr_inv_def set_entry_def)

lemma set_jlink_inv:
  assumes "jr_inv w" and "js_links w k = Some l" and "jl_ctx l' = jl_ctx l" "jl_role l' = jl_role l" "jl_remoteId l' = jl_remoteId l"
  shows "jr_inv (set_jlink k l' w)"
proof -
  have o: "own_ok w" using assms(1) by (simp add: jr_inv_def)
  have "own_ok (set_jlink k l' w)"
    unfolding own_ok_def
  proof (intro conjI allI impI)
    fix a c m assume "js_ctx (set_jlink k l' w) a = Some c" "jp_link c = Some m"
    then have "js_ctx w a = Some c" "jp_link c = Some m" by (simp_all add: set_jlink_def)
    then obtain l0 where "js_links w m = Some l0" "jl_ctx l0 = a" "jl_role l0 = jp_role c" "jl_remoteId l0 = jp_remoteId c"
      by (rule own_linkD[OF o])
    then show "\<exists>l. js_links (set_jlink k l' w) m = Some l \<and> jl_ctx l = a \<and> jl_role l = jp_role c \<and> jl_remoteId l = jp_remoteId c"
      using assms(2-5) by (auto simp: set_jlink_def)
  next
    fix m l0 assume "js_links (set_jlink k l' w) m = Some l0"
    then obtain l1 where "js_links w m = Some l1" "jl_ctx l1 = jl_ctx l0" using assms(2-5) by (auto simp: set_jlink_def split: if_splits)
    then have "m < js_nextLink w \<and> (\<exists>c. js_ctx w (jl_ctx l0) = Some c \<and> jp_link c = Some m)"
      using o unfolding own_ok_def by metis
    then show "m < js_nextLink (set_jlink k l' w)" "\<exists>c. js_ctx (set_jlink k l' w) (jl_ctx l0) = Some c \<and> jp_link c = Some m"
      by (simp_all add: set_jlink_def)
  qed (use o in \<open>auto simp: own_ok_def set_jlink_def\<close>)
  then show ?thesis
    using assms(1) jr_cong[where w' = "set_jlink k l' w" and w = w] by (simp add: jr_inv_def set_jlink_def)
qed

lemma Close_fields [simp]:
  "js_map (JsRtcPc_Close a w) = (js_map w)(a := None)" "js_ctx (JsRtcPc_Close a w) = js_ctx w"
  "js_links (JsRtcPc_Close a w) = js_links w" "js_alive (JsRtcPc_Close a w) = js_alive w"
  "js_fresh (JsRtcPc_Close a w) = js_fresh w" "js_nextLink (JsRtcPc_Close a w) = js_nextLink w"
  "js_inboundCount (JsRtcPc_Close a w) = js_inboundCount w" "js_peers (JsRtcPc_Close a w) = js_peers w"
  "js_maxInboundConnections (JsRtcPc_Close a w) = js_maxInboundConnections w"
  "js_nextEntry (JsRtcPc_Close a w) = js_nextEntry w" "js_closure (JsRtcPc_Close a w) = js_closure w"
  by (auto simp: JsRtcPc_Close_def set_entry_def split: option.splits)

lemma Close_inv:
  assumes "jr_inv w"
  shows "jr_inv (JsRtcPc_Close a w)"
proof -
  have m: "map_ok w" using assms by (simp add: jr_inv_def)
  have "en_closed (js_entries (JsRtcPc_Close a w) e) = (en_closed (js_entries w e) \<or> js_map w a = Some e)" for e
    by (auto simp: JsRtcPc_Close_def set_entry_def split: option.splits)
  then have "map_ok (JsRtcPc_Close a w)" using m unfolding map_ok_def by auto
  then show ?thesis using assms jr_cong[where w' = "JsRtcPc_Close a w" and w = w] by (simp add: jr_inv_def)
qed

lemma live_ctx:
  assumes "jr_inv w" and "pc_live e w"
  obtains c where "js_ctx w (js_closure w e) = Some c" "jp_entry c = e" "js_map w (js_closure w e) = Some e"
  using assms unfolding jr_inv_def map_ok_def pc_live_def by metis

lemma link_destroy_inv:
  assumes "jr_inv w" and "js_links w k = Some l"
  shows "jr_ok (JsRtcLink_destroy k l w)"
proof -
  obtain c where c: "js_ctx w (jl_ctx l) = Some c" "jp_link c = Some k"
    using assms unfolding jr_inv_def own_ok_def by blast
  have l: "jl_role l = jp_role c" "jl_remoteId l = jp_remoteId c"
    using assms c unfolding jr_inv_def own_ok_def by (metis option.inject)+
  define w0 where "w0 = JsRtcPc_Close (jl_ctx l) w"
  have w0: "jr_inv w0" "js_ctx w0 = js_ctx w" "js_links w0 = js_links w" "js_map w0 (jl_ctx l) = None"
    using Close_inv[OF assms(1)] by (simp_all add: w0_def)
  define w1 where "w1 = w0\<lparr>js_ctx := (js_ctx w0)(jl_ctx l := None), js_links := (js_links w0)(k := None)\<rparr>"
  define w2 where "w2 = js_onGone (jl_role l) (jl_remoteId l) w1"
  have d: "JsRtcLink_destroy k l w = Some w2"
    using c w0 by (simp add: JsRtcLink_destroy_def free_peer_def w2_def w1_def flip: w0_def)
  have f: "js_ctx w2 = (js_ctx w)(jl_ctx l := None)" "js_links w2 = (js_links w)(k := None)" "js_map w2 = js_map w0"
    "js_fresh w2 = js_fresh w0" "js_nextLink w2 = js_nextLink w0" "js_closure w2 = js_closure w0" "js_entries w2 = js_entries w0"
    "js_nextEntry w2 = js_nextEntry w0" "js_alive w2 = js_alive w0" "js_maxInboundConnections w2 = js_maxInboundConnections w0"
    using w0 by (auto simp: w2_def w1_def js_onGone_def Let_def split: js_role.splits)
  have "map_ok w2" using w0 unfolding jr_inv_def map_ok_def f by auto
  moreover have "own_ok w2"
    using w0(1) c assms(2) unfolding jr_inv_def own_ok_def f w0 by auto (metis option.inject)+
  moreover have "count_ok w2"
  proof (cases "js_alive w")
    case True
    have cw: "count_ok w" "own_ok w" using assms(1) by (simp_all add: jr_inv_def)
    have p: "js_peers w2 = (js_peers w)(jp_remoteId c := None)"
      using True by (auto simp: w2_def js_onGone_def w1_def w0_def l Let_def split: js_role.splits)
    have n: "js_inboundCount w2 = (if jp_role c = AnswererRole then js_inboundCount w - 1 else js_inboundCount w)"
      using True by (auto simp: w2_def js_onGone_def w1_def w0_def l Let_def split: js_role.splits)
    have i: "inbound_ctx w2 = inbound_ctx w - {jl_ctx l}" by (auto simp: inbound_ctx_def f)
    have m: "jl_ctx l \<in> inbound_ctx w \<longleftrightarrow> jp_role c = AnswererRole" using c by (simp add: inbound_ctx_def)
    have "card (inbound_ctx w2) = js_inboundCount w2"
      using True cw(1) m finite_inbound[OF cw(2)] unfolding n i by (auto simp: count_ok_def card_Diff_singleton_if)
    moreover have "s = jp_remoteId c" if "js_peers w s = Some (jl_ctx l)" for s
      using that True cw(1) c(1) unfolding count_ok_def by (metis option.inject)
    then have "\<exists>d. js_ctx w2 b = Some d \<and> jp_remoteId d = s" if "js_peers w2 s = Some b" for s b
      using that True cw(1) c(1) unfolding count_ok_def p f by (auto split: if_splits)
    moreover have "js_inboundCount w2 \<le> js_maxInboundConnections w2"
      using True cw(1) n f(10) by (auto simp: count_ok_def w0_def)
    ultimately show ?thesis unfolding count_ok_def by simp
  qed (use f w0 in \<open>simp add: count_ok_def w0_def\<close>)
  ultimately show ?thesis by (simp add: d jr_inv_def)
qed

lemma alloc_free:
  assumes "jr_inv w"
  shows "js_ctx w (alloc_peer hint w) = None" "js_map w (alloc_peer hint w) = None"
proof -
  have "js_ctx w (js_fresh w) = None" using assms unfolding jr_inv_def own_ok_def by (metis less_irrefl option.exhaust)
  then show 1: "js_ctx w (alloc_peer hint w) = None" by (simp add: alloc_peer_def)
  show "js_map w (alloc_peer hint w) = None"
    using assms 1 unfolding jr_inv_def map_ok_def by (metis option.distinct(1) option.exhaust)
qed

lemma add_ctx_inv:
  assumes "jr_inv w" and "js_ctx w a = None" and "js_map w a = None"
    and "en_closed en = False"
    and "role = AnswererRole \<longrightarrow> js_inboundCount w < js_maxInboundConnections w"
    and "w' = add_entry a en ((new_peer a role r w)\<lparr>js_peers := (js_peers w)(r \<mapsto> a),
        js_inboundCount := (if role = AnswererRole then Suc (js_inboundCount w) else js_inboundCount w)\<rparr>)"
  shows "jr_inv w'"
proof -
  have w: "map_ok w" "own_ok w" "count_ok w" using assms(1) by (simp_all add: jr_inv_def)
  let ?c = "\<lparr>jp_localId = js_localId w, jp_remoteId = r, jp_opened = False, jp_link = None, jp_role = role, jp_entry = js_nextEntry w\<rparr>"
  have f: "js_ctx w' = (js_ctx w)(a \<mapsto> ?c)" "js_map w' = (js_map w)(a \<mapsto> js_nextEntry w)" "js_nextEntry w' = Suc (js_nextEntry w)"
    "js_closure w' = (js_closure w)(js_nextEntry w := a)" "js_entries w' = (js_entries w)(js_nextEntry w := en)"
    "js_fresh w' = max (js_fresh w) (Suc a)" "js_links w' = js_links w" "js_nextLink w' = js_nextLink w"
    "js_alive w' = js_alive w" "js_maxInboundConnections w' = js_maxInboundConnections w" "js_peers w' = (js_peers w)(r \<mapsto> a)"
    "js_inboundCount w' = (if role = AnswererRole then Suc (js_inboundCount w) else js_inboundCount w)"
    by (simp_all add: assms(6) add_entry_def new_peer_def)
  have "map_ok w'"
    unfolding map_ok_def
  proof (intro conjI allI impI)
    fix b e assume "js_map w' b = Some e"
    then have "b = a \<and> e = js_nextEntry w \<or> b \<noteq> a \<and> js_map w b = Some e" by (auto simp: f split: if_splits)
    then show "e < js_nextEntry w'" "js_closure w' e = b" "\<exists>c. js_ctx w' b = Some c \<and> jp_entry c = e"
      using w(1) unfolding map_ok_def f by fastforce+
  next
    fix e assume "e < js_nextEntry w'"
    then consider "e = js_nextEntry w" | "e < js_nextEntry w" "e \<noteq> js_nextEntry w" by (auto simp: f less_Suc_eq)
    then show "en_closed (js_entries w' e) \<or> js_map w' (js_closure w' e) = Some e"
    proof cases
      case 2
      then have "en_closed (js_entries w e) \<or> js_map w (js_closure w e) = Some e" using w(1) by (simp add: map_ok_def)
      then show ?thesis using 2 assms(3) by (auto simp: f)
    qed (simp add: f)
  qed
  moreover have "jl_ctx l \<noteq> a" if "js_links w k = Some l" for k l
    using w(2) assms(2) that unfolding own_ok_def by fastforce
  then have "own_ok w'"
    using w(2) unfolding own_ok_def f by (auto simp: less_max_iff_disj)
  moreover have "count_ok w'"
  proof -
    have "inbound_ctx w' = (if role = AnswererRole then insert a (inbound_ctx w) else inbound_ctx w)"
      using assms(2) by (auto simp: inbound_ctx_def f)
    moreover have "a \<notin> inbound_ctx w" using assms(2) by (simp add: inbound_ctx_def)
    ultimately have "js_alive w \<Longrightarrow> card (inbound_ctx w') = js_inboundCount w'"
      using w(3) finite_inbound[OF w(2)] unfolding count_ok_def f by auto
    moreover have "js_alive w \<Longrightarrow> js_peers w s \<noteq> Some a" for s
      using w(3) assms(2) unfolding count_ok_def by fastforce
    ultimately show ?thesis using w(3) assms(5) unfolding count_ok_def f by auto
  qed
  ultimately show ?thesis by (simp add: jr_inv_def)
qed


lemma offer_inv:
  assumes "jr_inv w"
  shows "jr_inv (js_on_offer hint from sdp w)"
proof (cases "js_maxInboundConnections w = 0 \<or> js_maxInboundConnections w \<le> js_inboundCount w")
  case False
  show ?thesis
    using False by (simp add: js_on_offer_def Js_HandleOffer_def JsRtcPc_SetupAnswerer_def Let_def)
      (rule add_ctx_inv[OF assms alloc_free[OF assms, of hint], where role = AnswererRole and r = "from"], auto simp: new_entry_def new_peer_def)
qed (use assms in \<open>simp add: js_on_offer_def\<close>)

lemma OpenOfferer_inv:
  assumes "jr_inv w"
  shows "jr_inv (Js_OpenOfferer hint w)"
  by (simp add: Js_OpenOfferer_def JsRtcPc_SetupOfferer_def Let_def)
     (rule add_ctx_inv[OF assms alloc_free[OF assms, of hint], where role = OffererRole and r = "js_remoteId w"], auto simp: new_entry_def new_peer_def)

text \<open>A context that has no link may be freed once the state is gone and its entry is closed.\<close>

lemma abandon_inv:
  assumes "jr_inv w" and "js_ctx w a = Some c" and "jp_link c = None" and "js_map w a = None" and "\<not> js_alive w"
  shows "jr_inv (w\<lparr>js_ctx := (js_ctx w)(a := None)\<rparr>)"
proof -
  have "map_ok (w\<lparr>js_ctx := (js_ctx w)(a := None)\<rparr>)"
    using assms(1,4) unfolding jr_inv_def map_ok_def by simp
  moreover have "own_ok (w\<lparr>js_ctx := (js_ctx w)(a := None)\<rparr>)"
    using assms(1-3) unfolding jr_inv_def own_ok_def by simp (metis option.distinct(1) option.inject)
  ultimately show ?thesis using assms(5) by (simp add: jr_inv_def count_ok_def)
qed

lemma link_ctx_inv:
  assumes "jr_inv w" and "js_ctx w a = Some c" and "jp_link c = None" and "js_links w k = None" and "k = js_nextLink w"
    and "jl_ctx l = a" "jl_role l = jp_role c" "jl_remoteId l = jp_remoteId c"
    and "w' = w\<lparr>js_nextLink := Suc k, js_ctx := (js_ctx w)(a \<mapsto> c\<lparr>jp_opened := True, jp_link := Some k\<rparr>),
        js_calls := cs, js_links := (js_links w)(k \<mapsto> l)\<rparr>"
  shows "jr_inv w'"
proof -
  have w: "map_ok w" "own_ok w" "count_ok w" using assms(1) by (simp_all add: jr_inv_def)
  have f: "js_ctx w' = (js_ctx w)(a \<mapsto> c\<lparr>jp_opened := True, jp_link := Some k\<rparr>)" "js_links w' = (js_links w)(k \<mapsto> l)"
    "js_nextLink w' = Suc k" "js_map w' = js_map w" "js_closure w' = js_closure w" "js_entries w' = js_entries w"
    "js_nextEntry w' = js_nextEntry w" "js_fresh w' = js_fresh w" "js_alive w' = js_alive w" "js_peers w' = js_peers w"
    "js_inboundCount w' = js_inboundCount w" "js_maxInboundConnections w' = js_maxInboundConnections w"
    by (simp_all add: assms(9))
  have "map_ok w'"
    unfolding map_ok_def
  proof (intro conjI allI impI)
    fix b e assume "js_map w' b = Some e"
    then have "e < js_nextEntry w" "js_closure w e = b" "\<exists>d. js_ctx w b = Some d \<and> jp_entry d = e"
      using w(1) unfolding map_ok_def f by blast+
    then show "e < js_nextEntry w'" "js_closure w' e = b" "\<exists>c. js_ctx w' b = Some c \<and> jp_entry c = e"
      using assms(2) by (auto simp: f)
  qed (use w(1) in \<open>auto simp: map_ok_def f\<close>)
  moreover have "own_ok w'"
    unfolding own_ok_def
  proof (intro conjI allI impI)
    fix b d m assume d: "js_ctx w' b = Some d" "jp_link d = Some m"
    show "\<exists>l. js_links w' m = Some l \<and> jl_ctx l = b \<and> jl_role l = jp_role d \<and> jl_remoteId l = jp_remoteId d"
    proof (cases "b = a")
      case True
      then show ?thesis using d assms(6-8) by (auto simp: f)
    next
      case False
      then have "js_ctx w b = Some d" using d by (simp add: f)
      then obtain l' where "js_links w m = Some l'" "jl_ctx l' = b" "jl_role l' = jp_role d" "jl_remoteId l' = jp_remoteId d"
        using own_linkD[OF w(2)] d(2) by blast
      then show ?thesis using assms(4) by (auto simp: f)
    qed
  next
    fix m l' assume l': "js_links w' m = Some l'"
    show "m < js_nextLink w'" "\<exists>c. js_ctx w' (jl_ctx l') = Some c \<and> jp_link c = Some m"
    proof (atomize (full), cases "m = k")
      case False
      then have "m < js_nextLink w \<and> (\<exists>d. js_ctx w (jl_ctx l') = Some d \<and> jp_link d = Some m)"
        using l' w(2) unfolding own_ok_def f by auto
      then show "m < js_nextLink w' \<and> (\<exists>c. js_ctx w' (jl_ctx l') = Some c \<and> jp_link c = Some m)"
        using assms(2,3,5) by (auto simp: f)
    qed (use l' assms(6) in \<open>auto simp: f\<close>)
  qed (use w(2) assms(2) in \<open>auto simp: own_ok_def f split: if_splits\<close>)
  moreover have "inbound_ctx w' = inbound_ctx w" using assms(2) by (auto simp: inbound_ctx_def f)
  then have "count_ok w'" using w(3) assms(2) unfolding count_ok_def f by auto (metis option.inject)+
  ultimately show ?thesis by (simp add: jr_inv_def)
qed


lemma open_inv:
  assumes "jr_inv w" and "js_ctx w a = Some c" and "\<not> jp_opened c"
  shows "jr_ok (onDcOpen h keep a (c\<lparr>jp_opened := True\<rparr>) (w\<lparr>js_ctx := (js_ctx w)(a \<mapsto> c\<lparr>jp_opened := True\<rparr>)\<rparr>))"
proof -
  have n: "jp_link c = None" "js_links w (js_nextLink w) = None"
    using assms unfolding jr_inv_def own_ok_def by (auto, metis less_irrefl option.exhaust)
  show ?thesis
  proof (cases "js_alive w")
    case False
    have "jr_inv ((JsRtcPc_Close a w)\<lparr>js_ctx := (js_ctx w)(a := None)\<rparr>)"
      using abandon_inv[OF Close_inv[OF assms(1), of a], of a c] assms(2) n False by simp
    moreover have "(JsRtcPc_Close a (w\<lparr>js_ctx := (js_ctx w)(a \<mapsto> c\<lparr>jp_opened := True\<rparr>)\<rparr>))\<lparr>js_ctx := (js_ctx w)(a := None)\<rparr> =
        (JsRtcPc_Close a w)\<lparr>js_ctx := (js_ctx w)(a := None)\<rparr>"
      by (simp add: JsRtcPc_Close_def set_entry_def split: option.splits)
    ultimately show ?thesis using False by (simp add: onDcOpen_def free_peer_def)
  next
    case True
    define k where "k = js_nextLink w"
    define l where "l = \<lparr>jl_localId = jp_localId c, jl_remoteId = jp_remoteId c, jl_ctx = a, jl_maxMessageSize = js_maxMessageSize w,
                 jl_role = jp_role c, jl_handler = h, jl_closedFired = False, jl_disconnectRequested = False, jl_calls = []\<rparr>"
    define w' where "w' = w\<lparr>js_nextLink := Suc k, js_ctx := (js_ctx w)(a \<mapsto> c\<lparr>jp_opened := True, jp_link := Some k\<rparr>),
        js_calls := js_calls w @ [RcLink k], js_links := (js_links w)(k \<mapsto> l)\<rparr>"
    have i: "jr_inv w'"
      by (rule link_ctx_inv[OF assms(1,2) n(1) _ _ _ _ _ w'_def]) (simp_all add: k_def n l_def)
    have "onDcOpen h keep a (c\<lparr>jp_opened := True\<rparr>) (w\<lparr>js_ctx := (js_ctx w)(a \<mapsto> c\<lparr>jp_opened := True\<rparr>)\<rparr>) =
        (if keep then Some w' else JsRtcLink_destroy k l w')"
      using True by (simp add: onDcOpen_def set_jlink_def js_acceptor_call_def w'_def l_def k_def Let_def)
    moreover have "js_links w' k = Some l" by (simp add: w'_def)
    ultimately show ?thesis using i link_destroy_inv by simp
  qed
qed

lemma on_ctx_link_inv:
  assumes "jr_inv w" and "js_ctx w a = Some c"
    and "\<And>l. jl_ctx (f l) = jl_ctx l \<and> jl_role (f l) = jl_role l \<and> jl_remoteId (f l) = jl_remoteId l"
  shows "jr_ok (on_ctx_link f a w)"
proof (cases "jp_link c")
  case (Some k)
  obtain l where "js_links w k = Some l" using own_linkD[of w a c k] assms Some by (auto simp: jr_inv_def)
  then show ?thesis using assms Some set_jlink_inv[OF assms(1)] by (simp add: on_ctx_link_def)
qed (use assms in \<open>simp add: on_ctx_link_def\<close>)

lemma jr_other_inv:
  assumes "jr_inv w"
  shows "jr_inv (w\<lparr>js_sent := x\<rparr>)" "jr_inv (w\<lparr>js_calls := y\<rparr>)" "jr_inv (w\<lparr>js_sigUser := b\<rparr>)" "jr_inv (w\<lparr>js_alive := False\<rparr>)"
proof -
  show "jr_inv (w\<lparr>js_sent := x\<rparr>)" using assms jr_cong[where w' = "w\<lparr>js_sent := x\<rparr>" and w = w] by (simp add: jr_inv_def)
  show "jr_inv (w\<lparr>js_calls := y\<rparr>)" using assms jr_cong[where w' = "w\<lparr>js_calls := y\<rparr>" and w = w] by (simp add: jr_inv_def)
  show "jr_inv (w\<lparr>js_sigUser := b\<rparr>)" using assms jr_cong[where w' = "w\<lparr>js_sigUser := b\<rparr>" and w = w] by (simp add: jr_inv_def)
  show "jr_inv (w\<lparr>js_alive := False\<rparr>)"
    using assms jr_cong(1,2)[where w' = "w\<lparr>js_alive := False\<rparr>" and w = w] by (simp add: jr_inv_def count_ok_def)
qed

lemma signal_inv: "jr_inv w \<Longrightarrow> js_ctx w a = Some c \<Longrightarrow> jr_ok (js_signal a payload w)"
  by (simp add: js_signal_def jr_other_inv)

lemma live_signal_inv: "jr_inv w \<Longrightarrow> pc_live e w \<Longrightarrow> jr_ok (js_signal (js_closure w e) payload w)"
  by (metis live_ctx signal_inv)

lemma send_inv: "jr_inv w \<Longrightarrow> jr_inv (JsRtcPc_Send a data w)"
  by (cases "js_map w a") (simp_all add: JsRtcPc_Send_def set_entry_inv)

lemma remote_inv: "jr_inv w \<Longrightarrow> jr_inv (JsRtcPc_SetRemoteAnswer a sdp w)"
  by (cases "js_map w a") (simp_all add: JsRtcPc_SetRemoteAnswer_def set_entry_inv)

lemma candidate_inv: "jr_inv w \<Longrightarrow> jr_inv (JsRtcPc_AddIceCandidate a cand mid w)"
  by (cases "js_map w a") (simp_all add: JsRtcPc_AddIceCandidate_def set_entry_inv)

lemma jr_apply_inv:
  assumes "jr_inv w"
  shows "jr_ok (jr_apply J False ev w)"
proof (cases ev)
  case (JvOffer hint s sdp)
  then show ?thesis using assms offer_inv by simp
next
  case (JvAnswer s sdp)
  then show ?thesis using assms remote_inv by (simp add: js_on_answer_def split: option.splits)
next
  case (JvCandidate s c m)
  then show ?thesis using assms candidate_inv by (simp add: js_on_candidate_def split: option.splits)
next
  case (JvLeft ec)
  then show ?thesis using assms by (simp add: JsRtc_OnLeft_def js_acceptor_call_def jr_other_inv)
next
  case (JvRemoteSet e)
  then show ?thesis using assms set_entry_inv[of w remote_resolved e] by (simp add: remote_resolved_def Let_def)
next
  case (JvLocalDescription e ty sdp)
  then show ?thesis
    using assms by (simp add: JsRtcPc_OnLocalDescription_def live_signal_inv)
next
  case (JvLocalCandidate e cand)
  then show ?thesis
    using assms
    by (auto simp: pc_onicecandidate_def JsRtcPc_OnLocalCandidate_def live_signal_inv split: option.splits)
next
  case (JvDataChannel e)
  then show ?thesis using assms set_entry_inv[of w _ e] by simp
next
  case (JvOpen e h keep)
  let ?w = "set_entry e (\<lambda>en. en\<lparr>en_dcOpen := True\<rparr>) w"
  show ?thesis
  proof (cases "pc_live e w")
    case True
    then obtain c where c: "js_ctx w (js_closure w e) = Some c" using live_ctx[OF assms True] by blast
    have i: "jr_inv ?w" using assms set_entry_inv[of w _ e] by simp
    have "js_ctx ?w (js_closure w e) = Some c" using c by (simp add: set_entry_def)
    then show ?thesis
      using JvOpen assms True i open_inv[OF i] by (auto simp: JsRtcPc_OnDataChannelOpen_def Let_def)
  qed (use JvOpen assms in simp)
next
  case (JvClose e)
  let ?w = "set_entry e (\<lambda>en. en\<lparr>en_dcOpen := False\<rparr>) w"
  show ?thesis
  proof (cases "pc_live e w")
    case True
    then obtain c where c: "js_ctx w (js_closure w e) = Some c" using live_ctx[OF assms True] by blast
    have i: "jr_inv ?w" using assms set_entry_inv[of w _ e] by simp
    have "js_ctx ?w (js_closure w e) = Some c" using c by (simp add: set_entry_def)
    from on_ctx_link_inv[OF i this, of JsRtcLink_OnClose] show ?thesis
      using JvClose assms True by (simp add: JsRtcPc_OnDataChannelClose_def JsRtcLink_OnClose_def Let_def)
  qed (use JvClose assms in simp)
next
  case (JvData e data)
  show ?thesis
  proof (cases "pc_live e w")
    case True
    then obtain c where c: "js_ctx w (js_closure w e) = Some c" using live_ctx[OF assms True] by blast
    from on_ctx_link_inv[OF assms this, of "JsRtcLink_OnMessage d" for d] show ?thesis
      using JvData assms True
      by (simp add: js_dc_onmessage_def JsRtcPc_OnMessage_def JsRtcLink_OnMessage_def split: option.splits)
  qed (use JvData assms in simp)
next
  case (JvSend k data)
  then show ?thesis
    using assms send_inv by (auto simp: with_link_def JsRtcLink_Send_def Let_def split: option.splits)
next
  case (JvDisconnect k)
  then show ?thesis
    using assms by (auto simp: with_link_def JsRtcLink_Disconnect_def intro!: Close_inv set_jlink_inv split: option.splits)
next
  case (JvDrop k)
  then show ?thesis using assms link_destroy_inv by (auto simp: with_link_def split: option.splits)
next
  case JvTransportGone
  then show ?thesis using assms jr_other_inv by simp
qed


lemma jr_run_inv:
  assumes "jr_inv w"
  shows "jr_ok (jr_run J False es w)"
  using assms
proof (induction es arbitrary: w)
  case (Cons e es)
  obtain w1 where "jr_apply J False e w = Some w1" "jr_inv w1"
    using jr_apply_inv[OF Cons.prems, of J e] by (auto simp: jr_ok_def split: option.splits)
  then show ?case using Cons.IH by simp
qed simp

lemma Open_inv: "jr_inv (snd (JsRtcTransport_Open options result))"
  by (cases result)
     (simp_all add: JsRtcTransport_Open_def js_onJoined_def js_acceptor_call_def jr_other_inv jr_inv_new OpenOfferer_inv Let_def)

lemma destroy_max:
  "JsRtcLink_destroy k l w = Some w' \<Longrightarrow> js_maxInboundConnections w' = js_maxInboundConnections w"
  by (auto simp: JsRtcLink_destroy_def free_peer_def js_onGone_def Let_def split: option.splits if_splits js_role.splits)

lemma onDcOpen_max:
  "onDcOpen h keep a c w = Some w' \<Longrightarrow> js_maxInboundConnections w' = js_maxInboundConnections w"
  by (auto simp: onDcOpen_def free_peer_def set_jlink_def js_acceptor_call_def Let_def split: if_splits dest!: destroy_max)

lemma set_max [simp]:
  "js_maxInboundConnections (set_entry e f w) = js_maxInboundConnections w"
  "js_maxInboundConnections (set_jlink k l w) = js_maxInboundConnections w"
  "js_maxInboundConnections (add_entry a en w) = js_maxInboundConnections w"
  "js_maxInboundConnections (new_peer a role r w) = js_maxInboundConnections w"
  by (simp_all add: set_entry_def set_jlink_def add_entry_def new_peer_def)

lemma jr_apply_max:
  assumes "jr_apply J late ev w = Some w'"
  shows "js_maxInboundConnections w' = js_maxInboundConnections w"
proof (cases ev)
  case (JvOpen e h keep)
  then show ?thesis
    using assms by (auto simp: JsRtcPc_OnDataChannelOpen_def Let_def dest!: onDcOpen_max split: if_splits option.splits)
next
  case (JvDrop k)
  then show ?thesis using assms by (auto simp: with_link_def dest: destroy_max split: option.splits)
next
  case (JvOffer hint s sdp)
  then show ?thesis
    using assms by (auto simp: js_on_offer_def Js_HandleOffer_def JsRtcPc_SetupAnswerer_def Let_def split: if_splits)
next
  case (JvSend k data)
  then show ?thesis
    using assms by (auto simp: with_link_def JsRtcLink_Send_def JsRtcPc_Send_def Let_def split: option.splits if_splits)
qed (use assms in \<open>auto simp: js_on_answer_def JsRtcPc_SetRemoteAnswer_def js_on_candidate_def JsRtcPc_AddIceCandidate_def
       JsRtc_OnLeft_def js_acceptor_call_def JsRtcPc_OnLocalDescription_def pc_onicecandidate_def JsRtcPc_OnLocalCandidate_def
       js_signal_def JsRtcPc_OnDataChannelClose_def js_dc_onmessage_def JsRtcPc_OnMessage_def on_ctx_link_def with_link_def
       JsRtcLink_Disconnect_def split: if_splits option.splits\<close>)

lemma jr_run_max:
  "jr_run J late es w = Some w' \<Longrightarrow> js_maxInboundConnections w' = js_maxInboundConnections w"
  by (induction es arbitrary: w) (auto split: option.splits dest: jr_apply_max)

lemma Open_max: "js_maxInboundConnections (snd (JsRtcTransport_Open options result)) = ro_maxInboundConnections options"
  by (cases result)
     (simp_all add: JsRtcTransport_Open_def js_onJoined_def js_acceptor_call_def Js_OpenOfferer_def JsRtcPc_SetupOfferer_def
       new_js_rtc_def Let_def)

lemma inbound_links_le:
  assumes "jr_inv w"
  shows "finite (inbound_links w) \<and> card (inbound_links w) \<le> card (inbound_ctx w)"
proof -
  have o: "own_ok w" using assms by (simp add: jr_inv_def)
  let ?f = "\<lambda>k. jl_ctx (the (js_links w k))"
  have i: "inj_on ?f (inbound_links w)"
  proof (rule inj_onI)
    fix k m assume "k \<in> inbound_links w" "m \<in> inbound_links w" and e: "?f k = ?f m"
    then obtain l l' where "js_links w k = Some l" "js_links w m = Some l'" by (auto simp: inbound_links_def)
    moreover have "\<exists>c. js_ctx w (jl_ctx l) = Some c \<and> jp_link c = Some k" "\<exists>c. js_ctx w (jl_ctx l') = Some c \<and> jp_link c = Some m"
      using o calculation unfolding own_ok_def by blast+
    ultimately show "k = m" using e by auto
  qed
  have s: "?f ` inbound_links w \<subseteq> inbound_ctx w"
  proof
    fix a assume "a \<in> ?f ` inbound_links w"
    then obtain k l where l: "js_links w k = Some l" "jl_role l = AnswererRole" "a = jl_ctx l" by (auto simp: inbound_links_def)
    then obtain c where c: "js_ctx w a = Some c" "jp_link c = Some k" using o unfolding own_ok_def by blast
    obtain l' where "js_links w k = Some l'" "jl_role l' = jp_role c" using own_linkD[OF o c] by blast
    then show "a \<in> inbound_ctx w" using c l by (simp add: inbound_ctx_def)
  qed
  show ?thesis
    using i s finite_inbound[OF o] by (metis card_inj_on_le finite_imageD finite_subset)
qed

section \<open>Properties\<close>


text \<open>
  C32. The WebRTC transport of the browser build keeps its limit of inbound connections: whatever offers, answers,
  candidates, channels, messages and uses of links there are, in any order, as long as the browser is silent on a peer
  connection that was closed (\<open>late\<close> is \<open>False\<close>) no freed context or link is touched, the counter is the number
  of peer contexts made for offers, and there are never more inbound links than the limit allows. (The native
  transport does not keep it.)
\<close>

theorem js_inbound_limit_is_kept:
  "\<exists>w. jr_run J False es (snd (JsRtcTransport_Open options result)) = Some w \<and>
     (js_alive w \<longrightarrow> js_inboundCount w = card (inbound_ctx w) \<and> card (inbound_links w) \<le> js_inboundCount w \<and>
        js_inboundCount w \<le> ro_maxInboundConnections options)"
proof -
  obtain w where w: "jr_run J False es (snd (JsRtcTransport_Open options result)) = Some w" "jr_inv w"
    using jr_run_inv[OF Open_inv, of J es options result] by (auto simp: jr_ok_def split: option.splits)
  then show ?thesis
    using inbound_links_le[OF w(2)] jr_run_max[OF w(1)] Open_max[of options result]
    by (auto simp: jr_inv_def count_ok_def)
qed

definition kept :: link_handler where
  "kept = \<lparr>lh_onReceived = True, lh_onDisconnected = True\<rparr>"

lemmas js_rtc_ops = JsRtcTransport_Open_def js_onJoined_def new_js_rtc_def js_isOfferer_def js_on_offer_def Js_HandleOffer_def
  JsRtcPc_SetupAnswerer_def add_entry_def new_entry_def new_peer_def alloc_peer_def set_entry_def pc_live_def with_link_def
  JsRtcPc_OnDataChannelOpen_def onDcOpen_def set_jlink_def js_acceptor_call_def JsRtcLink_destroy_def free_peer_def
  JsRtcPc_Close_def js_onGone_def JsRtcPc_OnDataChannelClose_def on_ctx_link_def JsRtcLink_Disconnect_def JsRtcLink_OnClose_def
  default_options_def kept_def Let_def

theorem js_inbound_limit_is_kept_witness:
  "let options = (default_options ''s'')\<lparr>ro_maxInboundConnections := 1\<rparr>;
       es = [JvOffer 0 ''a'' ''x'', JvDataChannel 0, JvOpen 0 kept True, JvOffer 0 ''b'' ''y'', JvDrop 0, JvOffer 0 ''c'' ''z'',
             JvDataChannel 1, JvOpen 1 kept True]
   in \<exists>w. jr_run pair_json False es (snd (JsRtcTransport_Open options (Inr ()))) = Some w \<and>
        js_calls w = [RcLink 0, RcLink 1] \<and> js_closure w 0 = js_closure w 1 \<and> card (inbound_links w) \<le> 1"
proof -
  let ?o = "(default_options ''s'')\<lparr>ro_maxInboundConnections := 1\<rparr>"
  let ?es = "[JvOffer 0 ''a'' ''x'', JvDataChannel 0, JvOpen 0 kept True, JvOffer 0 ''b'' ''y'', JvDrop 0, JvOffer 0 ''c'' ''z'',
             JvDataChannel 1, JvOpen 1 kept True]"
  obtain w where w: "jr_run pair_json False ?es (snd (JsRtcTransport_Open ?o (Inr ()))) = Some w"
    "js_alive w \<longrightarrow> js_inboundCount w = card (inbound_ctx w) \<and> card (inbound_links w) \<le> js_inboundCount w \<and>
        js_inboundCount w \<le> ro_maxInboundConnections ?o"
    using js_inbound_limit_is_kept[of pair_json ?es ?o "Inr ()"] by blast
  have "js_alive w" "js_calls w = [RcLink 0, RcLink 1]" "js_closure w 0 = js_closure w 1"
    using w(1) by (auto simp: js_rtc_ops)
  moreover from this have "card (inbound_links w) \<le> 1" using w(2) by simp
  ultimately show ?thesis using w(1) unfolding Let_def by blast
qed

text \<open>
  The comment on \<open>JsRtcPc_Close\<close> promises that no callback follows it, and \<open>Disconnect\<close> relies on the close event of the
  channel following it. If the browser fires that event, destroying an open link is followed by an access to the freed
  context; if the address was used again it even closes a newer link. If it does not, \<open>onDisconnected\<close> is
  never called after \<open>Disconnect\<close>.
\<close>

lemma js_close_event_after_destruction:
  "jr_run J True [JvOffer 0 ''a'' ''x'', JvDataChannel 0, JvOpen 0 kept True, JvDrop 0, JvClose 0]
     (snd (JsRtcTransport_Open (default_options ''s'') (Inr ()))) = None"
  by (simp add: js_rtc_ops)

lemma js_close_event_hits_newer_link:
  "map_option (\<lambda>w. map_option jl_calls (js_links w 1)) (jr_run J True
     [JvOffer 0 ''a'' ''x'', JvDataChannel 0, JvOpen 0 kept True, JvDrop 0, JvOffer 0 ''b'' ''y'', JvDataChannel 1,
      JvOpen 1 kept True, JvClose 0] (snd (JsRtcTransport_Open (default_options ''s'') (Inr ()))))
   = Some (Some [LinkDisconnected])"
  by (simp add: js_rtc_ops)

lemma js_disconnect_is_not_reported:
  "map_option (\<lambda>w. map_option jl_calls (js_links w 0)) (jr_run J False
     [JvOffer 0 ''a'' ''x'', JvDataChannel 0, JvOpen 0 kept True, JvDisconnect 0, JvClose 0]
     (snd (JsRtcTransport_Open (default_options ''s'') (Inr ())))) = Some (Some [])"
  by (simp add: js_rtc_ops)

end
