(* ===== verification/Ws_Network.thy ===== *)
theory Ws_Network
  imports Ws_Signaling Rtc_Transport
begin

text \<open>
  Clients and the server of the WebSocket signalling put together. Connection \<open>s\<close> of the network is client \<open>s\<close> and
  the server's socket \<open>s\<close>; what one side writes is handed to the other side's message callback, in order. Joins,
  sends and leaves are carried out one after the other, each with all callbacks it causes.

  The specification is a set of mailboxes: who is registered under which id, and what has arrived where.
\<close>

section \<open>The JSON library's contract\<close>

definition json_roundtrip :: "'j json_api \<Rightarrow> bool" where
  "json_roundtrip J \<longleftrightarrow>
     (\<forall>kvs. j_parse J (j_dump J (j_object J kvs)) = Some (j_object J kvs)) \<and>
     (\<forall>kvs k v. map_of kvs k = Some v \<longrightarrow> j_value J (j_object J kvs) k [] = Some v \<and>
        (\<exists>j. j_find J (j_object J kvs) k = Some j \<and> j_get J j = Some v))"

lemma read_envelope_envelope:
  assumes "json_roundtrip J"
  shows "read_envelope J (envelope J peer payload) = Some (Some (peer, payload))"
proof -
  let ?kvs = "[(''id'', peer), (''payload'', payload)]"
  have get: "\<exists>j. j_find J (j_object J ?kvs) k = Some j \<and> j_get J j = Some v" if "map_of ?kvs k = Some v" for k v
    using assms that unfolding json_roundtrip_def by blast
  obtain x where x: "j_find J (j_object J ?kvs) ''id'' = Some x" "j_get J x = Some peer"
    using get[of "''id''" peer] by auto
  obtain y where y: "j_find J (j_object J ?kvs) ''payload'' = Some y" "j_get J y = Some payload"
    using get[of "''payload''" payload] by auto
  have "j_parse J (j_dump J (j_object J ?kvs)) = Some (j_object J ?kvs)"
    using assms by (simp only: json_roundtrip_def)
  then show ?thesis by (simp add: read_envelope_def envelope_def x y)
qed

section \<open>The network\<close>

record ws_net =
  nt_clients :: "ref \<Rightarrow> ws_client"
  nt_server :: ws_server

datatype net_event = NetJoin ref string ref | NetSend ref string string | NetLeave ref

fun sent :: "ws_call list \<Rightarrow> string list" where
  "sent [] = []"
| "sent (WsSend t # cs) = t # sent cs"
| "sent (_ # cs) = sent cs"

definition server_text :: "'j json_api \<Rightarrow> ref \<Rightarrow> string \<Rightarrow> ws_server \<Rightarrow> ws_server" where
  "server_text J s t sv =
     (if so_listening (sv_sockets sv s) then value_or (WsServer_onMessage J s (Some t) sv) sv else sv)"

definition client_text :: "'j json_api \<Rightarrow> string \<Rightarrow> ws_client \<Rightarrow> ws_client" where
  "client_text J t c = value_or (WsOnMessage J (Some t) c) c"

definition new_net :: "ws_net" where
  "new_net =
     \<lparr>nt_clients = (\<lambda>_. WsJoin default_ws_options [] (\<lambda>_. True)),
      nt_server = WsServer_Start 8000 (new_DcWsSigServer (new_hub (\<lambda>_. True)))\<rparr>"

text \<open>What the server has newly written to its sockets reaches the clients.\<close>

definition carry_down :: "'j json_api \<Rightarrow> ws_server \<Rightarrow> ws_net \<Rightarrow> ws_net" where
  "carry_down J old n =
     n\<lparr>nt_clients := (\<lambda>k. fold (client_text J)
         (sent (drop (length (so_ws (sv_sockets old k))) (so_ws (sv_sockets (nt_server n) k)))) (nt_clients n k))\<rparr>"

text \<open>A socket joins once. The server gets the path of the URL that \<open>Join\<close> connects to.\<close>

definition net_join :: "'j json_api \<Rightarrow> ref \<Rightarrow> string \<Rightarrow> ref \<Rightarrow> ws_net \<Rightarrow> ws_net" where
  "net_join J s lid h n =
     (if wc_fired (nt_clients n s) then n
      else
        let c = WsOnOpen (Some h) ((WsJoin default_ws_options lid (\<lambda>_. True))\<lparr>wc_isOpen := True\<rparr>);
            sv = set_socket s (\<lambda>so. so\<lparr>so_isOpen := True\<rparr>) (nt_server n)
        in carry_down J sv (n\<lparr>nt_clients := (nt_clients n)(s := c), nt_server := WsServer_onOpen J s (Some (''/'' @ lid)) sv\<rparr>))"

definition net_send :: "'j json_api \<Rightarrow> ref \<Rightarrow> string \<Rightarrow> string \<Rightarrow> ws_net \<Rightarrow> ws_net" where
  "net_send J s to payload n =
     (let c = nt_clients n s;
          c1 = WsUser_Send J to payload c;
          sv = fold (server_text J s) (sent (drop (length (wc_ws c)) (wc_ws c1))) (nt_server n)
      in carry_down J (nt_server n) (n\<lparr>nt_clients := (nt_clients n)(s := c1), nt_server := sv\<rparr>))"

text \<open>Closing from the client's side: both sides then see the socket closed.\<close>

definition net_leave :: "'j json_api \<Rightarrow> ref \<Rightarrow> ws_net \<Rightarrow> ws_net" where
  "net_leave J s n =
     (let c = nt_clients n s; c1 = WsUser_Leave c
      in if \<not> wc_user c then n
         else if wc_isOpen c \<and> \<not> wc_isOpen c1
         then let sv = set_socket s (\<lambda>so. so\<lparr>so_isOpen := False\<rparr>) (nt_server n);
                  sv1 = (if so_listening (sv_sockets sv s) then WsServer_onClosed J s sv else sv)
              in n\<lparr>nt_clients := (nt_clients n)(s := WsOnClosed c1), nt_server := sv1\<rparr>
         else n\<lparr>nt_clients := (nt_clients n)(s := c1)\<rparr>)"

fun net_apply :: "'j json_api \<Rightarrow> net_event \<Rightarrow> ws_net \<Rightarrow> ws_net" where
  "net_apply J (NetJoin s lid h) n = net_join J s lid h n"
| "net_apply J (NetSend s to payload) n = net_send J s to payload n"
| "net_apply J (NetLeave s) n = net_leave J s n"

section \<open>The mailbox specification\<close>

record mailboxes =
  mb_used :: "ref \<Rightarrow> bool"
  mb_name :: "ref \<rightharpoonup> string"
  mb_reg :: "string \<rightharpoonup> ref"
  mb_inbox :: "ref \<Rightarrow> SigMessage list"

definition no_mail :: mailboxes where
  "no_mail = \<lparr>mb_used = (\<lambda>_. False), mb_name = Map.empty, mb_reg = Map.empty, mb_inbox = (\<lambda>_. [])\<rparr>"

fun mail_apply :: "net_event \<Rightarrow> mailboxes \<Rightarrow> mailboxes" where
  "mail_apply (NetJoin s lid h) m =
     (if mb_used m s then m
      else if lid = [] then m\<lparr>mb_used := (mb_used m)(s := True)\<rparr>
      else m\<lparr>mb_used := (mb_used m)(s := True), mb_name := (mb_name m)(s \<mapsto> lid), mb_reg := (mb_reg m)(lid \<mapsto> s)\<rparr>)"
| "mail_apply (NetSend s to payload) m =
     (case mb_name m s of
        None \<Rightarrow> m
      | Some lid \<Rightarrow>
          (case mb_reg m to of
             None \<Rightarrow> m
           | Some k \<Rightarrow> m\<lparr>mb_inbox := (mb_inbox m)(k := mb_inbox m k @ [\<lparr>sm_from = lid, sm_payload = payload\<rparr>])\<rparr>))"
| "mail_apply (NetLeave s) m =
     (case mb_name m s of
        None \<Rightarrow> m
      | Some lid \<Rightarrow> m\<lparr>mb_name := (mb_name m)(s := None), mb_reg := (mb_reg m)(lid := None)\<rparr>)"

definition net_run :: "'j json_api \<Rightarrow> net_event list \<Rightarrow> ws_net" where
  "net_run J es = fold (net_apply J) es new_net"

definition mail_run :: "net_event list \<Rightarrow> mailboxes" where
  "mail_run es = fold mail_apply es no_mail"

section \<open>Simulation\<close>

text \<open>A connection that is registered, one that is not, and an id.\<close>

definition member_ok :: "ws_net \<Rightarrow> ref \<Rightarrow> string \<Rightarrow> bool" where
  "member_ok n s lid \<longleftrightarrow>
     (let c = nt_clients n s; so = sv_sockets (nt_server n) s; w = sv_hub (nt_server n)
      in wc_isOpen c \<and> wc_user c \<and> wc_fired c \<and> \<not> wc_leaving c \<and> client_lock c \<noteq> None \<and> wc_pending c = [] \<and>
         so_isOpen so \<and> so_listening so \<and> so_handler so \<and> so_connId so = lid \<and>
         (\<exists>u. so_user so = Some u \<and> u < hb_next w \<and> hu_localId (hb_users w u) = lid \<and>
            hu_handler (hb_users w u) = Some s \<and> \<not> hu_left (hb_users w u)))"

definition stranger_ok :: "ws_net \<Rightarrow> ref \<Rightarrow> bool" where
  "stranger_ok n s \<longleftrightarrow> \<not> wc_isOpen (nt_clients n s) \<or> \<not> so_listening (sv_sockets (nt_server n) s)"

definition id_ok :: "ws_net \<Rightarrow> mailboxes \<Rightarrow> string \<Rightarrow> bool" where
  "id_ok n m lid \<longleftrightarrow>
     (case mb_reg m lid of
        None \<Rightarrow> hb_peers (sv_hub (nt_server n)) lid = None
      | Some s \<Rightarrow> mb_name m s = Some lid \<and> hb_peers (sv_hub (nt_server n)) lid = so_user (sv_sockets (nt_server n) s))"

definition hub_ok :: "hub \<Rightarrow> bool" where
  "hub_ok w \<longleftrightarrow>
     hb_exists w \<and> hb_handlerAlive w = (\<lambda>_. True) \<and> (\<forall>u. hb_userAlive w u \<longleftrightarrow> u < hb_next w) \<and>
     (\<forall>u. \<not> hu_locked (hb_users w u))"

definition conn_ok :: "ws_net \<Rightarrow> mailboxes \<Rightarrow> ref \<Rightarrow> bool" where
  "conn_ok n m s \<longleftrightarrow>
     (case mb_name m s of None \<Rightarrow> stranger_ok n s | Some lid \<Rightarrow> mb_used m s \<and> member_ok n s lid) \<and>
     (mb_used m s \<longleftrightarrow> wc_fired (nt_clients n s)) \<and>
     (mb_used m s \<or> sv_sockets (nt_server n) s = new_socket \<and> mb_inbox m s = []) \<and>
     delivered (wc_calls (nt_clients n s)) = mb_inbox m s"

definition net_sim :: "ws_net \<Rightarrow> mailboxes \<Rightarrow> bool" where
  "net_sim n m \<longleftrightarrow> hub_ok (sv_hub (nt_server n)) \<and> (\<forall>lid. id_ok n m lid) \<and> (\<forall>s. conn_ok n m s)"

lemma net_sim_start: "net_sim new_net no_mail"
  by (simp add: net_sim_def new_net_def no_mail_def hub_ok_def new_hub_def new_HubUser_def id_ok_def stranger_ok_def
      conn_ok_def WsServer_Start_def new_DcWsSigServer_def WsJoin_def)

lemma dispatch_to_connection:
  assumes "hub_ok w" and "hb_peers w to = Some u" and "u < hb_next w" and "hu_handler (hb_users w u) = Some k"
  shows "Dispatch no_actions quiet frm to payload w =
     Inr (w\<lparr>hb_calls := hb_calls w @ [OnMessage u k \<lparr>sm_from = frm, sm_payload = payload\<rparr>],
            hb_accepted := hb_accepted w @ [(u, hu_localId (hb_users w u), \<lparr>sm_from = frm, sm_payload = payload\<rparr>)]\<rparr>)"
proof -
  have "(hb_users w)(u := hb_users w u\<lparr>hu_locked := False\<rparr>) = hb_users w"
    using assms(1) by (cases "hb_users w u") (auto simp: hub_ok_def fun_eq_iff dest: spec[of _ u])
  then show ?thesis
    using assms
    by (simp add: Dispatch_def Dispatch_lookup_def Deliver_def lock_handler_def hub_ok_def no_actions_def set_user_def
        called_def Let_def)
qed

lemma dispatch_to_nobody:
  "hb_peers w to = None \<Longrightarrow> Dispatch no_actions quiet frm to payload w = Inr w"
  by (simp add: Dispatch_def Dispatch_lookup_def)

lemma register_connection:
  assumes "hub_ok w"
  shows "\<exists>w' p. Register no_actions quiet (\<lambda>_. (Some s, [])) lid w = Inr w' \<and> hb_next w' = Suc (hb_next w) \<and>
     hb_users w' = (hb_users w)(hb_next w := p) \<and> hu_localId p = lid \<and> hu_handler p = Some s \<and> \<not> hu_left p \<and>
     \<not> hu_locked p \<and> hb_peers w' = (hb_peers w)(lid \<mapsto> hb_next w) \<and> hb_calls w' = hb_calls w \<and> hub_ok w'"
  using assms
  by (auto simp: Register_def Register_begin_def Register_end_def SetHandler_def lock_handler_def no_actions_def set_user_def
      new_HubUser_def hub_ok_def Let_def)

lemma leave_connection:
  assumes "hub_ok w" and "hu_handler (hb_users w u) = Some s" and "\<not> hu_left (hb_users w u)"
  shows "\<exists>w'. HubUser_Leave no_actions quiet u w = Inr w' \<and> hb_next w' = hb_next w \<and>
     hb_users w' = (hb_users w)(u := (hb_users w u)\<lparr>hu_left := True\<rparr>) \<and>
     hb_peers w' = (hb_peers w)(hu_localId (hb_users w u) := None) \<and>
     hb_calls w' = hb_calls w @ [OnLeft u s LeftClean] \<and> hub_ok w'"
  using assms
  by (auto simp: HubUser_Leave_def lock_handler_def no_actions_def set_user_def Unregister_def called_def hub_ok_def Let_def)

lemma set_socket_simps [simp]:
  "sv_hub (set_socket s f sv) = sv_hub sv" "sv_connections (set_socket s f sv) = sv_connections sv"
  "sv_sockets (set_socket s f sv) = (sv_sockets sv)(s := f (sv_sockets sv s))"
  by (simp_all add: set_socket_def)

lemma hub_step_silent:
  assumes "f (sv_hub sv) = Inr w" and "\<And>c. c \<in> set (drop (length (hb_calls (sv_hub sv))) (hb_calls w)) \<Longrightarrow> \<exists>u h e. c = OnLeft u h e"
  shows "hub_step J f sv = sv\<lparr>sv_hub := w\<rparr>"
proof -
  have "fold (forward_call J) cs x = x" if "\<And>c. c \<in> set cs \<Longrightarrow> \<exists>u h e. c = OnLeft u h e" for cs x
    using that
  proof (induction cs arbitrary: x)
    case (Cons c cs)
    from Cons.prems[of c] obtain u h e where "c = OnLeft u h e" by auto
    then show ?case using Cons by simp
  qed simp
  then show ?thesis using assms by (simp add: hub_step_def settle_def Let_def)
qed

lemma carry_down_nothing:
  assumes "\<And>k. sent (drop (length (so_ws (sv_sockets old k))) (so_ws (sv_sockets (nt_server n) k))) = []"
  shows "carry_down J old n = n"
  using assms by (simp add: carry_down_def)

text \<open>A connection's state depends only on its own client, socket, user and mailbox.\<close>

lemma conn_ok_cong:
  assumes "conn_ok n m s" and "nt_clients n' s = nt_clients n s"
    and "sv_sockets (nt_server n') s = sv_sockets (nt_server n) s"
    and "hb_next (sv_hub (nt_server n)) \<le> hb_next (sv_hub (nt_server n'))"
    and "\<And>u. so_user (sv_sockets (nt_server n) s) = Some u \<Longrightarrow> u < hb_next (sv_hub (nt_server n)) \<Longrightarrow>
       hb_users (sv_hub (nt_server n')) u = hb_users (sv_hub (nt_server n)) u"
    and "mb_name m' s = mb_name m s" "mb_used m' s = mb_used m s" "mb_inbox m' s = mb_inbox m s"
  shows "conn_ok n' m' s"
  using assms by (auto simp: conn_ok_def member_ok_def stranger_ok_def Let_def split: option.splits)

lemma onOpen_registers:
  assumes "hub_ok (sv_hub sv)" and "lid \<noteq> []"
  shows "\<exists>w' p. WsServer_onOpen J s (Some (''/'' @ lid)) sv =
       set_socket s (\<lambda>so. so\<lparr>so_handler := True, so_connId := lid, so_user := Some (hb_next (sv_hub sv)), so_listening := True\<rparr>)
         (sv\<lparr>sv_hub := w', sv_connections := (sv_connections sv)(lid \<mapsto> s)\<rparr>) \<and>
     hb_next w' = Suc (hb_next (sv_hub sv)) \<and> hb_users w' = (hb_users (sv_hub sv))(hb_next (sv_hub sv) := p) \<and>
     hu_localId p = lid \<and> hu_handler p = Some s \<and> \<not> hu_left p \<and>
     hb_peers w' = (hb_peers (sv_hub sv))(lid \<mapsto> hb_next (sv_hub sv)) \<and> hub_ok w'"
proof -
  let ?w = "sv_hub sv"
  let ?sv = "set_socket s (\<lambda>so. so\<lparr>so_handler := True, so_connId := lid, so_user := Some (hb_next ?w)\<rparr>) sv"
  obtain w' p where w: "Register no_actions quiet (\<lambda>_. (Some s, [])) lid ?w = Inr w'" "hb_next w' = Suc (hb_next ?w)"
    "hb_users w' = (hb_users ?w)(hb_next ?w := p)" "hu_localId p = lid" "hu_handler p = Some s" "\<not> hu_left p"
    "hb_peers w' = (hb_peers ?w)(lid \<mapsto> hb_next ?w)" "hb_calls w' = hb_calls ?w" "hub_ok w'"
    using register_connection[OF assms(1), of s lid] by blast
  have "hub_step J (Register no_actions quiet (\<lambda>_. (Some s, [])) lid) ?sv = ?sv\<lparr>sv_hub := w'\<rparr>"
    by (rule hub_step_silent) (use w in simp_all)
  then show ?thesis using w assms(2)
    by (intro exI[of _ w'] exI[of _ p]) (simp add: WsServer_onOpen_def connId_of_def Let_def set_socket_def)
qed

lemma net_join_sim:
  assumes sim: "net_sim n m"
  shows "net_sim (net_join J s lid h n) (mail_apply (NetJoin s lid h) m)"
proof (cases "mb_used m s")
  case True
  then show ?thesis using sim by (auto simp: net_join_def net_sim_def conn_ok_def)
next
  case False
  have hub: "hub_ok (sv_hub (nt_server n))" and ids: "id_ok n m l" and conn: "conn_ok n m k" for l k
    using sim by (simp_all add: net_sim_def)
  let ?c = "WsOnOpen (Some h) ((WsJoin default_ws_options lid (\<lambda>_. True))\<lparr>wc_isOpen := True\<rparr>)"
  let ?sv = "set_socket s (\<lambda>so. so\<lparr>so_isOpen := True\<rparr>) (nt_server n)"
  define sv' where "sv' = WsServer_onOpen J s (Some (''/'' @ lid)) ?sv"
  let ?n = "n\<lparr>nt_clients := (nt_clients n)(s := ?c), nt_server := sv'\<rparr>"
  have f: "\<not> wc_fired (nt_clients n s)" "mb_name m s = None" "sv_sockets (nt_server n) s = new_socket" "mb_inbox m s = []"
    using conn[of s] False by (auto simp: conn_ok_def split: option.splits)
  have c: "wc_isOpen ?c" "wc_user ?c" "wc_fired ?c" "\<not> wc_leaving ?c" "client_lock ?c = Some h" "wc_pending ?c = []"
      "delivered (wc_calls ?c) = []"
    by (simp_all add: WsOnOpen_def WsJoin_def WsOnOpen_begin_def WsSetHandler_def WsSetHandler_swap_def
        WsSetHandler_replay_def client_lock_def notify_call_def)
  have j: "net_join J s lid h n = carry_down J ?sv ?n" using f(1) by (simp add: net_join_def sv'_def Let_def)
  have other: "conn_ok ?n (mail_apply (NetJoin s lid h) m) k"
    if "k \<noteq> s" and "sv_sockets (nt_server ?n) k = sv_sockets (nt_server n) k"
      "hb_next (sv_hub (nt_server n)) \<le> hb_next (sv_hub (nt_server ?n))"
      "\<And>u. u < hb_next (sv_hub (nt_server n)) \<Longrightarrow> hb_users (sv_hub (nt_server ?n)) u = hb_users (sv_hub (nt_server n)) u" for k
    by (rule conn_ok_cong[OF conn]) (use that in simp_all)
  show ?thesis
  proof (cases "lid = []")
    case True
    then have o: "sv' = set_socket s socket_close ?sv" by (simp add: sv'_def WsServer_onOpen_def connId_of_def)
    have "carry_down J ?sv ?n = ?n" by (rule carry_down_nothing) (simp add: o socket_close_def)
    moreover have "conn_ok ?n (mail_apply (NetJoin s lid h) m) k" for k
    proof (cases "k = s")
      case k: True
      then show ?thesis using True False f c o by (simp add: conn_ok_def stranger_ok_def socket_close_def new_socket_def)
    qed (use other o in simp)
    moreover have "id_ok ?n (mail_apply (NetJoin s lid h) m) l" for l
      using ids[of l] True False f o by (auto simp: id_ok_def socket_close_def split: option.splits)
    ultimately show ?thesis using j hub o by (simp add: net_sim_def)
  next
    case lid: False
    obtain w' p where o: "sv' = set_socket s (\<lambda>so. so\<lparr>so_handler := True, so_connId := lid,
           so_user := Some (hb_next (sv_hub (nt_server n))), so_listening := True\<rparr>)
           (?sv\<lparr>sv_hub := w', sv_connections := (sv_connections (nt_server n))(lid \<mapsto> s)\<rparr>)"
      and w: "hb_next w' = Suc (hb_next (sv_hub (nt_server n)))"
        "hb_users w' = (hb_users (sv_hub (nt_server n)))(hb_next (sv_hub (nt_server n)) := p)"
        "hu_localId p = lid" "hu_handler p = Some s" "\<not> hu_left p"
        "hb_peers w' = (hb_peers (sv_hub (nt_server n)))(lid \<mapsto> hb_next (sv_hub (nt_server n)))" "hub_ok w'"
      using onOpen_registers[of ?sv lid J s] hub lid by (auto simp: sv'_def)
    have "carry_down J ?sv ?n = ?n" by (rule carry_down_nothing) (simp add: o)
    moreover have "conn_ok ?n (mail_apply (NetJoin s lid h) m) k" for k
    proof (cases "k = s")
      case True
      then show ?thesis using lid False f c o w by (simp add: conn_ok_def member_ok_def)
    qed (use other o w in simp)
    moreover have "id_ok ?n (mail_apply (NetJoin s lid h) m) l" for l
      using ids[of l] lid False f o w by (auto simp: id_ok_def split: option.splits)
    ultimately show ?thesis using j o w by (simp add: net_sim_def)
  qed
qed

lemma client_leave:
  "wc_fired (WsUser_Leave c) = wc_fired c" "wc_fired (WsOnClosed c) = wc_fired c"
  "delivered (wc_calls (WsUser_Leave c)) = delivered (wc_calls c)"
  "delivered (wc_calls (WsOnClosed c)) = delivered (wc_calls c)"
  "wc_isOpen (WsUser_Leave c) \<longleftrightarrow> wc_leaving c \<and> wc_isOpen c" "wc_isOpen (WsOnClosed c) = wc_isOpen c"
  by (auto simp: client_ops split: option.splits)

lemma onClosed_leaves:
  assumes "hub_ok (sv_hub sv)" and "so_user (sv_sockets sv s) = Some u" and "hu_handler (hb_users (sv_hub sv) u) = Some s"
    and "\<not> hu_left (hb_users (sv_hub sv) u)" and "so_connId (sv_sockets sv s) = hu_localId (hb_users (sv_hub sv) u)"
  shows "\<exists>w' cn. WsServer_onClosed J s sv = sv\<lparr>sv_hub := w', sv_connections := cn\<rparr> \<and> hb_next w' = hb_next (sv_hub sv) \<and>
     hb_users w' = (hb_users (sv_hub sv))(u := (hb_users (sv_hub sv) u)\<lparr>hu_left := True\<rparr>) \<and>
     hb_peers w' = (hb_peers (sv_hub sv))(so_connId (sv_sockets sv s) := None) \<and> hub_ok w'"
proof -
  let ?sv = "sv\<lparr>sv_connections := (sv_connections sv)(so_connId (sv_sockets sv s) := None)\<rparr>"
  obtain w' where w: "HubUser_Leave no_actions quiet u (sv_hub sv) = Inr w'" "hb_next w' = hb_next (sv_hub sv)"
    "hb_users w' = (hb_users (sv_hub sv))(u := (hb_users (sv_hub sv) u)\<lparr>hu_left := True\<rparr>)"
    "hb_peers w' = (hb_peers (sv_hub sv))(hu_localId (hb_users (sv_hub sv) u) := None)"
    "hb_calls w' = hb_calls (sv_hub sv) @ [OnLeft u s LeftClean]" "hub_ok w'"
    using leave_connection[OF assms(1) assms(3) assms(4)] by blast
  have "hub_step J (HubUser_Leave no_actions quiet u) ?sv = ?sv\<lparr>sv_hub := w'\<rparr>"
    by (rule hub_step_silent) (use w in simp_all)
  then show ?thesis using w assms(2,5)
    by (intro exI[of _ w'] exI[of _ "(sv_connections sv)(so_connId (sv_sockets sv s) := None)"])
       (simp add: WsServer_onClosed_def Let_def)
qed

lemma stranger_leave_sim:
  assumes sim: "net_sim n m" and "mb_name m s = None"
  shows "net_sim (net_leave J s n) m"
proof -
  let ?n = "net_leave J s n"
  have hub: "hub_ok (sv_hub (nt_server n))" and ids: "id_ok n m l" and conn: "conn_ok n m k" for l k
    using sim by (simp_all add: net_sim_def)
  have st: "\<not> wc_isOpen (nt_clients n s) \<or> \<not> so_listening (sv_sockets (nt_server n) s)"
    using conn[of s] assms(2) by (simp add: conn_ok_def stranger_ok_def)
  then have n: "sv_hub (nt_server ?n) = sv_hub (nt_server n)" "k \<noteq> s \<Longrightarrow> nt_clients ?n k = nt_clients n k"
    "k \<noteq> s \<Longrightarrow> sv_sockets (nt_server ?n) k = sv_sockets (nt_server n) k"
    "so_user (sv_sockets (nt_server ?n) k) = so_user (sv_sockets (nt_server n) k)"
    "so_listening (sv_sockets (nt_server ?n) s) = so_listening (sv_sockets (nt_server n) s)"
    "sv_sockets (nt_server n) s = new_socket \<Longrightarrow> sv_sockets (nt_server ?n) s = new_socket"
    "wc_fired (nt_clients ?n s) = wc_fired (nt_clients n s)"
    "delivered (wc_calls (nt_clients ?n s)) = delivered (wc_calls (nt_clients n s))"
    "wc_isOpen (nt_clients ?n s) \<Longrightarrow> wc_isOpen (nt_clients n s)" for k
    by (auto simp: net_leave_def client_leave new_socket_def Let_def split: if_splits)
  have "conn_ok ?n m k" for k
  proof (cases "k = s")
    case True
    then show ?thesis using conn[of s] assms(2) n(5-9) by (auto simp: conn_ok_def stranger_ok_def)
  next
    case False
    show ?thesis by (rule conn_ok_cong[OF conn]) (use False n in simp_all)
  qed
  moreover have "id_ok ?n m l" for l using ids[of l] n(1,4) by (simp add: id_ok_def split: option.splits)
  ultimately show ?thesis using hub n(1) by (simp add: net_sim_def)
qed

lemma member_leave_sim:
  assumes sim: "net_sim n m" and nm: "mb_name m s = Some lid"
  shows "net_sim (net_leave J s n) (mail_apply (NetLeave s) m)"
proof -
  let ?n = "net_leave J s n" and ?m = "mail_apply (NetLeave s) m"
  let ?sv = "set_socket s (\<lambda>so. so\<lparr>so_isOpen := False\<rparr>) (nt_server n)"
  have hub: "hub_ok (sv_hub (nt_server n))" and ids: "id_ok n m l" and conn: "conn_ok n m k" for l k
    using sim by (simp_all add: net_sim_def)
  have mem: "member_ok n s lid" using conn[of s] nm by (simp add: conn_ok_def)
  then obtain u where u: "so_user (sv_sockets (nt_server n) s) = Some u" "hu_localId (hb_users (sv_hub (nt_server n)) u) = lid"
      "hu_handler (hb_users (sv_hub (nt_server n)) u) = Some s" "\<not> hu_left (hb_users (sv_hub (nt_server n)) u)"
    and lid: "so_connId (sv_sockets (nt_server n) s) = lid" by (auto simp: member_ok_def Let_def)
  obtain w' cn where o: "WsServer_onClosed J s ?sv = ?sv\<lparr>sv_hub := w', sv_connections := cn\<rparr>"
    and w: "hb_next w' = hb_next (sv_hub (nt_server n))" "hub_ok w'"
      "hb_users w' = (hb_users (sv_hub (nt_server n)))(u := (hb_users (sv_hub (nt_server n)) u)\<lparr>hu_left := True\<rparr>)"
      "hb_peers w' = (hb_peers (sv_hub (nt_server n)))(lid := None)"
    using onClosed_leaves[of ?sv s u J] hub u lid by auto
  have n: "?n = n\<lparr>nt_clients := (nt_clients n)(s := WsOnClosed (WsUser_Leave (nt_clients n s))),
      nt_server := ?sv\<lparr>sv_hub := w', sv_connections := cn\<rparr>\<rparr>"
    using mem by (simp add: net_leave_def client_leave o member_ok_def Let_def)
  have "conn_ok ?n ?m k" for k
  proof (cases "k = s")
    case True
    then show ?thesis using conn[of s] mem nm by (simp add: n conn_ok_def stranger_ok_def client_leave member_ok_def Let_def)
  next
    case False
    have "so_user (sv_sockets (nt_server n) k) \<noteq> Some u" if "mb_name m k \<noteq> None"
      using conn[of k] that False u by (auto simp: conn_ok_def member_ok_def Let_def)
    then show ?thesis
      using conn[of k] False nm w(1,3) by (cases "mb_name m k") (auto simp: n conn_ok_def stranger_ok_def member_ok_def Let_def)
  qed
  moreover have "id_ok ?n ?m l" for l using ids[of l] nm w(4) by (auto simp: n id_ok_def split: option.splits)
  ultimately show ?thesis using w by (simp add: net_sim_def n)
qed

lemma read_own_envelope:
  assumes "json_roundtrip J"
  shows "WsServer_onMessage J s (Some (envelope J to payload)) sv =
      Some (hub_step J (Dispatch no_actions quiet (so_connId (sv_sockets sv s)) to payload) sv)"
    and "client_text J (envelope J frm payload) c =
      (if wc_user c then WsDeliver \<lparr>sm_from = frm, sm_payload = payload\<rparr> c else c)"
  by (simp_all add: WsServer_onMessage_def client_text_def WsOnMessage_def read_envelope_envelope[OF assms])

lemma silent_send_sim:
  assumes sim: "net_sim n m" and "mb_name m s = None \<or> mb_reg m to = None" and J: "json_roundtrip J"
  shows "net_sim (net_send J s to payload n) m"
proof -
  let ?c = "WsUser_Send J to payload (nt_clients n s)"
  let ?n = "n\<lparr>nt_clients := (nt_clients n)(s := ?c)\<rparr>"
  have hub: "hub_ok (sv_hub (nt_server n))" and ids: "id_ok n m l" and conn: "conn_ok n m k" for l k
    using sim by (simp_all add: net_sim_def)
  have "fold (server_text J s) (sent (drop (length (wc_ws (nt_clients n s))) (wc_ws ?c))) (nt_server n) = nt_server n"
  proof (cases "wc_isOpen (nt_clients n s) \<and> so_listening (sv_sockets (nt_server n) s)")
    case True
    then have "mb_name m s \<noteq> None" using conn[of s] by (auto simp: conn_ok_def stranger_ok_def split: option.splits)
    then have "hb_peers (sv_hub (nt_server n)) to = None" using assms(2) ids[of to] by (auto simp: id_ok_def)
    then have "hub_step J (Dispatch no_actions quiet cid to payload) (nt_server n) = nt_server n" for cid
      by (subst hub_step_silent[of _ _ "sv_hub (nt_server n)"]) (simp_all add: dispatch_to_nobody)
    then show ?thesis using True by (simp add: WsUser_Send_def server_text_def read_own_envelope[OF J])
  qed (auto simp: WsUser_Send_def server_text_def)
  then have e: "net_send J s to payload n = carry_down J (nt_server n) ?n" by (simp add: net_send_def Let_def)
  have "carry_down J (nt_server n) ?n = ?n" by (rule carry_down_nothing) simp
  moreover have "conn_ok ?n m k" for k
    using conn[of k] by (cases "k = s") (auto simp: conn_ok_def stranger_ok_def member_ok_def WsUser_Send_def client_lock_def Let_def
        split: option.splits)
  moreover have "id_ok ?n m l" for l using ids[of l] by (simp add: id_ok_def split: option.splits)
  ultimately show ?thesis using e hub by (simp add: net_sim_def)
qed

text \<open>Every other socket's log is unchanged, so only connection \<open>k\<close> gets a frame.\<close>

lemma carry_down_one:
  assumes "\<And>j. so_ws (sv_sockets (nt_server n) j) = so_ws (sv_sockets old j) @ (if j = k then [WsSend t] else [])"
  shows "carry_down J old n = n\<lparr>nt_clients := (nt_clients n)(k := client_text J t (nt_clients n k))\<rparr>"
  using assms by (simp add: carry_down_def fun_eq_iff cong: if_cong)

definition same_client :: "ws_client \<Rightarrow> ws_client \<Rightarrow> bool" where
  "same_client c d \<longleftrightarrow>
     wc_user c = wc_user d \<and> wc_isOpen c = wc_isOpen d \<and> wc_fired c = wc_fired d \<and> wc_leaving c = wc_leaving d \<and>
     client_lock c = client_lock d \<and> wc_pending c = wc_pending d"

lemma same_client_send: "same_client (WsUser_Send J to payload c) c" "wc_calls (WsUser_Send J to payload c) = wc_calls c"
  by (auto simp: same_client_def WsUser_Send_def client_lock_def split: option.splits)

lemma same_client_refl: "same_client c c"
  by (simp add: same_client_def)

lemma same_client_deliver:
  assumes "client_lock c \<noteq> None"
  shows "same_client (WsDeliver msg c) c" "delivered (wc_calls (WsDeliver msg c)) = delivered (wc_calls c) @ [msg]"
  using assms by (auto simp: same_client_def WsDeliver_def notify_call_def client_lock_def split: option.splits if_splits)

lemma member_send_sim:
  assumes sim: "net_sim n m" and nm: "mb_name m s = Some a" and reg: "mb_reg m to = Some k" and J: "json_roundtrip J"
  shows "net_sim (net_send J s to payload n) (mail_apply (NetSend s to payload) m)"
proof -
  let ?w = "sv_hub (nt_server n)"
  let ?msg = "\<lparr>sm_from = a, sm_payload = payload\<rparr>"
  let ?m = "mail_apply (NetSend s to payload) m"
  have hub: "hub_ok ?w" and ids: "id_ok n m l" and conn: "conn_ok n m j" for l j
    using sim by (simp_all add: net_sim_def)
  have k: "mb_name m k = Some to" using ids[of to] reg by (simp add: id_ok_def)
  have ms: "member_ok n s a" and mk: "member_ok n k to" using conn[of s] conn[of k] nm k by (simp_all add: conn_ok_def)
  obtain u where u: "hb_peers ?w to = Some u" "u < hb_next ?w" "hu_handler (hb_users ?w u) = Some k"
    using mk ids[of to] reg by (auto simp: member_ok_def id_ok_def Let_def)
  obtain w' where w: "Dispatch no_actions quiet a to payload ?w = Inr w'" "hb_calls w' = hb_calls ?w @ [OnMessage u k ?msg]"
    "hb_users w' = hb_users ?w" "hb_next w' = hb_next ?w" "hb_peers w' = hb_peers ?w" "hub_ok w'"
    using dispatch_to_connection[OF hub u, of a payload] hub by (auto simp: hub_ok_def)
  let ?c = "WsUser_Send J to payload (nt_clients n s)"
  let ?sv = "set_socket k (\<lambda>so. so\<lparr>so_ws := so_ws so @ [WsSend (envelope J a payload)]\<rparr>) ((nt_server n)\<lparr>sv_hub := w'\<rparr>)"
  let ?n1 = "n\<lparr>nt_clients := (nt_clients n)(s := ?c), nt_server := ?sv\<rparr>"
  have "hub_step J (Dispatch no_actions quiet a to payload) (nt_server n) = ?sv"
    using mk w(1,2) by (simp add: hub_step_def settle_def member_ok_def Let_def WsClientHandler_OnMessage_def set_socket_def)
  then have "fold (server_text J s) (sent (drop (length (wc_ws (nt_clients n s))) (wc_ws ?c))) (nt_server n) = ?sv"
    using ms by (simp add: WsUser_Send_def server_text_def read_own_envelope[OF J] member_ok_def Let_def)
  then have e: "net_send J s to payload n = carry_down J (nt_server n) ?n1" by (simp add: net_send_def Let_def)
  have c: "same_client (nt_clients ?n1 j) (nt_clients n j)" "wc_calls (nt_clients ?n1 j) = wc_calls (nt_clients n j)" for j
    by (simp_all add: same_client_refl same_client_send)
  have k1: "wc_user (nt_clients ?n1 k)" "client_lock (nt_clients ?n1 k) \<noteq> None"
    using mk c(1)[of k] unfolding same_client_def member_ok_def Let_def by simp_all
  define n2 where "n2 = carry_down J (nt_server n) ?n1"
  have n2: "n2 = ?n1\<lparr>nt_clients := (nt_clients ?n1)(k := WsDeliver ?msg (nt_clients ?n1 k))\<rparr>"
    unfolding n2_def by (subst carry_down_one[where k = k and t = "envelope J a payload"])
      (use k1(1) in \<open>simp_all add: read_own_envelope[OF J]\<close>)
  have c2: "same_client (nt_clients n2 j) (nt_clients n j)"
    "delivered (wc_calls (nt_clients n2 j)) = mb_inbox m j @ (if j = k then [?msg] else [])" for j
    using c[of j] same_client_deliver[OF k1(2), of ?msg] conn[of j] unfolding n2 conn_ok_def same_client_def
    by (cases "j = k"; simp)+
  have s2: "sv_hub (nt_server n2) = w'" "sv_sockets (nt_server n2) j =
      (sv_sockets (nt_server n) j)\<lparr>so_ws := so_ws (sv_sockets (nt_server n) j) @ (if j = k then [WsSend (envelope J a payload)] else [])\<rparr>" for j
    by (simp_all add: n2)
  have "conn_ok n2 ?m j" for j
    using conn[of j] c2[of j] s2(1) s2(2)[of j] w(3,4) nm reg k unfolding same_client_def
    by (cases "j = k"; cases "mb_name m j") (auto simp: conn_ok_def member_ok_def stranger_ok_def Let_def)
  moreover have "id_ok n2 ?m l" for l using ids[of l] nm reg w(5) s2 by (auto simp: id_ok_def split: option.splits)
  ultimately show ?thesis using e w(6) s2(1) by (simp add: net_sim_def n2_def[symmetric])
qed

lemma net_apply_sim:
  assumes "net_sim n m" and "json_roundtrip J"
  shows "net_sim (net_apply J e n) (mail_apply e m)"
proof (cases e)
  case (NetJoin s lid h)
  then show ?thesis using net_join_sim[OF assms(1), of J s lid h] by (simp del: mail_apply.simps)
next
  case (NetSend s to payload)
  then show ?thesis
    using silent_send_sim[OF assms(1) _ assms(2)] member_send_sim[OF assms(1) _ _ assms(2)]
    by (cases "mb_name m s"; cases "mb_reg m to") simp_all
next
  case (NetLeave s)
  then show ?thesis using stranger_leave_sim[OF assms(1)] member_leave_sim[OF assms(1)] by (cases "mb_name m s") simp_all
qed

lemma net_run_sim:
  assumes "json_roundtrip J"
  shows "net_sim (net_run J es) (mail_run es)"
proof -
  have "net_sim n m \<Longrightarrow> net_sim (fold (net_apply J) es n) (fold mail_apply es m)" for n m
    by (induction es arbitrary: n m) (simp_all add: net_apply_sim[OF _ assms])
  then show ?thesis using net_sim_start by (simp add: net_run_def mail_run_def)
qed

lemma net_run_inbox:
  assumes "json_roundtrip J"
  shows "delivered (wc_calls (nt_clients (net_run J es) s)) = mb_inbox (mail_run es) s"
  using net_run_sim[OF assms, of es] by (simp add: net_sim_def conn_ok_def)

section \<open>A text format that meets the contract\<close>

text \<open>Objects of strings in JSON's notation, with quotes and backslashes escaped and a comma after every member.\<close>

datatype json_text = JObject "(string \<times> string) list" | JString string

fun escape :: "string \<Rightarrow> string" where
  "escape [] = []"
| "escape (c # cs) = (if c = CHR 0x22 \<or> c = CHR 0x5C then [CHR 0x5C, c] else [c]) @ escape cs"

fun unescape :: "string \<Rightarrow> (string \<times> string) option" where
  "unescape [] = None"
| "unescape (c # cs) =
     (if c = CHR 0x22 then Some ([], cs)
      else if c = CHR 0x5C
      then (case cs of [] \<Rightarrow> None | d # ds \<Rightarrow> map_option (\<lambda>(x, r). (d # x, r)) (unescape ds))
      else map_option (\<lambda>(x, r). (c # x, r)) (unescape cs))"

definition quoted :: "string \<Rightarrow> string" where
  "quoted x = CHR 0x22 # escape x @ [CHR 0x22]"

fun print_members :: "(string \<times> string) list \<Rightarrow> string" where
  "print_members [] = ''}''"
| "print_members ((k, v) # kvs) = quoted k @ '':'' @ quoted v @ '','' @ print_members kvs"

fun parse_members :: "nat \<Rightarrow> string \<Rightarrow> (string \<times> string) list option" where
  "parse_members 0 t = None"
| "parse_members (Suc n) t =
     (if t = ''}'' then Some []
      else
        (case unescape (tl t) of
           Some (k, r) \<Rightarrow>
             (case unescape (drop 2 r) of
                Some (v, q) \<Rightarrow> map_option (\<lambda>kvs. (k, v) # kvs) (parse_members n (tl q))
              | None \<Rightarrow> None)
         | None \<Rightarrow> None))"

definition text_json :: "json_text json_api" where
  "text_json =
     \<lparr>j_parse = (\<lambda>t. map_option JObject (parse_members (length t) (tl t))),
      j_dump = (\<lambda>j. case j of JObject kvs \<Rightarrow> ''{'' @ print_members kvs | JString x \<Rightarrow> quoted x),
      j_object = JObject,
      j_value = (\<lambda>j k d. case j of JObject kvs \<Rightarrow> Some (value_or (map_of kvs k) d) | JString _ \<Rightarrow> None),
      j_find = (\<lambda>j k. case j of JObject kvs \<Rightarrow> map_option JString (map_of kvs k) | JString _ \<Rightarrow> None),
      j_get = (\<lambda>j. case j of JObject _ \<Rightarrow> None | JString x \<Rightarrow> Some x)\<rparr>"

lemma unescape_escape: "unescape (escape x @ CHR 0x22 # r) = Some (x, r)"
  by (induction x) auto

lemma print_members_long: "length kvs < length (print_members kvs)"
  by (induction kvs rule: print_members.induct) auto

lemma parse_print_members: "length kvs < n \<Longrightarrow> parse_members n (print_members kvs) = Some kvs"
proof (induction kvs arbitrary: n rule: print_members.induct)
  case 1
  then show ?case by (cases n) simp_all
next
  case (2 k v kvs)
  then show ?case by (cases n) (simp_all add: quoted_def unescape_escape)
qed

lemma text_json_roundtrip: "json_roundtrip text_json"
proof -
  have "parse_members (Suc (length (print_members kvs))) (print_members kvs) = Some kvs" for kvs
    using print_members_long[of kvs] by (intro parse_print_members) simp
  then show ?thesis by (simp del: parse_members.simps add: json_roundtrip_def text_json_def)
qed

section \<open>WebRTC negotiation\<close>

fun rtc_receive :: "'j json_api \<Rightarrow> SigMessage list \<Rightarrow> rtc_state \<Rightarrow> rtc_state option" where
  "rtc_receive J [] w = Some w"
| "rtc_receive J (msg # msgs) w =
     (case RtcOnMessage J msg w of None \<Rightarrow> None | Some w1 \<Rightarrow> rtc_receive J msgs w1)"

lemma rtc_receive_append:
  "rtc_receive J (xs @ ys) w = (case rtc_receive J xs w of None \<Rightarrow> None | Some w1 \<Rightarrow> rtc_receive J ys w1)"
  by (induction J xs w rule: rtc_receive.induct) (simp_all split: option.splits)

lemma json_value:
  assumes "json_roundtrip J" and "map_of kvs k = Some v"
  shows "j_value J (j_object J kvs) k [] = Some v"
  using assms unfolding json_roundtrip_def by blast

lemma json_parse: "json_roundtrip J \<Longrightarrow> j_parse J (j_dump J (j_object J kvs)) = Some (j_object J kvs)"
  by (simp add: json_roundtrip_def)

text \<open>What one link's callbacks send is what the other transport does.\<close>

lemma understands_offer:
  assumes "json_roundtrip J"
  shows "RtcOnMessage J \<lparr>sm_from = a, sm_payload = onLocalDescription J ''offer'' sdp\<rparr> w = Some (on_offer a sdp w)"
  by (simp add: RtcOnMessage_def onLocalDescription_def json_parse[OF assms] json_value[OF assms] on_offer_def)

lemma understands_answer:
  assumes "json_roundtrip J"
  shows "RtcOnMessage J \<lparr>sm_from = a, sm_payload = onLocalDescription J ''answer'' sdp\<rparr> w = Some (on_answer sdp w)"
  by (simp add: RtcOnMessage_def onLocalDescription_def json_parse[OF assms] json_value[OF assms] on_answer_def)

lemma understands_candidate:
  assumes "json_roundtrip J"
  shows "RtcOnMessage J \<lparr>sm_from = a, sm_payload = onLocalCandidate J cand mid\<rparr> w = Some (on_candidate a cand mid w)"
  by (simp add: RtcOnMessage_def onLocalCandidate_def json_parse[OF assms] json_value[OF assms])

definition candidate_messages :: "'j json_api \<Rightarrow> string \<Rightarrow> (string \<times> string) list \<Rightarrow> SigMessage list" where
  "candidate_messages J a cs = map (\<lambda>(cand, mid). \<lparr>sm_from = a, sm_payload = onLocalCandidate J cand mid\<rparr>) cs"

definition add_candidates :: "(string \<times> string) list \<Rightarrow> dc_link \<Rightarrow> dc_link" where
  "add_candidates cs l = fold (\<lambda>(cand, mid). AddRemoteCandidate cand mid) cs l"

lemma receive_candidates:
  assumes "json_roundtrip J" and "rt_peers w a = Some k"
  shows "rtc_receive J (candidate_messages J a cs) w = Some (set_dc k (add_candidates cs) w)"
  using assms(2)
proof (induction cs arbitrary: w)
  case Nil
  then show ?case by (simp add: candidate_messages_def add_candidates_def set_dc_def)
next
  case (Cons c cs)
  obtain cand mid where c: "c = (cand, mid)" by (cases c)
  have "on_candidate a cand mid w = set_dc k (AddRemoteCandidate cand mid) w"
    using Cons.prems by (simp add: on_candidate_def)
  then show ?case
    using Cons.IH[of "set_dc k (AddRemoteCandidate cand mid) w"] Cons.prems
    by (simp add: candidate_messages_def c understands_candidate[OF assms(1)] add_candidates_def set_dc_def)
qed

lemma add_candidates_described:
  "dl_remoteDescSet l \<Longrightarrow>
     add_candidates cs l = l\<lparr>dl_pc := dl_pc l @ map (\<lambda>(cand, mid). AddCandidate cand mid) cs\<rparr>"
  by (induction cs arbitrary: l) (auto simp: add_candidates_def AddRemoteCandidate_def)

lemma add_candidates_waiting:
  "\<not> dl_remoteDescSet l \<Longrightarrow> add_candidates cs l = l\<lparr>dl_pendingCandidates := dl_pendingCandidates l @ cs\<rparr>"
  by (induction cs arbitrary: l) (auto simp: add_candidates_def AddRemoteCandidate_def)

lemma answerer_negotiates:
  assumes J: "json_roundtrip J" and "0 < ro_maxInboundConnections options"
  shows "\<exists>w. rtc_receive J (\<lparr>sm_from = a, sm_payload = onLocalDescription J ''offer'' sdp\<rparr> # candidate_messages J a cs)
       (new_rtc_state options) = Some w \<and> rt_peers w a = Some 0 \<and>
     dl_pc (rt_links w 0) = SetRemote sdp OfferDesc # map (\<lambda>(cand, mid). AddCandidate cand mid) cs"
proof -
  let ?w = "on_offer a sdp (new_rtc_state options)"
  have w: "rt_peers ?w a = Some 0" "dl_remoteDescSet (rt_links ?w 0)" "dl_pc (rt_links ?w 0) = [SetRemote sdp OfferDesc]"
    using assms(2) by (simp_all add: on_offer_def new_rtc_state_def HandleOffer_def add_link_def set_dc_def
        SetRemoteDescription_def new_DcRtcLink_def Let_def)
  then show ?thesis
    by (simp add: understands_offer[OF J] receive_candidates[OF J] add_candidates_described set_dc_def)
qed

lemma offerer_negotiates:
  assumes J: "json_roundtrip J" and b: "ro_remoteId options = b" "b \<noteq> []"
  shows "\<exists>w. rtc_receive J (candidate_messages J b cs1 @
       \<lparr>sm_from = b, sm_payload = onLocalDescription J ''answer'' sdp\<rparr> # candidate_messages J b cs2)
       (snd (DcRtcTransport_Open options (Inr ()))) = Some w \<and> rt_peers w b = Some 0 \<and>
     dl_pc (rt_links w 0) =
       [CreateDataChannel ''data'', SetRemote sdp AnswerDesc] @ map (\<lambda>(cand, mid). AddCandidate cand mid) (cs1 @ cs2)"
proof -
  let ?w = "snd (DcRtcTransport_Open options (Inr ()))"
  have w: "rt_peers ?w b = Some 0" "rt_remoteId ?w = b" "\<not> dl_remoteDescSet (rt_links ?w 0)"
    "dl_pendingCandidates (rt_links ?w 0) = []" "dl_pc (rt_links ?w 0) = [CreateDataChannel ''data'']"
    using b by (simp_all add: DcRtcTransport_Open_def onJoined_def new_rtc_state_def isOfferer_def OpenOfferer_def
        add_link_def set_dc_def new_DcRtcLink_def Let_def)
  let ?w1 = "set_dc 0 (add_candidates cs1) ?w"
  let ?w2 = "on_answer sdp ?w1"
  have w2: "rt_peers ?w2 b = Some 0" "dl_remoteDescSet (rt_links ?w2 0)"
    "dl_pc (rt_links ?w2 0) = [CreateDataChannel ''data'', SetRemote sdp AnswerDesc] @ map (\<lambda>(cand, mid). AddCandidate cand mid) cs1"
    using w b(2) by (simp_all add: on_answer_def isOfferer_def set_dc_def add_candidates_waiting SetRemoteDescription_def
        flush_candidates_def Let_def)
  show ?thesis
    using w w2
    by (simp add: rtc_receive_append receive_candidates[OF J] understands_answer[OF J] add_candidates_described)
       (simp add: set_dc_def add_candidates_described)
qed

text \<open>The messages of a complete negotiation: an offer with its candidates, and the answer among its own.\<close>

definition send_candidates :: "'j json_api \<Rightarrow> ref \<Rightarrow> string \<Rightarrow> (string \<times> string) list \<Rightarrow> net_event list" where
  "send_candidates J s to cs = map (\<lambda>(cand, mid). NetSend s to (onLocalCandidate J cand mid)) cs"

definition negotiation ::
  "'j json_api \<Rightarrow> string \<Rightarrow> string \<Rightarrow> string \<Rightarrow> string \<Rightarrow> (string \<times> string) list \<Rightarrow> (string \<times> string) list \<Rightarrow>
     (string \<times> string) list \<Rightarrow> net_event list" where
  "negotiation J a b offer answer cs cs1 cs2 =
     [NetJoin 0 a 0, NetJoin 1 b 0, NetSend 0 b (onLocalDescription J ''offer'' offer)] @ send_candidates J 0 b cs @
     send_candidates J 1 a cs1 @ [NetSend 1 a (onLocalDescription J ''answer'' answer)] @ send_candidates J 1 a cs2"

lemma mail_candidates:
  assumes "mb_name m s = Some a" and "mb_reg m to = Some k"
  shows "fold mail_apply (send_candidates J s to cs) m = m\<lparr>mb_inbox := (mb_inbox m)(k := mb_inbox m k @ candidate_messages J a cs)\<rparr>"
  using assms
proof (induction cs arbitrary: m)
  case (Cons c cs)
  then show ?case by (cases c) (simp add: send_candidates_def candidate_messages_def cong: if_cong)
qed (simp add: send_candidates_def candidate_messages_def)

lemma negotiation_inboxes:
  assumes "a \<noteq> b" "a \<noteq> []" "b \<noteq> []"
  shows "mb_inbox (mail_run (negotiation J a b offer answer cs cs1 cs2)) 1 =
      \<lparr>sm_from = a, sm_payload = onLocalDescription J ''offer'' offer\<rparr> # candidate_messages J a cs"
    and "mb_inbox (mail_run (negotiation J a b offer answer cs cs1 cs2)) 0 =
      candidate_messages J b cs1 @ \<lparr>sm_from = b, sm_payload = onLocalDescription J ''answer'' answer\<rparr> # candidate_messages J b cs2"
  using assms
  by (simp_all add: mail_run_def negotiation_def no_mail_def mail_candidates[where a = a and k = 1] mail_candidates[where a = b and k = 0])

end
