(* ===== verification/Rtc_Negotiation.thy ===== *)
theory Rtc_Negotiation
  imports Js_Rtc_Safety Ws_Network
begin

text \<open>
  How a WebRTC transport treats the signalling messages of its peers, as the locale \<open>negotiator\<close>: the state of a negotiation
  as far as the peers can tell, and the law that receiving a message changes it as specified. Both transports, the
  native one and that of the browser build, meet it, and therefore negotiate alike.
\<close>

section \<open>What a transport promises\<close>

record connection =
  cn_pc :: "pc_call list"
  cn_pending :: "(string \<times> string) list"
  cn_described :: bool

record negotiation_state =
  ng_remoteId :: string
  ng_limit :: nat
  ng_count :: nat
  ng_peers :: "string \<rightharpoonup> connection"

definition cn_describe :: "string \<Rightarrow> desc_type \<Rightarrow> connection \<Rightarrow> connection" where
  "cn_describe sdp type c =
     \<lparr>cn_pc = cn_pc c @ SetRemote sdp type # map (\<lambda>(cand, mid). AddCandidate cand mid) (cn_pending c), cn_pending = [],
      cn_described = True\<rparr>"

definition cn_candidate :: "string \<Rightarrow> string \<Rightarrow> connection \<Rightarrow> connection" where
  "cn_candidate cand mid c =
     (if cn_described c then c\<lparr>cn_pc := cn_pc c @ [AddCandidate cand mid]\<rparr>
      else c\<lparr>cn_pending := cn_pending c @ [(cand, mid)]\<rparr>)"

definition ng_update :: "string \<Rightarrow> (connection \<Rightarrow> connection) \<Rightarrow> negotiation_state \<Rightarrow> negotiation_state" where
  "ng_update peer f g = g\<lparr>ng_peers := (ng_peers g)(peer := map_option f (ng_peers g peer))\<rparr>"

definition ng_offer :: "string \<Rightarrow> string \<Rightarrow> negotiation_state \<Rightarrow> negotiation_state" where
  "ng_offer peer sdp g =
     (if ng_count g < ng_limit g
      then g\<lparr>ng_count := Suc (ng_count g),
             ng_peers := (ng_peers g)(peer \<mapsto> cn_describe sdp OfferDesc \<lparr>cn_pc = [], cn_pending = [], cn_described = False\<rparr>)\<rparr>
      else g)"

definition ng_message :: "'j json_api \<Rightarrow> SigMessage \<Rightarrow> negotiation_state \<Rightarrow> negotiation_state option" where
  "ng_message J msg g =
     (case j_parse J (sm_payload msg) of
        None \<Rightarrow> Some g
      | Some j \<Rightarrow>
          (case j_value J j ''type'' [] of
             None \<Rightarrow> None
           | Some type \<Rightarrow>
               if type = ''offer''
               then if ng_count g < ng_limit g
                    then map_option (\<lambda>sdp. ng_offer (sm_from msg) sdp g) (j_value J j ''description'' []) else Some g
               else if type = ''answer''
               then if ng_remoteId g = [] then Some g
                    else map_option (\<lambda>sdp. ng_update (sm_from msg) (cn_describe sdp AnswerDesc) g) (j_value J j ''description'' [])
               else if type = ''candidate''
               then (case j_value J j ''candidate'' [] of
                       None \<Rightarrow> None
                     | Some cand \<Rightarrow>
                         map_option (\<lambda>mid. ng_update (sm_from msg) (cn_candidate cand mid) g) (j_value J j ''mid'' []))
               else Some g))"

text \<open>
  The messages on which both transports agree: texts without the character NUL, which would end a C string, and answers
  that come from the peer the offer went to.
\<close>

definition plain_message :: "'j json_api \<Rightarrow> string \<Rightarrow> SigMessage \<Rightarrow> bool" where
  "plain_message J remote msg \<longleftrightarrow>
     (case j_parse J (sm_payload msg) of
        None \<Rightarrow> True
      | Some j \<Rightarrow>
          list_all (\<lambda>k. case j_value J j k [] of None \<Rightarrow> True | Some v \<Rightarrow> c_string v = v) [''description'', ''candidate'', ''mid''] \<and>
          (j_value J j ''type'' [] \<noteq> Some ''answer'' \<or> sm_from msg = remote))"

fun fold_option :: "('m \<Rightarrow> 's \<Rightarrow> 's option) \<Rightarrow> 'm list \<Rightarrow> 's \<Rightarrow> 's option" where
  "fold_option f [] s = Some s"
| "fold_option f (m # ms) s = (case f m s of None \<Rightarrow> None | Some s1 \<Rightarrow> fold_option f ms s1)"

lemma ng_message_remote: "ng_message J msg g = Some g' \<Longrightarrow> ng_remoteId g' = ng_remoteId g"
  by (auto simp: ng_message_def ng_offer_def ng_update_def split: option.splits if_splits)

locale negotiator =
  fixes receive :: "'j json_api \<Rightarrow> SigMessage \<Rightarrow> 's \<Rightarrow> 's option"
    and view :: "'s \<Rightarrow> negotiation_state"
    and invar :: "'s \<Rightarrow> bool"
  assumes receive_view:
      "invar s \<Longrightarrow> plain_message J (ng_remoteId (view s)) msg \<Longrightarrow> map_option view (receive J msg s) = ng_message J msg (view s)"
    and receive_invar:
      "invar s \<Longrightarrow> plain_message J (ng_remoteId (view s)) msg \<Longrightarrow> receive J msg s = Some s' \<Longrightarrow> invar s'"
begin

lemma receive_all:
  assumes "invar s" and "list_all (plain_message J (ng_remoteId (view s))) msgs"
  shows "map_option view (fold_option (receive J) msgs s) = fold_option (ng_message J) msgs (view s)"
  using assms
proof (induction msgs arbitrary: s)
  case (Cons msg msgs)
  have v: "map_option view (receive J msg s) = ng_message J msg (view s)"
    using Cons.prems by (intro receive_view) simp_all
  show ?case
  proof (cases "receive J msg s")
    case None
    then show ?thesis using v by simp
  next
    case (Some s1)
    then have "ng_message J msg (view s) = Some (view s1)" "ng_remoteId (view s1) = ng_remoteId (view s)"
      using v ng_message_remote[of J msg "view s"] by (simp_all add: v[symmetric])
    moreover have "invar s1" using receive_invar[OF Cons.prems(1) _ Some] Cons.prems(2) by simp
    ultimately show ?thesis using Some Cons.IH[of s1] Cons.prems(2) by simp
  qed
qed simp

end

section \<open>The native transport\<close>

definition dc_connection :: "dc_link \<Rightarrow> connection" where
  "dc_connection l = \<lparr>cn_pc = dl_pc l, cn_pending = dl_pendingCandidates l, cn_described = dl_remoteDescSet l\<rparr>"

definition dc_view :: "rtc_state \<Rightarrow> negotiation_state" where
  "dc_view w =
     \<lparr>ng_remoteId = rt_remoteId w, ng_limit = rt_maxInboundConnections w, ng_count = rt_inboundCount w,
      ng_peers = (\<lambda>s. map_option (\<lambda>k. dc_connection (rt_links w k)) (rt_peers w s))\<rparr>"

definition dc_invar :: "rtc_state \<Rightarrow> bool" where
  "dc_invar w \<longleftrightarrow> (\<forall>s k. rt_peers w s = Some k \<longrightarrow> k < rt_next w \<and> dl_remoteId (rt_links w k) = s)"

lemma dc_describe: "dc_connection (SetRemoteDescription sdp type l) = cn_describe sdp type (dc_connection l)"
  by (simp add: dc_connection_def SetRemoteDescription_def flush_candidates_def cn_describe_def Let_def)

lemma dc_candidate: "dc_connection (AddRemoteCandidate cand mid l) = cn_candidate cand mid (dc_connection l)"
  by (simp add: dc_connection_def AddRemoteCandidate_def cn_candidate_def)

lemma dc_new: "dc_connection (new_DcRtcLink a b n) = \<lparr>cn_pc = [], cn_pending = [], cn_described = False\<rparr>"
  by (simp add: dc_connection_def new_DcRtcLink_def)

lemma remoteId_kept [simp]:
  "dl_remoteId (SetRemoteDescription sdp type l) = dl_remoteId l" "dl_remoteId (AddRemoteCandidate cand mid l) = dl_remoteId l"
  by (simp_all add: SetRemoteDescription_def flush_candidates_def AddRemoteCandidate_def Let_def)

lemma set_dc_view:
  assumes "dc_invar w" and "rt_peers w s = Some k" and "\<And>l. dl_remoteId (f l) = dl_remoteId l"
    and "\<And>l. dc_connection (f l) = g (dc_connection l)"
  shows "dc_view (set_dc k f w) = ng_update s g (dc_view w)" "dc_invar (set_dc k f w)"
proof -
  have k: "rt_peers w t \<noteq> Some k" if "t \<noteq> s" for t using assms(1,2) that unfolding dc_invar_def by metis
  have "map_option (\<lambda>m. dc_connection (rt_links (set_dc k f w) m)) (rt_peers w t) =
      (if t = s then map_option g (map_option (\<lambda>m. dc_connection (rt_links w m)) (rt_peers w s))
       else map_option (\<lambda>m. dc_connection (rt_links w m)) (rt_peers w t))" for t
    using assms(2,4) k[of t] by (cases "t = s"; cases "rt_peers w t") (simp_all add: set_dc_def)
  then show "dc_view (set_dc k f w) = ng_update s g (dc_view w)"
    by (simp add: dc_view_def ng_update_def fun_eq_iff) (simp add: set_dc_def)
  show "dc_invar (set_dc k f w)" using assms(1,3) by (auto simp: dc_invar_def set_dc_def)
qed

lemma ng_update_absent: "ng_peers g s = None \<Longrightarrow> ng_update s f g = g"
  by (simp add: ng_update_def fun_upd_idem)

lemma dc_offer:
  assumes "dc_invar w"
  shows "dc_view (on_offer s sdp w) = ng_offer s sdp (dc_view w)" "dc_invar (on_offer s sdp w)"
proof -
  have "rt_peers w t \<noteq> Some (rt_next w)" for t using assms by (auto simp: dc_invar_def)
  then show "dc_view (on_offer s sdp w) = ng_offer s sdp (dc_view w)"
    by (auto simp: on_offer_def HandleOffer_def add_link_def set_dc_def dc_view_def ng_offer_def dc_describe dc_new fun_eq_iff
        map_option_case Let_def split: option.splits)
  show "dc_invar (on_offer s sdp w)"
    using assms by (auto simp: dc_invar_def on_offer_def HandleOffer_def add_link_def set_dc_def new_DcRtcLink_def Let_def less_SucI)
qed

lemma dc_answer:
  assumes "dc_invar w" and "rt_remoteId w \<noteq> []" and "s = rt_remoteId w"
  shows "dc_view (on_answer sdp w) = ng_update s (cn_describe sdp AnswerDesc) (dc_view w)" "dc_invar (on_answer sdp w)"
  using assms set_dc_view[OF assms(1), of s _ "SetRemoteDescription sdp AnswerDesc" "cn_describe sdp AnswerDesc"] dc_describe
  by (auto simp: on_answer_def isOfferer_def ng_update_absent dc_view_def split: option.splits)

lemma dc_cand:
  assumes "dc_invar w"
  shows "dc_view (on_candidate s cand mid w) = ng_update s (cn_candidate cand mid) (dc_view w)" "dc_invar (on_candidate s cand mid w)"
  using assms set_dc_view[OF assms(1), of s _ "AddRemoteCandidate cand mid" "cn_candidate cand mid"] dc_candidate
  by (auto simp: on_candidate_def ng_update_absent dc_view_def split: option.splits)

interpretation native_rtc: negotiator RtcOnMessage dc_view dc_invar
proof
  fix s :: rtc_state and J :: "'j json_api" and msg
  assume i: "dc_invar s" and p: "plain_message J (ng_remoteId (dc_view s)) msg"
  have v: "ng_remoteId (dc_view s) = rt_remoteId s" "ng_count (dc_view s) = rt_inboundCount s"
    "ng_limit (dc_view s) = rt_maxInboundConnections s" by (simp_all add: dc_view_def)
  have a: "map_option dc_view (map_option f x) = map_option g x" if "\<And>y. x = Some y \<Longrightarrow> dc_view (f y) = g y" for f g and x :: "string option"
    using that by (cases x) simp_all
  show "map_option dc_view (RtcOnMessage J msg s) = ng_message J msg (dc_view s)"
  proof (cases "j_parse J (sm_payload msg)")
    case (Some j)
    then show ?thesis
      using p by (auto simp: RtcOnMessage_def ng_message_def plain_message_def v isOfferer_def dc_offer[OF i] dc_answer[OF i]
          dc_cand[OF i] intro!: a split: option.splits)
  qed (simp add: RtcOnMessage_def ng_message_def)
next
  fix s s' :: rtc_state and J :: "'j json_api" and msg
  assume "dc_invar s" and "RtcOnMessage J msg s = Some s'"
  then show "dc_invar s'"
    by (auto simp: RtcOnMessage_def isOfferer_def dc_offer dc_answer dc_cand split: option.splits if_splits)
qed


section \<open>The transport of the browser build\<close>

text \<open>A browser that resolves \<open>setRemoteDescription\<close> before the next message is handled.\<close>

definition resolved :: "js_entry \<Rightarrow> js_entry" where
  "resolved en = (if 0 < en_promises en then remote_resolved en else en)"

definition js_prompt :: "js_rtc \<Rightarrow> js_rtc" where
  "js_prompt w = w\<lparr>js_entries := \<lambda>e. resolved (js_entries w e)\<rparr>"

definition js_receive :: "'j json_api \<Rightarrow> SigMessage \<Rightarrow> js_rtc \<Rightarrow> js_rtc option" where
  "js_receive J msg w = map_option js_prompt (JsRtc_OnMessage J 0 msg w)"

definition js_connection :: "js_entry \<Rightarrow> connection" where
  "js_connection en = \<lparr>cn_pc = en_pc en, cn_pending = en_pendingCandidates en, cn_described = en_descSet en\<rparr>"

definition entry_at :: "js_rtc \<Rightarrow> ref \<Rightarrow> js_entry" where
  "entry_at w a = (case js_map w a of None \<Rightarrow> new_entry [] | Some e \<Rightarrow> js_entries w e)"

definition js_view :: "js_rtc \<Rightarrow> negotiation_state" where
  "js_view w =
     \<lparr>ng_remoteId = js_remoteId w, ng_limit = js_maxInboundConnections w, ng_count = js_inboundCount w,
      ng_peers = (\<lambda>s. map_option (\<lambda>a. js_connection (entry_at w a)) (js_peers w s))\<rparr>"

definition js_invar :: "js_rtc \<Rightarrow> bool" where
  "js_invar w \<longleftrightarrow> jr_inv w \<and> js_alive w \<and> (\<forall>s a. js_peers w s = Some a \<longrightarrow> js_map w a \<noteq> None) \<and>
     (\<forall>e. en_promises (js_entries w e) = 0)"

lemma js_prompt_settled: "js_invar w \<Longrightarrow> js_prompt w = w"
  by (simp add: js_invar_def js_prompt_def resolved_def)

lemma prompt_set_entry:
  assumes "js_invar w"
  shows "js_prompt (set_entry e f w) = set_entry e (\<lambda>en. resolved (f en)) w"
  using assms by (auto simp: js_invar_def js_prompt_def set_entry_def resolved_def fun_eq_iff)

lemma js_set_view:
  assumes "js_invar w" and "js_peers w s = Some a" and "js_map w a = Some e"
    and "\<And>en. en_promises en = 0 \<Longrightarrow> js_connection (f en) = g (js_connection en) \<and> en_closed (f en) = en_closed en \<and> en_promises (f en) = 0"
  shows "js_view (set_entry e f w) = ng_update s g (js_view w)" "js_invar (set_entry e f w)"
proof -
  have w: "jr_inv w" "js_alive w" "\<And>e. en_promises (js_entries w e) = 0" using assms(1) by (simp_all add: js_invar_def)
  note f = assms(4)[OF w(3)]
  have inj: "t = s" if "js_peers w t = Some b" "js_map w b = Some e" for t b
    using that assms(2,3) w unfolding jr_inv_def map_ok_def count_ok_def by (metis option.inject)
  have at: "entry_at (set_entry e f w) b = (if js_map w b = Some e then f (js_entries w e) else entry_at w b)" for b
    by (auto simp: entry_at_def set_entry_def split: option.splits)
  have "map_option (\<lambda>b. js_connection (entry_at (set_entry e f w) b)) (js_peers w t) =
      (if t = s then map_option g (map_option (\<lambda>b. js_connection (entry_at w b)) (js_peers w s))
       else map_option (\<lambda>b. js_connection (entry_at w b)) (js_peers w t))" for t
  proof (cases "t = s")
    case True
    then show ?thesis using assms(2,3) f by (simp add: at) (simp add: entry_at_def)
  next
    case False
    then show ?thesis using inj[of t] by (cases "js_peers w t") (auto simp: at)
  qed
  then show "js_view (set_entry e f w) = ng_update s g (js_view w)"
    by (simp add: js_view_def ng_update_def fun_eq_iff) (simp add: set_entry_def)
  have "jr_inv (set_entry e f w)" using set_entry_inv[OF w(1)] f by simp
  then show "js_invar (set_entry e f w)" using assms(1) f by (auto simp: js_invar_def set_entry_def)
qed

lemma js_offer:
  assumes "js_invar w" and "c_string sdp = sdp"
  shows "js_view (js_prompt (js_on_offer hint s sdp w)) = ng_offer s sdp (js_view w)" "js_invar (js_prompt (js_on_offer hint s sdp w))"
proof -
  have w: "jr_inv w" "js_alive w" "\<And>e. en_promises (js_entries w e) = 0" "\<And>t b. js_peers w t = Some b \<Longrightarrow> js_map w b \<noteq> None"
    using assms(1) by (simp_all add: js_invar_def)
  let ?w = "js_prompt (js_on_offer hint s sdp w)"
  have i: "jr_inv ?w"
    using offer_inv[OF w(1), of hint s sdp] jr_cong[of ?w "js_on_offer hint s sdp w"]
    by (simp add: jr_inv_def js_prompt_def resolved_def remote_resolved_def Let_def)
  show "js_view ?w = ng_offer s sdp (js_view w)" "js_invar ?w"
  proof (atomize (full), cases "js_inboundCount w < js_maxInboundConnections w")
    case False
    then have "js_on_offer hint s sdp w = w" by (simp add: js_on_offer_def)
    then show "js_view ?w = ng_offer s sdp (js_view w) \<and> js_invar ?w"
      using False assms(1) js_prompt_settled[OF assms(1)] by (simp add: ng_offer_def js_view_def)
  next
    case True
    define a where "a = alloc_peer hint w"
    note al = alloc_free[OF w(1), of hint, folded a_def]
    let ?en = "(new_entry (BuildIceJson (js_iceServers w)))\<lparr>en_promises := 0, en_descSet := True, en_pc := [SetRemote sdp OfferDesc]\<rparr>"
    have f: "js_peers ?w = (js_peers w)(s \<mapsto> a)" "js_map ?w = (js_map w)(a \<mapsto> js_nextEntry w)"
      "js_entries ?w = (js_entries w)(js_nextEntry w := ?en)" "js_alive ?w" "js_remoteId ?w = js_remoteId w"
      "js_maxInboundConnections ?w = js_maxInboundConnections w" "js_inboundCount ?w = Suc (js_inboundCount w)"
      using True w(2,3) assms(2)
      by (auto simp: js_on_offer_def Js_HandleOffer_def JsRtcPc_SetupAnswerer_def add_entry_def new_peer_def js_prompt_def
          resolved_def remote_resolved_def new_entry_def fun_eq_iff Let_def simp flip: a_def)
    have e: "js_map w b \<noteq> Some (js_nextEntry w)" for b using w(1) by (auto simp: jr_inv_def map_ok_def)
    have "entry_at ?w b = (if b = a then ?en else entry_at w b)" for b
      using e[of b] by (auto simp: entry_at_def f split: option.splits)
    moreover have "js_peers w t \<noteq> Some a" for t using al(2) w(4)[of t a] by auto
    ultimately have "map_option (\<lambda>b. js_connection (entry_at ?w b)) (js_peers ?w t) =
        (if t = s then Some (js_connection ?en) else map_option (\<lambda>b. js_connection (entry_at w b)) (js_peers w t))" for t
      by (cases "js_peers w t") (auto simp: f)
    then have "js_view ?w = ng_offer s sdp (js_view w)"
      using True by (simp add: js_view_def ng_offer_def f fun_eq_iff) (simp add: js_connection_def cn_describe_def new_entry_def)
    moreover have "js_invar ?w" using i f w by (auto simp: js_invar_def)
    ultimately show "js_view ?w = ng_offer s sdp (js_view w) \<and> js_invar ?w" ..
  qed
qed

lemma js_answer:
  assumes "js_invar w" and "js_remoteId w \<noteq> []" and "c_string sdp = sdp"
  shows "js_view (js_prompt (js_on_answer s sdp w)) = ng_update s (cn_describe sdp AnswerDesc) (js_view w)"
    "js_invar (js_prompt (js_on_answer s sdp w))"
proof (atomize (full), cases "js_peers w s")
  case None
  then show "js_view (js_prompt (js_on_answer s sdp w)) = ng_update s (cn_describe sdp AnswerDesc) (js_view w) \<and>
      js_invar (js_prompt (js_on_answer s sdp w))"
    using assms js_prompt_settled[OF assms(1)] by (simp add: js_on_answer_def js_isOfferer_def ng_update_absent js_view_def)
next
  case (Some a)
  then obtain e where e: "js_map w a = Some e" using assms(1) unfolding js_invar_def by blast
  let ?f = "\<lambda>en. resolved (en\<lparr>en_pc := en_pc en @ [SetRemote sdp AnswerDesc], en_promises := Suc (en_promises en)\<rparr>)"
  have "js_prompt (js_on_answer s sdp w) = set_entry e ?f w"
    using assms Some e prompt_set_entry[OF assms(1)] by (simp add: js_on_answer_def js_isOfferer_def JsRtcPc_SetRemoteAnswer_def)
  moreover have "js_connection (?f en) = cn_describe sdp AnswerDesc (js_connection en) \<and> en_closed (?f en) = en_closed en \<and>
      en_promises (?f en) = 0" if "en_promises en = 0" for en
    using that by (simp add: resolved_def remote_resolved_def js_connection_def cn_describe_def Let_def)
  ultimately show "js_view (js_prompt (js_on_answer s sdp w)) = ng_update s (cn_describe sdp AnswerDesc) (js_view w) \<and>
      js_invar (js_prompt (js_on_answer s sdp w))"
    using js_set_view[OF assms(1) Some e, of ?f "cn_describe sdp AnswerDesc"] by simp
qed

lemma js_cand:
  assumes "js_invar w" and "c_string cand = cand" and "c_string mid = mid"
  shows "js_view (js_prompt (js_on_candidate s cand mid w)) = ng_update s (cn_candidate cand mid) (js_view w)"
    "js_invar (js_prompt (js_on_candidate s cand mid w))"
proof (atomize (full), cases "js_peers w s")
  case None
  then show "js_view (js_prompt (js_on_candidate s cand mid w)) = ng_update s (cn_candidate cand mid) (js_view w) \<and>
      js_invar (js_prompt (js_on_candidate s cand mid w))"
    using assms js_prompt_settled[OF assms(1)] by (simp add: js_on_candidate_def ng_update_absent js_view_def)
next
  case (Some a)
  then obtain e where e: "js_map w a = Some e" using assms(1) unfolding js_invar_def by blast
  let ?f = "\<lambda>en. resolved (if en_descSet en then en\<lparr>en_pc := en_pc en @ [AddCandidate cand mid]\<rparr>
            else en\<lparr>en_pendingCandidates := en_pendingCandidates en @ [(cand, mid)]\<rparr>)"
  have "js_prompt (js_on_candidate s cand mid w) = set_entry e ?f w"
    using assms Some e prompt_set_entry[OF assms(1)] by (simp add: js_on_candidate_def JsRtcPc_AddIceCandidate_def cong: if_cong)
  moreover have "js_connection (?f en) = cn_candidate cand mid (js_connection en) \<and> en_closed (?f en) = en_closed en \<and>
      en_promises (?f en) = 0" if "en_promises en = 0" for en
    using that by (simp add: resolved_def js_connection_def cn_candidate_def)
  ultimately show "js_view (js_prompt (js_on_candidate s cand mid w)) = ng_update s (cn_candidate cand mid) (js_view w) \<and>
      js_invar (js_prompt (js_on_candidate s cand mid w))"
    using js_set_view[OF assms(1) Some e, of ?f "cn_candidate cand mid"] by simp
qed


interpretation browser_rtc: negotiator js_receive js_view js_invar
proof
  fix s :: js_rtc and J :: "'j json_api" and msg
  assume i: "js_invar s" and p: "plain_message J (ng_remoteId (js_view s)) msg"
  have v: "ng_remoteId (js_view s) = js_remoteId s" "ng_count (js_view s) = js_inboundCount s"
    "ng_limit (js_view s) = js_maxInboundConnections s" by (simp_all add: js_view_def)
  have a: "map_option js_view (map_option js_prompt (map_option f x)) = map_option g x"
    if "\<And>y. x = Some y \<Longrightarrow> js_view (js_prompt (f y)) = g y" for f g and x :: "string option"
    using that by (cases x) simp_all
  show "map_option js_view (js_receive J msg s) = ng_message J msg (js_view s)"
  proof (cases "j_parse J (sm_payload msg)")
    case (Some j)
    then show ?thesis
      using p js_prompt_settled[OF i]
      by (auto simp: js_receive_def JsRtc_OnMessage_def ng_message_def plain_message_def v js_isOfferer_def js_offer[OF i]
          js_answer[OF i] js_cand[OF i] simp del: option.map_comp intro!: a split: option.splits)
  qed (use js_prompt_settled[OF i] in \<open>simp add: js_receive_def JsRtc_OnMessage_def ng_message_def\<close>)
next
  fix s s' :: js_rtc and J :: "'j json_api" and msg
  assume i: "js_invar s" "plain_message J (ng_remoteId (js_view s)) msg" "js_receive J msg s = Some s'"
  then show "js_invar s'"
    using js_prompt_settled[OF i(1)]
    by (auto simp: js_receive_def JsRtc_OnMessage_def plain_message_def js_isOfferer_def js_offer js_answer js_cand
        split: option.splits if_splits)
qed

lemma Open_views:
  "dc_invar (snd (DcRtcTransport_Open options (Inr ())))" "js_invar (snd (JsRtcTransport_Open options (Inr ())))"
  "dc_view (snd (DcRtcTransport_Open options (Inr ()))) = js_view (snd (JsRtcTransport_Open options (Inr ())))"
  "ng_remoteId (js_view (snd (JsRtcTransport_Open options (Inr ())))) = ro_remoteId options"
proof -
  show "dc_invar (snd (DcRtcTransport_Open options (Inr ())))"
    by (simp add: DcRtcTransport_Open_def onJoined_def new_rtc_state_def isOfferer_def OpenOfferer_def add_link_def set_dc_def
        new_DcRtcLink_def dc_invar_def Let_def)
  show "js_invar (snd (JsRtcTransport_Open options (Inr ())))"
    unfolding js_invar_def
  proof (intro conjI Open_inv)
    let ?w = "snd (JsRtcTransport_Open options (Inr ()))"
    show "js_alive ?w" "\<forall>s a. js_peers ?w s = Some a \<longrightarrow> js_map ?w a \<noteq> None" "\<forall>e. en_promises (js_entries ?w e) = 0"
      by (auto simp: JsRtcTransport_Open_def js_onJoined_def new_js_rtc_def js_isOfferer_def Js_OpenOfferer_def
        JsRtcPc_SetupOfferer_def add_entry_def new_peer_def new_entry_def alloc_peer_def Let_def split: if_splits)
  qed
  show "dc_view (snd (DcRtcTransport_Open options (Inr ()))) = js_view (snd (JsRtcTransport_Open options (Inr ())))"
    by (simp add: DcRtcTransport_Open_def onJoined_def new_rtc_state_def isOfferer_def OpenOfferer_def add_link_def set_dc_def
        new_DcRtcLink_def dc_view_def JsRtcTransport_Open_def js_onJoined_def new_js_rtc_def js_isOfferer_def
        Js_OpenOfferer_def JsRtcPc_SetupOfferer_def add_entry_def new_peer_def new_entry_def alloc_peer_def js_view_def
        entry_at_def dc_connection_def js_connection_def fun_eq_iff Let_def)
  show "ng_remoteId (js_view (snd (JsRtcTransport_Open options (Inr ())))) = ro_remoteId options"
    by (simp add: JsRtcTransport_Open_def js_onJoined_def new_js_rtc_def js_isOfferer_def
        Js_OpenOfferer_def JsRtcPc_SetupOfferer_def add_entry_def new_peer_def js_view_def Let_def)
qed

lemma rtc_receive_fold: "rtc_receive J msgs w = fold_option (RtcOnMessage J) msgs w"
  by (induction msgs arbitrary: w) (simp_all split: option.splits)

section \<open>Properties\<close>




end
