(* ===== verification/Js_Ws_Client.thy ===== *)
theory Js_Ws_Client
  imports Ws_Signaling
begin

text \<open>
  \<open>pkg/rtt/rtc/Rtt/Rtc/Js/JsWsSigClient.cpp\<close>: the WebSocket signalling client of the browser build.

  A \<open>Join\<close> allocates a context on the heap and gives its address to JavaScript, where a map
  (\<open>Module._rtt_wsMap\<close>, \<open>jw_map\<close>) takes addresses to sockets and every event handler of a socket has captured
  the address (\<open>jw_closure\<close>). Once open the context belongs to the user object, whose destructor frees it.
  A freed address may be used again by a later \<open>Join\<close>, so an event of an old socket may find a newer context
  under its address. \<open>None\<close> is undefined behaviour or an uncaught exception: access to a freed context, a call of an
  empty \<open>std::function\<close>, \<open>WebSocket.send\<close> before the socket is open.

  Everything runs on the browser's one thread, so an event is handled to its end before the next one. \<open>Join\<close> calls,
  their sockets and the users made from them have the same number (\<open>cx_join\<close> is a ghost). The calls made to the
  application are logged with it.
\<close>

section \<open>State\<close>

datatype ready_state = CONNECTING | OPEN | CLOSING | CLOSED

record js_socket =
  sk_url :: string
  sk_ready :: ready_state
  sk_failed :: bool
  sk_ended :: bool
  sk_sent :: "string list"

record js_ctx =
  cx_id :: string
  cx_onJoined :: bool
  cx_handler :: "ref option"
  cx_fired :: bool
  cx_leaving :: bool
  cx_join :: ref

record js_user =
  ju_id :: string
  ju_ctx :: ref

record js_ws =
  jw_map :: "ref \<rightharpoonup> ref"
  jw_sockets :: "ref \<Rightarrow> js_socket"
  jw_closure :: "ref \<Rightarrow> ref"
  jw_next :: ref
  jw_ctx :: "ref \<rightharpoonup> js_ctx"
  jw_fresh :: ref
  jw_users :: "ref \<rightharpoonup> js_user"
  jw_handlerAlive :: "ref \<Rightarrow> bool"
  jw_calls :: "(ref \<times> sig_call) list"

definition new_js_socket :: "string \<Rightarrow> js_socket" where
  "new_js_socket url = \<lparr>sk_url = url, sk_ready = CONNECTING, sk_failed = False, sk_ended = False, sk_sent = []\<rparr>"

definition new_js_ws :: "(ref \<Rightarrow> bool) \<Rightarrow> js_ws" where
  "new_js_ws handlers =
     \<lparr>jw_map = Map.empty, jw_sockets = (\<lambda>_. new_js_socket []), jw_closure = (\<lambda>_. 0), jw_next = 0, jw_ctx = Map.empty,
      jw_fresh = 0, jw_users = Map.empty, jw_handlerAlive = handlers, jw_calls = []\<rparr>"

definition set_js_socket :: "ref \<Rightarrow> (js_socket \<Rightarrow> js_socket) \<Rightarrow> js_ws \<Rightarrow> js_ws" where
  "set_js_socket s f w = w\<lparr>jw_sockets := (jw_sockets w)(s := f (jw_sockets w s))\<rparr>"

definition js_call :: "ref \<Rightarrow> sig_call \<Rightarrow> js_ws \<Rightarrow> js_ws" where
  "js_call n c w = w\<lparr>jw_calls := jw_calls w @ [(n, c)]\<rparr>"

definition js_lock :: "(ref \<Rightarrow> bool) \<Rightarrow> ref option \<Rightarrow> ref option" where
  "js_lock alive h = (case h of None \<Rightarrow> None | Some x \<Rightarrow> if alive x then Some x else None)"

section \<open>JavaScript side\<close>

text \<open>\<open>WebSocket.send\<close> throws before the socket is open and discards the data once it is closing.\<close>

definition js_socket_send :: "string \<Rightarrow> js_socket \<Rightarrow> js_socket option" where
  "js_socket_send frame k =
     (case sk_ready k of
        CONNECTING \<Rightarrow> None
      | OPEN \<Rightarrow> Some (k\<lparr>sk_sent := sk_sent k @ [frame]\<rparr>)
      | _ \<Rightarrow> Some k)"

definition js_socket_close :: "js_socket \<Rightarrow> js_socket" where
  "js_socket_close k =
     (if sk_ready k = OPEN \<or> sk_ready k = CONNECTING then k\<lparr>sk_ready := CLOSING\<rparr> else k)"

definition JsWsContext_Connect :: "ref \<Rightarrow> string \<Rightarrow> js_ws \<Rightarrow> js_ws" where
  "JsWsContext_Connect ctx url w =
     (let s = jw_next w
      in w\<lparr>jw_next := Suc s, jw_sockets := (jw_sockets w)(s := new_js_socket (c_string url)),
           jw_closure := (jw_closure w)(s := ctx), jw_map := (jw_map w)(ctx \<mapsto> s)\<rparr>)"

definition JsWsContext_Send :: "'j json_api \<Rightarrow> ref \<Rightarrow> string \<Rightarrow> string \<Rightarrow> js_ws \<Rightarrow> js_ws option" where
  "JsWsContext_Send J ctx to payload w =
     (case jw_map w ctx of
        None \<Rightarrow> Some w
      | Some s \<Rightarrow>
          map_option (\<lambda>k. set_js_socket s (\<lambda>_. k) w)
            (js_socket_send (envelope J (c_string to) (c_string payload)) (jw_sockets w s)))"

definition JsWsContext_Close :: "ref \<Rightarrow> js_ws \<Rightarrow> js_ws" where
  "JsWsContext_Close ctx w =
     (case jw_map w ctx of
        None \<Rightarrow> w
      | Some s \<Rightarrow> set_js_socket s js_socket_close (w\<lparr>jw_map := (jw_map w)(ctx := None)\<rparr>))"

section \<open>User and context\<close>

definition free_ctx :: "ref \<Rightarrow> js_ws \<Rightarrow> js_ws option" where
  "free_ctx ctx w = (if jw_ctx w ctx = None then None else Some (w\<lparr>jw_ctx := (jw_ctx w)(ctx := None)\<rparr>))"

definition JsWsSigUser_Send :: "'j json_api \<Rightarrow> js_user \<Rightarrow> string \<Rightarrow> string \<Rightarrow> js_ws \<Rightarrow> js_ws option" where
  "JsWsSigUser_Send J us to payload w = JsWsContext_Send J (ju_ctx us) to payload w"

definition JsWsSigUser_destroy :: "js_user \<Rightarrow> js_ws \<Rightarrow> js_ws option" where
  "JsWsSigUser_destroy us w = free_ctx (ju_ctx us) (JsWsContext_Close (ju_ctx us) w)"

definition JsWsSigUser_Leave :: "js_user \<Rightarrow> js_ws \<Rightarrow> js_ws option" where
  "JsWsSigUser_Leave us w =
     (case jw_ctx w (ju_ctx us) of
        None \<Rightarrow> None
      | Some c \<Rightarrow>
          if cx_leaving c then Some w
          else
            let w1 = w\<lparr>jw_ctx := (jw_ctx w)(ju_ctx us \<mapsto> c\<lparr>cx_leaving := True\<rparr>)\<rparr>;
                h = js_lock (jw_handlerAlive w1) (cx_handler c);
                w2 = JsWsContext_Close (ju_ctx us) w1
            in (case h of None \<Rightarrow> Some w2 | Some x \<Rightarrow> Some (js_call (cx_join c) (CcLeft x LeftClean) w2)))"

text \<open>What the application does with a user it was given.\<close>

datatype js_act = JaSend string string | JaLeave | JaDrop

definition user_act :: "'j json_api \<Rightarrow> ref \<Rightarrow> js_act \<Rightarrow> js_ws \<Rightarrow> js_ws option" where
  "user_act J u act w =
     (case jw_users w u of
        None \<Rightarrow> Some w
      | Some us \<Rightarrow>
          (case act of
             JaSend to payload \<Rightarrow> JsWsSigUser_Send J us to payload w
           | JaLeave \<Rightarrow> JsWsSigUser_Leave us w
           | JaDrop \<Rightarrow> JsWsSigUser_destroy us (w\<lparr>jw_users := (jw_users w)(u := None)\<rparr>)))"

fun user_acts :: "'j json_api \<Rightarrow> ref \<Rightarrow> js_act list \<Rightarrow> js_ws \<Rightarrow> js_ws option" where
  "user_acts J u [] w = Some w"
| "user_acts J u (a # as) w = (case user_act J u a w of None \<Rightarrow> None | Some w1 \<Rightarrow> user_acts J u as w1)"

text \<open>
  \<open>OnOpen\<close>: the join handler is given the user, does \<open>acts\<close> with it and returns \<open>h\<close>, which is then stored in
  the context. When \<open>OnOpen\<close> does nothing its argument, the only reference to the new user, is destroyed.
\<close>

definition JsWsCtx_OnOpen ::
  "'j json_api \<Rightarrow> js_act list \<Rightarrow> ref option \<Rightarrow> ref \<Rightarrow> js_ctx \<Rightarrow> js_user \<Rightarrow> js_ws \<Rightarrow> js_ws option" where
  "JsWsCtx_OnOpen J acts h ctx c us w =
     (if cx_fired c then JsWsSigUser_destroy us w
      else if \<not> cx_onJoined c then None
      else
        let n = cx_join c;
            w1 = w\<lparr>jw_ctx := (jw_ctx w)(ctx \<mapsto> c\<lparr>cx_fired := True\<rparr>), jw_users := (jw_users w)(n \<mapsto> us)\<rparr>
        in case user_acts J n acts (js_call n Joined w1) of
             None \<Rightarrow> None
           | Some w2 \<Rightarrow>
               (case jw_ctx w2 ctx of
                  None \<Rightarrow> None
                | Some c2 \<Rightarrow>
                    Some (w2\<lparr>jw_ctx := (jw_ctx w2)(ctx \<mapsto> c2\<lparr>cx_handler := h, cx_onJoined := False\<rparr>)\<rparr>)))"

definition JsWsContext_OnOpen ::
  "'j json_api \<Rightarrow> js_act list \<Rightarrow> ref option \<Rightarrow> ref \<Rightarrow> js_ws \<Rightarrow> js_ws option" where
  "JsWsContext_OnOpen J acts h ctx w =
     (case jw_ctx w ctx of
        None \<Rightarrow> None
      | Some c \<Rightarrow> JsWsCtx_OnOpen J acts h ctx c \<lparr>ju_id = cx_id c, ju_ctx = ctx\<rparr> w)"

definition JsWsContext_OnError :: "ref \<Rightarrow> js_ws \<Rightarrow> js_ws option" where
  "JsWsContext_OnError ctx w =
     (case jw_ctx w ctx of
        None \<Rightarrow> None
      | Some c \<Rightarrow>
          if cx_fired c then Some w
          else if \<not> cx_onJoined c then None
          else free_ctx ctx (js_call (cx_join c) (JoinFailed ConnectionRefused) w))"

definition JsWsContext_OnClose :: "ref \<Rightarrow> js_ws \<Rightarrow> js_ws option" where
  "JsWsContext_OnClose ctx w =
     (case jw_ctx w ctx of
        None \<Rightarrow> None
      | Some c \<Rightarrow>
          if cx_leaving c then Some w
          else
            (case js_lock (jw_handlerAlive w) (cx_handler c) of
               None \<Rightarrow> Some w
             | Some x \<Rightarrow> Some (js_call (cx_join c) (CcLeft x LeftConnectionLost) w)))"

definition JsWsContext_OnMessage :: "ref \<Rightarrow> string \<Rightarrow> string \<Rightarrow> js_ws \<Rightarrow> js_ws option" where
  "JsWsContext_OnMessage ctx fromId payload w =
     (case jw_ctx w ctx of
        None \<Rightarrow> None
      | Some c \<Rightarrow>
          (case js_lock (jw_handlerAlive w) (cx_handler c) of
             None \<Rightarrow> Some w
           | Some x \<Rightarrow>
               Some (js_call (cx_join c) (CcMessage x \<lparr>sm_from = c_string fromId, sm_payload = c_string payload\<rparr>) w)))"

section \<open>Event handlers of a socket\<close>

definition ws_onerror :: "ref \<Rightarrow> js_ws \<Rightarrow> js_ws option" where
  "ws_onerror s w =
     (let ctx = jw_closure w s
      in if jw_map w ctx \<noteq> Some s then Some w
         else JsWsContext_OnError ctx (w\<lparr>jw_map := (jw_map w)(ctx := None)\<rparr>))"

definition ws_onclose :: "ref \<Rightarrow> js_ws \<Rightarrow> js_ws option" where
  "ws_onclose s w =
     (let ctx = jw_closure w s
      in if jw_map w ctx \<noteq> Some s then Some w
         else JsWsContext_OnClose ctx (w\<lparr>jw_map := (jw_map w)(ctx := None)\<rparr>))"

definition ws_onopen :: "'j json_api \<Rightarrow> js_act list \<Rightarrow> ref option \<Rightarrow> ref \<Rightarrow> js_ws \<Rightarrow> js_ws option" where
  "ws_onopen J acts h s w = JsWsContext_OnOpen J acts h (jw_closure w s) w"

text \<open>\<open>JSON.parse\<close> and the two members \<open>msg.id || ""\<close>, \<open>msg.payload || ""\<close>; an exception means an ignored frame.\<close>

definition js_envelope :: "'j json_api \<Rightarrow> string \<Rightarrow> (string \<times> string) option" where
  "js_envelope J frame =
     (case j_parse J frame of
        None \<Rightarrow> None
      | Some msg \<Rightarrow>
          (case (j_value J msg ''id'' [], j_value J msg ''payload'' []) of
             (Some x, Some y) \<Rightarrow> Some (x, y)
           | _ \<Rightarrow> None))"

definition ws_onmessage :: "'j json_api \<Rightarrow> string \<Rightarrow> ref \<Rightarrow> js_ws \<Rightarrow> js_ws option" where
  "ws_onmessage J frame s w =
     (let ctx = jw_closure w s
      in if jw_map w ctx \<noteq> Some s then Some w
         else
           (case js_envelope J frame of
              None \<Rightarrow> Some w
            | Some (x, y) \<Rightarrow> JsWsContext_OnMessage ctx x y w))"

text \<open>
  \<open>Join\<close>. The allocator gives the address \<open>hint\<close> when it has been freed, and otherwise one never used before,
  which covers all its choices up to the naming of addresses.
\<close>

definition alloc_ctx :: "ref \<Rightarrow> js_ws \<Rightarrow> ref" where
  "alloc_ctx hint w = (if hint < jw_fresh w \<and> jw_ctx w hint = None then hint else jw_fresh w)"

definition JsWsSigClient_Join :: "ws_options \<Rightarrow> string \<Rightarrow> ref \<Rightarrow> js_ws \<Rightarrow> js_ws" where
  "JsWsSigClient_Join options lid hint w =
     (let url = ''ws://'' @ wo_host options @ '':'' @ digits (unat (wo_port options)) @ ''/'' @ lid;
          ctx = alloc_ctx hint w;
          w1 = w\<lparr>jw_fresh := max (jw_fresh w) (Suc ctx),
                 jw_ctx := (jw_ctx w)(ctx \<mapsto> \<lparr>cx_id = lid, cx_onJoined = True, cx_handler = None, cx_fired = False,
                   cx_leaving = False, cx_join = jw_next w\<rparr>)\<rparr>
      in JsWsContext_Connect ctx url w1)"

section \<open>Sequences of events\<close>

text \<open>
  The events of the application and the browser. The browser opens a socket only while it is connecting,
  gives messages only while it is open, reports an error at most once and before the close event, closes a
  connecting socket only after an error, and is silent after the close event.
\<close>

datatype jw_event =
    JeJoin string ref
  | JeOpen ref "js_act list" "ref option"
  | JeError ref
  | JeClose ref
  | JeMessage ref string
  | JeUser ref js_act
  | JeHandlerGone ref

definition may_open :: "js_socket \<Rightarrow> bool" where
  "may_open k \<longleftrightarrow> sk_ready k = CONNECTING"

definition may_fail :: "js_socket \<Rightarrow> bool" where
  "may_fail k \<longleftrightarrow> \<not> sk_failed k \<and> \<not> sk_ended k"

definition may_end :: "js_socket \<Rightarrow> bool" where
  "may_end k \<longleftrightarrow> \<not> sk_ended k \<and> sk_ready k \<noteq> CONNECTING"

fun js_apply :: "'j json_api \<Rightarrow> ws_options \<Rightarrow> jw_event \<Rightarrow> js_ws \<Rightarrow> js_ws option" where
  "js_apply J options (JeJoin lid hint) w = Some (JsWsSigClient_Join options lid hint w)"
| "js_apply J options (JeOpen s acts h) w =
     (if s < jw_next w \<and> may_open (jw_sockets w s)
      then ws_onopen J acts h s (set_js_socket s (\<lambda>k. k\<lparr>sk_ready := OPEN\<rparr>) w) else Some w)"
| "js_apply J options (JeError s) w =
     (if s < jw_next w \<and> may_fail (jw_sockets w s)
      then ws_onerror s (set_js_socket s (\<lambda>k. k\<lparr>sk_ready := CLOSED, sk_failed := True\<rparr>) w) else Some w)"
| "js_apply J options (JeClose s) w =
     (if s < jw_next w \<and> may_end (jw_sockets w s)
      then ws_onclose s (set_js_socket s (\<lambda>k. k\<lparr>sk_ready := CLOSED, sk_ended := True\<rparr>) w) else Some w)"
| "js_apply J options (JeMessage s frame) w =
     (if s < jw_next w \<and> sk_ready (jw_sockets w s) = OPEN then ws_onmessage J frame s w else Some w)"
| "js_apply J options (JeUser u act) w = user_act J u act w"
| "js_apply J options (JeHandlerGone h) w = Some (w\<lparr>jw_handlerAlive := (jw_handlerAlive w)(h := False)\<rparr>)"

fun js_run :: "'j json_api \<Rightarrow> ws_options \<Rightarrow> jw_event list \<Rightarrow> js_ws \<Rightarrow> js_ws option" where
  "js_run J options [] w = Some w"
| "js_run J options (e # es) w = (case js_apply J options e w of None \<Rightarrow> None | Some w1 \<Rightarrow> js_run J options es w1)"

end
