(* ===== verification/Js_Ws_Sessions.thy ===== *)
theory Js_Ws_Sessions
  imports Js_Ws_Client
begin

text \<open>
  The signalling client of the browser build (\<open>Js_Ws_Client\<close>) as a set of sessions: the specification of one
  \<open>Join\<close> without addresses, the abstraction of a state of the client to its sessions, the invariant on the ownership of
  contexts, and the simulation of every event.
\<close>

section \<open>Sessions\<close>

text \<open>
  What a \<open>Join\<close> promises, without addresses and without a map: a session is connecting, open, closed (the user
  is still there) or over, whatever other sessions do.
\<close>

datatype sess_phase = SsConnecting | SsOpen | SsClosed | SsOver

record session =
  ss_phase :: sess_phase
  ss_socket :: js_socket
  ss_handler :: "ref option"
  ss_leaving :: bool
  ss_calls :: "sig_call list"

record session_set =
  sw_next :: ref
  sw_alive :: "ref \<Rightarrow> bool"
  sw_sess :: "ref \<Rightarrow> session"

definition new_session :: "string \<Rightarrow> session" where
  "new_session url =
     \<lparr>ss_phase = SsConnecting, ss_socket = new_js_socket url, ss_handler = None, ss_leaving = False, ss_calls = []\<rparr>"

definition sess_close :: "session \<Rightarrow> session" where
  "sess_close x = (if ss_phase x = SsOpen then x\<lparr>ss_phase := SsClosed, ss_socket := js_socket_close (ss_socket x)\<rparr> else x)"

definition sess_report :: "(ref \<Rightarrow> bool) \<Rightarrow> (ref \<Rightarrow> sig_call) \<Rightarrow> session \<Rightarrow> session" where
  "sess_report alive c x =
     (case js_lock alive (ss_handler x) of None \<Rightarrow> x | Some h \<Rightarrow> x\<lparr>ss_calls := ss_calls x @ [c h]\<rparr>)"

definition sess_send :: "string \<Rightarrow> session \<Rightarrow> session" where
  "sess_send frame x =
     (if ss_phase x = SsOpen \<and> sk_ready (ss_socket x) = OPEN
      then x\<lparr>ss_socket := (ss_socket x)\<lparr>sk_sent := sk_sent (ss_socket x) @ [frame]\<rparr>\<rparr> else x)"

fun sess_act :: "'j json_api \<Rightarrow> (ref \<Rightarrow> bool) \<Rightarrow> js_act \<Rightarrow> session \<Rightarrow> session" where
  "sess_act J alive (JaSend to payload) x = sess_send (envelope J (c_string to) (c_string payload)) x"
| "sess_act J alive JaLeave x =
     (if (ss_phase x = SsOpen \<or> ss_phase x = SsClosed) \<and> \<not> ss_leaving x
      then sess_report alive (\<lambda>h. CcLeft h LeftClean) (sess_close (x\<lparr>ss_leaving := True\<rparr>)) else x)"
| "sess_act J alive JaDrop x =
     (if ss_phase x = SsOpen \<or> ss_phase x = SsClosed
      then (sess_close x)\<lparr>ss_phase := SsOver, ss_handler := None, ss_leaving := False\<rparr> else x)"

definition sess_open :: "'j json_api \<Rightarrow> (ref \<Rightarrow> bool) \<Rightarrow> js_act list \<Rightarrow> ref option \<Rightarrow> session \<Rightarrow> session" where
  "sess_open J alive acts h x =
     (if ss_phase x = SsConnecting
      then (fold (sess_act J alive) acts
              (x\<lparr>ss_phase := SsOpen, ss_socket := (ss_socket x)\<lparr>sk_ready := OPEN\<rparr>, ss_calls := ss_calls x @ [Joined]\<rparr>))
             \<lparr>ss_handler := h\<rparr>
      else x)"

definition sess_error :: "session \<Rightarrow> session" where
  "sess_error x =
     (if may_fail (ss_socket x)
      then let x1 = x\<lparr>ss_socket := (ss_socket x)\<lparr>sk_ready := CLOSED, sk_failed := True\<rparr>\<rparr>
           in (case ss_phase x of
                 SsConnecting \<Rightarrow> x1\<lparr>ss_phase := SsOver, ss_calls := ss_calls x @ [JoinFailed ConnectionRefused]\<rparr>
               | SsOpen \<Rightarrow> x1\<lparr>ss_phase := SsClosed\<rparr>
               | _ \<Rightarrow> x1)
      else x)"

definition sess_end :: "(ref \<Rightarrow> bool) \<Rightarrow> session \<Rightarrow> session" where
  "sess_end alive x =
     (if may_end (ss_socket x)
      then let x1 = x\<lparr>ss_socket := (ss_socket x)\<lparr>sk_ready := CLOSED, sk_ended := True\<rparr>\<rparr>
           in if ss_phase x = SsOpen
              then sess_report alive (\<lambda>h. CcLeft h LeftConnectionLost) (x1\<lparr>ss_phase := SsClosed\<rparr>) else x1
      else x)"

definition sess_message :: "'j json_api \<Rightarrow> (ref \<Rightarrow> bool) \<Rightarrow> string \<Rightarrow> session \<Rightarrow> session" where
  "sess_message J alive frame x =
     (if ss_phase x = SsOpen \<and> sk_ready (ss_socket x) = OPEN
      then (case js_envelope J frame of
              None \<Rightarrow> x
            | Some (p, q) \<Rightarrow>
                sess_report alive (\<lambda>h. CcMessage h \<lparr>sm_from = c_string p, sm_payload = c_string q\<rparr>) x)
      else x)"

definition on_sess :: "ref \<Rightarrow> (session \<Rightarrow> session) \<Rightarrow> session_set \<Rightarrow> session_set" where
  "on_sess n f W = (if n < sw_next W then W\<lparr>sw_sess := (sw_sess W)(n := f (sw_sess W n))\<rparr> else W)"

fun sess_apply :: "'j json_api \<Rightarrow> ws_options \<Rightarrow> jw_event \<Rightarrow> session_set \<Rightarrow> session_set" where
  "sess_apply J options (JeJoin lid hint) W =
     W\<lparr>sw_next := Suc (sw_next W), sw_sess := (sw_sess W)(sw_next W :=
         new_session (c_string (''ws://'' @ wo_host options @ '':'' @ digits (unat (wo_port options)) @ ''/'' @ lid)))\<rparr>"
| "sess_apply J options (JeOpen s acts h) W = on_sess s (sess_open J (sw_alive W) acts h) W"
| "sess_apply J options (JeError s) W = on_sess s sess_error W"
| "sess_apply J options (JeClose s) W = on_sess s (sess_end (sw_alive W)) W"
| "sess_apply J options (JeMessage s frame) W = on_sess s (sess_message J (sw_alive W) frame) W"
| "sess_apply J options (JeUser u act) W = on_sess u (sess_act J (sw_alive W) act) W"
| "sess_apply J options (JeHandlerGone h) W = W\<lparr>sw_alive := (sw_alive W)(h := False)\<rparr>"

definition no_sessions :: "(ref \<Rightarrow> bool) \<Rightarrow> session_set" where
  "no_sessions handlers = \<lparr>sw_next = 0, sw_alive = handlers, sw_sess = (\<lambda>_. (new_session [])\<lparr>ss_phase := SsOver\<rparr>)\<rparr>"

section \<open>The sessions of a state\<close>

definition own_ctx :: "js_ws \<Rightarrow> ref \<Rightarrow> js_ctx option" where
  "own_ctx w n =
     (case jw_ctx w (jw_closure w n) of
        None \<Rightarrow> None
      | Some c \<Rightarrow> if cx_join c = n then Some c else None)"

definition registered :: "js_ws \<Rightarrow> ref \<Rightarrow> bool" where
  "registered w n \<longleftrightarrow> jw_map w (jw_closure w n) = Some n"

definition calls_of :: "ref \<Rightarrow> (ref \<times> sig_call) list \<Rightarrow> sig_call list" where
  "calls_of n cs = map snd (filter (\<lambda>x. fst x = n) cs)"

definition abs_session :: "js_ws \<Rightarrow> ref \<Rightarrow> session" where
  "abs_session w n =
     \<lparr>ss_phase =
        (if jw_users w n \<noteq> None then (if registered w n then SsOpen else SsClosed)
         else if registered w n then SsConnecting else SsOver),
      ss_socket = jw_sockets w n,
      ss_handler = (case own_ctx w n of None \<Rightarrow> None | Some c \<Rightarrow> cx_handler c),
      ss_leaving = (case own_ctx w n of None \<Rightarrow> False | Some c \<Rightarrow> cx_leaving c),
      ss_calls = calls_of n (jw_calls w)\<rparr>"

definition abs_js :: "js_ws \<Rightarrow> session_set" where
  "abs_js w = \<lparr>sw_next = jw_next w, sw_alive = jw_handlerAlive w, sw_sess = abs_session w\<rparr>"

text \<open>
  The invariant. Every context and every entry of the map belongs to the session that its address was captured
  for; and for each session the context is live exactly while it is connecting, with an entry in the map and a
  connecting socket, or owned by its user.
\<close>

definition js_owned :: "js_ws \<Rightarrow> bool" where
  "js_owned w \<longleftrightarrow>
     (\<forall>a s. jw_map w a = Some s \<longrightarrow> s < jw_next w \<and> jw_closure w s = a \<and> own_ctx w s \<noteq> None) \<and>
     (\<forall>a c. jw_ctx w a = Some c \<longrightarrow> a < jw_fresh w \<and> cx_join c < jw_next w \<and> jw_closure w (cx_join c) = a) \<and>
     (\<forall>n \<ge> jw_next w. jw_users w n = None \<and> calls_of n (jw_calls w) = [])"

definition sess_ok :: "ref \<Rightarrow> js_ctx option \<Rightarrow> bool \<Rightarrow> js_user option \<Rightarrow> js_socket \<Rightarrow> bool" where
  "sess_ok a oc reg ou k \<longleftrightarrow>
     (case oc of
        None \<Rightarrow> \<not> reg \<and> ou = None \<and> sk_ready k \<noteq> CONNECTING
      | Some c \<Rightarrow>
          (case ou of
             None \<Rightarrow> \<not> cx_fired c \<and> sk_ready k = CONNECTING \<and> cx_onJoined c \<and> reg \<and> cx_handler c = None \<and> \<not> cx_leaving c \<and>
               \<not> sk_failed k \<and> \<not> sk_ended k
           | Some us \<Rightarrow> cx_fired c \<and> sk_ready k \<noteq> CONNECTING \<and> ju_ctx us = a \<and> \<not> (cx_leaving c \<and> reg)))"

definition js_inv :: "js_ws \<Rightarrow> bool" where
  "js_inv w \<longleftrightarrow> js_owned w \<and>
     (\<forall>n < jw_next w. sess_ok (jw_closure w n) (own_ctx w n) (registered w n) (jw_users w n) (jw_sockets w n))"

lemma calls_of_append [simp]: "calls_of n (xs @ ys) = calls_of n xs @ calls_of n ys"
  by (simp add: calls_of_def)

lemma calls_of_Cons [simp]: "calls_of n ((m, c) # cs) = (if m = n then c # calls_of n cs else calls_of n cs)"
  by (simp add: calls_of_def)

lemma calls_of_Nil [simp]: "calls_of n [] = []"
  by (simp add: calls_of_def)

lemma calls_of_own [simp]: "calls_of m (map (Pair n) cs) = (if m = n then cs else [])"
  by (induction cs) auto

lemma js_inv_new: "js_inv (new_js_ws handlers)"
  by (simp add: js_inv_def js_owned_def new_js_ws_def)

lemma abs_js_new: "abs_js (new_js_ws handlers) = no_sessions handlers"
  by (simp add: abs_js_def new_js_ws_def no_sessions_def fun_eq_iff abs_session_def own_ctx_def registered_def new_session_def)

lemma js_inv_sess:
  assumes "js_inv w" and "n < jw_next w"
  shows "sess_ok (jw_closure w n) (own_ctx w n) (registered w n) (jw_users w n) (jw_sockets w n)"
  using assms by (simp add: js_inv_def)

definition js_sim :: "js_ws option \<Rightarrow> session_set \<Rightarrow> bool" where
  "js_sim r W \<longleftrightarrow> (case r of None \<Rightarrow> False | Some w \<Rightarrow> js_inv w \<and> abs_js w = W)"

text \<open>All that an operation on the live context of session \<open>n\<close> changes; and a change of a socket alone.\<close>

definition upd ::
  "ref \<Rightarrow> js_ctx option \<Rightarrow> bool \<Rightarrow> js_user option \<Rightarrow> js_socket \<Rightarrow> sig_call list \<Rightarrow> js_ws \<Rightarrow> js_ws" where
  "upd n oc reg ou k cs w =
     w\<lparr>jw_ctx := (jw_ctx w)(jw_closure w n := oc),
       jw_map := (jw_map w)(jw_closure w n := if reg then Some n else None),
       jw_users := (jw_users w)(n := ou), jw_sockets := (jw_sockets w)(n := k),
       jw_calls := jw_calls w @ map (Pair n) cs\<rparr>"

lemma own_ctxD: "own_ctx w n = Some c \<Longrightarrow> jw_ctx w (jw_closure w n) = Some c \<and> cx_join c = n"
  by (auto simp: own_ctx_def split: option.splits if_splits)

lemma upd_simps [simp]:
  "jw_next (upd n oc reg ou k cs w) = jw_next w" "jw_closure (upd n oc reg ou k cs w) = jw_closure w"
  "jw_handlerAlive (upd n oc reg ou k cs w) = jw_handlerAlive w"
  "jw_users (upd n oc reg ou k cs w) = (jw_users w)(n := ou)" "jw_sockets (upd n oc reg ou k cs w) = (jw_sockets w)(n := k)"
  "jw_calls (upd n oc reg ou k cs w) = jw_calls w @ map (Pair n) cs"
  by (simp_all add: upd_def)

lemma upd_views:
  assumes "js_owned w" and "own_ctx w n \<noteq> None" and "\<forall>c. oc = Some c \<longrightarrow> cx_join c = n"
  shows "own_ctx (upd n oc reg ou k cs w) = (own_ctx w)(n := oc)"
    and "registered (upd n oc reg ou k cs w) = (registered w)(n := reg)"
proof -
  obtain c where c: "jw_ctx w (jw_closure w n) = Some c" "cx_join c = n" using assms(2) own_ctxD by blast
  show "own_ctx (upd n oc reg ou k cs w) = (own_ctx w)(n := oc)"
    using c assms(3) by (auto simp: fun_eq_iff own_ctx_def upd_def split: option.splits)
  have "jw_map w (jw_closure w n) \<noteq> Some m" if "m \<noteq> n" for m
  proof
    assume "jw_map w (jw_closure w n) = Some m"
    then have "jw_closure w m = jw_closure w n" "own_ctx w m \<noteq> None" using assms(1) unfolding js_owned_def by blast+
    then show False using c that by (simp add: own_ctx_def)
  qed
  then show "registered (upd n oc reg ou k cs w) = (registered w)(n := reg)"
    by (auto simp: fun_eq_iff registered_def upd_def)
qed

lemma upd_owned:
  assumes "js_owned w" and "own_ctx w n \<noteq> None" and "\<forall>c. oc = Some c \<longrightarrow> cx_join c = n" and "reg \<longrightarrow> oc \<noteq> None"
  shows "js_owned (upd n oc reg ou k cs w)" "n < jw_next w"
proof -
  obtain c where c: "jw_ctx w (jw_closure w n) = Some c" "cx_join c = n" using assms(2) own_ctxD by blast
  show n: "n < jw_next w" using c assms(1) unfolding js_owned_def by blast
  have m: "own_ctx w s \<noteq> None" "s \<noteq> n" if "jw_map w b = Some s" "b \<noteq> jw_closure w n" for b s
    using assms(1) that unfolding js_owned_def by auto
  have 1: "s < jw_next w \<and> jw_closure w s = b \<and> ((own_ctx w)(n := oc)) s \<noteq> None"
    if "jw_map (upd n oc reg ou k cs w) b = Some s" for b s
    using that n m[of b s] assms(1,4) by (auto simp: upd_def js_owned_def split: if_splits)
  have 2: "b < jw_fresh w \<and> cx_join d < jw_next w \<and> jw_closure w (cx_join d) = b"
    if "jw_ctx (upd n oc reg ou k cs w) b = Some d" for b d
    using that n c assms(1,3) by (auto simp: upd_def js_owned_def split: if_splits)
  have "own_ctx (upd n oc reg ou k cs w) = (own_ctx w)(n := oc)" by (rule upd_views[OF assms(1-3)])
  moreover have "jw_fresh (upd n oc reg ou k cs w) = jw_fresh w" by (simp add: upd_def)
  ultimately show "js_owned (upd n oc reg ou k cs w)"
    using 1 2 n assms(1) unfolding js_owned_def by auto
qed

lemma abs_upd:
  assumes "js_owned w" and "own_ctx w n \<noteq> None" and "\<forall>c. oc = Some c \<longrightarrow> cx_join c = n"
  shows "abs_session (upd n oc reg ou k cs w) n =
    \<lparr>ss_phase = (if ou \<noteq> None then (if reg then SsOpen else SsClosed) else if reg then SsConnecting else SsOver),
     ss_socket = k, ss_handler = (case oc of None \<Rightarrow> None | Some c \<Rightarrow> cx_handler c),
     ss_leaving = (case oc of None \<Rightarrow> False | Some c \<Rightarrow> cx_leaving c), ss_calls = ss_calls (abs_session w n) @ cs\<rparr>"
proof -
  define w' where "w' = upd n oc reg ou k cs w"
  have "own_ctx w' n = oc" "registered w' n = reg" "jw_users w' n = ou" "jw_sockets w' n = k"
    "calls_of n (jw_calls w') = ss_calls (abs_session w n) @ cs"
    using upd_views[OF assms, of reg ou k cs] by (simp_all add: w'_def abs_session_def)
  then show ?thesis by (simp add: abs_session_def flip: w'_def)
qed

lemma abs_own:
  assumes "own_ctx w n = Some c"
  shows "abs_session w n =
    \<lparr>ss_phase =
       (if jw_users w n \<noteq> None then (if registered w n then SsOpen else SsClosed)
        else if registered w n then SsConnecting else SsOver),
     ss_socket = jw_sockets w n, ss_handler = cx_handler c, ss_leaving = cx_leaving c, ss_calls = calls_of n (jw_calls w)\<rparr>"
  using assms by (simp add: abs_session_def)

lemma upd_sim:
  assumes "js_inv w" and "own_ctx w n \<noteq> None" and "\<forall>c. oc = Some c \<longrightarrow> cx_join c = n"
    and "sess_ok (jw_closure w n) oc reg ou k"
    and "f (abs_session w n) =
      \<lparr>ss_phase = (if ou \<noteq> None then (if reg then SsOpen else SsClosed) else if reg then SsConnecting else SsOver),
       ss_socket = k, ss_handler = (case oc of None \<Rightarrow> None | Some c \<Rightarrow> cx_handler c),
       ss_leaving = (case oc of None \<Rightarrow> False | Some c \<Rightarrow> cx_leaving c), ss_calls = ss_calls (abs_session w n) @ cs\<rparr>"
  shows "js_sim (Some (upd n oc reg ou k cs w)) (on_sess n f (abs_js w))"
proof -
  have o: "js_owned w" using assms(1) by (simp add: js_inv_def)
  have r: "reg \<longrightarrow> oc \<noteq> None" using assms(4) by (auto simp: sess_ok_def split: option.splits)
  note u = upd_owned[OF o assms(2,3) r] and v = upd_views[OF o assms(2,3)]
  have "js_inv (upd n oc reg ou k cs w)"
    using assms(1,4) u unfolding js_inv_def by (auto simp: v)
  moreover have "abs_session (upd n oc reg ou k cs w) m = abs_session w m" if "m \<noteq> n" for m
    using that by (simp add: abs_session_def v)
  ultimately show ?thesis using abs_upd[OF o assms(2,3), of reg ou k cs] assms(5) u(2)
    by (auto simp: js_sim_def abs_js_def on_sess_def fun_eq_iff)
qed

lemma sock_sim:
  assumes "js_inv w" and "n < jw_next w" and "own_ctx w n = None" and "sk_ready k \<noteq> CONNECTING"
    and "f (abs_session w n) = (abs_session w n)\<lparr>ss_socket := k\<rparr>"
  shows "js_sim (Some (set_js_socket n (\<lambda>_. k) w)) (on_sess n f (abs_js w))"
proof -
  let ?w = "set_js_socket n (\<lambda>_. k) w"
  have v: "own_ctx ?w = own_ctx w" "registered ?w = registered w"
    by (auto simp: fun_eq_iff own_ctx_def registered_def set_js_socket_def)
  have "js_inv ?w"
    using assms js_inv_sess[OF assms(1,2)] unfolding js_inv_def v js_owned_def
    by (auto simp: set_js_socket_def sess_ok_def)
  moreover have "abs_session ?w = (abs_session w)(n := f (abs_session w n))"
    unfolding assms(5) by (auto simp: fun_eq_iff abs_session_def v) (auto simp: set_js_socket_def)
  ultimately show ?thesis using assms(2) by (simp add: js_sim_def abs_js_def on_sess_def) (simp add: set_js_socket_def)
qed

lemma js_sim_join:
  assumes "js_inv w"
  shows "js_sim (js_apply J options (JeJoin lid hint) w) (sess_apply J options (JeJoin lid hint) (abs_js w))"
proof -
  define a where "a = alloc_ctx hint w"
  define w' where "w' = JsWsSigClient_Join options lid hint w"
  have o: "js_owned w" using assms by (simp add: js_inv_def)
  have "jw_ctx w (jw_fresh w) = None"
    using o unfolding js_owned_def by (metis less_irrefl option.exhaust)
  then have a: "jw_ctx w a = None" by (simp add: a_def alloc_ctx_def)
  have m: "jw_map w a = None"
  proof (cases "jw_map w a")
    case (Some s)
    then have "jw_closure w s = a" "own_ctx w s \<noteq> None" using o unfolding js_owned_def by blast+
    then show ?thesis using a by (simp add: own_ctx_def)
  qed simp
  have s: "s < jw_next w" if "jw_map w b = Some s" for b s using o that unfolding js_owned_def by blast
  have c: "cx_join d < jw_next w" if "jw_ctx w b = Some d" for b d using o that unfolding js_owned_def by blast
  note w = w'_def JsWsSigClient_Join_def JsWsContext_Connect_def Let_def a_def[symmetric]
  have own: "own_ctx w' = (own_ctx w)(jw_next w := jw_ctx w' a)"
    using a c by (fastforce simp: fun_eq_iff own_ctx_def w split: option.splits)
  have reg: "registered w' = (registered w)(jw_next w := True)"
    using m s by (fastforce simp: fun_eq_iff registered_def w)
  have ctx: "jw_ctx w' a = Some \<lparr>cx_id = lid, cx_onJoined = True, cx_handler = None, cx_fired = False,
                   cx_leaving = False, cx_join = jw_next w\<rparr>" by (simp add: w)
  have eqs: "jw_next w' = Suc (jw_next w)" "jw_closure w' = (jw_closure w)(jw_next w := a)" "jw_users w' = jw_users w"
    "jw_calls w' = jw_calls w" "jw_handlerAlive w' = jw_handlerAlive w"
    "jw_sockets w' = (jw_sockets w)(jw_next w := new_js_socket (c_string
       (''ws://'' @ wo_host options @ '':'' @ digits (unat (wo_port options)) @ ''/'' @ lid)))"
    by (simp_all add: w)
  have o': "js_owned w'"
    unfolding js_owned_def
  proof (intro conjI allI impI)
    fix b t assume "jw_map w' b = Some t"
    then have "jw_map w b = Some t \<and> b \<noteq> a \<or> b = a \<and> t = jw_next w" by (auto simp: w split: if_splits)
    then show "t < jw_next w'" "jw_closure w' t = b" "own_ctx w' t \<noteq> None"
      using o s[of b t] ctx by (auto simp: own eqs js_owned_def less_Suc_eq)
  next
    fix b d assume "jw_ctx w' b = Some d"
    then have "jw_ctx w b = Some d \<and> b \<noteq> a \<or> b = a \<and> cx_join d = jw_next w" by (auto simp: w split: if_splits)
    then show "b < jw_fresh w'" "cx_join d < jw_next w'" "jw_closure w' (cx_join d) = b"
      using o c[of b d] by (fastforce simp: eqs js_owned_def less_Suc_eq w less_max_iff_disj)+
  next
    fix n assume "jw_next w' \<le> n"
    then show "jw_users w' n = None" "calls_of n (jw_calls w') = []" using o by (auto simp: eqs js_owned_def)
  qed
  have u: "jw_users w (jw_next w) = None" "calls_of (jw_next w) (jw_calls w) = []" using o by (auto simp: js_owned_def)
  have "js_inv w'"
    using assms o' u unfolding js_inv_def own reg eqs ctx
    by (auto simp: sess_ok_def new_js_socket_def less_Suc_eq)
  moreover have "abs_session w' = (abs_session w)(jw_next w := new_session (c_string
       (''ws://'' @ wo_host options @ '':'' @ digits (unat (wo_port options)) @ ''/'' @ lid)))"
    using u by (auto simp: fun_eq_iff abs_session_def own reg eqs ctx new_session_def)
  ultimately show ?thesis by (simp add: js_sim_def w'_def[symmetric] abs_js_def eqs)
qed


lemma on_sess_id: "(n < sw_next W \<Longrightarrow> f (sw_sess W n) = sw_sess W n) \<Longrightarrow> on_sess n f W = W"
  by (simp add: on_sess_def)

lemma own_map:
  assumes "js_inv w" and "own_ctx w n = Some c"
  shows "jw_map w (jw_closure w n) = (if registered w n then Some n else None)"
proof (cases "jw_map w (jw_closure w n)")
  case (Some m)
  then have "jw_closure w m = jw_closure w n" "own_ctx w m \<noteq> None"
    using assms(1) unfolding js_inv_def js_owned_def by blast+
  then have "m = n" using own_ctxD[OF assms(2)] by (auto simp: own_ctx_def split: if_splits)
  then show ?thesis using Some by (simp add: registered_def)
qed (simp add: registered_def)

lemma Close_upd:
  assumes "js_inv w" and "own_ctx w n = Some c"
  shows "JsWsContext_Close (jw_closure w n) w =
    upd n (Some c) False (jw_users w n) (if registered w n then js_socket_close (jw_sockets w n) else jw_sockets w n) [] w"
  using own_map[OF assms] own_ctxD[OF assms(2)]
  by (auto simp: JsWsContext_Close_def set_js_socket_def upd_def fun_upd_idem)

lemma user_live:
  assumes "js_inv w" and "jw_users w n = Some us"
  obtains c where "own_ctx w n = Some c" "cx_fired c" "sk_ready (jw_sockets w n) \<noteq> CONNECTING" "ju_ctx us = jw_closure w n"
    "n < jw_next w" "\<not> (cx_leaving c \<and> registered w n)"
proof -
  have n: "n < jw_next w" using assms unfolding js_inv_def js_owned_def by (metis not_le option.distinct(1))
  show ?thesis
    using js_inv_sess[OF assms(1) n] assms(2) n that by (auto simp: sess_ok_def split: option.splits)
qed

lemma user_act_upd:
  assumes "js_inv w" and "jw_users w n = Some us" and "own_ctx w n = Some c"
  shows "user_act J n act w = Some (case act of
      JaSend to payload \<Rightarrow>
        upd n (Some c) (registered w n) (Some us)
          (if registered w n \<and> sk_ready (jw_sockets w n) = OPEN
           then (jw_sockets w n)\<lparr>sk_sent := sk_sent (jw_sockets w n) @ [envelope J (c_string to) (c_string payload)]\<rparr>
           else jw_sockets w n) [] w
    | JaLeave \<Rightarrow>
        if cx_leaving c then w
        else upd n (Some (c\<lparr>cx_leaving := True\<rparr>)) False (Some us)
          (if registered w n then js_socket_close (jw_sockets w n) else jw_sockets w n)
          (case js_lock (jw_handlerAlive w) (cx_handler c) of None \<Rightarrow> [] | Some h \<Rightarrow> [CcLeft h LeftClean]) w
    | JaDrop \<Rightarrow>
        upd n None False None (if registered w n then js_socket_close (jw_sockets w n) else jw_sockets w n) [] w)"
proof -
  obtain d where l: "sk_ready (jw_sockets w n) \<noteq> CONNECTING" "ju_ctx us = jw_closure w n"
    using user_live[OF assms(1,2)] by blast
  note m = own_map[OF assms(1,3)] and c = own_ctxD[OF assms(3)]
  show ?thesis
  proof (cases act)
    case (JaSend to payload)
    then show ?thesis
      using l m c assms(2)
      by (cases "sk_ready (jw_sockets w n)")
         (auto simp: user_act_def JsWsSigUser_Send_def JsWsContext_Send_def js_socket_send_def set_js_socket_def upd_def
           fun_upd_idem)
  next
    case JaLeave
    then show ?thesis
      using l m c assms(2)
      by (auto simp: user_act_def JsWsSigUser_Leave_def JsWsContext_Close_def set_js_socket_def upd_def js_call_def
          fun_upd_idem Let_def split: option.splits)
  next
    case JaDrop
    then show ?thesis
      using l m c assms(2)
      by (auto simp: user_act_def JsWsSigUser_destroy_def free_ctx_def JsWsContext_Close_def set_js_socket_def upd_def
          fun_upd_idem)
  qed
qed

lemma js_sim_act:
  assumes "js_inv w"
  shows "js_sim (user_act J n act w) (on_sess n (sess_act J (jw_handlerAlive w) act) (abs_js w))"
proof (cases "jw_users w n")
  case None
  then have "sess_act J (jw_handlerAlive w) act (abs_session w n) = abs_session w n"
    by (cases act) (auto simp: abs_session_def sess_send_def)
  then show ?thesis
    using None assms by (simp add: user_act_def js_sim_def on_sess_id abs_js_def)
next
  case (Some us)
  obtain c where c: "own_ctx w n = Some c" "cx_fired c" "sk_ready (jw_sockets w n) \<noteq> CONNECTING"
    "ju_ctx us = jw_closure w n" "n < jw_next w" "\<not> (cx_leaving c \<and> registered w n)" using user_live[OF assms Some] by blast
  have ow: "own_ctx w n \<noteq> None" using c(1) by simp
  have j: "cx_join c = n" using own_ctxD[OF c(1)] by simp
  show ?thesis
  proof (cases act)
    case (JaSend to payload)
    show ?thesis
      unfolding user_act_upd[OF assms Some c(1)] JaSend js_act.case
      by (rule upd_sim[OF assms ow]) (use c Some j in \<open>simp_all add: sess_ok_def abs_own sess_send_def\<close>)
  next
    case JaLeave
    show ?thesis
    proof (cases "cx_leaving c")
      case True
      then show ?thesis
        using assms Some c(1) unfolding user_act_upd[OF assms Some c(1)] JaLeave
        by (simp add: js_sim_def on_sess_id abs_js_def abs_own)
    next
      case False
      show ?thesis
        unfolding user_act_upd[OF assms Some c(1)] JaLeave js_act.case if_not_P[OF False]
        by (rule upd_sim[OF assms ow])
           (use c Some j False in \<open>auto simp: sess_ok_def abs_own sess_close_def sess_report_def js_socket_close_def
              split: option.splits\<close>)
    qed
  next
    case JaDrop
    show ?thesis
      unfolding user_act_upd[OF assms Some c(1)] JaDrop js_act.case
      by (rule upd_sim[OF assms ow])
         (use c Some j in \<open>simp_all add: sess_ok_def abs_own sess_close_def js_socket_close_def\<close>)
  qed
qed


lemma user_act_closure: "user_act J n act w = Some w' \<Longrightarrow> jw_closure w' = jw_closure w"
  by (cases act)
     (auto simp: user_act_def JsWsSigUser_Send_def JsWsContext_Send_def JsWsSigUser_Leave_def JsWsSigUser_destroy_def
       JsWsContext_Close_def free_ctx_def set_js_socket_def js_call_def Let_def split: option.splits if_splits)

lemma user_acts_closure: "user_acts J n acts w = Some w' \<Longrightarrow> jw_closure w' = jw_closure w"
  by (induction acts arbitrary: w) (auto split: option.splits dest: user_act_closure)

lemma js_sim_acts:
  assumes "js_inv w" and "n < jw_next w"
  shows "js_sim (user_acts J n acts w) (on_sess n (fold (sess_act J (jw_handlerAlive w)) acts) (abs_js w))"
  using assms
proof (induction acts arbitrary: w)
  case Nil
  then show ?case by (simp add: js_sim_def on_sess_id)
next
  case (Cons act acts)
  let ?f = "sess_act J (jw_handlerAlive w)"
  obtain w1 where w1: "user_act J n act w = Some w1" "js_inv w1" "abs_js w1 = on_sess n (?f act) (abs_js w)"
    using js_sim_act[OF Cons.prems(1), of J n act] by (auto simp: js_sim_def split: option.splits)
  have "jw_next w1 = jw_next w" "jw_handlerAlive w1 = jw_handlerAlive w"
    using w1(3) Cons.prems(2) by (auto simp: abs_js_def on_sess_def)
  then show ?case using Cons.IH[OF w1(2)] Cons.prems(2) w1
    by (simp add: on_sess_def abs_js_def)
qed

lemma js_sim_error:
  assumes "js_inv w"
  shows "js_sim (js_apply J options (JeError s) w) (sess_apply J options (JeError s) (abs_js w))"
proof (cases "s < jw_next w \<and> may_fail (jw_sockets w s)")
  case False
  then show ?thesis using assms
    by (auto simp: js_sim_def on_sess_def abs_js_def sess_error_def abs_session_def)
next
  case True
  let ?k = "(jw_sockets w s)\<lparr>sk_ready := CLOSED, sk_failed := True\<rparr>"
  have k: "sk_ready ?k \<noteq> CONNECTING" "may_fail (jw_sockets w s)" using True by simp_all
  show ?thesis
  proof (cases "own_ctx w s")
    case None
    then have "\<not> registered w s" "jw_users w s = None"
      using js_inv_sess[OF assms, of s] True by (auto simp: sess_ok_def)
    then show ?thesis
      using True sock_sim[OF assms _ None k(1), of sess_error]
      by (simp add: ws_onerror_def registered_def set_js_socket_def sess_error_def abs_session_def Let_def)
  next
    case (Some c)
    note m = own_map[OF assms Some] and c = own_ctxD[OF Some]
    have ok: "sess_ok (jw_closure w s) (Some c) (registered w s) (jw_users w s) (jw_sockets w s)"
      using js_inv_sess[OF assms, of s] True Some by simp
    show ?thesis
    proof (cases "jw_users w s")
      case None
      then have r: "js_apply J options (JeError s) w = Some (upd s None False None ?k [JoinFailed ConnectionRefused] w)"
        using True ok m c
        by (auto simp: sess_ok_def ws_onerror_def set_js_socket_def JsWsContext_OnError_def free_ctx_def js_call_def upd_def
            fun_upd_idem Let_def)
      show ?thesis unfolding r sess_apply.simps
        by (rule upd_sim[OF assms]) (use True ok None Some in \<open>auto simp: sess_ok_def abs_own sess_error_def Let_def\<close>)
    next
      case (Some us)
      then have r: "js_apply J options (JeError s) w = Some (upd s (Some c) False (Some us) ?k [] w)"
        using True ok m c
        by (auto simp: sess_ok_def ws_onerror_def set_js_socket_def JsWsContext_OnError_def upd_def fun_upd_idem Let_def)
      show ?thesis unfolding r sess_apply.simps
        by (rule upd_sim[OF assms])
           (use True ok Some c \<open>own_ctx w s = Some c\<close> in \<open>auto simp: sess_ok_def abs_own sess_error_def Let_def\<close>)
    qed
  qed
qed

lemma js_sim_end:
  assumes "js_inv w"
  shows "js_sim (js_apply J options (JeClose s) w) (sess_apply J options (JeClose s) (abs_js w))"
proof (cases "s < jw_next w \<and> may_end (jw_sockets w s)")
  case False
  then show ?thesis using assms
    by (auto simp: js_sim_def on_sess_def abs_js_def sess_end_def abs_session_def)
next
  case True
  let ?k = "(jw_sockets w s)\<lparr>sk_ready := CLOSED, sk_ended := True\<rparr>"
  have k: "sk_ready ?k \<noteq> CONNECTING" "may_end (jw_sockets w s)" using True by simp_all
  show ?thesis
  proof (cases "own_ctx w s")
    case None
    then have "\<not> registered w s" "jw_users w s = None"
      using js_inv_sess[OF assms, of s] True by (auto simp: sess_ok_def)
    then show ?thesis
      using True sock_sim[OF assms _ None k(1), of "sess_end (jw_handlerAlive w)"]
      by (simp add: ws_onclose_def registered_def set_js_socket_def sess_end_def abs_session_def abs_js_def Let_def)
  next
    case (Some c)
    note m = own_map[OF assms Some] and c = own_ctxD[OF Some]
    have ok: "sess_ok (jw_closure w s) (Some c) (registered w s) (jw_users w s) (jw_sockets w s)"
      using js_inv_sess[OF assms, of s] True Some by simp
    then obtain us where us: "jw_users w s = Some us" using True by (auto simp: sess_ok_def may_end_def split: option.splits)
    have r: "js_apply J options (JeClose s) w = Some (upd s (Some c) False (Some us) ?k
        (if registered w s \<and> \<not> cx_leaving c
         then (case js_lock (jw_handlerAlive w) (cx_handler c) of None \<Rightarrow> [] | Some h \<Rightarrow> [CcLeft h LeftConnectionLost])
         else []) w)"
      using True ok m c us
      by (auto simp: sess_ok_def ws_onclose_def set_js_socket_def JsWsContext_OnClose_def js_call_def upd_def fun_upd_idem
          Let_def split: option.splits)
    show ?thesis unfolding r sess_apply.simps
      by (rule upd_sim[OF assms])
         (use True ok us c Some in \<open>auto simp: sess_ok_def abs_own sess_end_def sess_report_def abs_js_def Let_def
            split: option.splits\<close>)
  qed
qed


lemma js_sim_message:
  assumes "js_inv w"
  shows "js_sim (js_apply J options (JeMessage s frame) w) (sess_apply J options (JeMessage s frame) (abs_js w))"
proof (cases "s < jw_next w \<and> sk_ready (jw_sockets w s) = OPEN \<and> registered w s")
  case False
  then have "s < jw_next w \<Longrightarrow> sess_message J (jw_handlerAlive w) frame (abs_session w s) = abs_session w s"
    by (auto simp: sess_message_def abs_session_def)
  then have "on_sess s (sess_message J (jw_handlerAlive w) frame) (abs_js w) = abs_js w"
    by (intro on_sess_id) (simp add: abs_js_def)
  then show ?thesis
    using False assms by (auto simp: js_sim_def ws_onmessage_def registered_def abs_js_def)
next
  case True
  then obtain c us where c: "own_ctx w s = Some c" "jw_users w s = Some us"
    using js_inv_sess[OF assms, of s] by (auto simp: sess_ok_def split: option.splits)
  let ?m = "\<lambda>p q. \<lparr>sm_from = c_string p, sm_payload = c_string q\<rparr>"
  let ?cs = "case js_envelope J frame of None \<Rightarrow> [] | Some (p, q) \<Rightarrow>
    (case js_lock (jw_handlerAlive w) (cx_handler c) of None \<Rightarrow> [] | Some h \<Rightarrow> [CcMessage h (?m p q)])"
  have r: "js_apply J options (JeMessage s frame) w =
      Some (upd s (Some c) True (Some us) (jw_sockets w s) ?cs w)"
    using True c own_map[OF assms c(1)] own_ctxD[OF c(1)]
    by (auto simp: ws_onmessage_def JsWsContext_OnMessage_def js_call_def upd_def fun_upd_idem Let_def split: option.splits)
  show ?thesis unfolding r sess_apply.simps
    by (rule upd_sim[OF assms])
       (use True c own_ctxD[OF c(1)] js_inv_sess[OF assms, of s] in \<open>auto simp: sess_ok_def abs_own abs_js_def sess_message_def
          sess_report_def split: option.splits\<close>)
qed

definition keeps_user :: "jw_event \<Rightarrow> bool" where
  "keeps_user e = (case e of JeOpen s acts h \<Rightarrow> JaDrop \<notin> set acts | _ \<Rightarrow> True)"

lemma acts_keep_phase:
  "JaDrop \<notin> set acts \<Longrightarrow> ss_phase x = SsOpen \<or> ss_phase x = SsClosed \<Longrightarrow>
   ss_phase (fold (sess_act J alive) acts x) = SsOpen \<or> ss_phase (fold (sess_act J alive) acts x) = SsClosed"
proof (induction acts arbitrary: x)
  case (Cons act acts)
  have "ss_phase (sess_act J alive act x) = SsOpen \<or> ss_phase (sess_act J alive act x) = SsClosed"
    using Cons.prems by (cases act) (auto simp: sess_send_def sess_report_def sess_close_def split: option.splits)
  then show ?case using Cons.IH Cons.prems(1) by simp
qed simp

lemma js_sim_open:
  assumes "js_inv w" and "JaDrop \<notin> set acts"
  shows "js_sim (js_apply J options (JeOpen s acts h) w) (sess_apply J options (JeOpen s acts h) (abs_js w))"
proof (cases "s < jw_next w \<and> may_open (jw_sockets w s)")
  case False
  then have "s < jw_next w \<Longrightarrow> ss_phase (abs_session w s) \<noteq> SsConnecting"
    using js_inv_sess[OF assms(1), of s] by (auto simp: abs_session_def sess_ok_def may_open_def split: option.splits)
  then show ?thesis using False assms(1) by (auto simp: js_sim_def on_sess_def abs_js_def sess_open_def)
next
  case True
  then obtain c where c: "own_ctx w s = Some c" "jw_users w s = None" "registered w s" "\<not> cx_fired c" "cx_onJoined c"
    "cx_handler c = None" "\<not> cx_leaving c" "\<not> sk_failed (jw_sockets w s)" "\<not> sk_ended (jw_sockets w s)"
    using js_inv_sess[OF assms(1), of s] by (auto simp: sess_ok_def may_open_def split: option.splits)
  note m = own_map[OF assms(1) c(1)] and x = own_ctxD[OF c(1)]
  let ?k = "(jw_sockets w s)\<lparr>sk_ready := OPEN\<rparr>"
  let ?f = "fold (sess_act J (jw_handlerAlive w)) acts"
  define us where "us = \<lparr>ju_id = cx_id c, ju_ctx = jw_closure w s\<rparr>"
  define w1 where "w1 = upd s (Some (c\<lparr>cx_fired := True\<rparr>)) True (Some us) ?k [Joined] w"
  let ?b = "\<lambda>y. y\<lparr>ss_phase := SsOpen, ss_socket := (ss_socket y)\<lparr>sk_ready := OPEN\<rparr>, ss_calls := ss_calls y @ [Joined]\<rparr>"
  have w1': "w1 = w\<lparr>jw_sockets := (jw_sockets w)(s := ?k), jw_ctx := (jw_ctx w)(jw_closure w s \<mapsto> c\<lparr>cx_fired := True\<rparr>),
      jw_users := (jw_users w)(s \<mapsto> us), jw_calls := jw_calls w @ [(s, Joined)]\<rparr>"
    using m c(3) by (simp add: w1_def upd_def fun_upd_idem)
  have r: "js_apply J options (JeOpen s acts h) w =
     (case user_acts J s acts w1 of
        None \<Rightarrow> None
      | Some w2 \<Rightarrow>
          (case jw_ctx w2 (jw_closure w s) of
             None \<Rightarrow> None
           | Some c2 \<Rightarrow> Some (w2\<lparr>jw_ctx := (jw_ctx w2)(jw_closure w s \<mapsto> c2\<lparr>cx_handler := h, cx_onJoined := False\<rparr>)\<rparr>)))"
    using True c m x w1' by (simp add: ws_onopen_def JsWsContext_OnOpen_def JsWsCtx_OnOpen_def set_js_socket_def js_call_def
      us_def Let_def)
  have "js_sim (Some w1) (on_sess s ?b (abs_js w))"
    unfolding w1_def by (rule upd_sim[OF assms(1)]) (use c x in \<open>auto simp: sess_ok_def us_def abs_own\<close>)
  then have w1: "js_inv w1" "abs_js w1 = on_sess s ?b (abs_js w)" by (auto simp: js_sim_def)
  obtain w2 where w2: "user_acts J s acts w1 = Some w2" "js_inv w2" "abs_js w2 = on_sess s ?f (abs_js w1)"
    using js_sim_acts[OF w1(1), of s J acts] True by (auto simp: js_sim_def w1_def split: option.splits)
  have n: "jw_next w2 = jw_next w" "jw_handlerAlive w2 = jw_handlerAlive w"
    "abs_session w2 s = ?f (?b (abs_session w s))"
    using w1(2) w2(3) True by (auto simp: abs_js_def on_sess_def split: if_splits)
  have "ss_phase (abs_session w2 s) \<in> {SsOpen, SsClosed}"
    unfolding n using acts_keep_phase[OF assms(2), of "?b (abs_session w s)"] by simp
  then obtain us2 where us2: "jw_users w2 s = Some us2" by (auto simp: abs_session_def split: if_splits)
  obtain c2 where c2: "own_ctx w2 s = Some c2" "cx_fired c2" "sk_ready (jw_sockets w2 s) \<noteq> CONNECTING"
    "ju_ctx us2 = jw_closure w2 s" "\<not> (cx_leaving c2 \<and> registered w2 s)" using user_live[OF w2(2) us2] by blast
  have cl: "jw_closure w2 = jw_closure w" using user_acts_closure[OF w2(1)] by (simp add: w1_def)
  let ?c = "c2\<lparr>cx_handler := h, cx_onJoined := False\<rparr>"
  have "js_apply J options (JeOpen s acts h) w =
      Some (upd s (Some ?c) (registered w2 s) (Some us2) (jw_sockets w2 s) [] w2)"
    unfolding r using own_ctxD[OF c2(1)] own_map[OF w2(2) c2(1)] us2 by (auto simp: w2(1) cl upd_def fun_upd_idem)
  moreover have "js_sim (Some (upd s (Some ?c) (registered w2 s) (Some us2) (jw_sockets w2 s) [] w2))
      (on_sess s (\<lambda>y. y\<lparr>ss_handler := h\<rparr>) (abs_js w2))"
    by (rule upd_sim[OF w2(2)]) (use c2 us2 own_ctxD[OF c2(1)] in \<open>auto simp: sess_ok_def abs_own\<close>)
  moreover have "ss_phase (abs_session w s) = SsConnecting" using c by (simp add: abs_session_def)
  then have "on_sess s (\<lambda>y. y\<lparr>ss_handler := h\<rparr>) (abs_js w2) = sess_apply J options (JeOpen s acts h) (abs_js w)"
    using True w1(2) w2(3) by (simp add: abs_js_def on_sess_def sess_open_def)
  ultimately show ?thesis by simp
qed

lemma js_sim_step:
  assumes "js_inv w" and "keeps_user e"
  shows "js_sim (js_apply J options e w) (sess_apply J options e (abs_js w))"
proof (cases e)
  case (JeOpen s acts h)
  then show ?thesis using assms js_sim_open by (simp add: keeps_user_def del: js_apply.simps sess_apply.simps)
next
  case (JeUser u act)
  then show ?thesis using js_sim_act[OF assms(1)] by (simp add: abs_js_def)
next
  case (JeHandlerGone h)
  let ?w = "w\<lparr>jw_handlerAlive := (jw_handlerAlive w)(h := False)\<rparr>"
  have v: "own_ctx ?w = own_ctx w" "registered ?w = registered w"
    by (auto simp: fun_eq_iff own_ctx_def registered_def)
  have "abs_session ?w = abs_session w" by (auto simp: fun_eq_iff abs_session_def v)
  moreover have "js_inv ?w" using assms(1) unfolding js_inv_def js_owned_def v by simp
  ultimately show ?thesis using JeHandlerGone by (simp add: js_sim_def abs_js_def)
qed (use js_sim_join js_sim_error js_sim_end js_sim_message assms(1) in \<open>auto simp del: js_apply.simps sess_apply.simps\<close>)

lemma js_sim_run:
  assumes "js_inv w" and "\<forall>e\<in>set es. keeps_user e"
  shows "js_sim (js_run J options es w) (fold (sess_apply J options) es (abs_js w))"
  using assms
proof (induction es arbitrary: w)
  case Nil
  then show ?case by (simp add: js_sim_def)
next
  case (Cons e es)
  obtain w1 where "js_apply J options e w = Some w1" "js_inv w1" "abs_js w1 = sess_apply J options e (abs_js w)"
    using js_sim_step[OF Cons.prems(1), of e J options] Cons.prems(2) by (auto simp: js_sim_def split: option.splits)
  then show ?case using Cons.IH[of w1] Cons.prems(2) by simp
qed


text \<open>What the sessions promise: one join result, first; afterwards only messages and at most two reports of the end.\<close>

fun lefts :: "sig_call list \<Rightarrow> nat" where
  "lefts [] = 0"
| "lefts (CcLeft _ _ # cs) = Suc (lefts cs)"
| "lefts (_ # cs) = lefts cs"

lemma lefts_append [simp]: "lefts (xs @ ys) = lefts xs + lefts ys"
  by (induction xs rule: lefts.induct) auto

definition promised :: "session \<Rightarrow> bool" where
  "promised x \<longleftrightarrow>
     (case ss_calls x of
        [] \<Rightarrow> ss_phase x = SsConnecting \<or> ss_phase x = SsOver
      | Joined # cs \<Rightarrow> ss_phase x \<noteq> SsConnecting \<and> join_calls cs = [] \<and>
          (ss_phase x = SsOpen \<longrightarrow> lefts cs = 0) \<and> (\<not> ss_leaving x \<longrightarrow> ss_phase x \<noteq> SsOver \<longrightarrow> lefts cs \<le> 1) \<and> lefts cs \<le> 2
      | JoinFailed e # cs \<Rightarrow> ss_phase x = SsOver \<and> cs = []
      | _ \<Rightarrow> False)"

lemma promised_handler [simp]: "promised (x\<lparr>ss_handler := h\<rparr>) = promised x"
  by (auto simp: promised_def split: list.splits sig_call.splits)

lemma promised_act: "promised x \<Longrightarrow> promised (sess_act J alive act x)"
  by (cases act)
     (auto simp: promised_def sess_send_def sess_report_def sess_close_def split: list.splits sig_call.splits option.splits)

lemma promised_acts: "promised x \<Longrightarrow> promised (fold (sess_act J alive) acts x)"
  by (induction acts arbitrary: x) (simp_all add: promised_act)

lemma promised_error: "promised x \<Longrightarrow> promised (sess_error x)"
  by (cases "ss_phase x") (auto simp: sess_error_def promised_def Let_def split: list.splits sig_call.splits)

lemma promised_end: "promised x \<Longrightarrow> promised (sess_end alive x)"
  by (cases "ss_phase x")
     (auto simp: sess_end_def sess_report_def promised_def Let_def split: list.splits sig_call.splits option.splits)

lemma promised_message: "promised x \<Longrightarrow> promised (sess_message J alive frame x)"
  by (cases "ss_phase x")
     (auto simp: sess_message_def sess_report_def promised_def split: list.splits sig_call.splits option.splits)

lemma promised_apply:
  assumes "\<forall>n. promised (sw_sess W n)"
  shows "promised (sw_sess (sess_apply J options e W) n)"
proof (cases e)
  case (JeOpen s acts h)
  let ?x = "sw_sess W s"
  have "promised (sess_open J (sw_alive W) acts h ?x)"
  proof (cases "ss_phase ?x = SsConnecting")
    case True
    then have "promised (?x\<lparr>ss_phase := SsOpen, ss_socket := (ss_socket ?x)\<lparr>sk_ready := OPEN\<rparr>, ss_calls := ss_calls ?x @ [Joined]\<rparr>)"
      using assms[rule_format, of s] by (auto simp: promised_def split: list.splits sig_call.splits)
    then show ?thesis
      using promised_acts True by (simp add: sess_open_def)
  qed (use assms in \<open>simp add: sess_open_def\<close>)
  then show ?thesis using JeOpen assms by (simp add: on_sess_def)
next
  case (JeUser u act)
  then show ?thesis using assms by (simp add: on_sess_def promised_act)
next
  case (JeJoin lid hint)
  then show ?thesis using assms by (simp add: promised_def new_session_def)
next
  case (JeError s)
  then show ?thesis using assms by (simp add: on_sess_def promised_error)
next
  case (JeClose s)
  then show ?thesis using assms by (simp add: on_sess_def promised_end)
next
  case (JeMessage s frame)
  then show ?thesis using assms by (simp add: on_sess_def promised_message)
qed (use assms in simp)

lemma promised_run: "promised (sw_sess (fold (sess_apply J options) es (no_sessions handlers)) n)"
proof -
  have "\<forall>n. promised (sw_sess W n) \<Longrightarrow> promised (sw_sess (fold (sess_apply J options) es W) n)" for W
  proof (induction es arbitrary: W)
    case (Cons e es)
    have "\<forall>m. promised (sw_sess (sess_apply J options e W) m)" using promised_apply[OF Cons.prems] by blast
    then show ?case using Cons.IH by (simp del: sess_apply.simps)
  qed simp
  then show ?thesis by (simp add: no_sessions_def new_session_def promised_def)
qed


lemmas js_ws_ops = new_js_ws_def JsWsSigClient_Join_def alloc_ctx_def JsWsContext_Connect_def new_js_socket_def
  may_open_def may_fail_def may_end_def set_js_socket_def ws_onopen_def JsWsContext_OnOpen_def JsWsCtx_OnOpen_def js_call_def
  user_act_def JsWsSigUser_Leave_def JsWsSigUser_destroy_def free_ctx_def JsWsContext_Close_def js_socket_close_def
  ws_onclose_def JsWsContext_OnClose_def ws_onerror_def JsWsContext_OnError_def js_lock_def

section \<open>Properties\<close>

text \<open>
  C4. The browser's signalling client behaves like a set of independent sessions, although its contexts are freed
  and their addresses used again: for every sequence of joins, socket events and uses of the users in which no join
  callback destroys the user it is given, no freed context is ever touched, and each \<open>Join\<close> has exactly the socket,
  the handler and the calls of the session specified above, which knows no addresses. In particular an event of an old
  socket never reaches the context of a newer one.
\<close>

theorem js_contexts_refine_sessions:
  assumes "list_all keeps_user es"
  shows "map_option abs_js (js_run J options es (new_js_ws handlers)) =
    Some (fold (sess_apply J options) es (no_sessions handlers))"
  using js_sim_run[OF js_inv_new[of handlers], of es J options] assms
  by (auto simp: js_sim_def abs_js_new list_all_iff split: option.splits)

theorem js_contexts_refine_sessions_witness:
  "let es = [JeJoin ''a'' 0, JeOpen 0 [] (Some 7), JeUser 0 JaDrop, JeJoin ''b'' 0, JeClose 0, JeOpen 1 [] (Some 8), JeClose 1]
   in case js_run pair_json default_ws_options es (new_js_ws (\<lambda>_. True)) of
        None \<Rightarrow> False
      | Some w \<Rightarrow> jw_closure w 0 = jw_closure w 1 \<and> calls_of 0 (jw_calls w) = [Joined] \<and>
          calls_of 1 (jw_calls w) = [Joined, CcLeft 8 LeftConnectionLost]"
proof -
  let ?es = "[JeJoin ''a'' 0, JeOpen 0 [] (Some 7), JeUser 0 JaDrop, JeJoin ''b'' 0, JeClose 0, JeOpen 1 [] (Some 8), JeClose 1]"
  let ?J = pair_json and ?o = default_ws_options
  have "map_option abs_js (js_run ?J ?o ?es (new_js_ws (\<lambda>_. True))) =
    Some (fold (sess_apply ?J ?o) ?es (no_sessions (\<lambda>_. True)))"
    by (rule js_contexts_refine_sessions) (simp add: keeps_user_def)
  then obtain w where w: "js_run ?J ?o ?es (new_js_ws (\<lambda>_. True)) = Some w"
    "abs_js w = fold (sess_apply ?J ?o) ?es (no_sessions (\<lambda>_. True))" by auto
  have "calls_of n (jw_calls w) = ss_calls (sw_sess (abs_js w) n)" for n by (simp add: abs_js_def abs_session_def)
  then have "calls_of 0 (jw_calls w) = [Joined]" "calls_of 1 (jw_calls w) = [Joined, CcLeft 8 LeftConnectionLost]"
    by (simp_all add: w(2) no_sessions_def on_sess_def sess_open_def sess_end_def sess_close_def sess_report_def
        js_socket_close_def new_session_def new_js_socket_def may_end_def js_lock_def)
  moreover have "jw_closure w 0 = jw_closure w 1"
    using w(1) by (auto simp: js_ws_ops)
  ultimately show ?thesis unfolding Let_def w(1) by simp
qed

text \<open>
  The calls that the application sees of one \<open>Join\<close>: its result once and first. \<open>OnLeft\<close> comes up to twice
  (once when the connection is lost and once for a later \<open>Leave\<close>).
\<close>

lemma js_join_result_once:
  assumes "list_all keeps_user es" and "js_run J options es (new_js_ws handlers) = Some w"
  shows "length (join_calls (calls_of n (jw_calls w))) \<le> 1 \<and> lefts (calls_of n (jw_calls w)) \<le> 2"
proof -
  have "abs_js w = fold (sess_apply J options) es (no_sessions handlers)"
    using js_sim_run[OF js_inv_new[of handlers], of es J options] assms
    by (auto simp: js_sim_def abs_js_new list_all_iff)
  moreover have "sw_sess (abs_js w) n = abs_session w n" by (simp add: abs_js_def)
  ultimately have "promised (abs_session w n)" using promised_run[of J options es handlers n] by metis
  moreover have "ss_calls (abs_session w n) = calls_of n (jw_calls w)" by (simp add: abs_session_def)
  ultimately show ?thesis by (auto simp: promised_def split: list.splits sig_call.splits)
qed

lemma js_left_reported_twice:
  "map_option (\<lambda>w. calls_of 0 (jw_calls w)) (js_run J options
     [JeJoin ''a'' 0, JeOpen 0 [] (Some 7), JeClose 0, JeUser 0 JaLeave] (new_js_ws (\<lambda>_. True)))
   = Some [Joined, CcLeft 7 LeftConnectionLost, CcLeft 7 LeftClean]"
  by (simp add: js_ws_ops)

text \<open>
  When the browser reports an error of an open socket before it closes it, \<open>onerror\<close> has removed the socket from the
  map, \<open>OnError\<close> does nothing, and the loss of the connection is never reported.
\<close>

lemma js_error_hides_connection_loss:
  "map_option (\<lambda>w. (calls_of 0 (jw_calls w), sk_ended (jw_sockets w 0))) (js_run J options
     [JeJoin ''a'' 0, JeOpen 0 [] (Some 7), JeError 0, JeClose 0] (new_js_ws (\<lambda>_. True)))
   = Some ([Joined], True)"
  by (simp add: js_ws_ops)

text \<open>
  A join callback that does not keep the user destroys it, and the context with it, while \<open>OnOpen\<close> is still running:
  the assignment of the handler writes to freed memory.
\<close>

lemma js_user_dropped_in_join:
  "js_run J options [JeJoin ''a'' 0, JeOpen 0 [JaDrop] h] (new_js_ws handlers) = None"
  by (simp add: js_ws_ops)

end
