(* ===== verification/Fs_Drive.thy ===== *)
theory Fs_Drive
  imports Prelude
begin

text \<open>
  \<open>pkg/fs/Fs\<close>: path views and the drives (native, overlay, runfiles, Android assets).

  A path is its native string (POSIX, separator \<open>/\<close>). The operating system is a parameter: \<open>file_system\<close> has what
  \<open>std::filesystem\<close> and \<open>std::ifstream\<close> report for a path, \<open>asset_manager\<close> the Android asset API and
  \<open>rlocation\<close> the runfiles library. A drive is the record of its three virtual functions; a null pointer in an overlay is \<open>None\<close>.
\<close>

section \<open>Path\<close>

abbreviation sep :: char where "sep \<equiv> CHR ''/''"

fun strip_end :: "string \<Rightarrow> nat \<Rightarrow> nat" where
  "strip_end sv e = (if 1 < e \<and> sv ! (e - 1) = sep then strip_end sv (e - 1) else e)"

declare strip_end.simps [simp del]

definition filename_view :: "string \<Rightarrow> string" where
  "filename_view sv =
     (if sv = [] then []
      else
        let e = strip_end sv (length sv)
        in case rfind_upto (\<lambda>c. c = sep) sv e of
             None \<Rightarrow> take e sv
           | Some pos \<Rightarrow> take (e - pos - 1) (drop (pos + 1) sv))"

definition stem_view :: "string \<Rightarrow> string" where
  "stem_view sv =
     (let fname = filename_view sv
      in if fname = [] \<or> fname = ''.'' \<or> fname = ''..'' then fname
         else
           case rfind_upto (\<lambda>c. c = CHR ''.'') fname (length fname) of
             None \<Rightarrow> fname
           | Some d \<Rightarrow> if d = 0 then fname else take d fname)"

definition extension_view :: "string \<Rightarrow> string" where
  "extension_view sv =
     (let fname = filename_view sv
      in if fname = [] \<or> fname = ''.'' \<or> fname = ''..'' then []
         else
           case rfind_upto (\<lambda>c. c = CHR ''.'') fname (length fname) of
             None \<Rightarrow> []
           | Some d \<Rightarrow> if d = 0 then [] else drop d fname)"

definition parent_path_view :: "string \<Rightarrow> string" where
  "parent_path_view sv =
     (if sv = [] then []
      else
        let e = strip_end sv (length sv)
        in case rfind_upto (\<lambda>c. c = sep) sv e of
             None \<Rightarrow> []
           | Some pos \<Rightarrow> if pos = 0 then take 1 sv else take pos sv)"

text \<open>What the code uses of \<open>std::filesystem::path\<close>: \<open>is_absolute\<close>, \<open>operator/\<close> and \<open>parent_path\<close>.\<close>

definition is_absolute :: "string \<Rightarrow> bool" where
  "is_absolute p \<longleftrightarrow> p \<noteq> [] \<and> hd p = sep"

definition path_append :: "string \<Rightarrow> string \<Rightarrow> string" where
  "path_append p q = (if is_absolute q then q else if p = [] \<or> last p = sep then p @ q else p @ [sep] @ q)"

definition std_parent_path :: "string \<Rightarrow> string" where
  "std_parent_path p =
     (case rfind_upto (\<lambda>c. c = sep) p (length p) of
        None \<Rightarrow> []
      | Some i \<Rightarrow> take (strip_end p (Suc i)) p)"

section \<open>Drive\<close>

datatype errc = no_such_file_or_directory | not_supported | io_error | other_errc int

record drive =
  GetNativePath :: "string \<Rightarrow> (errc, string) expected"
  GetSize :: "string \<Rightarrow> (errc, nat) expected"
  ReadAllTo :: "string \<Rightarrow> byte list \<Rightarrow> (errc, nat) expected \<times> byte list"

record file_system =
  fs_exists :: "string \<Rightarrow> bool"
  fs_file_size :: "string \<Rightarrow> (errc, nat) expected"
  fs_open :: "string \<Rightarrow> byte list option"

text \<open>\<open>istream::read\<close> and \<open>gcount\<close>: as many bytes as fit and as there are.\<close>

definition read_into :: "byte list \<Rightarrow> byte list \<Rightarrow> nat \<times> byte list" where
  "read_into content buf =
     (let n = min (length content) (length buf) in (n, take n content @ drop n buf))"

section \<open>NativeDrive\<close>

fun find_prefix :: "file_system \<Rightarrow> string \<Rightarrow> string list \<Rightarrow> (errc, string) expected" where
  "find_prefix F path [] = Inl no_such_file_or_directory"
| "find_prefix F path (pre # ps) =
     (let fullPath = path_append pre path
      in if fs_exists F fullPath then Inr fullPath else find_prefix F path ps)"

definition NativeDrive_GetNativePath :: "file_system \<Rightarrow> string list \<Rightarrow> string \<Rightarrow> (errc, string) expected" where
  "NativeDrive_GetNativePath F prefixPaths path =
     (if is_absolute path
      then if \<not> fs_exists F path then Inl no_such_file_or_directory else Inr path
      else find_prefix F path prefixPaths)"

definition NativeDrive_GetSize :: "file_system \<Rightarrow> string list \<Rightarrow> string \<Rightarrow> (errc, nat) expected" where
  "NativeDrive_GetSize F prefixPaths path =
     (case NativeDrive_GetNativePath F prefixPaths path of
        Inl e \<Rightarrow> Inl e
      | Inr nativePath \<Rightarrow> fs_file_size F nativePath)"

definition NativeDrive_ReadAllTo ::
  "file_system \<Rightarrow> string list \<Rightarrow> string \<Rightarrow> byte list \<Rightarrow> (errc, nat) expected \<times> byte list" where
  "NativeDrive_ReadAllTo F prefixPaths path buf =
     (case NativeDrive_GetNativePath F prefixPaths path of
        Inl e \<Rightarrow> (Inl e, buf)
      | Inr nativePath \<Rightarrow>
          (case fs_open F nativePath of
             None \<Rightarrow> (Inl no_such_file_or_directory, buf)
           | Some content \<Rightarrow> let (n, buf') = read_into content buf in (Inr n, buf')))"

definition NativeDrive :: "file_system \<Rightarrow> string list \<Rightarrow> drive" where
  "NativeDrive F prefixPaths =
     \<lparr>GetNativePath = NativeDrive_GetNativePath F prefixPaths, GetSize = NativeDrive_GetSize F prefixPaths,
      ReadAllTo = NativeDrive_ReadAllTo F prefixPaths\<rparr>"

section \<open>OverlayDrive\<close>

fun overlay_path :: "drive option list \<Rightarrow> errc \<Rightarrow> string \<Rightarrow> (errc, string) expected" where
  "overlay_path [] lastError path = Inl lastError"
| "overlay_path (None # ds) lastError path = overlay_path ds lastError path"
| "overlay_path (Some d # ds) lastError path =
     (case GetNativePath d path of Inr p \<Rightarrow> Inr p | Inl e \<Rightarrow> overlay_path ds e path)"

fun overlay_size :: "drive option list \<Rightarrow> errc \<Rightarrow> string \<Rightarrow> (errc, nat) expected" where
  "overlay_size [] lastError path = Inl lastError"
| "overlay_size (None # ds) lastError path = overlay_size ds lastError path"
| "overlay_size (Some d # ds) lastError path =
     (case GetSize d path of Inr n \<Rightarrow> Inr n | Inl e \<Rightarrow> overlay_size ds e path)"

fun overlay_read :: "drive option list \<Rightarrow> errc \<Rightarrow> string \<Rightarrow> byte list \<Rightarrow> (errc, nat) expected \<times> byte list" where
  "overlay_read [] lastError path buf = (Inl lastError, buf)"
| "overlay_read (None # ds) lastError path buf = overlay_read ds lastError path buf"
| "overlay_read (Some d # ds) lastError path buf =
     (case ReadAllTo d path buf of
        (Inr n, buf') \<Rightarrow> (Inr n, buf')
      | (Inl e, buf') \<Rightarrow> overlay_read ds e path buf')"

definition OverlayDrive :: "drive option list \<Rightarrow> drive" where
  "OverlayDrive drives =
     \<lparr>GetNativePath = overlay_path drives no_such_file_or_directory,
      GetSize = overlay_size drives no_such_file_or_directory,
      ReadAllTo = overlay_read drives no_such_file_or_directory\<rparr>"

section \<open>RunfilesDrive\<close>

text \<open>\<open>runfiles\<close> is the library's object, absent when it could not be made.\<close>

record runfiles_drive =
  rd_workspaceName :: string
  rd_runfiles :: "(string \<Rightarrow> string) option"
  rd_nativeDrive :: "drive option"

definition new_RunfilesDrive ::
  "(string \<Rightarrow> (string \<Rightarrow> string) option) \<Rightarrow> drive \<Rightarrow> string list \<Rightarrow> string \<Rightarrow> drive option \<Rightarrow> runfiles_drive" where
  "new_RunfilesDrive create defaultDrive args workspaceName nativeDrive =
     \<lparr>rd_workspaceName = workspaceName, rd_runfiles = create (if args \<noteq> [] then hd args else []),
      rd_nativeDrive = (if nativeDrive = None then Some defaultDrive else nativeDrive)\<rparr>"

definition IsSupported :: "runfiles_drive \<Rightarrow> bool" where
  "IsSupported r \<longleftrightarrow> rd_runfiles r \<noteq> None"

definition Runfiles_GetNativePath :: "runfiles_drive \<Rightarrow> string \<Rightarrow> (errc, string) expected" where
  "Runfiles_GetNativePath r path =
     (case rd_runfiles r of
        None \<Rightarrow> Inl not_supported
      | Some rlocation \<Rightarrow>
          let nativePath = rlocation (rd_workspaceName r @ [sep] @ path)
          in if nativePath = [] then Inl no_such_file_or_directory
             else
               case rd_nativeDrive r of
                 Some d \<Rightarrow> GetNativePath d nativePath
               | None \<Rightarrow> Inr nativePath)"

definition Runfiles_GetSize :: "runfiles_drive \<Rightarrow> string \<Rightarrow> (errc, nat) expected" where
  "Runfiles_GetSize r path =
     (case Runfiles_GetNativePath r path of
        Inl e \<Rightarrow> Inl e
      | Inr nativePath \<Rightarrow>
          (case rd_nativeDrive r of
             Some d \<Rightarrow> GetSize d nativePath
           | None \<Rightarrow> Inl not_supported))"

definition Runfiles_ReadAllTo :: "runfiles_drive \<Rightarrow> string \<Rightarrow> byte list \<Rightarrow> (errc, nat) expected \<times> byte list" where
  "Runfiles_ReadAllTo r path buf =
     (case Runfiles_GetNativePath r path of
        Inl e \<Rightarrow> (Inl e, buf)
      | Inr nativePath \<Rightarrow>
          (case rd_nativeDrive r of
             Some d \<Rightarrow> ReadAllTo d nativePath buf
           | None \<Rightarrow> (Inl not_supported, buf)))"

definition RunfilesDrive :: "runfiles_drive \<Rightarrow> drive" where
  "RunfilesDrive r =
     \<lparr>GetNativePath = Runfiles_GetNativePath r, GetSize = Runfiles_GetSize r, ReadAllTo = Runfiles_ReadAllTo r\<rparr>"

section \<open>AndroidDrive and System\<close>

text \<open>An open asset: its length, and what \<open>AAsset_read\<close> returns and leaves in the buffer.\<close>

record asset =
  as_length :: nat
  as_read :: "byte list \<Rightarrow> int \<times> byte list"

type_synonym asset_manager = "string \<Rightarrow> asset option"

definition Android_GetSize :: "asset_manager option \<Rightarrow> string \<Rightarrow> (errc, nat) expected" where
  "Android_GetSize assetManager path =
     (case assetManager of
        None \<Rightarrow> Inl not_supported
      | Some open \<Rightarrow>
          (case open path of
             None \<Rightarrow> Inl no_such_file_or_directory
           | Some a \<Rightarrow> Inr (as_length a)))"

definition Android_ReadAllTo ::
  "asset_manager option \<Rightarrow> string \<Rightarrow> byte list \<Rightarrow> (errc, nat) expected \<times> byte list" where
  "Android_ReadAllTo assetManager path buf =
     (case assetManager of
        None \<Rightarrow> (Inl not_supported, buf)
      | Some open \<Rightarrow>
          (case open path of
             None \<Rightarrow> (Inl no_such_file_or_directory, buf)
           | Some a \<Rightarrow>
               let (bytesRead, buf') = as_read a buf
               in if bytesRead < 0 then (Inl io_error, buf') else (Inr (nat bytesRead), buf')))"

definition AndroidDrive :: "asset_manager option \<Rightarrow> drive" where
  "AndroidDrive assetManager =
     \<lparr>GetNativePath = (\<lambda>path. Inl not_supported), GetSize = Android_GetSize assetManager,
      ReadAllTo = Android_ReadAllTo assetManager\<rparr>"

text \<open>\<open>android\<close> is the asset manager of an Android build and absent on other platforms.\<close>

definition default_prefixes :: "string \<Rightarrow> string list \<Rightarrow> string list" where
  "default_prefixes cwd args = cwd # (if args \<noteq> [] then [std_parent_path (hd args)] else [])"

definition MakeDefaultDrive :: "file_system \<Rightarrow> asset_manager option option \<Rightarrow> string \<Rightarrow> string list \<Rightarrow> drive" where
  "MakeDefaultDrive F android cwd args =
     (case android of
        Some assetManager \<Rightarrow>
          OverlayDrive [Some (AndroidDrive assetManager), Some (NativeDrive F (default_prefixes cwd args))]
      | None \<Rightarrow> NativeDrive F (default_prefixes cwd args))"

section \<open>What a drive promises\<close>

text \<open>
  A drive presents a map from paths to contents: the size is the content's length, reading copies what fits, and a
  path without content is an error that leaves the buffer alone.
\<close>

locale drive_contract =
  fixes d :: drive and content :: "string \<rightharpoonup> byte list"
  assumes size_some: "content p = Some bs \<Longrightarrow> GetSize d p = Inr (length bs)"
    and size_none: "content p = None \<Longrightarrow> \<exists>e. GetSize d p = Inl e"
    and read_some: "content p = Some bs \<Longrightarrow> ReadAllTo d p buf = (Inr (fst (read_into bs buf)), snd (read_into bs buf))"
    and read_none: "content p = None \<Longrightarrow> \<exists>e. ReadAllTo d p buf = (Inl e, buf)"
begin

lemma size_then_read:
  assumes "GetSize d p = Inr n"
  shows "\<exists>bs. content p = Some bs \<and> n = length bs \<and> ReadAllTo d p (replicate n x) = (Inr n, bs)"
proof (cases "content p")
  case None
  then show ?thesis using size_none[of p] assms by auto
next
  case (Some bs)
  then show ?thesis using size_some[of p bs] read_some[of p bs] assms by (simp add: read_into_def)
qed

lemma outcome:
  "case content p of
     None \<Rightarrow> (\<exists>e. GetSize d p = Inl e) \<and> (\<exists>e. ReadAllTo d p buf = (Inl e, buf))
   | Some bs \<Rightarrow> GetSize d p = Inr (length bs) \<and> ReadAllTo d p (replicate (length bs) x) = (Inr (length bs), bs)"
  using size_none[of p] read_none[of p buf] size_some[of p] read_some[of p] by (simp add: read_into_def split: option.splits)

end

text \<open>The contents of the drives over a file system that is a map from native paths to contents.\<close>

definition files_fs :: "(string \<rightharpoonup> byte list) \<Rightarrow> file_system" where
  "files_fs files =
     \<lparr>fs_exists = (\<lambda>p. files p \<noteq> None),
      fs_file_size = (\<lambda>p. case files p of None \<Rightarrow> Inl no_such_file_or_directory | Some bs \<Rightarrow> Inr (length bs)),
      fs_open = files\<rparr>"

definition assets_of :: "(string \<rightharpoonup> byte list) \<Rightarrow> asset_manager" where
  "assets_of files p =
     map_option (\<lambda>bs. \<lparr>as_length = length bs, as_read = (\<lambda>buf. (int (fst (read_into bs buf)), snd (read_into bs buf)))\<rparr>) (files p)"

fun first_content :: "(string \<rightharpoonup> byte list) list \<Rightarrow> string \<rightharpoonup> byte list" where
  "first_content [] p = None"
| "first_content (c # cs) p = (case c p of None \<Rightarrow> first_content cs p | Some bs \<Rightarrow> Some bs)"

definition native_content :: "(string \<rightharpoonup> byte list) \<Rightarrow> string list \<Rightarrow> string \<rightharpoonup> byte list" where
  "native_content files prefixPaths p =
     (if is_absolute p then files p else first_content (map (\<lambda>pre q. files (path_append pre q)) prefixPaths) p)"

lemma native_path_content:
  "case native_content files ps p of
     None \<Rightarrow> NativeDrive_GetNativePath (files_fs files) ps p = Inl no_such_file_or_directory
   | Some bs \<Rightarrow> (\<exists>q. NativeDrive_GetNativePath (files_fs files) ps p = Inr q \<and> files q = Some bs)"
proof (cases "is_absolute p")
  case True
  then show ?thesis by (auto simp: NativeDrive_GetNativePath_def native_content_def files_fs_def split: option.splits)
next
  case False
  have "case first_content (map (\<lambda>pre q. files (path_append pre q)) ps) p of
     None \<Rightarrow> find_prefix (files_fs files) p ps = Inl no_such_file_or_directory
   | Some bs \<Rightarrow> (\<exists>q. find_prefix (files_fs files) p ps = Inr q \<and> files q = Some bs)"
    by (induction ps) (auto simp: files_fs_def Let_def split: option.splits)
  then show ?thesis using False by (simp add: NativeDrive_GetNativePath_def native_content_def split: option.splits)
qed

interpretation native: drive_contract "NativeDrive (files_fs files) ps" "native_content files ps" for files ps
proof
  fix p bs buf
  note c = native_path_content[of files ps p]
  show "native_content files ps p = Some bs \<Longrightarrow> GetSize (NativeDrive (files_fs files) ps) p = Inr (length bs)"
    using c by (auto simp: NativeDrive_def NativeDrive_GetSize_def files_fs_def)
  show "native_content files ps p = None \<Longrightarrow> \<exists>e. GetSize (NativeDrive (files_fs files) ps) p = Inl e"
    using c by (auto simp: NativeDrive_def NativeDrive_GetSize_def)
  show "native_content files ps p = Some bs \<Longrightarrow>
      ReadAllTo (NativeDrive (files_fs files) ps) p buf = (Inr (fst (read_into bs buf)), snd (read_into bs buf))"
    using c by (auto simp: NativeDrive_def NativeDrive_ReadAllTo_def files_fs_def split: prod.splits)
  show "native_content files ps p = None \<Longrightarrow> \<exists>e. ReadAllTo (NativeDrive (files_fs files) ps) p buf = (Inl e, buf)"
    using c by (auto simp: NativeDrive_def NativeDrive_ReadAllTo_def)
qed

interpretation android: drive_contract "AndroidDrive (Some (assets_of files))" files for files
  by unfold_locales (auto simp: AndroidDrive_def Android_GetSize_def Android_ReadAllTo_def assets_of_def)

text \<open>An overlay of drives that keep the contract keeps it, for the first content found.\<close>

lemma overlay_size_content:
  assumes "list_all2 drive_contract ds cs"
  shows "case first_content cs p of
     None \<Rightarrow> (\<exists>e. overlay_size (map Some ds) e0 p = Inl e) | Some bs \<Rightarrow> overlay_size (map Some ds) e0 p = Inr (length bs)"
  using assms
proof (induction arbitrary: e0 rule: list_all2_induct)
  case (Cons d ds c cs)
  show ?case
  proof (cases "c p")
    case None
    then obtain e where "GetSize d p = Inl e" using drive_contract.size_none[OF Cons.hyps(1)] by blast
    then show ?thesis using None Cons.IH[of e] by (simp split: option.splits)
  next
    case (Some bs)
    then show ?thesis using drive_contract.size_some[OF Cons.hyps(1) Some] by simp
  qed
qed simp

lemma overlay_read_content:
  assumes "list_all2 drive_contract ds cs"
  shows "case first_content cs p of
     None \<Rightarrow> (\<exists>e. overlay_read (map Some ds) e0 p buf = (Inl e, buf))
   | Some bs \<Rightarrow> overlay_read (map Some ds) e0 p buf = (Inr (fst (read_into bs buf)), snd (read_into bs buf))"
  using assms
proof (induction arbitrary: e0 rule: list_all2_induct)
  case (Cons d ds c cs)
  show ?case
  proof (cases "c p")
    case None
    then obtain e where "ReadAllTo d p buf = (Inl e, buf)" using drive_contract.read_none[OF Cons.hyps(1)] by blast
    then show ?thesis using None Cons.IH[of e] by (simp split: option.splits)
  next
    case (Some bs)
    then show ?thesis using drive_contract.read_some[OF Cons.hyps(1) Some] by simp
  qed
qed simp

lemma overlay_contract:
  assumes "list_all2 drive_contract ds cs"
  shows "drive_contract (OverlayDrive (map Some ds)) (first_content cs)"
proof
  fix p bs buf
  note sz = overlay_size_content[OF assms, where p = p and ?e0.0 = no_such_file_or_directory]
    and rd = overlay_read_content[OF assms, where p = p and ?e0.0 = no_such_file_or_directory and buf = buf]
  show "first_content cs p = Some bs \<Longrightarrow> GetSize (OverlayDrive (map Some ds)) p = Inr (length bs)"
    and "first_content cs p = None \<Longrightarrow> \<exists>e. GetSize (OverlayDrive (map Some ds)) p = Inl e"
    using sz by (simp_all add: OverlayDrive_def)
  show "first_content cs p = Some bs \<Longrightarrow>
      ReadAllTo (OverlayDrive (map Some ds)) p buf = (Inr (fst (read_into bs buf)), snd (read_into bs buf))"
    and "first_content cs p = None \<Longrightarrow> \<exists>e. ReadAllTo (OverlayDrive (map Some ds)) p buf = (Inl e, buf)"
    using rd by (simp_all add: OverlayDrive_def)
qed

text \<open>The default drive, with and without Android assets.\<close>

definition default_content ::
  "(string \<rightharpoonup> byte list) \<Rightarrow> (string \<rightharpoonup> byte list) option \<Rightarrow> string \<Rightarrow> string list \<Rightarrow> string \<rightharpoonup> byte list" where
  "default_content files assets cwd args =
     (case assets of
        Some as \<Rightarrow> first_content [as, native_content files (default_prefixes cwd args)]
      | None \<Rightarrow> native_content files (default_prefixes cwd args))"

interpretation default: drive_contract
  "MakeDefaultDrive (files_fs files) (map_option (\<lambda>as. Some (assets_of as)) assets) cwd args"
  "default_content files assets cwd args" for files assets cwd args
proof (cases assets)
  case None
  then show "drive_contract (MakeDefaultDrive (files_fs files) (map_option (\<lambda>as. Some (assets_of as)) assets) cwd args)
     (default_content files assets cwd args)"
    by (simp add: MakeDefaultDrive_def default_content_def native.drive_contract_axioms)
next
  case (Some as)
  then show "drive_contract (MakeDefaultDrive (files_fs files) (map_option (\<lambda>as. Some (assets_of as)) assets) cwd args)
     (default_content files assets cwd args)"
    using overlay_contract[of "[AndroidDrive (Some (assets_of as)), NativeDrive (files_fs files) (default_prefixes cwd args)]"
        "[as, native_content files (default_prefixes cwd args)]"]
    by (simp add: MakeDefaultDrive_def default_content_def native.drive_contract_axioms android.drive_contract_axioms)
qed

text \<open>Runfiles over a native drive, when the library gives absolute paths, as it documents.\<close>

lemma runfiles_contract:
  assumes "\<And>x. rlocation x = [] \<or> is_absolute (rlocation x)"
  shows "drive_contract
     (RunfilesDrive \<lparr>rd_workspaceName = ws, rd_runfiles = Some rlocation, rd_nativeDrive = Some (NativeDrive (files_fs files) ps)\<rparr>)
     (\<lambda>p. let q = rlocation (ws @ [sep] @ p) in if q = [] then None else files q)"
proof -
  have "native_content files ps q = files q \<and> GetNativePath (NativeDrive (files_fs files) ps) q =
      (if files q = None then Inl no_such_file_or_directory else Inr q)" if "is_absolute q" for q
    using that by (simp add: native_content_def NativeDrive_def NativeDrive_GetNativePath_def files_fs_def)
  moreover have "is_absolute (rlocation x)" if "rlocation x \<noteq> []" for x using assms that by blast
  ultimately show ?thesis
    by unfold_locales
       (auto simp: RunfilesDrive_def Runfiles_GetSize_def Runfiles_ReadAllTo_def Runfiles_GetNativePath_def Let_def
         native.size_some native.read_some split: if_splits)
qed

section \<open>Path views\<close>

lemma strip_end_le: "strip_end sv e \<le> e"
  by (induction sv e rule: strip_end.induct) (subst strip_end.simps, auto)

lemma strip_end_pos: "0 < e \<Longrightarrow> 0 < strip_end sv e"
  by (induction sv e rule: strip_end.induct) (subst strip_end.simps, auto)

definition stripped :: "string \<Rightarrow> string" where
  "stripped sv = take (strip_end sv (length sv)) sv"

lemma view_split:
  assumes "sv \<noteq> []" and "rfind_upto (\<lambda>c. c = sep) sv (strip_end sv (length sv)) = Some pos"
  shows "filename_view sv = drop (Suc pos) (stripped sv)" "stripped sv ! pos = sep" "pos < length (stripped sv)"
    "sep \<notin> set (filename_view sv)" "parent_path_view sv = (if pos = 0 then [sep] else take pos (stripped sv))"
proof -
  let ?e = "strip_end sv (length sv)"
  have e: "?e \<le> length sv" by (rule strip_end_le)
  have p: "pos < ?e" "sv ! pos = sep" "\<And>j. pos < j \<Longrightarrow> j < ?e \<Longrightarrow> sv ! j \<noteq> sep"
    using assms(2) e by (auto simp: rfind_upto_Some)
  show f: "filename_view sv = drop (Suc pos) (stripped sv)"
    using assms by (simp add: filename_view_def stripped_def drop_take)
  show "stripped sv ! pos = sep" "pos < length (stripped sv)" using p e by (simp_all add: stripped_def)
  show "sep \<notin> set (filename_view sv)"
    using p(3) e unfolding f stripped_def by (auto simp: in_set_conv_nth)
  have "take 1 sv = [sep]" if "pos = 0" using p(2) assms(1) that by (cases sv) simp_all
  then show "parent_path_view sv = (if pos = 0 then [sep] else take pos (stripped sv))"
    using assms p(1) by (simp add: parent_path_view_def stripped_def min_def)
qed

lemma stem_extension: "stem_view sv @ extension_view sv = filename_view sv"
  by (simp add: stem_view_def extension_view_def Let_def split: option.splits)

section \<open>Properties\<close>


text \<open>
  The views of a path fit together: stem and extension make up the file name, the file name has no separator, and
  the path without its trailing separators is the file name, or the parent followed by it with at most one
  separator in between.
\<close>

lemma path_views_decompose:
  "stem_view sv @ extension_view sv = filename_view sv \<and> sep \<notin> set (filename_view sv) \<and>
   stripped sv \<in> {filename_view sv, parent_path_view sv @ filename_view sv, parent_path_view sv @ [sep] @ filename_view sv}"
proof (cases "sv = []")
  case True
  then show ?thesis by (simp add: stem_extension filename_view_def stripped_def)
next
  case False
  let ?e = "strip_end sv (length sv)"
  show ?thesis
  proof (cases "rfind_upto (\<lambda>c. c = sep) sv ?e")
    case None
    then have "filename_view sv = stripped sv" using False by (simp add: filename_view_def stripped_def)
    moreover have "sep \<notin> set (stripped sv)"
      using None strip_end_le[of sv "length sv"] by (auto simp: stripped_def rfind_upto_None in_set_conv_nth)
    ultimately show ?thesis by (simp add: stem_extension)
  next
    case (Some pos)
    note v = view_split[OF False Some]
    have "stripped sv = take pos (stripped sv) @ [sep] @ filename_view sv"
      using v(2,3) by (metis append_Cons append_Nil id_take_nth_drop v(1))
    then show ?thesis using v(4,5) by (auto simp: stem_extension)
  qed
qed

end
