(* ===== verification/Exec_Task.thy ===== *)
theory Exec_Task
  imports Exec_Domain
begin

text \<open>
  \<open>pkg/exec/Exec/RunTask.h\<close>: what a coroutine \<open>RunTask<T>\<close> takes over from the coroutine or receiver that awaits it; and the task of
  \<open>demo/pkg/exec/main.cpp\<close>.

  The environment of an awaiting promise has a scheduler, the concrete one of a domain's context or one whose type is erased
  (\<open>any_scheduler\<close>, as in \<open>exec::task\<close>), and perhaps a stop token. What does not satisfy the constraints or static assertions does not compile: \<open>None\<close>.
\<close>

section \<open>Contexts\<close>

datatype env_scheduler = RunScheduler ref | AnyScheduler

text \<open>An \<open>inplace_stop_token\<close> refers to a stop source, or to none when it is default-initialised.\<close>

datatype env_stop_token = InplaceToken "ref option" | UnstoppableToken | OtherToken

record env =
  ev_scheduler :: env_scheduler
  ev_stopToken :: "env_stop_token option"

record RunTaskCtx =
  rx_scheduler :: ref
  rx_stopToken :: "ref option"

definition new_RunTaskCtx :: "env \<Rightarrow> RunTaskCtx option" where
  "new_RunTaskCtx parent =
     (case ev_scheduler parent of
        RunScheduler sched \<Rightarrow> Some \<lparr>rx_scheduler = sched, rx_stopToken = None\<rparr>
      | AnyScheduler \<Rightarrow> None)"

definition RunTaskCtx_query :: "RunTaskCtx \<Rightarrow> env" where
  "RunTaskCtx_query c = \<lparr>ev_scheduler = RunScheduler (rx_scheduler c), ev_stopToken = Some (InplaceToken (rx_stopToken c))\<rparr>"

definition RunTaskCtx_stop_requested :: "(ref \<Rightarrow> bool) \<Rightarrow> RunTaskCtx \<Rightarrow> bool" where
  "RunTaskCtx_stop_requested stopped c = (case rx_stopToken c of None \<Rightarrow> False | Some src \<Rightarrow> stopped src)"

definition RunTaskCtx_set_scheduler :: "ref \<Rightarrow> RunTaskCtx \<Rightarrow> RunTaskCtx" where
  "RunTaskCtx_set_scheduler sched c = c\<lparr>rx_scheduler := sched\<rparr>"

definition RunAwaiterCtx :: "env \<Rightarrow> RunTaskCtx \<Rightarrow> RunTaskCtx option" where
  "RunAwaiterCtx parent self =
     (case ev_stopToken parent of
        None \<Rightarrow> Some self
      | Some (InplaceToken t) \<Rightarrow> Some (self\<lparr>rx_stopToken := t\<rparr>)
      | Some UnstoppableToken \<Rightarrow> Some self
      | Some OtherToken \<Rightarrow> None)"

text \<open>\<open>co_await\<close> of a \<open>RunTask\<close> makes both contexts; the environment that its body sees is that of its promise.\<close>

definition await_RunTask :: "env \<Rightarrow> RunTaskCtx option" where
  "await_RunTask parent = Option.bind (new_RunTaskCtx parent) (RunAwaiterCtx parent)"

text \<open>The environment that \<open>DomainReceiver::get_env\<close> gives to the sender of a domain.\<close>

definition DomainReceiver_get_env :: "ref \<Rightarrow> ref \<Rightarrow> env" where
  "DomainReceiver_get_env sched stopSource =
     \<lparr>ev_scheduler = RunScheduler sched, ev_stopToken = Some (InplaceToken (Some stopSource))\<rparr>"

section \<open>Nested tasks\<close>

text \<open>
  Tasks that await each other, the outermost first. An \<open>exec::task\<close> can be awaited anywhere; it erases the scheduler and takes over the stop token.
\<close>

datatype task_kind = IsRunTask | IsExecTask

fun nested_env :: "task_kind list \<Rightarrow> env \<Rightarrow> env option" where
  "nested_env [] e = Some e"
| "nested_env (IsRunTask # ks) e = Option.bind (await_RunTask e) (\<lambda>c. nested_env ks (RunTaskCtx_query c))"
| "nested_env (IsExecTask # ks) e = nested_env ks (e\<lparr>ev_scheduler := AnyScheduler\<rparr>)"

lemma nested_exec_tasks:
  "ev_scheduler e = AnyScheduler \<Longrightarrow> nested_env ks e = (if IsRunTask \<in> set ks then None else Some e)"
proof (induction ks arbitrary: e)
  case (Cons k ks)
  then show ?case by (cases k) (auto simp: await_RunTask_def new_RunTaskCtx_def)
qed simp

text \<open>
  Which nestings compile, and what the innermost body sees: below a domain every chain of tasks works in which no \<open>RunTask\<close> is awaited by an
  \<open>exec::task\<close>, and at every depth the stop token is that of the domain's own stop source and, in a \<open>RunTask\<close>, the scheduler is the domain's.
\<close>

lemma nested_tasks_see_their_domain:
  "nested_env ks (DomainReceiver_get_env sched src) =
     (if IsRunTask \<in> set (dropWhile (\<lambda>k. k = IsRunTask) ks) then None
      else Some \<lparr>ev_scheduler = (if IsExecTask \<in> set ks then AnyScheduler else RunScheduler sched),
                 ev_stopToken = Some (InplaceToken (Some src))\<rparr>)"
proof (induction ks)
  case (Cons k ks)
  show ?case
  proof (cases k)
    case IsRunTask
    have "Option.bind (await_RunTask (DomainReceiver_get_env sched src)) (\<lambda>c. nested_env ks (RunTaskCtx_query c)) =
        nested_env ks (DomainReceiver_get_env sched src)"
      by (simp add: await_RunTask_def new_RunTaskCtx_def RunAwaiterCtx_def RunTaskCtx_query_def DomainReceiver_get_env_def)
    with IsRunTask Cons show ?thesis by simp
  next
    case IsExecTask
    then show ?thesis by (simp add: DomainReceiver_get_env_def nested_exec_tasks)
  qed
qed (simp add: DomainReceiver_get_env_def)

text \<open>So \<open>Domain::Stop\<close> is seen by \<open>stop_requested\<close> in every \<open>RunTask\<close>, however deep; below a parent that cannot be stopped it never is.\<close>

lemma domain_stop_reaches_nested_task:
  assumes "nested_env ks (DomainReceiver_get_env sched src) = Some e" and "await_RunTask e = Some c"
  shows "RunTaskCtx_stop_requested stopped c = stopped src" "rx_scheduler c = sched"
proof -
  have e: "e = \<lparr>ev_scheduler = (if IsExecTask \<in> set ks then AnyScheduler else RunScheduler sched),
      ev_stopToken = Some (InplaceToken (Some src))\<rparr>"
    using assms(1) by (simp add: nested_tasks_see_their_domain split: if_splits)
  then show "RunTaskCtx_stop_requested stopped c = stopped src" "rx_scheduler c = sched"
    using assms(2)
    by (auto simp: await_RunTask_def new_RunTaskCtx_def RunAwaiterCtx_def RunTaskCtx_stop_requested_def split: if_splits)
qed

lemma unstoppable_parent:
  "await_RunTask \<lparr>ev_scheduler = RunScheduler s, ev_stopToken = Some UnstoppableToken\<rparr> = Some c \<Longrightarrow> \<not> RunTaskCtx_stop_requested stopped c"
  by (auto simp: await_RunTask_def new_RunTaskCtx_def RunAwaiterCtx_def RunTaskCtx_stop_requested_def)

section \<open>The task of the demo\<close>

text \<open>\<open>SubTask\<close> awaits nothing of the scheduler; the delay of \<open>MainTask\<close> is 10 ms of the steady clock, in nanoseconds.\<close>

definition MainTask :: task where
  "MainTask = \<lparr>t_awaits = [AwaitAfter 10000000], t_code = 42\<rparr>"

text \<open>In a domain on the frame-driven backend under \<open>TightRunner\<close> it ends with 42, its hop and its delay completed.\<close>

lemma exec_demo_returns_42:
  assumes "mono clk" and "\<forall>T. \<exists>n. T \<le> clk n" and "\<forall>t. t \<le> lag t"
  shows "\<exists>r w. TightRun secs clk (task_handler lag stop_time clock (starts_on MainTask)) self one_domain = Some (42, r) \<and>
     rs_world r 0 = Some w \<and> l_signals w = [(0, SetValue), (1, SetValue)]"
  using task_run_ends[OF assms, of "starts_on MainTask" secs stop_time clock self]
  by (auto simp: starts_on_def MainTask_def)

end
