(* ===== verification/Http_Client.thy ===== *)
theory Http_Client
  imports Prelude
begin

text \<open>
  \<open>pkg/http/Http\<close>: the HTTP GET clients, over Asio and Beast (with and without TLS) and over the browser's fetch.

  Boost, OpenSSL, the URL parser and the browser are parameters: \<open>http_env\<close> holds what they report in one request, as error
  codes (\<open>None\<close>: success) or values. What the client asks of its socket is logged in order. A coroutine is the
  sequence of its steps; destructors run where the scope ends.
\<close>

section \<open>Types\<close>

datatype http_ec =
    EcInvalidArgument
  | EcProtocolNotSupported
  | EcProtocolError
  | EcIoError
  | EcOperationCanceled
  | EcStateNotRecoverable
  | EcNotConnected
  | EcLib int

type_synonym system_error = "http_ec \<times> string"

record Response =
  rs_statusCode :: int
  rs_body :: string

type_synonym http_result = "(system_error, Response) expected"

record url =
  u_protocol :: string
  u_hostname :: string
  u_port :: string
  u_pathname :: string
  u_search :: string

record request =
  rq_method :: string
  rq_target :: string
  rq_version :: nat
  rq_host :: string
  rq_userAgent :: string

datatype net_call =
    NcConnect string
  | NcNoDelay
  | NcNonBlocking
  | NcSni string
  | NcHandshake
  | NcWrite request
  | NcRead
  | NcTlsShutdown
  | NcShutdown
  | NcClose

record net =
  n_open :: bool
  n_log :: "net_call list"

datatype peek = PeekOk | PeekWouldBlock | PeekError

record http_env =
  he_withSsl :: bool
  he_parse :: "string \<Rightarrow> url option"
  he_resolve :: "string \<Rightarrow> string \<Rightarrow> (int, string list) expected"
  he_connect :: "string \<Rightarrow> int option"
  he_sni :: "string \<Rightarrow> bool"
  he_handshake :: "int option"
  he_write :: "request \<Rightarrow> int option"
  he_read :: "int option"
  he_status :: int
  he_reason :: string
  he_body :: string
  he_buffer :: string
  he_remoteEndpoint :: bool
  he_available :: bool
  he_nonBlocking :: bool
  he_peek :: peek

definition closed_net :: net where
  "closed_net = \<lparr>n_open = False, n_log = []\<rparr>"

definition ask :: "net_call \<Rightarrow> net \<Rightarrow> net" where
  "ask c n = n\<lparr>n_log := n_log n @ [c]\<rparr>"

definition in_quotes :: "string \<Rightarrow> string" where
  "in_quotes x = [CHR 0x27] @ x @ [CHR 0x27]"

section \<open>CstrView\<close>

text \<open>Where the characters are that \<open>c_str()\<close> points to, and which they are.\<close>

datatype cstr = Borrowed string | OnStack string | OnHeap string

definition CstrView :: "nat \<Rightarrow> string \<Rightarrow> cstr" where
  "CstrView maxStackSize sv =
     (if sv \<noteq> [] \<and> last sv = NUL then Borrowed sv
      else if length sv < maxStackSize then OnStack (sv @ [NUL])
      else OnHeap (sv @ [NUL]))"

fun c_str :: "cstr \<Rightarrow> string" where
  "c_str (Borrowed t) = t"
| "c_str (OnStack t) = t"
| "c_str (OnHeap t) = t"

lemma CstrView_terminated:
  "NUL \<in> set (c_str (CstrView n sv))" "c_string (c_str (CstrView n sv)) = c_string sv"
proof -
  show "NUL \<in> set (c_str (CstrView n sv))" by (auto simp: CstrView_def) (metis last_in_set)+
  show "c_string (c_str (CstrView n sv)) = c_string sv"
    by (simp add: CstrView_def c_string_def takeWhile_tail)
qed

section \<open>TcpConnection\<close>

definition SocketConnected :: "http_env \<Rightarrow> bool" where
  "SocketConnected E =
     (if \<not> he_remoteEndpoint E then False
      else if \<not> he_available E then False
      else if he_nonBlocking E then he_peek E = PeekOk \<or> he_peek E = PeekWouldBlock
      else True)"

definition SocketShutdown :: "net \<Rightarrow> net" where
  "SocketShutdown n = ask NcShutdown n"

definition SocketClose :: "net \<Rightarrow> net" where
  "SocketClose n = (ask NcClose n)\<lparr>n_open := False\<rparr>"

definition SocketFinish :: "http_env \<Rightarrow> net \<Rightarrow> net" where
  "SocketFinish E n =
     (if \<not> n_open n then n
      else let n1 = (if SocketConnected E then SocketShutdown n else n) in SocketClose n1)"

section \<open>BeastRequestContext\<close>

definition UrlParse :: "http_env \<Rightarrow> string \<Rightarrow> (http_ec, url) expected" where
  "UrlParse E u = (case he_parse E u of None \<Rightarrow> Inl EcInvalidArgument | Some r \<Rightarrow> Inr r)"

definition url_service :: "url \<Rightarrow> string" where
  "url_service u =
     (if u_port u \<noteq> [] then u_port u
      else if u_protocol u \<noteq> [] then take (length (u_protocol u) - 1) (u_protocol u)
      else ''80'')"

definition DnsResolve :: "http_env \<Rightarrow> url \<Rightarrow> (int, string list) expected" where
  "DnsResolve E u = he_resolve E (u_hostname u) (url_service u)"

text \<open>An attempt opens the socket; after a failed one it is closed again. The last error is the result.\<close>

fun try_endpoints :: "http_env \<Rightarrow> string list \<Rightarrow> int option \<Rightarrow> net \<Rightarrow> int option \<times> net" where
  "try_endpoints E [] ec n = (ec, n)"
| "try_endpoints E (ep # eps) ec n =
     (let n1 = (ask (NcConnect ep) n)\<lparr>n_open := True\<rparr>
      in case he_connect E ep of
           None \<Rightarrow> (None, n1)
         | Some e \<Rightarrow> try_endpoints E eps (Some e) (SocketClose n1))"

definition TcpConnect :: "http_env \<Rightarrow> string list \<Rightarrow> net \<Rightarrow> int option \<times> net" where
  "TcpConnect E dns_results n =
     (case try_endpoints E dns_results None n of
        (Some e, n1) \<Rightarrow> (Some e, n1)
      | (None, n1) \<Rightarrow> (None, ask NcNonBlocking (ask NcNoDelay n1)))"

definition SslConnection_destroy :: "http_env \<Rightarrow> bool \<Rightarrow> net \<Rightarrow> net" where
  "SslConnection_destroy E handshakeComplete n =
     (if \<not> handshakeComplete then SocketFinish E n else SocketFinish E (ask NcTlsShutdown n))"

text \<open>On failure the local connection, whose handshake is not complete, is destroyed.\<close>

definition SslConnect :: "http_env \<Rightarrow> url \<Rightarrow> net \<Rightarrow> system_error option \<times> net" where
  "SslConnect E u n =
     (let n1 = ask (NcSni (c_string (c_str (CstrView 64 (u_hostname u))))) n
      in if \<not> he_sni E (u_hostname u)
         then (Some (EcProtocolError, ''SNI setup failed '' @ in_quotes (u_hostname u)), SslConnection_destroy E False n1)
         else
           let n2 = ask NcHandshake n1
           in case he_handshake E of
                Some ec \<Rightarrow>
                  (Some (EcLib ec, ''TLS handshake failed '' @ in_quotes (u_hostname u @ '':'' @ u_port u)),
                   SslConnection_destroy E False n2)
              | None \<Rightarrow> (None, n2))"

definition make_request :: "url \<Rightarrow> request" where
  "make_request u =
     \<lparr>rq_method = ''GET'', rq_target = u_pathname u, rq_version = 11, rq_host = u_hostname u, rq_userAgent = ''Test/1.0''\<rparr>"

definition MakeHttpRequest :: "http_env \<Rightarrow> url \<Rightarrow> net \<Rightarrow> http_result \<times> net" where
  "MakeHttpRequest E u n =
     (let request = make_request u; n1 = ask (NcWrite request) n
      in case he_write E request of
           Some ec \<Rightarrow>
             (Inl (EcLib ec, ''Failed to send HTTP request: '' @ in_quotes (u_hostname u) @ '' '' @ rq_method request @ '' '' @ rq_target request), n1)
         | None \<Rightarrow>
             let n2 = ask NcRead n1
             in case he_read E of
                  Some ec \<Rightarrow> (Inl (EcLib ec, ''Failed to receive HTTP response: '' @ print_int (he_status E) @ '' ('' @ he_reason E @ '')''), n2)
                | None \<Rightarrow>
                    (Inr \<lparr>rs_statusCode = he_status E, rs_body = (if he_body E \<noteq> [] then he_body E else he_buffer E)\<rparr>, n2))"

definition GetAsyncImpl :: "http_env \<Rightarrow> string \<Rightarrow> net \<Rightarrow> http_result \<times> net" where
  "GetAsyncImpl E u n =
     (case UrlParse E u of
        Inl ec \<Rightarrow> (Inl (ec, ''URL parse failed: '' @ u), n)
      | Inr r \<Rightarrow>
          (case DnsResolve E r of
             Inl ec \<Rightarrow> (Inl (EcLib ec, ''DNS resolve failed: '' @ in_quotes (u_hostname r)), n)
           | Inr dns \<Rightarrow>
               (case TcpConnect E dns n of
                  (Some ec, n1) \<Rightarrow> (Inl (EcLib ec, ''TCP connect failed: '' @ in_quotes (u_hostname r)), n1)
                | (None, n1) \<Rightarrow>
                    if u_protocol r = ''https:''
                    then if he_withSsl E
                         then (case SslConnect E r n1 of
                                 (Some e, n2) \<Rightarrow> (Inl e, n2)
                               | (None, n2) \<Rightarrow>
                                   let (response, n3) = MakeHttpRequest E r n2 in (response, SslConnection_destroy E True n3))
                         else (Inl (EcProtocolNotSupported, ''TLS requested but HTTP client is built without SSL support''),
                               SocketFinish E n1)
                    else let (response, n2) = MakeHttpRequest E r n1 in (response, SocketFinish E n2))))"

section \<open>AsioLiteClient, the fetch clients and LiteClient\<close>

text \<open>
  The results given to the handler of \<open>Get\<close>. \<open>outcome\<close> is what the spawned coroutine completes with: a result, or \<open>None\<close> for an
  exception.
\<close>

definition stop_error :: system_error where
  "stop_error = (EcOperationCanceled, ''stop requested before request'')"

definition Asio_Get :: "bool \<Rightarrow> http_result option \<Rightarrow> http_result list" where
  "Asio_Get stop_requested outcome =
     (if stop_requested then [Inl stop_error]
      else
        case outcome of
          None \<Rightarrow> [Inl (EcStateNotRecoverable, ''co_spawn: not handled exception'')]
        | Some result \<Rightarrow> [result])"

text \<open>\<open>BeastRequestContext::GetAsync\<close> spawns the request as a coroutine of its own.\<close>

definition Beast_GetAsync :: "http_result option \<Rightarrow> http_result" where
  "Beast_GetAsync outcome =
     (case outcome of
        Some result \<Rightarrow> result
      | None \<Rightarrow> Inl (EcIoError, ''Unknown error in co_spawn''))"

record em_fetch =
  ft_status :: nat
  ft_statusText :: string
  ft_responseUrl :: bool
  ft_data :: string

datatype em_event = EmSuccess em_fetch | EmError em_fetch

definition EmFetch_Get :: "bool \<Rightarrow> em_event \<Rightarrow> http_result list" where
  "EmFetch_Get stop_requested ev =
     (if stop_requested then [Inl stop_error]
      else
        case ev of
          EmSuccess f \<Rightarrow> [Inr \<lparr>rs_statusCode = int (ft_status f), rs_body = ft_data f\<rparr>]
        | EmError f \<Rightarrow>
            if 0 < ft_status f \<and> ft_responseUrl f then [Inr \<lparr>rs_statusCode = int (ft_status f), rs_body = ft_data f\<rparr>]
            else [Inl (EcNotConnected,
                       ''emscripten_fetch: onerror: '' @ digits (ft_status f) @ '' ('' @ ft_statusText f @ '')'')])"

text \<open>The body reaches C++ as a C string, so it ends at its first 0 character.\<close>

datatype js_event = JsResult int "string option" | JsError string

definition OnFetchResult :: "int \<Rightarrow> string option \<Rightarrow> http_result" where
  "OnFetchResult status body =
     (let bodyStr = (case body of None \<Rightarrow> [] | Some b \<Rightarrow> c_string b) in Inr \<lparr>rs_statusCode = status, rs_body = bodyStr\<rparr>)"

definition OnFetchError :: "string \<Rightarrow> http_result" where
  "OnFetchError err = Inl (EcNotConnected, c_string err)"

definition JsFetch_Get :: "bool \<Rightarrow> js_event \<Rightarrow> http_result list" where
  "JsFetch_Get stop_requested ev =
     (if stop_requested then [Inl stop_error]
      else
        case ev of
          JsResult status body \<Rightarrow> [OnFetchResult status body]
        | JsError err \<Rightarrow> [OnFetchError err])"

datatype client_choice = UseJsFetch | UseEmFetch | UseBeast

definition MakeDefault :: "bool \<Rightarrow> bool \<Rightarrow> client_choice" where
  "MakeDefault emscripten useJsFetchClient =
     (if emscripten then if useJsFetchClient then UseJsFetch else UseEmFetch else UseBeast)"

section \<open>Sockets are closed\<close>

text \<open>
  The state of the socket after a log: \<open>None\<close> if it was connected while open, or used or closed while it was not.
\<close>

fun socket_after :: "bool \<Rightarrow> net_call list \<Rightarrow> bool option" where
  "socket_after op [] = Some op"
| "socket_after op (NcConnect ep # cs) = (if op then None else socket_after True cs)"
| "socket_after op (NcClose # cs) = (if op then socket_after False cs else None)"
| "socket_after op (_ # cs) = (if op then socket_after op cs else None)"

definition net_ok :: "net \<Rightarrow> bool" where
  "net_ok n \<longleftrightarrow> socket_after False (n_log n) = Some (n_open n)"

lemma socket_after_append:
  "socket_after op (xs @ ys) = (case socket_after op xs of None \<Rightarrow> None | Some b \<Rightarrow> socket_after b ys)"
  by (induction op xs rule: socket_after.induct) auto

definition needs_open :: "net_call \<Rightarrow> bool" where
  "needs_open c \<longleftrightarrow> (case c of NcConnect _ \<Rightarrow> False | NcClose \<Rightarrow> False | _ \<Rightarrow> True)"

lemma ask_ok: "net_ok n \<Longrightarrow> n_open n \<Longrightarrow> needs_open c \<Longrightarrow> net_ok (ask c n) \<and> n_open (ask c n)"
  by (cases c) (auto simp: net_ok_def ask_def socket_after_append needs_open_def)

lemma close_ok: "net_ok n \<Longrightarrow> n_open n \<Longrightarrow> net_ok (SocketClose n) \<and> \<not> n_open (SocketClose n)"
  by (simp add: net_ok_def SocketClose_def ask_def socket_after_append)

lemma finish_ok: "net_ok n \<Longrightarrow> net_ok (SocketFinish E n) \<and> \<not> n_open (SocketFinish E n)"
  using close_ok[of n] close_ok[of "SocketShutdown n"] ask_ok[of n NcShutdown]
  by (auto simp: SocketFinish_def SocketShutdown_def needs_open_def Let_def)

lemma try_endpoints_ok:
  assumes "net_ok n" "\<not> n_open n" "try_endpoints E eps ec n = (r, n')"
  shows "net_ok n' \<and> (r \<noteq> None \<longrightarrow> \<not> n_open n') \<and> (r = None \<longrightarrow> n_open n' \<or> eps = [] \<and> ec = None)"
  using assms
proof (induction eps arbitrary: ec n)
  case (Cons ep eps)
  let ?n = "(ask (NcConnect ep) n)\<lparr>n_open := True\<rparr>"
  have n: "net_ok ?n" "n_open ?n"
    using Cons.prems(1,2) by (simp_all add: net_ok_def ask_def socket_after_append)
  show ?case
  proof (cases "he_connect E ep")
    case None
    then show ?thesis using Cons.prems(3) n by auto
  next
    case (Some e)
    then have "try_endpoints E eps (Some e) (SocketClose ?n) = (r, n')" using Cons.prems(3) by (simp add: Let_def)
    then show ?thesis using Cons.IH[of "SocketClose ?n" "Some e"] close_ok[OF n] by auto
  qed
qed auto

lemma request_ok:
  assumes "net_ok n" "n_open n" "MakeHttpRequest E u n = (r, n')"
  shows "net_ok n' \<and> n_open n'"
  using assms ask_ok[OF assms(1,2), of "NcWrite (make_request u)"] ask_ok[of "ask (NcWrite (make_request u)) n" NcRead]
  by (auto simp: MakeHttpRequest_def needs_open_def Let_def split: option.splits)

lemma ssl_ok:
  assumes "net_ok n" "n_open n" "SslConnect E u n = (r, n')"
  shows "net_ok n' \<and> (n_open n' \<longleftrightarrow> r = None)"
proof -
  let ?n1 = "ask (NcSni (c_string (c_str (CstrView 64 (u_hostname u))))) n"
  have 1: "net_ok ?n1 \<and> n_open ?n1" using ask_ok[OF assms(1,2)] by (simp add: needs_open_def)
  then have "net_ok (ask NcHandshake ?n1) \<and> n_open (ask NcHandshake ?n1)" using ask_ok[of ?n1 NcHandshake] by (simp add: needs_open_def)
  then show ?thesis
    using 1 assms(3) finish_ok[of ?n1 E] finish_ok[of "ask NcHandshake ?n1" E]
    by (auto simp: SslConnect_def SslConnection_destroy_def Let_def split: if_splits option.splits)
qed

lemma tcp_ok:
  assumes "dns \<noteq> []" and "TcpConnect E dns closed_net = (r, n)"
  shows "net_ok n \<and> (n_open n \<longleftrightarrow> r = None)"
proof -
  obtain ec n1 where l: "try_endpoints E dns None closed_net = (ec, n1)" by fastforce
  then have n1: "net_ok n1 \<and> (ec \<noteq> None \<longrightarrow> \<not> n_open n1) \<and> (ec = None \<longrightarrow> n_open n1)"
    using try_endpoints_ok[OF _ _ l] assms(1) by (simp add: net_ok_def closed_net_def)
  then have "ec = None \<Longrightarrow> net_ok (ask NcNonBlocking (ask NcNoDelay n1)) \<and> n_open (ask NcNonBlocking (ask NcNoDelay n1))"
    using ask_ok[of n1 NcNoDelay] ask_ok[of "ask NcNoDelay n1" NcNonBlocking] by (simp add: needs_open_def)
  then show ?thesis using assms(2) l n1 by (auto simp: TcpConnect_def split: option.splits)
qed

lemma get_ok:
  assumes "\<And>h s. he_resolve E h s \<noteq> Inr []" and "GetAsyncImpl E u closed_net = (r, n)"
  shows "net_ok n \<and> \<not> n_open n"
proof -
  have start: "net_ok closed_net \<and> \<not> n_open closed_net" by (simp add: net_ok_def closed_net_def)
  show ?thesis
  proof (cases "\<exists>v dns. he_parse E u = Some v \<and> DnsResolve E v = Inr dns")
    case False
    then show ?thesis using assms(2) start by (auto simp: GetAsyncImpl_def UrlParse_def split: option.splits sum.splits)
  next
    case True
    then obtain v dns where v: "he_parse E u = Some v" "DnsResolve E v = Inr dns" by blast
    then have "dns \<noteq> []" using assms(1) by (auto simp: DnsResolve_def)
    obtain e n1 where t: "TcpConnect E dns closed_net = (e, n1)" by fastforce
    note n1 = tcp_ok[OF \<open>dns \<noteq> []\<close> t]
    obtain e2 n2 where c: "SslConnect E v n1 = (e2, n2)" by fastforce
    obtain p m where p: "MakeHttpRequest E v n1 = (p, m)" by fastforce
    obtain q k where q: "MakeHttpRequest E v n2 = (q, k)" by fastforce
    have "e = None \<Longrightarrow> net_ok m" using request_ok[OF _ _ p] n1 by simp
    moreover have "e = None \<Longrightarrow> net_ok n2 \<and> (n_open n2 \<longleftrightarrow> e2 = None)" using ssl_ok[OF _ _ c] n1 by simp
    moreover from this have "e = None \<Longrightarrow> e2 = None \<Longrightarrow> net_ok (ask NcTlsShutdown k)"
      using request_ok[OF _ _ q] ask_ok[of k NcTlsShutdown] by (simp add: needs_open_def)
    ultimately show ?thesis
      using assms(2) n1 finish_ok[of n1 E] finish_ok[of m E] finish_ok[of "ask NcTlsShutdown k" E]
      by (auto simp: GetAsyncImpl_def UrlParse_def v t c p q SslConnection_destroy_def split: option.splits if_splits)
  qed
qed

text \<open>The query of a URL is not part of the request.\<close>

lemma query_is_dropped: "make_request (u\<lparr>u_search := q\<rparr>) = make_request u"
  by (simp add: make_request_def)

section \<open>Properties\<close>


definition sample_env :: http_env where
  "sample_env =
     \<lparr>he_withSsl = True,
      he_parse = (\<lambda>_. Some \<lparr>u_protocol = ''https:'', u_hostname = ''h'', u_port = [], u_pathname = ''/x'', u_search = ''?q''\<rparr>),
      he_resolve = (\<lambda>_ _. Inr [''v6'', ''v4'']), he_connect = (\<lambda>ep. if ep = ''v6'' then Some 101 else None), he_sni = (\<lambda>_. True),
      he_handshake = None, he_write = (\<lambda>_. None), he_read = None, he_status = 200, he_reason = ''OK'', he_body = ''hi'',
      he_buffer = [], he_remoteEndpoint = True, he_available = True, he_nonBlocking = True, he_peek = PeekWouldBlock\<rparr>"


end
