(* ===== verification/Http_Cancel.thy ===== *)
theory Http_Cancel
  imports Http_Client
begin

text \<open>
  \<open>pkg/http/Http/Impl/AsioLiteClient.cpp\<close>: one \<open>Get\<close> with its stop token, step by step. The thread that calls \<open>Get\<close>, the executor that
  completes the request and the thread that requests the stop interleave; each event is one of their steps, and an event that
  is not enabled changes nothing.

  The \<open>StopBridge\<close> is a cancellation signal (\<open>gt_signal\<close>: it exists) and a \<open>stop_callback\<close>. The standard library registers the callback, or
  runs it at once in the constructor when the stop was requested before; its destructor removes it, after waiting for a
  call of it on another thread (\<open>gt_running\<close>). Emitting the signal reaches the coroutine only when \<open>co_spawn\<close> has connected its slot
  (\<open>gt_slot\<close>), and is an access to a destroyed object when the signal is gone (\<open>gt_dangling\<close>).
\<close>

section \<open>Steps\<close>

datatype get_pc = AtCheck | AtBridge | AtSpawn | InFlight | AtDropCallback | AtDropSignal | GetDone

record get_call =
  gt_pc :: get_pc
  gt_stopPossible :: bool
  gt_stopRequested :: bool
  gt_registered :: bool
  gt_running :: bool
  gt_signal :: bool
  gt_slot :: bool
  gt_cancelled :: bool
  gt_dangling :: bool
  gt_results :: "http_result list"

definition new_get :: "bool \<Rightarrow> bool \<Rightarrow> get_call" where
  "new_get possible requested =
     \<lparr>gt_pc = AtCheck, gt_stopPossible = possible, gt_stopRequested = possible \<and> requested, gt_registered = False,
      gt_running = False, gt_signal = False, gt_slot = False, gt_cancelled = False, gt_dangling = False, gt_results = []\<rparr>"

definition call_handler :: "http_result \<Rightarrow> get_call \<Rightarrow> get_call" where
  "call_handler r w = w\<lparr>gt_results := gt_results w @ [r]\<rparr>"

text \<open>The lambda of the \<open>stop_callback\<close>.\<close>

definition signal_emit :: "get_call \<Rightarrow> get_call" where
  "signal_emit w =
     (if \<not> gt_signal w then w\<lparr>gt_dangling := True\<rparr>
      else if gt_slot w then w\<lparr>gt_cancelled := True\<rparr>
      else w)"

definition get_check :: "get_call \<Rightarrow> get_call" where
  "get_check w =
     (if gt_stopRequested w then (call_handler (Inl stop_error) w)\<lparr>gt_pc := GetDone\<rparr> else w\<lparr>gt_pc := AtBridge\<rparr>)"

definition StopBridge :: "get_call \<Rightarrow> get_call" where
  "StopBridge w =
     (let w1 = w\<lparr>gt_pc := AtSpawn, gt_signal := True\<rparr> in
      if \<not> gt_stopPossible w1 then w1
      else if gt_stopRequested w1 then signal_emit w1
      else w1\<lparr>gt_registered := True\<rparr>)"

definition get_spawn :: "get_call \<Rightarrow> get_call" where
  "get_spawn w = w\<lparr>gt_pc := InFlight, gt_slot := True\<rparr>"

text \<open>The completion handler of \<open>co_spawn\<close>: an exception (\<open>None\<close>) or the result of \<open>GetAsync\<close>.\<close>

definition get_completed :: "http_result option \<Rightarrow> get_call \<Rightarrow> get_call" where
  "get_completed outcome w =
     (case outcome of
        None \<Rightarrow> call_handler (Inl (EcStateNotRecoverable, ''co_spawn: not handled exception'')) w
      | Some result \<Rightarrow> call_handler result w)\<lparr>gt_pc := AtDropCallback\<rparr>"

text \<open>The members of the bridge are destroyed in the reverse order of their declaration.\<close>

definition drop_callback :: "get_call \<Rightarrow> get_call" where
  "drop_callback w = (if gt_running w then w else w\<lparr>gt_registered := False, gt_pc := AtDropSignal\<rparr>)"

definition drop_signal :: "get_call \<Rightarrow> get_call" where
  "drop_signal w = w\<lparr>gt_signal := False, gt_pc := GetDone\<rparr>"

datatype get_event = GetStep | GetComplete "http_result option" | StopRequest | StopRun

fun get_apply :: "get_event \<Rightarrow> get_call \<Rightarrow> get_call" where
  "get_apply GetStep w =
     (case gt_pc w of
        AtCheck \<Rightarrow> get_check w
      | AtBridge \<Rightarrow> StopBridge w
      | AtSpawn \<Rightarrow> get_spawn w
      | AtDropCallback \<Rightarrow> drop_callback w
      | AtDropSignal \<Rightarrow> drop_signal w
      | _ \<Rightarrow> w)"
| "get_apply (GetComplete outcome) w = (if gt_pc w = InFlight then get_completed outcome w else w)"
| "get_apply StopRequest w =
     (if gt_stopPossible w \<and> \<not> gt_stopRequested w
      then w\<lparr>gt_stopRequested := True, gt_running := gt_registered w, gt_registered := False\<rparr> else w)"
| "get_apply StopRun w = (if gt_running w then (signal_emit w)\<lparr>gt_running := False\<rparr> else w)"

definition get_run :: "get_event list \<Rightarrow> get_call \<Rightarrow> get_call" where
  "get_run es w = fold get_apply es w"

section \<open>The invariant of all interleavings\<close>

definition get_inv :: "get_call \<Rightarrow> bool" where
  "get_inv w \<longleftrightarrow> \<not> gt_dangling w \<and>
     length (gt_results w) = (if gt_pc w \<in> {AtDropCallback, AtDropSignal, GetDone} then 1 else 0) \<and>
     (gt_signal w \<longleftrightarrow> gt_pc w \<in> {AtSpawn, InFlight, AtDropCallback, AtDropSignal}) \<and>
     (gt_registered w \<or> gt_running w \<longrightarrow> gt_pc w \<in> {AtSpawn, InFlight, AtDropCallback}) \<and>
     (gt_registered w \<longrightarrow> \<not> gt_stopRequested w) \<and> (gt_running w \<longrightarrow> gt_stopRequested w) \<and>
     (gt_pc w = InFlight \<longrightarrow> gt_slot w) \<and>
     (gt_pc w \<in> {AtSpawn, InFlight, AtDropCallback} \<and> gt_stopPossible w \<and> \<not> gt_stopRequested w \<longrightarrow> gt_registered w)"

lemmas get_step_defs = get_check_def StopBridge_def get_spawn_def get_completed_def drop_callback_def drop_signal_def
  call_handler_def signal_emit_def

lemma new_get_inv: "get_inv (new_get possible requested)"
  by (simp add: get_inv_def new_get_def)

lemma get_step_inv: "get_inv w \<Longrightarrow> get_inv (get_apply GetStep w)"
  by (cases "gt_pc w") (simp_all add: get_inv_def get_step_defs Let_def split: if_splits)

lemma get_apply_inv: "get_inv w \<Longrightarrow> get_inv (get_apply e w)"
proof (cases e)
  case (GetComplete outcome)
  assume "get_inv w"
  with GetComplete show ?thesis by (cases outcome; cases "gt_pc w") (simp_all add: get_inv_def get_step_defs)
next
  case StopRequest
  assume "get_inv w"
  with StopRequest show ?thesis by (cases "gt_pc w") (auto simp: get_inv_def)
next
  case StopRun
  assume "get_inv w"
  with StopRun show ?thesis by (cases "gt_pc w") (simp_all add: get_inv_def signal_emit_def)
qed (simp add: get_step_inv del: get_apply.simps)

lemma get_run_inv: "get_inv w \<Longrightarrow> get_inv (get_run es w)"
  unfolding get_run_def by (induction es arbitrary: w) (auto intro: get_apply_inv simp del: get_apply.simps)

text \<open>
  Every run can be completed: the steps that are left, whatever the stop does in between, lead to the end once the executor
  completes the request.
\<close>

definition finish :: "http_result option \<Rightarrow> get_event list" where
  "finish outcome = [GetStep, GetStep, GetStep, GetComplete outcome, StopRun, GetStep, GetStep]"

lemma pc_after:
  "gt_pc (get_apply GetStep w) =
     (case gt_pc w of
        AtCheck \<Rightarrow> if gt_stopRequested w then GetDone else AtBridge
      | AtBridge \<Rightarrow> AtSpawn
      | AtSpawn \<Rightarrow> InFlight
      | AtDropCallback \<Rightarrow> if gt_running w then AtDropCallback else AtDropSignal
      | AtDropSignal \<Rightarrow> GetDone
      | pc \<Rightarrow> pc)"
  "gt_pc (get_apply (GetComplete outcome) w) = (if gt_pc w = InFlight then AtDropCallback else gt_pc w)"
  "gt_pc (get_apply StopRun w) = gt_pc w" "\<not> gt_running (get_apply StopRun w)"
  "gt_running (get_apply GetStep w) = gt_running w"
  by (simp_all add: get_step_defs Let_def split: get_pc.splits option.splits)

lemma finish_done: "gt_pc (get_run (finish outcome) w) = GetDone"
  by (cases "gt_pc w") (simp_all add: get_run_def finish_def pc_after del: get_apply.simps)

lemma stopPossible_run: "gt_stopPossible (get_run es w) = gt_stopPossible w"
proof -
  have "gt_stopPossible (get_apply e u) = gt_stopPossible u" for e u
    by (cases e; cases "gt_pc u") (simp_all add: get_step_defs Let_def split: option.splits)
  then show ?thesis unfolding get_run_def by (induction es arbitrary: w) (simp_all del: get_apply.simps)
qed

section \<open>Properties\<close>

text \<open>
  C15. A request is answered exactly once and its cancellation never touches a destroyed object: in every interleaving of the
  caller, the executor and a thread that requests the stop, the signal is not emitted after its destruction, the handler has
  been called at most once, and after the executor's completion exactly once, with nothing of the bridge left. A stop
  requested while the request is in flight reaches the coroutine.
\<close>

theorem http_get_answers_once_under_cancellation:
  "let w = get_run es (new_get possible requested); v = get_run (finish outcome) w in
   \<not> gt_dangling w \<and> length (gt_results w) \<le> 1 \<and>
   gt_pc v = GetDone \<and> length (gt_results v) = 1 \<and> \<not> gt_signal v \<and> \<not> gt_registered v \<and> \<not> gt_running v \<and>
   (gt_pc w = InFlight \<and> possible \<and> \<not> gt_stopRequested w \<longrightarrow> gt_cancelled (get_run [StopRequest, StopRun] w))"
proof -
  define w where "w = get_run es (new_get possible requested)"
  define v where "v = get_run (finish outcome) w"
  have w: "get_inv w" unfolding w_def by (intro get_run_inv new_get_inv)
  then have v: "get_inv v" "gt_pc v = GetDone" unfolding v_def by (simp_all add: get_run_inv finish_done)
  have "gt_stopPossible w = possible" by (simp add: w_def stopPossible_run new_get_def)
  then have "gt_registered w \<and> gt_signal w \<and> gt_slot w \<and> gt_stopPossible w"
    if "gt_pc w = InFlight" "possible" "\<not> gt_stopRequested w"
    using w that unfolding get_inv_def by blast
  then have "gt_pc w = InFlight \<and> possible \<and> \<not> gt_stopRequested w \<longrightarrow> gt_cancelled (get_run [StopRequest, StopRun] w)"
    by (auto simp: get_run_def signal_emit_def)
  moreover have "\<not> gt_dangling w \<and> length (gt_results w) \<le> 1" using w by (cases "gt_pc w") (auto simp: get_inv_def)
  moreover have "length (gt_results v) = 1 \<and> \<not> gt_signal v \<and> \<not> gt_registered v \<and> \<not> gt_running v"
    using v by (simp add: get_inv_def)
  ultimately show ?thesis unfolding w_def[symmetric] v_def[symmetric] Let_def using v(2) by simp
qed

theorem http_get_answers_once_under_cancellation_witness:
  "gt_cancelled (get_run [StopRequest, StopRun] (get_run [GetStep, GetStep, GetStep] (new_get True False)))"
  using http_get_answers_once_under_cancellation[of "[GetStep, GetStep, GetStep]" True False None]
  by (simp add: get_run_def new_get_def get_step_defs Let_def)

text \<open>Undisturbed, the call gives what \<^const>\<open>Asio_Get\<close> says.\<close>

lemma undisturbed_get: "gt_results (get_run (finish outcome) (new_get possible requested)) = Asio_Get (possible \<and> requested) outcome"
  by (cases outcome; cases possible; cases requested) (simp_all add: get_run_def finish_def new_get_def get_step_defs Asio_Get_def)

text \<open>
  A stop that is requested after the check and before the slot is connected is lost: the request is not cancelled, and since
  a stop is requested only once, it never will be.
\<close>

lemma cancelled_stays_off:
  assumes "get_inv w" and "gt_stopRequested w" and "\<not> gt_running w" and "\<not> gt_cancelled w" and "gt_pc w \<notin> {AtCheck, AtBridge}"
  shows "\<not> gt_cancelled (get_run es w)"
  using assms
proof (induction es arbitrary: w)
  case (Cons e es)
  have "gt_stopRequested (get_apply e w)" "\<not> gt_running (get_apply e w)" "\<not> gt_cancelled (get_apply e w)"
      "gt_pc (get_apply e w) \<notin> {AtCheck, AtBridge}"
    using Cons.prems
    by (cases e; simp add: get_step_defs get_inv_def split: get_pc.splits option.splits)+
  with Cons show ?case by (simp add: get_run_def get_apply_inv del: get_apply.simps)
qed (simp add: get_run_def)

lemma early_stop_is_lost:
  assumes "stops = [GetStep, StopRequest, GetStep, GetStep] \<or> stops = [GetStep, GetStep, StopRequest, StopRun, GetStep]"
  shows "gt_pc (get_run stops (new_get True False)) = InFlight \<and>
     \<not> gt_cancelled (get_run es (get_run stops (new_get True False)))"
proof -
  let ?w = "get_run stops (new_get True False)"
  have "gt_stopRequested ?w \<and> \<not> gt_running ?w \<and> \<not> gt_cancelled ?w \<and> gt_pc ?w = InFlight"
    using assms by (auto simp: get_run_def new_get_def get_step_defs)
  then show ?thesis using cancelled_stays_off[of ?w es] get_run_inv[OF new_get_inv] by simp
qed

end
