(* ===== verification/Http_Demo.thy ===== *)
theory Http_Demo
  imports Http_Cancel Asio_Domain Boot
begin

text \<open>
  \<open>demo/pkg/http/main.cpp\<close> and \<open>demo/mix/exec-http/main.cpp\<close>: programs over the HTTP client.

  The first starts all its requests at once and waits for their completions on a channel. The order of the completions is that of
  the events; \<open>HdStop\<close> is the cancellation that \<open>AsioDomain::Stop\<close> emits, on which the pending \<open>async_receive\<close> throws. The callbacks refer to
  \<open>errorCount\<close> in the coroutine's frame; \<open>hd_dangling\<close> says that one did after the frame was destroyed.
\<close>

section \<open>The selected URLs\<close>

definition try_urls :: "(string \<times> string) list" where
  "try_urls =
     [(''ep'', ''url-parse-error''),
      (''ec'', ''http://localhost:12345/connect-refused''),
      (''tif'', ''http://ifconfig.io/ip''),
      (''tjp'', ''http://jsonplaceholder.typicode.com/todos/1''),
      (''h200'', ''http://httpbun.com/status/200''),
      (''h400'', ''http://httpbun.com/status/400''),
      (''hget'', ''http://httpbun.com/get''),
      (''get'', ''https://httpbun.com/get''),
      (''eget'', ''https://self-signed-cert.httpbun.com/get''),
      (''h2'', ''https://httpbin.org/get'')]"

definition starts_with :: "string \<Rightarrow> string \<Rightarrow> bool" where
  "starts_with p s \<longleftrightarrow> take (length p) s = p"

fun ChooseTryUrls :: "string list \<Rightarrow> string list" where
  "ChooseTryUrls [] = []"
| "ChooseTryUrls (arg # args) =
     (if starts_with ''http://'' arg \<or> starts_with ''https://'' arg then arg # ChooseTryUrls args
      else
        case map_of try_urls arg of
          Some url \<Rightarrow> url # ChooseTryUrls args
        | None \<Rightarrow> ChooseTryUrls args)"

section \<open>The main coroutine\<close>

record http_demo =
  hd_pending :: "nat list"
  hd_channel :: nat
  hd_awaiting :: nat
  hd_errorCount :: nat
  hd_frame :: bool
  hd_result :: "coro_result option"
  hd_dangling :: bool

text \<open>
  Up to the loop of awaits: the requests \<open>0, \<dots>, n - 1\<close> are started. (A callback that runs inside \<open>Get\<close> is a completion before the first
  await, which the channel keeps.)
\<close>

definition CoroMain_start :: "string list \<Rightarrow> http_demo" where
  "CoroMain_start args =
     (let n = length (ChooseTryUrls args) in
      if n \<le> 0 then
        \<lparr>hd_pending = [], hd_channel = 0, hd_awaiting = 0, hd_errorCount = 0, hd_frame = False,
         hd_result = Some (CoroReturned 1), hd_dangling = False\<rparr>
      else
        \<lparr>hd_pending = [0..<n], hd_channel = 0, hd_awaiting = n, hd_errorCount = 0, hd_frame = True, hd_result = None,
         hd_dangling = False\<rparr>)"

definition request_done :: "nat \<Rightarrow> http_result \<Rightarrow> http_demo \<Rightarrow> http_demo" where
  "request_done i result w =
     (let w1 = w\<lparr>hd_pending := remove1 i (hd_pending w)\<rparr>;
          w2 = (case result of
                  Inr response \<Rightarrow> w1
                | Inl error \<Rightarrow>
                    if hd_frame w1 then w1\<lparr>hd_errorCount := Suc (hd_errorCount w1)\<rparr> else w1\<lparr>hd_dangling := True\<rparr>)
      in w2\<lparr>hd_channel := Suc (hd_channel w2)\<rparr>)"

text \<open>One turn of the loop of awaits, and the return when there is none left.\<close>

definition await_completion :: "http_demo \<Rightarrow> http_demo" where
  "await_completion w =
     (if \<not> hd_frame w then w
      else if hd_awaiting w = 0
      then w\<lparr>hd_frame := False, hd_result := Some (CoroReturned (int (hd_errorCount w)))\<rparr>
      else if hd_channel w = 0 then w
      else w\<lparr>hd_channel := hd_channel w - 1, hd_awaiting := hd_awaiting w - 1\<rparr>)"

definition cancel_receive :: "http_demo \<Rightarrow> http_demo" where
  "cancel_receive w = (if hd_frame w then w\<lparr>hd_frame := False, hd_result := Some CoroException\<rparr> else w)"

datatype hd_event = HdDone nat http_result | HdResume | HdStop

fun hd_apply :: "hd_event \<Rightarrow> http_demo \<Rightarrow> http_demo" where
  "hd_apply (HdDone i result) w = (if i \<in> set (hd_pending w) then request_done i result w else w)"
| "hd_apply HdResume w = await_completion w"
| "hd_apply HdStop w = cancel_receive w"

definition hd_run :: "hd_event list \<Rightarrow> http_demo \<Rightarrow> http_demo" where
  "hd_run es w = fold hd_apply es w"

section \<open>The exec program\<close>

text \<open>\<open>HttpGet\<close> completes with what the callback gets; \<open>ExecMain\<close> returns its exit code.\<close>

definition ExecMain_result :: "http_result \<Rightarrow> int" where
  "ExecMain_result result = (case result of Inr _ \<Rightarrow> 0 | Inl _ \<Rightarrow> 1)"

section \<open>The exit code counts the failures\<close>

text \<open>The first completion of each request counts; \<open>failures es\<close> are those of a sequence of events.\<close>

fun completions_in :: "nat set \<Rightarrow> hd_event list \<Rightarrow> (nat \<times> http_result) list" where
  "completions_in P [] = []"
| "completions_in P (HdDone i r # es) = (if i \<in> P then (i, r) # completions_in (P - {i}) es else completions_in P es)"
| "completions_in P (_ # es) = completions_in P es"

definition failures :: "(nat \<times> http_result) list \<Rightarrow> nat" where
  "failures cs = length (filter (\<lambda>(i, r). \<exists>e. r = Inl e) cs)"

text \<open>While the coroutine runs, what it has counted are the failures so far, and no completion is lost.\<close>

definition hd_inv :: "nat \<Rightarrow> (nat \<times> http_result) list \<Rightarrow> http_demo \<Rightarrow> bool" where
  "hd_inv n cs w \<longleftrightarrow> distinct (hd_pending w) \<and> \<not> hd_dangling w \<and> length cs + length (hd_pending w) = n \<and>
     (if hd_frame w
      then hd_result w = None \<and> hd_errorCount w = failures cs \<and> hd_channel w + n = length cs + hd_awaiting w \<and> hd_awaiting w \<le> n
      else hd_result w = Some (CoroReturned (int (failures cs))) \<and> length cs = n)"

lemma remove1_facts: "distinct xs \<Longrightarrow> i \<in> set xs \<Longrightarrow> distinct (remove1 i xs) \<and> Suc (length (remove1 i xs)) = length xs"
  by (simp add: length_remove1) (metis Suc_pred length_pos_if_in_set)

lemma hd_apply_inv:
  assumes "hd_inv n cs w" and "e \<noteq> HdStop"
  shows "hd_inv n (cs @ completions_in (set (hd_pending w)) [e]) (hd_apply e w)"
    and "set (hd_pending (hd_apply e w)) = set (hd_pending w) - fst ` set (completions_in (set (hd_pending w)) [e])"
proof -
  have "hd_inv n (cs @ completions_in (set (hd_pending w)) [e]) (hd_apply e w) \<and>
    set (hd_pending (hd_apply e w)) = set (hd_pending w) - fst ` set (completions_in (set (hd_pending w)) [e])"
  proof (cases e)
    case (HdDone i r)
    show ?thesis
    proof (cases "i \<in> set (hd_pending w)")
      case True
      then have frame: "hd_frame w" using assms(1) by (auto simp: hd_inv_def split: if_splits)
      have d: "distinct (remove1 i (hd_pending w))" "Suc (length (remove1 i (hd_pending w))) = length (hd_pending w)"
        using remove1_facts[of "hd_pending w" i] True assms(1) by (auto simp: hd_inv_def)
      show ?thesis
        using assms(1) HdDone True frame d by (cases r) (auto simp: hd_inv_def request_done_def failures_def Let_def)
    qed (use assms(1) HdDone in auto)
  next
    case HdResume
    then show ?thesis using assms(1) by (auto simp: hd_inv_def await_completion_def split: if_splits)
  qed (use assms in simp)
  then show "hd_inv n (cs @ completions_in (set (hd_pending w)) [e]) (hd_apply e w)"
    and "set (hd_pending (hd_apply e w)) = set (hd_pending w) - fst ` set (completions_in (set (hd_pending w)) [e])" by auto
qed

lemma completions_in_Cons:
  "completions_in P (e # es) = completions_in P [e] @ completions_in (P - fst ` set (completions_in P [e])) es"
  by (cases e) auto

lemma hd_run_inv:
  "hd_inv n cs w \<Longrightarrow> HdStop \<notin> set es \<Longrightarrow> hd_inv n (cs @ completions_in (set (hd_pending w)) es) (hd_run es w)"
proof (induction es arbitrary: cs w)
  case (Cons e es)
  let ?c = "completions_in (set (hd_pending w)) [e]"
  have "hd_inv n (cs @ ?c) (hd_apply e w)" "set (hd_pending (hd_apply e w)) = set (hd_pending w) - fst ` set ?c"
    using hd_apply_inv[of n cs w e] Cons.prems by auto
  from Cons.IH[OF this(1)] this(2) Cons.prems(2) show ?case
    using completions_in_Cons[of "set (hd_pending w)" e es] by (simp add: hd_run_def del: hd_apply.simps)
qed (simp add: hd_run_def)

lemma await_all:
  assumes "hd_inv n cs w" and "length cs = n" and "hd_awaiting w \<le> m"
  shows "hd_result (hd_run (replicate (Suc m) HdResume) w) = Some (CoroReturned (int (failures cs)))"
  using assms
proof (induction m arbitrary: w)
  case 0
  then show ?case by (auto simp: hd_inv_def hd_run_def await_completion_def split: if_splits)
next
  case (Suc m)
  have inv: "hd_inv n cs (await_completion w)" using hd_apply_inv(1)[OF Suc.prems(1), of HdResume] by simp
  have "hd_awaiting (await_completion w) \<le> m \<or> \<not> hd_frame (await_completion w)"
    using Suc.prems by (auto simp: hd_inv_def await_completion_def split: if_splits)
  then have "hd_result (hd_run (replicate (Suc m) HdResume) (await_completion w)) = Some (CoroReturned (int (failures cs)))"
  proof
    assume "\<not> hd_frame (await_completion w)"
    moreover have "hd_run (replicate k HdResume) v = v" if "\<not> hd_frame v" for k v
      using that by (induction k) (simp_all add: hd_run_def await_completion_def)
    ultimately show ?thesis using inv by (simp add: hd_inv_def del: replicate_Suc)
  qed (use Suc.IH[OF inv Suc.prems(2)] in blast)
  then show ?case by (simp add: hd_run_def)
qed


section \<open>Properties\<close>

text \<open>
  The HTTP demo ends when all its requests have and its exit code is the number of those that failed: in every interleaving of
  completions and resumptions of the coroutine it has not returned while a request is outstanding, and once all have completed
  and it is resumed it returns the number of failures; no callback touches a destroyed frame.
\<close>

lemma http_demo_counts_failures:
  assumes "n = length (ChooseTryUrls args)" and "0 < n" and "HdStop \<notin> set es" and "cs = completions_in {0..<n} es"
  shows "\<not> hd_dangling (hd_run es (CoroMain_start args)) \<and>
     (if length cs < n then hd_result (hd_run es (CoroMain_start args)) = None
      else hd_result (hd_run (es @ replicate (Suc n) HdResume) (CoroMain_start args)) = Some (CoroReturned (int (failures cs))))"
proof -
  let ?w = "hd_run es (CoroMain_start args)"
  have "hd_inv n [] (CoroMain_start args)" "set (hd_pending (CoroMain_start args)) = {0..<n}"
    using assms(1,2) by (simp_all add: hd_inv_def CoroMain_start_def failures_def Let_def)
  then have inv: "hd_inv n cs ?w" using hd_run_inv[of n "[]" "CoroMain_start args" es] assms(3,4) by simp
  have run: "hd_run (es @ replicate (Suc n) HdResume) (CoroMain_start args) = hd_run (replicate (Suc n) HdResume) ?w"
    by (simp add: hd_run_def)
  show ?thesis
  proof (cases "length cs < n")
    case True
    then show ?thesis using inv by (auto simp: hd_inv_def split: if_splits)
  next
    case False
    then have len: "length cs = n" using inv by (simp add: hd_inv_def)
    show ?thesis
    proof (cases "hd_frame ?w")
      case True
      then have "hd_awaiting ?w \<le> n" using inv by (simp add: hd_inv_def)
      then show ?thesis using await_all[OF inv len, of n] False inv unfolding run by (simp add: hd_inv_def)
    next
      case out: False
      have "hd_run (replicate k HdResume) v = v" if "\<not> hd_frame v" for k v
        using that by (induction k) (simp_all add: hd_run_def await_completion_def)
      then show ?thesis using out inv False unfolding run by (simp add: hd_inv_def del: replicate_Suc)
    qed
  qed
qed

lemma http_demo_counts_failures_witness:
  "hd_result (hd_run ([HdDone 1 (Inl stop_error), HdResume, HdDone 0 (Inr \<lparr>rs_statusCode = 400, rs_body = []\<rparr>)] @ replicate 3 HdResume)
     (CoroMain_start [''demo'', ''h400'', ''ep''])) = Some (CoroReturned 1)"
proof -
  have urls: "ChooseTryUrls [''demo'', ''h400'', ''ep''] = [''http://httpbun.com/status/400'', ''url-parse-error'']"
    by (simp add: starts_with_def try_urls_def)
  show ?thesis
    using http_demo_counts_failures[of 2 "[''demo'', ''h400'', ''ep'']"
        "[HdDone 1 (Inl stop_error), HdResume, HdDone 0 (Inr \<lparr>rs_statusCode = 400, rs_body = []\<rparr>)]"]
    unfolding urls by (simp add: failures_def numeral_3_eq_3 numeral_2_eq_2)
qed

text \<open>
  A stop while requests are outstanding ends the program in \<open>std::terminate\<close>: the pending receive throws, the exception leaves the coroutine, and
  \<open>AsioDomain::Completed\<close> does not expect one. A request that fails afterwards counts in the destroyed frame.
\<close>

lemma stop_terminates_http_demo:
  assumes "0 < length (ChooseTryUrls args)"
  shows "hd_result (hd_run [HdStop] (CoroMain_start args)) = Some CoroException"
    and "AsioCompleted exit CoroException w = None"
    and "hd_dangling (hd_run [HdStop, HdDone 0 (Inl e)] (CoroMain_start args))"
  using assms
  by (simp_all add: hd_run_def CoroMain_start_def cancel_receive_def request_done_def AsioCompleted_def Let_def)

text \<open>No URL at all has the exit code of one failed request.\<close>

lemma no_urls_exit_code: "ChooseTryUrls args = [] \<Longrightarrow> hd_result (CoroMain_start args) = Some (CoroReturned 1)"
  by (simp add: CoroMain_start_def)

end
