(* ===== verification/Exec_Asio.thy ===== *)
theory Exec_Asio
  imports Exec_Domain Asio_Domain Http_Demo
begin

text \<open>
  \<open>demo/mix/exec-asio/main.cpp\<close> and \<open>demo/mix/exec-http/main.cpp\<close>: a composite of an \<open>AsioPoller\<close> and an \<open>Exec::Domain\<close> under \<open>TightRunner\<close>. The domain's
  task awaits operations of Asio, which complete inside the poller's \<open>Update\<close>.

  Await 0 of the task is the hop of \<open>starts_on\<close>; the awaits 1 to \<open>n\<close> are operations on the \<open>io_context\<close>. When one of these completes, the
  coroutine is resumed on the domain's scheduler, so its operation is enqueued there. Asio and the network are the parameter \<open>fires\<close>: the time
  from which a poll finds operation \<open>k\<close> complete. The task ends with \<open>final\<close>: its exit code, or an exception.
\<close>

section \<open>The task\<close>

definition asio_next ::
  "'q cqueue \<Rightarrow> nat \<Rightarrow> completion \<Rightarrow> ref \<Rightarrow> ('q, 'b) domain \<Rightarrow> ('q, 'b) domain" where
  "asio_next Q n final k w =
     (if k = 0 then LoopOp_start Q 0 (set_op 0 (\<lambda>_. connect_loop) w)
      else if k \<le> n then set_op k (\<lambda>_. connect_loop\<lparr>to_phase := Started\<rparr>) w
      else DomainReceiver TightExit final w)"

definition asio_box :: "'q cqueue \<Rightarrow> 'b tbackend \<Rightarrow> nat \<Rightarrow> completion \<Rightarrow> ('q, 'b) op_state_box" where
  "asio_box Q B n final =
     \<lparr>ob_start = asio_next Q n final 0,
      ob_recv = (\<lambda>k sig w.
        case sig of
          SetValue \<Rightarrow> asio_next Q n final (Suc k) (TimedOp_destroy B k w)
        | SetStopped \<Rightarrow> DomainReceiver TightExit SetStoppedAll (TimedOp_destroy B k w)),
      ob_destroy = (\<lambda>w. w)\<rparr>"

text \<open>\<open>ExecMain\<close> of the two programs. \<open>AsioSub\<close> may end with an exception, which \<open>ExecMain\<close> throws again.\<close>

definition ExecMain_asio :: "bool \<Rightarrow> nat \<times> completion" where
  "ExecMain_asio exc = (2, if exc then SetErrorAny else SetValueInt 33)"

definition ExecMain_http :: "http_result \<Rightarrow> nat \<times> completion" where
  "ExecMain_http result = (1, SetValueInt (ExecMain_result result))"

section \<open>The poller in the composite\<close>

text \<open>An operation that was started and whose completion has not been delivered.\<close>

definition io_waits :: "nat \<Rightarrow> (ref list, 'b) domain \<Rightarrow> ref \<Rightarrow> bool" where
  "io_waits n w k \<longleftrightarrow> 1 \<le> k \<and> k \<le> n \<and> to_phase (l_ops w k) = Started \<and> k \<notin> set (l_queue w) \<and> k \<notin> fst ` set (l_signals w)"

definition asio_poll :: "nat \<Rightarrow> (ref \<Rightarrow> time_point) \<Rightarrow> time_point \<Rightarrow> (ref list, 'b) domain \<Rightarrow> (ref list, 'b) domain" where
  "asio_poll n fires now w = fold (Enqueue fifo) (filter (\<lambda>k. io_waits n w k \<and> fires k \<le> now) [0..<Suc n]) w"

definition AsioPollerHandler ::
  "nat \<Rightarrow> (ref \<Rightarrow> time_point) \<Rightarrow> (time_point \<Rightarrow> time_point) \<Rightarrow> ref \<Rightarrow> (ref \<Rightarrow> (ref list, 'b) domain option) rstate handler" where
  "AsioPollerHandler n fires lag h =
     \<lparr>h_Start = (\<lambda>r. (True, r)), h_Stop = (\<lambda>r. r),
      h_Update = (\<lambda>ctx. with_domain h (\<lambda>w. Some (asio_poll n fires (lag (f_startTime (u_frame ctx))) w)))\<rparr>"

text \<open>A composite as the handler of a runner, whose state includes the composite's.\<close>

definition pack :: "composite \<times> 'w rstate \<Rightarrow> (composite \<times> 'w) rstate" where
  "pack p = \<lparr>rs_exitCode = rs_exitCode (snd p), rs_running = rs_running (snd p), rs_world = (fst p, rs_world (snd p))\<rparr>"

definition unpack :: "(composite \<times> 'w) rstate \<Rightarrow> composite \<times> 'w rstate" where
  "unpack r = (fst (rs_world r), \<lparr>rs_exitCode = rs_exitCode r, rs_running = rs_running r, rs_world = snd (rs_world r)\<rparr>)"

definition composite_runner :: "(ref \<Rightarrow> 'w rstate handler) \<Rightarrow> (composite \<times> 'w) rstate handler" where
  "composite_runner H =
     (let C = CompositeHandler H in
      \<lparr>h_Start = (\<lambda>r. let (ok, p) = h_Start C (unpack r) in (ok, pack p)), h_Stop = (\<lambda>r. pack (h_Stop C (unpack r))),
       h_Update = (\<lambda>ctx r. pack (h_Update C ctx (unpack r)))\<rparr>)"

text \<open>\<open>main\<close>: the poller is handler 0 and the domain handler 1, added in this order.\<close>

definition mixed_handlers ::
  "'b tbackend \<Rightarrow> nat \<times> completion \<Rightarrow> (ref \<Rightarrow> time_point) \<Rightarrow> (time_point \<Rightarrow> time_point) \<Rightarrow> ref \<Rightarrow>
   (ref \<Rightarrow> (ref list, 'b) domain option) rstate handler" where
  "mixed_handlers B t fires lag h =
     (if h = 0 then AsioPollerHandler (fst t) fires lag 1
      else DomainHandler (\<lambda>_. Some) Some fifo B (\<lambda>_. asio_box fifo B (fst t) (snd t)) 1)"

definition mixed_main ::
  "'b \<Rightarrow> 'b tbackend \<Rightarrow> nat \<times> completion \<Rightarrow> (ref \<Rightarrow> time_point) \<Rightarrow> (time_point \<Rightarrow> time_point) \<Rightarrow>
   (composite \<times> (ref \<Rightarrow> (ref list, 'b) domain option)) rstate" where
  "mixed_main b B t fires lag =
     (let H = mixed_handlers B t fires lag;
          s = \<lparr>rs_exitCode = None, rs_running = False, rs_world = [1 \<mapsto> new_domain [] b]\<rparr>
      in pack (Add H 1 (Add H 0 (new_composite, s))))"

section \<open>One frame\<close>

definition asio_task :: "nat \<Rightarrow> ref \<Rightarrow> (ref list, 'b) domain \<Rightarrow> bool" where
  "asio_task n k w \<longleftrightarrow> \<not> l_stop w \<and> \<not> d_terminated w \<and> d_opState w = Some Started \<and> l_callbacks w = [] \<and>
     l_signals w = map (\<lambda>i. (i, SetValue)) [0..<k] \<and> (\<forall>j>k. to_phase (l_ops w j) = Connected)"

definition task_ready :: "nat \<Rightarrow> ref \<Rightarrow> (ref list, 'b) domain \<Rightarrow> bool" where
  "task_ready n k w \<longleftrightarrow> asio_task n k w \<and> k \<le> n \<and> l_queue w = [k] \<and> to_timerId (l_ops w k) = InvalidTimerId"

definition task_waiting :: "nat \<Rightarrow> ref \<Rightarrow> (ref list, 'b) domain \<Rightarrow> bool" where
  "task_waiting n k w \<longleftrightarrow> asio_task n k w \<and> 0 < k \<and> k \<le> n \<and> l_queue w = [] \<and> to_phase (l_ops w k) = Started \<and>
     to_timerId (l_ops w k) = InvalidTimerId"

definition task_finished :: "nat \<Rightarrow> (ref list, 'b) domain \<Rightarrow> bool" where
  "task_finished n w \<longleftrightarrow> asio_task n (Suc n) w \<and> l_queue w = []"

lemmas asio_task_defs = asio_task_def task_ready_def task_waiting_def task_finished_def

lemma asio_task_runner [simp]:
  "task_ready n k (w\<lparr>d_runner := r\<rparr>) = task_ready n k w" "task_waiting n k (w\<lparr>d_runner := r\<rparr>) = task_waiting n k w"
  "task_finished n (w\<lparr>d_runner := r\<rparr>) = task_finished n w"
  by (simp_all add: asio_task_defs)

lemma filter_single: "k < m \<Longrightarrow> filter (\<lambda>j. j = k) [0..<m] = [k]"
  by (induction m) (auto simp: less_Suc_eq filter_empty_conv)

lemma poll_waiting:
  assumes "task_waiting n k w"
  shows "asio_poll n fires now w = (if fires k \<le> now then Enqueue fifo k w else w)"
proof -
  have "io_waits n w j \<longleftrightarrow> j = k" if "j \<le> n" for j
  proof (cases "j < k")
    case True
    then have "j \<in> fst ` set (l_signals w)" using assms by (force simp: asio_task_defs)
    with True show ?thesis by (simp add: io_waits_def)
  next
    case False
    then show ?thesis using assms that by (cases "j = k") (auto simp: io_waits_def asio_task_defs)
  qed
  then have "filter (\<lambda>j. io_waits n w j \<and> fires j \<le> now) [0..<Suc n] = filter (\<lambda>j. j = k \<and> fires k \<le> now) [0..<Suc n]"
    by (intro filter_cong) auto
  also have "\<dots> = (if fires k \<le> now then [k] else [])"
    using filter_single[of k "Suc n"] assms by (simp add: task_waiting_def del: upt_Suc)
  finally show ?thesis by (simp add: asio_poll_def del: upt_Suc)
qed

lemma poll_ready:
  assumes "task_ready n k w"
  shows "asio_poll n fires now w = w"
proof -
  have "\<not> io_waits n w j" for j
    using assms by (cases j k rule: linorder_cases) (force simp: io_waits_def asio_task_defs)+
  then show ?thesis by (simp add: asio_poll_def)
qed

lemma enqueue_waiting: "task_waiting n k w \<Longrightarrow> task_ready n k (Enqueue fifo k w)"
  by (simp add: asio_task_defs Enqueue_def fifo_enq)

lemma update_ready:
  assumes "task_ready n k w"
  shows "\<exists>w'. DomainUpdate Some fifo (asio_box fifo B n (SetValueInt code)) w = Some w' \<and>
     (k < n \<and> task_waiting n (Suc k) w' \<and> d_runner w' = d_runner w \<or>
      k = n \<and> task_finished n w' \<and> d_runner w' = TightExit code (d_runner w))"
proof -
  let ?u = "TimedOp_destroy B k (Execute k (w\<lparr>l_queue := []\<rparr>))"
  let ?v = "asio_next fifo n (SetValueInt code) (Suc k) ?u"
  have u: "asio_task n (Suc k) ?u" "l_queue ?u = []" "d_runner ?u = d_runner w"
    using assms by (auto simp: asio_task_defs TimedOp_destroy_def Let_def)
  have v: "k < n \<and> task_waiting n (Suc k) ?v \<and> d_runner ?v = d_runner w \<or>
      k = n \<and> task_finished n ?v \<and> d_runner ?v = TightExit code (d_runner w)"
  proof (cases "k < n")
    case True
    then show ?thesis using u by (auto simp: asio_next_def asio_task_defs connect_loop_def)
  next
    case False
    then have "k = n" using assms by (simp add: task_ready_def)
    then show ?thesis using u by (auto simp: asio_next_def asio_task_defs Completed_def)
  qed
  then have q: "l_queue ?v = []" "\<not> d_terminated ?v" by (auto simp: asio_task_defs)
  have "PureDrain fifo (ob_recv (asio_box fifo B n (SetValueInt code))) 0 w = Some (1, ?v)"
    using assms q by (subst PureDrain_step[of _ k "[]"]) (auto simp: asio_task_defs asio_box_def PureDrain_empty)
  then show ?thesis using v q(2) by (intro exI[of _ ?v]) (simp add: DomainUpdate_def DrainQueue_def alive_def)
qed

lemma update_waiting:
  assumes "task_waiting n k w"
  shows "DomainUpdate Some fifo S w = Some w"
  using assms by (simp add: DomainUpdate_def DrainQueue_def PureDrain_empty asio_task_defs alive_def)

section \<open>The whole run\<close>

abbreviation runner_of :: "'w rstate \<Rightarrow> unit rstate" where
  "runner_of r \<equiv> \<lparr>rs_exitCode = rs_exitCode r, rs_running = rs_running r, rs_world = ()\<rparr>"

lemma asio_poll_runner [simp]: "d_runner (asio_poll n fires now w) = d_runner w"
proof -
  have "d_runner (fold (Enqueue fifo) ks w) = d_runner w" for ks by (induction ks arbitrary: w) (simp_all add: Enqueue_def)
  then show ?thesis by (simp add: asio_poll_def del: upt_Suc)
qed

lemma mixed_step:
  assumes "c_handlers (fst (rs_world r)) = [0, 1]" and "snd (rs_world r) 1 = Some w"
    and "DomainUpdate Some fifo (asio_box fifo B n final) (asio_poll n fires (lag time) (w\<lparr>d_runner := runner_of r\<rparr>)) = Some w'"
  shows "snd (tight_step secs time (composite_runner (mixed_handlers B (n, final) fires lag)) (ctx, r)) =
     \<lparr>rs_exitCode = rs_exitCode (d_runner w'), rs_running = rs_running (d_runner w'),
      rs_world = (fst (rs_world r), (snd (rs_world r))(1 := Some w'))\<rparr>"
proof -
  define u where "u = asio_poll n fires (lag time) (w\<lparr>d_runner := runner_of r\<rparr>)"
  have r: "d_runner u = runner_of r" by (simp add: u_def)
  then have same: "u\<lparr>d_runner := runner_of r\<rparr> = u" by (cases u) simp
  from assms r show ?thesis
    by (simp add: same tight_step_def composite_runner_def CompositeHandler_def CompositeUpdate_def mixed_handlers_def
        AsioPollerHandler_def DomainHandler_def with_domain_def pack_def unpack_def Tick_def Let_def u_def[symmetric])
qed

definition mixed_ends :: "(duration \<Rightarrow> real) \<Rightarrow> (nat \<Rightarrow> time_point) \<Rightarrow> (composite \<times> (ref \<Rightarrow> (ref list, 'b) domain option)) rstate handler \<Rightarrow> nat \<Rightarrow> int \<Rightarrow> nat \<Rightarrow>
   UpdateCtx \<times> (composite \<times> (ref \<Rightarrow> (ref list, 'b) domain option)) rstate \<Rightarrow> bool" where
  "mixed_ends secs clk h n code m st \<longleftrightarrow>
     (\<exists>st' w. tight_loop secs clk h m st = Some st' \<and> rs_exitCode (snd st') = Some code \<and>
        c_handlers (fst (rs_world (snd st'))) = [0, 1] \<and> snd (rs_world (snd st')) 1 = Some w \<and> task_finished n w)"

lemma mixed_ends_step:
  assumes "rs_running (snd st)" and "mixed_ends secs clk h n code (Suc m) (tight_step secs (clk (Suc m)) h st)"
  shows "mixed_ends secs clk h n code m st"
  using assms by (simp add: mixed_ends_def tight_loop.simps[of _ _ _ m])

lemma mixed_ends_now:
  assumes "\<not> rs_running (snd st)" and "rs_exitCode (snd st) = Some code" and "c_handlers (fst (rs_world (snd st))) = [0, 1]"
    and "snd (rs_world (snd st)) 1 = Some w" and "task_finished n w"
  shows "mixed_ends secs clk h n code m st"
proof -
  have "tight_loop secs clk h m st = Some st" using assms(1) by (subst tight_loop.simps) simp
  with assms show ?thesis unfolding mixed_ends_def by blast
qed

definition in_frame :: "composite \<Rightarrow> UpdateCtx \<times> (composite \<times> (ref \<Rightarrow> (ref list, 'b) domain option)) rstate \<Rightarrow> (ref list, 'b) domain \<Rightarrow> bool" where
  "in_frame c st w \<longleftrightarrow> rs_running (snd st) \<and> fst (rs_world (snd st)) = c \<and> snd (rs_world (snd st)) 1 = Some w"

lemma ready_step:
  assumes "c_handlers c = [0, 1]" and "in_frame c st w"
    and "asio_poll n fires (lag (clk (Suc m))) (w\<lparr>d_runner := runner_of (snd st)\<rparr>) = u" "task_ready n k u" "d_runner u = runner_of (snd st)"
    and IH: "\<And>st' w'. k < n \<Longrightarrow> in_frame c st' w' \<Longrightarrow> task_waiting n (Suc k) w' \<Longrightarrow>
      mixed_ends secs clk (composite_runner (mixed_handlers B (n, SetValueInt code) fires lag)) n code (Suc m) st'"
  shows "mixed_ends secs clk (composite_runner (mixed_handlers B (n, SetValueInt code) fires lag)) n code m st"
proof -
  let ?h = "composite_runner (mixed_handlers B (n, SetValueInt code) fires lag)"
  let ?st = "tight_step secs (clk (Suc m)) ?h st"
  obtain w' where up: "DomainUpdate Some fifo (asio_box fifo B n (SetValueInt code)) u = Some w'"
    and w': "k < n \<and> task_waiting n (Suc k) w' \<and> d_runner w' = runner_of (snd st) \<or>
      k = n \<and> task_finished n w' \<and> d_runner w' = TightExit code (runner_of (snd st))"
    using update_ready[OF assms(4), of B code] assms(5) by auto
  have step: "snd ?st = \<lparr>rs_exitCode = rs_exitCode (d_runner w'), rs_running = rs_running (d_runner w'),
      rs_world = (c, (snd (rs_world (snd st)))(1 := Some w'))\<rparr>"
    using mixed_step[of "snd st" w B n "SetValueInt code" fires lag "clk (Suc m)" w' secs "fst st"] assms(1-3) up
    by (simp add: in_frame_def)
  have "mixed_ends secs clk ?h n code (Suc m) ?st"
  proof (cases "k < n")
    case True
    then show ?thesis using IH[OF True, of ?st w'] w' step assms(2) by (simp add: in_frame_def)
  next
    case False
    then have "task_finished n w'" "\<not> rs_running (snd ?st)" "rs_exitCode (snd ?st) = Some code"
      using w' step by (auto simp: TightExit_def SetExitCode_def)
    moreover have "c_handlers (fst (rs_world (snd ?st))) = [0, 1]" "snd (rs_world (snd ?st)) 1 = Some w'"
      unfolding step using assms(1) by simp_all
    ultimately show ?thesis by (intro mixed_ends_now)
  qed
  then show ?thesis using assms(2) by (auto simp: in_frame_def intro: mixed_ends_step[where m = m])
qed

lemma waiting_task_ends:
  assumes clk: "mono clk" "\<forall>T. \<exists>n. T \<le> clk n" and lag: "\<forall>t. t \<le> lag t" and c: "c_handlers c = [0, 1]"
    and "task_waiting n k w" and "in_frame c st w"
  shows "mixed_ends secs clk (composite_runner (mixed_handlers B (n, SetValueInt code) fires lag)) n code m st"
  using assms(5,6)
proof (induction "n - k" arbitrary: k w st m rule: less_induct)
  case less
  let ?h = "composite_runner (mixed_handlers B (n, SetValueInt code) fires lag)"
  have due: "mixed_ends secs clk ?h n code m st"
    if prems: "task_waiting n k w" "in_frame c st w" "fires k \<le> lag (clk (Suc m))" for m st w
  proof (rule ready_step[OF c prems(2) refl])
    let ?w = "w\<lparr>d_runner := runner_of (snd st)\<rparr>"
    have w: "task_waiting n k ?w" using prems(1) by simp
    show "task_ready n k (asio_poll n fires (lag (clk (Suc m))) ?w)"
      using enqueue_waiting[OF w] prems(3) by (simp add: poll_waiting[OF w])
    show "mixed_ends secs clk ?h n code (Suc m) st'" if "k < n" "in_frame c st' w'" "task_waiting n (Suc k) w'" for st' w'
      using less.hyps[of "Suc k" w' st' "Suc m"] that by simp
  qed simp
  obtain j where "fires k \<le> clk j" using clk(2) by blast
  also have "clk j \<le> clk (Suc (m + j))" using clk(1) by (simp add: monoD)
  finally have "fires k \<le> clk (Suc (m + j))" .
  with less.prems show ?case
  proof (induction j arbitrary: m st w)
    case (0 m st w)
    then have "fires k \<le> lag (clk (Suc m))" using lag[rule_format, of "clk (Suc m)"] by simp
    with 0 show ?case by (intro due) auto
  next
    case (Suc j m st w)
    show ?case
    proof (cases "fires k \<le> lag (clk (Suc m))")
      case False
      let ?w = "w\<lparr>d_runner := runner_of (snd st)\<rparr>" and ?st = "tight_step secs (clk (Suc m)) ?h st"
      have w: "task_waiting n k ?w" using Suc.prems(1) by simp
      have "snd ?st = \<lparr>rs_exitCode = rs_exitCode (snd st), rs_running = rs_running (snd st),
          rs_world = (c, (snd (rs_world (snd st)))(1 := Some ?w))\<rparr>"
        using mixed_step[of "snd st" w B n "SetValueInt code" fires lag "clk (Suc m)" ?w secs "fst st"] c Suc.prems(2) False
        by (simp add: in_frame_def poll_waiting[OF w] update_waiting[OF w])
      then have "in_frame c ?st ?w" using Suc.prems(2) by (simp add: in_frame_def)
      from Suc.IH[OF w this, of "Suc m"] Suc.prems(3) have "mixed_ends secs clk ?h n code (Suc m) ?st" by simp
      then show ?thesis using Suc.prems(2) by (auto simp: in_frame_def intro: mixed_ends_step[where m = m])
    qed (use Suc.prems due in blast)
  qed
qed

lemma stop_finished:
  assumes "task_finished n w"
  shows "DomainStop Some fifo B (asio_box fifo B n final) w = Some (w\<lparr>l_stop := True, d_opState := None\<rparr>)"
proof -
  have "request_stop fifo B w = w\<lparr>l_stop := True\<rparr>"
    using assms by (cases w) (simp add: request_stop_def asio_task_defs)
  then show ?thesis
    using assms by (simp add: DomainStop_def DrainQueue_def PureDrain_empty alive_def asio_task_defs asio_box_def)
qed

lemma mixed_main_state:
  "mixed_main b B t fires lag =
     \<lparr>rs_exitCode = None, rs_running = False, rs_world = (new_composite\<lparr>c_handlers := [0, 1]\<rparr>, [1 \<mapsto> new_domain [] b])\<rparr>"
  by (simp add: mixed_main_def Add_def new_composite_def pack_def Let_def)

lemma start_domain:
  "DomainStart (asio_box fifo B n final) ((new_domain [] b)\<lparr>d_runner := r\<rparr>) =
     Some (True, asio_next fifo n final 0 ((new_domain [] b)\<lparr>d_runner := r, d_opState := Some Started\<rparr>))"
  by (simp add: DomainStart_def asio_box_def alive_def asio_next_def new_domain_def LoopOp_start_def Enqueue_def set_op_def)

text \<open>
  C8. The mixed programs come to an end: a composite of an \<open>AsioPoller\<close> and a domain whose task awaits operations of Asio, under
  \<open>TightRunner\<close> with clocks that advance beyond every bound, returns the task's exit code, whenever the operations complete; every await
  has then completed exactly once and in order, and the domain's operation state is destroyed.
\<close>

theorem mixed_program_returns_its_code:
  assumes "mono clk" and "\<forall>T. \<exists>n. T \<le> clk n" and "\<forall>t. t \<le> lag t"
  shows "\<exists>r w. TightRun secs clk (composite_runner (mixed_handlers B (n, SetValueInt code) fires lag)) self
       (mixed_main b B (n, SetValueInt code) fires lag) = Some (code, r) \<and>
     snd (rs_world r) 1 = Some w \<and> d_opState w = None \<and> l_queue w = [] \<and>
     l_signals w = map (\<lambda>i. (i, SetValue)) [0..<Suc n]"
proof -
  let ?h = "composite_runner (mixed_handlers B (n, SetValueInt code) fires lag)"
  let ?ctx = "Initialize (clk 0) (new_UpdateCtx self)"
  let ?s = "mixed_main b B (n, SetValueInt code) fires lag"
  define w0 where "w0 = asio_next fifo n (SetValueInt code) 0
    ((new_domain [] b)\<lparr>d_runner := \<lparr>rs_exitCode = None, rs_running = False, rs_world = ()\<rparr>, d_opState := Some Started\<rparr>)"
  have run0: "d_runner w0 = \<lparr>rs_exitCode = None, rs_running = False, rs_world = ()\<rparr>"
    by (simp add: w0_def asio_next_def LoopOp_start_def Enqueue_def set_op_def)
  define s1 where "s1 = snd (h_Start ?h ?s)"
  have start: "h_Start ?h ?s = (True, s1)" "c_handlers (fst (rs_world s1)) = [0, 1]" "snd (rs_world s1) 1 = Some w0"
      "rs_exitCode s1 = None"
    unfolding s1_def mixed_main_state
    by (simp_all add: composite_runner_def CompositeHandler_def CompositeStart_def mixed_handlers_def AsioPollerHandler_def
        DomainHandler_def with_domain_def start_domain w0_def[symmetric] run0 pack_def unpack_def SetRunner_def Let_def)
  define st where "st = (?ctx, s1\<lparr>rs_running := True\<rparr>)"
  have frame: "in_frame (fst (rs_world s1)) st w0" using start(3) by (simp add: st_def in_frame_def)
  have ready: "task_ready n 0 (w0\<lparr>d_runner := runner_of (snd st)\<rparr>)"
    by (simp add: asio_task_defs w0_def asio_next_def LoopOp_start_def Enqueue_def set_op_def new_domain_def connect_loop_def fifo_enq)
  have "mixed_ends secs clk ?h n code 0 st"
    by (rule ready_step[OF start(2) frame poll_ready[OF ready] ready])
       (auto intro: waiting_task_ends[OF assms start(2)])
  then obtain ctx' r w where e: "tight_loop secs clk ?h 0 st = Some (ctx', r)" "rs_exitCode r = Some code"
      "c_handlers (fst (rs_world r)) = [0, 1]" "snd (rs_world r) 1 = Some w" "task_finished n w"
    by (auto simp: mixed_ends_def)
  let ?w = "w\<lparr>d_runner := runner_of r\<rparr>"
  have "task_finished n ?w" using e(5) by simp
  then have "h_Stop ?h r = \<lparr>rs_exitCode = rs_exitCode r, rs_running = rs_running r,
      rs_world = ((fst (rs_world r))\<lparr>c_running := False\<rparr>, (snd (rs_world r))(1 \<mapsto> ?w\<lparr>l_stop := True, d_opState := None\<rparr>))\<rparr>"
    using e(3,4) by (simp add: composite_runner_def CompositeHandler_def CompositeStop_def mixed_handlers_def AsioPollerHandler_def
        DomainHandler_def with_domain_def stop_finished pack_def unpack_def)
  with e start(1) show ?thesis
    unfolding st_def by (auto simp: TightRun_def GetExitCode_def value_or_def asio_task_defs Let_def)
qed

theorem mixed_program_returns_its_code_witness:
  "\<exists>r w. TightRun (\<lambda>_. 0) int (composite_runner (mixed_handlers LoopBackend (ExecMain_asio False) (\<lambda>k. 50 * int k) (\<lambda>t. t))) 0
       (mixed_main new_loop_backend LoopBackend (ExecMain_asio False) (\<lambda>k. 50 * int k) (\<lambda>t. t)) = Some (33, r) \<and>
     snd (rs_world r) 1 = Some w \<and> l_signals w = [(0, SetValue), (1, SetValue), (2, SetValue)]"
proof -
  have "\<forall>T. \<exists>n. T \<le> int n" by (metis nat_le_iff order_refl)
  from mixed_program_returns_its_code[OF _ this, of "\<lambda>t. t" "\<lambda>_. 0" LoopBackend 2 33 "\<lambda>k. 50 * int k" 0 new_loop_backend]
  show ?thesis by (auto simp: mono_def ExecMain_asio_def numeral_2_eq_2)
qed

text \<open>
  No extra frames: when a poll finds the awaited operation complete, the task is resumed by the domain's update of the same frame.
\<close>

lemma resumed_in_the_same_frame:
  assumes "task_waiting n k w" and "fires k \<le> now"
  shows "\<exists>w'. DomainUpdate Some fifo (asio_box fifo B n (SetValueInt code)) (asio_poll n fires now w) = Some w' \<and>
     l_signals w' = l_signals w @ [(k, SetValue)]"
proof -
  have "l_signals w = map (\<lambda>i. (i, SetValue)) [0..<k]" using assms(1) by (simp add: asio_task_defs)
  then show ?thesis
    unfolding poll_waiting[OF assms(1)]
    using update_ready[OF enqueue_waiting[OF assms(1)], of B code] assms(2) by (auto simp: asio_task_defs)
qed


text \<open>
  A stop while an operation of Asio is in flight does not unwind the task: \<open>Domain::Stop\<close> drains its own queue, but the completion (also that of a
  cancelled operation) comes only from a poll, so the operation state is destroyed with the operation still waiting.
\<close>

lemma stop_destroys_waiting_task:
  assumes "task_waiting n k w"
  shows "\<exists>w'. DomainStop Some fifo B (asio_box fifo B n final) w = Some w' \<and> d_opState w' = None \<and> io_waits n w' k \<and>
     l_signals w' = l_signals w"
proof -
  have stop: "request_stop fifo B w = w\<lparr>l_stop := True\<rparr>"
    using assms by (cases w) (simp add: request_stop_def asio_task_defs)
  have "DomainStop Some fifo B (asio_box fifo B n final) w = Some (w\<lparr>l_stop := True, d_opState := None\<rparr>)"
    using assms unfolding DomainStop_def stop by (simp add: DrainQueue_def PureDrain_empty alive_def asio_task_defs asio_box_def)
  then show ?thesis using assms by (force simp: io_waits_def asio_task_defs)
qed


end
