(* ===== verification/Http_Raw.thy ===== *)
theory Http_Raw
  imports Boot
begin

text \<open>
  \<open>demo/try/http-nghttp2\<close>: the HTTP/1.1 client on plain sockets and OpenSSL, the HTTP/2 client on nghttp2, and their program.

  The libraries are parameters: \<open>raw_env\<close> holds what they report in one request, and what a client asks of them is logged in
  order. \<open>ra_reads\<close> are the reads that return data, in order, before the first that does not; for HTTP/2 each of them comes with
  the callbacks nghttp2 makes for it and the result of \<open>nghttp2_session_mem_recv\<close>. The result of a request is \<open>None\<close> when an exception leaves
  the function, or when a null pointer is passed to a library.
\<close>

section \<open>Types\<close>

record HttpResponse =
  hr_status_code :: int
  hr_headers :: string
  hr_body :: string

definition new_HttpResponse :: HttpResponse where
  "new_HttpResponse = \<lparr>hr_status_code = 0, hr_headers = [], hr_body = []\<rparr>"

datatype h2_event =
    H2Header bool string string
  | H2Data string
  | H2StreamClose
  | H2FrameRecv bool

record raw_env =
  ra_socket :: bool
  ra_resolve :: "string \<Rightarrow> bool"
  ra_connect :: "string \<Rightarrow> u16 \<Rightarrow> bool"
  ra_ctx :: bool
  ra_ssl :: bool
  ra_handshake :: bool
  ra_send :: "string \<Rightarrow> int"
  ra_sslWrite :: "string \<Rightarrow> int"
  ra_reads :: "string list"
  ra_alpn :: "string option"
  ra_session :: bool
  ra_submit :: int
  ra_h2 :: "(h2_event list \<times> int) list"

datatype raw_call =
    RcSocket
  | RcConnect
  | RcClose
  | RcCtxNew
  | RcCtxFree
  | RcSslNew
  | RcSslConnect
  | RcSslShutdown
  | RcSslFree
  | RcSend string
  | RcSslWrite string
  | RcRecv
  | RcSslRead
  | RcAlpn
  | RcSessionNew
  | RcSessionUse
  | RcSubmit "(string \<times> string) list"
  | RcSessionDel

section \<open>Strings\<close>

definition CRLF2 :: string where
  "CRLF2 = [CHR 0x0D, CHR 0x0A, CHR 0x0D, CHR 0x0A]"

definition LF2 :: string where
  "LF2 = [CHR 0x0A, CHR 0x0A]"

text \<open>\<open>std::string::find\<close> of a string, and \<open>std::stoi\<close> (\<open>None\<close>: it throws).\<close>

fun find_sub :: "string \<Rightarrow> string \<Rightarrow> nat option" where
  "find_sub p [] = (if p = [] then Some 0 else None)"
| "find_sub p (x # xs) =
     (if take (length p) (x # xs) = p then Some 0 else map_option Suc (find_sub p xs))"

definition is_space :: "char \<Rightarrow> bool" where
  "is_space c \<longleftrightarrow> of_char c \<in> {9..13::nat} \<union> {32}"

definition stoi :: "string \<Rightarrow> int option" where
  "stoi s =
     (let t = dropWhile is_space s;
          u = (case t of CHR ''+'' # v \<Rightarrow> (case v of CHR ''-'' # _ \<Rightarrow> t | _ \<Rightarrow> v) | _ \<Rightarrow> t)
      in case from_chars_int u of Inl _ \<Rightarrow> None | Inr i \<Rightarrow> Some i)"

section \<open>HTTP/1.1\<close>

definition setupTLS :: "raw_env \<Rightarrow> bool \<times> raw_call list" where
  "setupTLS E =
     (if \<not> ra_ctx E then (False, [])
      else if \<not> ra_ssl E then (False, [RcCtxNew, RcCtxFree])
      else if \<not> ra_handshake E then (False, [RcCtxNew, RcSslNew, RcSslConnect, RcSslFree, RcCtxFree])
      else (True, [RcCtxNew, RcSslNew, RcSslConnect]))"

definition cleanupTLS :: "bool \<Rightarrow> raw_call list" where
  "cleanupTLS ssl = (if ssl then [RcSslShutdown, RcSslFree, RcCtxFree] else [])"

definition sendHttpRequest :: "raw_env \<Rightarrow> bool \<Rightarrow> string \<Rightarrow> bool \<times> raw_call list" where
  "sendHttpRequest E ssl request =
     (if ssl then (\<not> ra_sslWrite E request \<le> 0, [RcSslWrite request])
      else (\<not> ra_send E request < 0, [RcSend request]))"

fun receive_loop :: "bool \<Rightarrow> string list \<Rightarrow> string \<Rightarrow> string \<times> raw_call list" where
  "receive_loop ssl [] full_response = (full_response, [if ssl then RcSslRead else RcRecv])"
| "receive_loop ssl (chunk # chunks) full_response =
     (let (r, cs) = receive_loop ssl chunks (full_response @ chunk) in (r, (if ssl then RcSslRead else RcRecv) # cs))"

definition receiveHttpResponse :: "raw_env \<Rightarrow> bool \<Rightarrow> string \<times> raw_call list" where
  "receiveHttpResponse E ssl = receive_loop ssl (ra_reads E) []"

definition parse_status :: "string \<Rightarrow> HttpResponse \<Rightarrow> HttpResponse option" where
  "parse_status headers_part response =
     (case find_char CHR '' '' headers_part 0 of
        None \<Rightarrow> Some response
      | Some first_space \<Rightarrow>
          (case find_char CHR '' '' (drop (first_space + 1) headers_part) (first_space + 1) of
             None \<Rightarrow> Some response
           | Some second_space \<Rightarrow>
               let status_str = take (second_space - first_space - 1) (drop (first_space + 1) headers_part)
               in map_option (\<lambda>v. response\<lparr>hr_status_code := v\<rparr>) (stoi status_str)))"

definition parseHttpResponse :: "string \<Rightarrow> HttpResponse \<Rightarrow> HttpResponse option" where
  "parseHttpResponse raw_response response =
     (let (header_end, header_offset) =
            (case find_sub CRLF2 raw_response of
               Some i \<Rightarrow> (Some i, 4)
             | None \<Rightarrow> (find_sub LF2 raw_response, 2));
          headers_part = (case header_end of Some i \<Rightarrow> take i raw_response | None \<Rightarrow> raw_response);
          response1 = response\<lparr>hr_headers := headers_part\<rparr>;
          response2 = (case header_end of
                         Some i \<Rightarrow> response1\<lparr>hr_body := drop (i + header_offset) raw_response\<rparr>
                       | None \<Rightarrow> response1)
      in parse_status headers_part response2)"

definition http1_request :: "string \<Rightarrow> string \<Rightarrow> string" where
  "http1_request host path =
     (let nl = [CHR 0x0D, CHR 0x0A]
      in ''GET '' @ path @ '' HTTP/1.1'' @ nl @ ''Host: '' @ host @ nl @ ''Connection: close'' @ nl @
         ''User-Agent: curl/8.7.1'' @ nl @ nl)"

definition makeHttpRequest ::
  "raw_env \<Rightarrow> string \<Rightarrow> int \<Rightarrow> string \<Rightarrow> bool \<Rightarrow> HttpResponse option \<times> raw_call list" where
  "makeHttpRequest E host port path use_tls =
     (let response = new_HttpResponse in
      if \<not> ra_socket E then (Some response, [])
      else if \<not> ra_resolve E host then (Some response, [RcSocket, RcClose])
      else if \<not> ra_connect E host (word_of_int port) then (Some response, [RcSocket, RcConnect, RcClose])
      else
        let (ssl, tls) = (if use_tls then setupTLS E else (False, [])) in
        if use_tls \<and> \<not> ssl then (Some response, [RcSocket, RcConnect] @ tls @ [RcClose])
        else
          let (sent, snd) = sendHttpRequest E ssl (http1_request host path) in
          if \<not> sent then (Some response, [RcSocket, RcConnect] @ tls @ snd @ cleanupTLS ssl @ [RcClose])
          else
            let (raw_response, rcv) = receiveHttpResponse E ssl in
            (case parseHttpResponse raw_response response of
               None \<Rightarrow> (None, [RcSocket, RcConnect] @ tls @ snd @ rcv)
             | Some response1 \<Rightarrow>
                 (Some response1, [RcSocket, RcConnect] @ tls @ snd @ rcv @ cleanupTLS ssl @ [RcClose])))"

section \<open>HTTP/2\<close>

record Http2SessionData =
  h2_response :: HttpResponse
  h2_complete :: bool

definition NGHTTP2_ERR_CALLBACK_FAILURE :: int where
  "NGHTTP2_ERR_CALLBACK_FAILURE = - 902"

definition send_callback :: "raw_env \<Rightarrow> string \<Rightarrow> int" where
  "send_callback E data = (let rv = ra_sslWrite E data in if rv \<le> 0 then NGHTTP2_ERR_CALLBACK_FAILURE else rv)"

definition on_header_callback :: "bool \<Rightarrow> string \<Rightarrow> string \<Rightarrow> Http2SessionData \<Rightarrow> Http2SessionData option" where
  "on_header_callback response_frame name value d =
     (if response_frame then
        let r = (h2_response d)\<lparr>hr_headers := hr_headers (h2_response d) @ name @ '': '' @ value @ [CHR 0x0A]\<rparr> in
        if name = '':status'' then map_option (\<lambda>v. d\<lparr>h2_response := r\<lparr>hr_status_code := v\<rparr>\<rparr>) (stoi value)
        else Some (d\<lparr>h2_response := r\<rparr>)
      else Some d)"

definition on_data_chunk_recv_callback :: "string \<Rightarrow> Http2SessionData \<Rightarrow> Http2SessionData" where
  "on_data_chunk_recv_callback data d =
     d\<lparr>h2_response := (h2_response d)\<lparr>hr_body := hr_body (h2_response d) @ data\<rparr>\<rparr>"

definition on_stream_close_callback :: "Http2SessionData \<Rightarrow> Http2SessionData" where
  "on_stream_close_callback d = d\<lparr>h2_complete := True\<rparr>"

fun h2_callback :: "h2_event \<Rightarrow> Http2SessionData \<Rightarrow> Http2SessionData option" where
  "h2_callback (H2Header rf name value) d = on_header_callback rf name value d"
| "h2_callback (H2Data data) d = Some (on_data_chunk_recv_callback data d)"
| "h2_callback H2StreamClose d = Some (on_stream_close_callback d)"
| "h2_callback (H2FrameRecv rf) d = Some d"

fun h2_callbacks :: "h2_event list \<Rightarrow> Http2SessionData \<Rightarrow> Http2SessionData option" where
  "h2_callbacks [] d = Some d"
| "h2_callbacks (c # cs) d = Option.bind (h2_callback c d) (h2_callbacks cs)"

fun h2_loop :: "(h2_event list \<times> int) list \<Rightarrow> Http2SessionData \<Rightarrow> (Http2SessionData option \<times> raw_call list)" where
  "h2_loop [] d = (Some d, if h2_complete d then [] else [RcSslRead])"
| "h2_loop ((cs, readlen) # rs) d =
     (if h2_complete d then (Some d, [])
      else
        case h2_callbacks cs d of
          None \<Rightarrow> (None, [RcSslRead, RcSessionUse])
        | Some d1 \<Rightarrow>
            if readlen < 0 then (Some d1, [RcSslRead, RcSessionUse])
            else let (r, log) = h2_loop rs d1 in (r, [RcSslRead, RcSessionUse, RcSessionUse] @ log))"

text \<open>The header fields of the request; nghttp2 is given a pointer and the written-out length for each name and value.\<close>

definition h2_request :: "string \<Rightarrow> string \<Rightarrow> (string \<times> string) list" where
  "h2_request host path =
     [(take 7 '':method'', take 3 ''GET''), (take 7 '':scheme'', take 5 ''https''), (take 10 '':authority'', host),
      (take 5 '':path'', path), (take 10 ''user-agent'', take 14 ''nghttp2-client'')]"

definition makeHttp2Request ::
  "raw_env \<Rightarrow> string \<Rightarrow> int \<Rightarrow> string \<Rightarrow> HttpResponse option \<times> raw_call list" where
  "makeHttp2Request E host port path =
     (let response = new_HttpResponse in
      if \<not> ra_socket E then (Some response, [])
      else if \<not> ra_resolve E host then (Some response, [RcSocket, RcClose])
      else if \<not> ra_connect E host (word_of_int port) then (Some response, [RcSocket, RcConnect, RcClose])
      else if \<not> ra_ctx E then (Some response, [RcSocket, RcConnect, RcClose])
      else if \<not> ra_ssl E then (None, [RcSocket, RcConnect, RcCtxNew])
      else if \<not> ra_handshake E
      then (Some response, [RcSocket, RcConnect, RcCtxNew, RcSslNew, RcSslConnect, RcSslFree, RcCtxFree, RcClose])
      else
        let tls = [RcSocket, RcConnect, RcCtxNew, RcSslNew, RcSslConnect, RcAlpn];
            cleanup = [RcSslShutdown, RcSslFree, RcCtxFree, RcClose]
        in if ra_alpn E \<noteq> Some ''h2'' then (Some response, tls @ cleanup)
           else if \<not> ra_session E then (None, tls)
           else if ra_submit E < 0
           then (Some response, tls @ [RcSessionNew, RcSessionUse, RcSubmit (h2_request host path), RcSessionDel] @ cleanup)
           else
             (case h2_loop (ra_h2 E) \<lparr>h2_response = new_HttpResponse, h2_complete = False\<rparr> of
                (None, log) \<Rightarrow> (None, tls @ [RcSessionNew, RcSessionUse, RcSubmit (h2_request host path), RcSessionUse] @ log)
              | (Some d, log) \<Rightarrow>
                  (Some (h2_response d),
                   tls @ [RcSessionNew, RcSessionUse, RcSubmit (h2_request host path), RcSessionUse] @ log @ [RcSessionDel] @ cleanup)))"

section \<open>The program\<close>

definition examples_to_run :: "string list \<Rightarrow> nat set" where
  "examples_to_run argv =
     (if 1 < length argv
      then (if ''1'' \<in> set (tl argv) then {1} else {}) \<union> (if ''2'' \<in> set (tl argv) then {2} else {}) \<union>
        (if ''3'' \<in> set (tl argv) then {3} else {})
      else {3})"

text \<open>An exception that leaves an example ends the program.\<close>

fun until_exception :: "(HttpResponse option \<times> raw_call list) list \<Rightarrow> (HttpResponse option \<times> raw_call list) list" where
  "until_exception [] = []"
| "until_exception ((None, log) # rs) = [(None, log)]"
| "until_exception ((Some r, log) # rs) = (Some r, log) # until_exception rs"

definition run_examples :: "(nat \<Rightarrow> raw_env) \<Rightarrow> string list \<Rightarrow> (HttpResponse option \<times> raw_call list) list" where
  "run_examples E argv = until_exception
     ((if 1 \<in> examples_to_run argv then [makeHttpRequest (E 1) ''ifconfig.io'' 80 ''/'' False] else []) @
      (if 2 \<in> examples_to_run argv then [makeHttpRequest (E 2) ''httpbin.org'' 443 ''/headers'' True] else []) @
      (if 3 \<in> examples_to_run argv then [makeHttp2Request (E 3) ''httpbin.org'' 443 ''/get''] else []))"

section \<open>Everything is released\<close>

text \<open>
  What is held after a sequence of calls: the socket, the references on the TLS context (one from \<open>SSL_CTX_new\<close>, one for as long as
  the connection object exists), the connection object and the session; \<open>None\<close> when something is used or released that is not held.
\<close>

type_synonym held = "bool \<times> nat \<times> bool \<times> bool"

fun hold :: "raw_call \<Rightarrow> held \<Rightarrow> held option" where
  "hold RcSocket (sock, ctx, ssl, ses) = (if sock then None else Some (True, ctx, ssl, ses))"
| "hold RcConnect (sock, ctx, ssl, ses) = (if sock then Some (sock, ctx, ssl, ses) else None)"
| "hold RcClose (sock, ctx, ssl, ses) = (if sock \<and> \<not> ssl then Some (False, ctx, ssl, ses) else None)"
| "hold RcCtxNew (sock, ctx, ssl, ses) = (if ctx = 0 then Some (sock, 1, ssl, ses) else None)"
| "hold RcCtxFree (sock, ctx, ssl, ses) = (if 0 < ctx then Some (sock, ctx - 1, ssl, ses) else None)"
| "hold RcSslNew (sock, ctx, ssl, ses) = (if 0 < ctx \<and> \<not> ssl then Some (sock, Suc ctx, True, ses) else None)"
| "hold RcSslFree (sock, ctx, ssl, ses) = (if 0 < ctx \<and> ssl \<and> \<not> ses then Some (sock, ctx - 1, False, ses) else None)"
| "hold RcSslConnect (sock, ctx, ssl, ses) = (if sock \<and> ssl then Some (sock, ctx, ssl, ses) else None)"
| "hold RcSslShutdown (sock, ctx, ssl, ses) = (if sock \<and> ssl then Some (sock, ctx, ssl, ses) else None)"
| "hold (RcSend _) (sock, ctx, ssl, ses) = (if sock then Some (sock, ctx, ssl, ses) else None)"
| "hold (RcSslWrite _) (sock, ctx, ssl, ses) = (if sock \<and> ssl then Some (sock, ctx, ssl, ses) else None)"
| "hold RcRecv (sock, ctx, ssl, ses) = (if sock then Some (sock, ctx, ssl, ses) else None)"
| "hold RcSslRead (sock, ctx, ssl, ses) = (if sock \<and> ssl then Some (sock, ctx, ssl, ses) else None)"
| "hold RcAlpn (sock, ctx, ssl, ses) = (if ssl then Some (sock, ctx, ssl, ses) else None)"
| "hold RcSessionNew (sock, ctx, ssl, ses) = (if ssl \<and> \<not> ses then Some (sock, ctx, ssl, True) else None)"
| "hold RcSessionUse (sock, ctx, ssl, ses) = (if sock \<and> ssl \<and> ses then Some (sock, ctx, ssl, ses) else None)"
| "hold (RcSubmit _) (sock, ctx, ssl, ses) = (if ses then Some (sock, ctx, ssl, ses) else None)"
| "hold RcSessionDel (sock, ctx, ssl, ses) = (if ses then Some (sock, ctx, ssl, False) else None)"

fun held_after :: "raw_call list \<Rightarrow> held \<Rightarrow> held option" where
  "held_after [] h = Some h"
| "held_after (c # cs) h = Option.bind (hold c h) (held_after cs)"

abbreviation nothing_held :: held where
  "nothing_held \<equiv> (False, 0, False, False)"

lemma held_after_append [simp]: "held_after (xs @ ys) h = Option.bind (held_after xs h) (held_after ys)"
  by (induction xs arbitrary: h) (auto split: bind_splits)

lemma receive_loop_held:
  "sock \<Longrightarrow> (tls \<longrightarrow> ssl) \<Longrightarrow> held_after (snd (receive_loop tls chunks acc)) (sock, ctx, ssl, ses) = Some (sock, ctx, ssl, ses)"
  by (induction tls chunks acc rule: receive_loop.induct) (auto split: prod.splits)

lemma receive_loop_text: "fst (receive_loop tls chunks acc) = acc @ concat chunks"
  by (induction tls chunks acc rule: receive_loop.induct) (auto split: prod.splits)

lemma h2_loop_held: "held_after (snd (h2_loop rs d)) (True, ctx, True, True) = Some (True, ctx, True, True)"
  by (induction rs d rule: h2_loop.induct) (auto split: option.splits prod.splits)

lemma makeHttpRequest_held:
  assumes "makeHttpRequest E host port path use_tls = (Some r, log)"
  shows "held_after log nothing_held = Some nothing_held"
proof -
  let ?tls = "use_tls \<and> ra_ctx E \<and> ra_ssl E \<and> ra_handshake E"
  have loop: "held_after (snd (receive_loop tls (ra_reads E) [])) (True, ctx, ssl, False) = Some (True, ctx, ssl, False)"
    if "tls \<longrightarrow> ssl" for tls ctx ssl using that by (intro receive_loop_held) auto
  show ?thesis
    using assms loop[of True True 2] loop[of False False 0]
    by (auto simp: makeHttpRequest_def setupTLS_def cleanupTLS_def sendHttpRequest_def receiveHttpResponse_def Let_def numeral_2_eq_2
        split: if_splits option.splits prod.splits)
qed

lemma makeHttp2Request_held:
  assumes "makeHttp2Request E host port path = (Some r, log)"
  shows "held_after log nothing_held = Some nothing_held"
  using assms h2_loop_held[of "ra_h2 E" "\<lparr>h2_response = new_HttpResponse, h2_complete = False\<rparr>" "Suc (Suc 0)"]
  by (auto simp: makeHttp2Request_def Let_def split: if_splits option.splits prod.splits)

section \<open>Responses are read back\<close>

definition print_head :: "nat \<Rightarrow> string \<Rightarrow> string list \<Rightarrow> string" where
  "print_head status reason lines =
     ''HTTP/1.1 '' @ digits status @ '' '' @ reason @ concat (map (\<lambda>h. [CHR 0x0D, CHR 0x0A] @ h) lines)"

lemma find_sub_skip:
  "CHR 0x0D \<notin> set xs \<Longrightarrow> find_sub CRLF2 (xs @ rest) = map_option (\<lambda>i. length xs + i) (find_sub CRLF2 rest)"
  by (cases "find_sub CRLF2 rest"; induction xs) (auto simp: CRLF2_def)

lemma find_sub_field:
  assumes "h \<noteq> []" and "CHR 0x0D \<notin> set h"
  shows "find_sub CRLF2 ([CHR 0x0D, CHR 0x0A] @ h @ rest) = map_option (\<lambda>i. 2 + length h + i) (find_sub CRLF2 rest)"
proof -
  obtain c cs where h: "h = c # cs" "c \<noteq> CHR 0x0D" using assms by (cases h) auto
  have "find_sub CRLF2 ([CHR 0x0D, CHR 0x0A] @ h @ rest) = map_option Suc (map_option Suc (find_sub CRLF2 (h @ rest)))"
    using h by (simp add: CRLF2_def)
  then show ?thesis using find_sub_skip[OF assms(2), of rest] by (simp add: option.map_comp comp_def)
qed

lemma find_sub_fields:
  "(\<forall>h\<in>set lines. h \<noteq> [] \<and> CHR 0x0D \<notin> set h) \<Longrightarrow>
   find_sub CRLF2 (concat (map (\<lambda>h. [CHR 0x0D, CHR 0x0A] @ h) lines) @ CRLF2 @ body) =
     Some (length (concat (map (\<lambda>h. [CHR 0x0D, CHR 0x0A] @ h) lines)))"
proof (induction lines)
  case Nil
  then show ?case by (simp add: CRLF2_def)
next
  case (Cons h lines)
  then show ?case using find_sub_field[of h "concat (map (\<lambda>h. [CHR 0x0D, CHR 0x0A] @ h) lines) @ CRLF2 @ body"] by simp
qed

lemma digit_chars:
  assumes "c \<in> set (digits n)"
  shows "c \<noteq> CHR 0x0D" "c \<noteq> CHR '' ''" "c \<noteq> CHR ''+''" "\<not> is_space c"
proof -
  have "is_digit c" using digits_are_digits(1)[of n] assms by (simp add: list_all_iff)
  then show "c \<noteq> CHR 0x0D" "c \<noteq> CHR '' ''" "c \<noteq> CHR ''+''" "\<not> is_space c" by (auto simp: is_digit_def is_space_def)
qed

lemma stoi_digits: "n < 2 ^ 31 \<Longrightarrow> stoi (digits n) = Some (int n)"
proof -
  assume n: "n < 2 ^ 31"
  obtain c cs where d: "digits n = c # cs" using digits_are_digits(2)[of n] by (cases "digits n") auto
  then have c: "\<not> is_space c" "c \<noteq> CHR ''+''" using digit_chars[of c n] by auto
  then have "stoi (digits n) = (case from_chars_int (digits n) of Inl _ \<Rightarrow> None | Inr i \<Rightarrow> Some i)"
    by (auto simp: stoi_def d Let_def split: list.splits char.splits bool.splits)
  moreover have "from_chars_int (digits n) = Inr (int n)"
    using from_chars_int_print[of "[]" "int n"] n by (simp add: print_int_def)
  ultimately show ?thesis by simp
qed

lemma find_char_skip: "c \<notin> set xs \<Longrightarrow> find_char c (xs @ c # ys) i = Some (i + length xs)"
  by (induction xs arbitrary: i) auto

lemma parse_status_head:
  assumes "n < 2 ^ 31"
  shows "parse_status (''HTTP/1.1 '' @ digits n @ '' '' @ rest) r = Some (r\<lparr>hr_status_code := int n\<rparr>)"
proof -
  have "find_char CHR '' '' (''HTTP/1.1 '' @ digits n @ '' '' @ rest) 0 = Some 8" by simp
  moreover have "find_char CHR '' '' (digits n @ CHR '' '' # rest) 9 = Some (9 + length (digits n))"
    using digit_chars(2) by (intro find_char_skip) blast
  ultimately show ?thesis using stoi_digits[OF assms] by (simp add: parse_status_def Let_def eval_nat_numeral)
qed

section \<open>Properties\<close>

text \<open>
  C39. A response is read back as it was printed: for a head of a status line and header fields (none of them empty or with a
  carriage return in it) and any body, also one that contains blank lines itself, \<open>parseHttpResponse\<close> gives the status, the head and the body.
\<close>

theorem http_response_roundtrip:
  assumes "status < 2 ^ 31" and "CHR 0x0D \<notin> set reason" and "\<forall>h\<in>set lines. h \<noteq> [] \<and> CHR 0x0D \<notin> set h"
  shows "parseHttpResponse (print_head status reason lines @ CRLF2 @ body) new_HttpResponse =
     Some \<lparr>hr_status_code = int status, hr_headers = print_head status reason lines, hr_body = body\<rparr>"
proof -
  define line where "line = ''HTTP/1.1 '' @ digits status @ '' '' @ reason"
  define fs where "fs = concat (map (\<lambda>h. [CHR 0x0D, CHR 0x0A] @ h) lines)"
  have head: "print_head status reason lines = line @ fs" by (simp add: print_head_def line_def fs_def)
  have "CHR 0x0D \<notin> set line" using digit_chars(1)[of "CHR 0x0D" status] assms(2) by (auto simp: line_def)
  from find_sub_skip[OF this, of "fs @ CRLF2 @ body"]
  have "find_sub CRLF2 (print_head status reason lines @ CRLF2 @ body) = Some (length (print_head status reason lines))"
    unfolding head using find_sub_fields[OF assms(3), of body, folded fs_def] by simp
  moreover have "parse_status (print_head status reason lines) r = Some (r\<lparr>hr_status_code := int status\<rparr>)" for r
    using parse_status_head[OF assms(1)] by (simp add: print_head_def)
  moreover have "length CRLF2 = 4" by (simp add: CRLF2_def)
  ultimately show ?thesis by (simp add: parseHttpResponse_def Let_def new_HttpResponse_def)
qed

theorem http_response_roundtrip_witness:
  "map_option hr_status_code (parseHttpResponse (print_head 404 ''Not Found'' [''Server: x''] @ CRLF2 @ CRLF2 @ ''b'') new_HttpResponse)
     = Some 404"
  using http_response_roundtrip[of 404 "''Not Found''" "[''Server: x'']" "CRLF2 @ ''b''"] by simp

text \<open>
  Both clients release what they acquired: on every path that ends with a response, an empty one for errors included, nothing is
  used or released that is not held, and at the end neither the socket, the TLS objects nor the session is held. The paths that
  do not (\<open>None\<close>) are a status that \<open>stoi\<close> rejects and, for HTTP/2, a TLS object or a session that could not be made.
\<close>

lemma raw_clients_release_everything:
  "makeHttpRequest E host port path use_tls = (Some r, log) \<Longrightarrow> held_after log nothing_held = Some nothing_held"
  "makeHttp2Request E host port path = (Some r, log) \<Longrightarrow> held_after log nothing_held = Some nothing_held"
  by (rule makeHttpRequest_held makeHttp2Request_held; assumption)+

text \<open>A status that is not a number makes \<open>stoi\<close> throw: the exception leaves the function with socket and TLS connection held.\<close>

lemma bad_status_leaks:
  assumes "ra_socket E" "ra_resolve E host" "ra_connect E host (word_of_int port)" "ra_ctx E" "ra_ssl E" "ra_handshake E"
    "0 < ra_sslWrite E (http1_request host path)" "ra_reads E = [''HTTP/1.1 abc '']"
  shows "\<exists>log. makeHttpRequest E host port path True = (None, log) \<and> held_after log nothing_held = Some (True, 2, True, False)"
proof -
  have "find_sub CRLF2 ''HTTP/1.1 abc '' = None" "find_sub LF2 ''HTTP/1.1 abc '' = None" by (simp_all add: CRLF2_def LF2_def)
  moreover have "stoi ''abc'' = None" by (simp add: stoi_def from_chars_int_def is_digit_def is_space_def)
  ultimately have "parseHttpResponse ''HTTP/1.1 abc '' r = None" for r
    by (simp add: parseHttpResponse_def parse_status_def numeral_eq_Suc)
  then show ?thesis
    using assms
    by (simp add: makeHttpRequest_def setupTLS_def sendHttpRequest_def receiveHttpResponse_def Let_def)
qed

text \<open>A response whose head ends in bare line feeds is cut at a later CRLF blank line of its body.\<close>

lemma lf_head_misparsed:
  "map_option hr_body (parseHttpResponse (''HTTP/1.1 200 OK'' @ LF2 @ ''one'' @ CRLF2 @ ''two'') new_HttpResponse) = Some ''two''"
  by code_simp

text \<open>A request that is sent only in part counts as sent.\<close>

lemma partial_send_is_success: "0 \<le> ra_send E request \<Longrightarrow> fst (sendHttpRequest E False request)"
  by (simp add: sendHttpRequest_def)

text \<open>What an HTTP/2 response consists of: its status, and the data of all chunks in order.\<close>

lemma h2_callbacks_append: "h2_callbacks (xs @ ys) d = Option.bind (h2_callbacks xs d) (h2_callbacks ys)"
  by (induction xs arbitrary: d) (auto split: bind_splits)

lemma h2_data: "h2_callbacks (map H2Data chunks) d = Some (d\<lparr>h2_response := (h2_response d)\<lparr>hr_body := hr_body (h2_response d) @ concat chunks\<rparr>\<rparr>)"
  by (induction chunks arbitrary: d) (simp_all add: on_data_chunk_recv_callback_def)

lemma h2_response_assembled:
  assumes "status < 2 ^ 31"
  shows "map_option (\<lambda>d. (hr_status_code (h2_response d), hr_body (h2_response d), h2_complete d))
       (h2_callbacks ([H2Header True '':status'' (digits status), H2FrameRecv True] @ map H2Data chunks @ [H2StreamClose])
          \<lparr>h2_response = new_HttpResponse, h2_complete = False\<rparr>) = Some (int status, concat chunks, True)"
  by (simp add: h2_callbacks_append h2_data on_header_callback_def stoi_digits[OF assms] on_stream_close_callback_def
      new_HttpResponse_def)

text \<open>The written-out lengths of the request's header fields are those of their texts.\<close>

lemma h2_request_fields:
  "h2_request host path =
     [('':method'', ''GET''), ('':scheme'', ''https''), ('':authority'', host), ('':path'', path), (''user-agent'', ''nghttp2-client'')]"
  by (simp add: h2_request_def)

text \<open>The program leaves nothing held behind, whatever its requests give, unless an exception ends it.\<close>

lemma program_releases_everything:
  "(Some r, log) \<in> set (run_examples E argv) \<Longrightarrow> held_after log nothing_held = Some nothing_held"
proof -
  have sub: "x \<in> set (until_exception rs) \<Longrightarrow> x \<in> set rs" for x rs
    by (induction rs rule: until_exception.induct) auto
  show "(Some r, log) \<in> set (run_examples E argv) \<Longrightarrow> ?thesis"
    by (force simp: run_examples_def dest!: sub dest: makeHttpRequest_held[OF sym] makeHttp2Request_held[OF sym] split: if_splits)
qed

end
