(* ===== verification/Loop_Service.thy ===== *)
theory Loop_Service
  imports Prelude
begin

text \<open>
  \<open>demo/try/exec/hello_opstate.cpp\<close> and \<open>hello_service_pure.cpp\<close>: services that run one operation on a \<open>run_loop\<close> of their own thread and
  whose destructor requests a stop and waits for the completion.

  The three classes (\<open>ServiceInlineOp\<close>, \<open>ServiceZeroAlloc\<close>, \<open>FileServicePure\<close>) have the same members in the same order, the same receiver and the
  same destructor; they differ in the sender. The threads interleave between accesses to shared objects; a step that would
  block is \<open>None\<close>. The \<open>run_loop\<close> is the standard's: when an operation of \<open>schedule\<close> is executed, it completes with \<open>set_stopped\<close> if its
  receiver's stop token was stopped, and with \<open>set_value\<close> otherwise. \<open>svc_hops\<close> is the number of such operations that a sender goes
  through: one, and one more when the library reschedules the coroutine after its \<open>co_await just()\<close>.
\<close>

section \<open>State and steps\<close>

datatype service_kind = InlineOp bool string | ZeroAlloc string | FilePure string

fun svc_hops :: "service_kind \<Rightarrow> nat" where
  "svc_hops (InlineOp reschedules path) = (if reschedules then 2 else 1)"
| "svc_hops (ZeroAlloc path) = 1"
| "svc_hops (FilePure path) = 1"

definition svc_quote :: "string \<Rightarrow> string" where
  "svc_quote s = [CHR 0x27] @ s @ [CHR 0x27]"

fun start_lines :: "service_kind \<Rightarrow> string list" where
  "start_lines (InlineOp reschedules path) = [''[work] started for '' @ svc_quote path]"
| "start_lines (ZeroAlloc path) = []"
| "start_lines (FilePure path) = []"

definition svc_Read :: "string \<Rightarrow> string" where
  "svc_Read path = ''content of '' @ path"

text \<open>What the work logs, by whether the stop was requested when it looks: the end of \<open>DoWork\<close>, and the functions in the two pipelines.\<close>

definition DoWork :: "string \<Rightarrow> bool \<Rightarrow> string" where
  "DoWork path stop_requested = (if stop_requested then ''[work] cancelled'' else ''[work] processed '' @ svc_quote path)"

definition MakeZeroAllocSender :: "string \<Rightarrow> bool \<Rightarrow> string" where
  "MakeZeroAllocSender path stop_requested =
     (if \<not> stop_requested then ''[zero-alloc] processed '' @ svc_quote path else ''[zero-alloc] cancelled'')"

definition make_work :: "string \<Rightarrow> bool \<Rightarrow> string" where
  "make_work path stop_requested =
     (if stop_requested then ''[Pure] cancelled before processing'' else ''[Pure] processing: '' @ svc_Read path)"

fun svc_work :: "service_kind \<Rightarrow> bool \<Rightarrow> string" where
  "svc_work (InlineOp reschedules path) stop_requested = DoWork path stop_requested"
| "svc_work (ZeroAlloc path) stop_requested = MakeZeroAllocSender path stop_requested"
| "svc_work (FilePure path) stop_requested = make_work path stop_requested"

text \<open>
  \<open>FileServiceSimple\<close> runs \<open>sync_wait\<close> on its own \<open>jthread\<close>, whose destructor requests the stop and joins: what is logged depends only on whether
  the stop comes before the test in \<open>then\<close>.
\<close>

definition FileServiceSimple :: "bool \<Rightarrow> string \<Rightarrow> string" where
  "FileServiceSimple stop_requested path =
     (if stop_requested then ''[Simple] cancelled'' else ''[Simple] processing: '' @ svc_Read path)"

datatype svc_thread = MainThread | WorkerThread

text \<open>In \<open>MLock\<close>, \<open>MTest\<close>, \<open>MCv\<close> and \<open>MUnlock\<close> the flag tells a call of \<open>wait()\<close> from the destructor.\<close>

datatype main_pc =
    MStart
  | MLock bool
  | MTest bool
  | MCv bool
  | MUnlock bool
  | MRequestStop
  | MFinish
  | MDestroyOp
  | MDestroyMembers
  | MJoin
  | MDone

datatype worker_pc = WIdle | WExecute | WWork | WLock | WSetDone | WNotify | WUnlock | WExit

record service =
  sc_main :: main_pc
  sc_worker :: worker_pc
  sc_hop :: nat
  sc_queued :: bool
  sc_stop :: bool
  sc_finish :: bool
  sc_mutex :: "svc_thread option"
  sc_done :: bool
  sc_notified :: bool
  sc_op :: bool
  sc_members :: bool
  sc_completions :: nat
  sc_lines :: "string list"
  sc_dangling :: bool

text \<open>The members are initialised, so the thread is in \<open>run()\<close>, and \<open>connect\<close> has made the operation state.\<close>

definition new_service :: service where
  "new_service =
     \<lparr>sc_main = MStart, sc_worker = WIdle, sc_hop = 0, sc_queued = False, sc_stop = False, sc_finish = False, sc_mutex = None,
      sc_done = False, sc_notified = False, sc_op = True, sc_members = True, sc_completions = 0, sc_lines = [],
      sc_dangling = False\<rparr>"

definition touch_op :: "service \<Rightarrow> service" where
  "touch_op w = (if sc_op w then w else w\<lparr>sc_dangling := True\<rparr>)"

definition touch_members :: "service \<Rightarrow> service" where
  "touch_members w = (if sc_members w then w else w\<lparr>sc_dangling := True\<rparr>)"

definition svc_wait_step :: "bool \<Rightarrow> service \<Rightarrow> service" where
  "svc_wait_step b w =
     (if sc_done w then w\<lparr>sc_main := (if b then MUnlock True else MFinish)\<rparr>
      else w\<lparr>sc_mutex := None, sc_notified := False, sc_main := MCv b\<rparr>)"

fun main_step :: "bool \<Rightarrow> service \<Rightarrow> service option" where
  "main_step waits w =
     (case sc_main w of
        MStart \<Rightarrow> Some (w\<lparr>sc_queued := True, sc_main := (if waits then MLock True else MRequestStop)\<rparr>)
      | MLock b \<Rightarrow>
          if sc_mutex w = None then Some (w\<lparr>sc_mutex := Some MainThread, sc_main := MTest b\<rparr>) else None
      | MTest b \<Rightarrow> Some (svc_wait_step b w)
      | MCv b \<Rightarrow>
          if sc_notified w \<and> sc_mutex w = None
          then Some (w\<lparr>sc_mutex := Some MainThread, sc_main := MTest b\<rparr>) else None
      | MUnlock b \<Rightarrow> Some (w\<lparr>sc_mutex := None, sc_main := (if b then MRequestStop else MDestroyOp)\<rparr>)
      | MRequestStop \<Rightarrow> Some (w\<lparr>sc_stop := True, sc_main := MLock False\<rparr>)
      | MFinish \<Rightarrow> Some (w\<lparr>sc_finish := True, sc_main := MUnlock False\<rparr>)
      | MDestroyOp \<Rightarrow> Some (w\<lparr>sc_op := False, sc_main := MDestroyMembers\<rparr>)
      | MDestroyMembers \<Rightarrow> Some (w\<lparr>sc_members := False, sc_main := MJoin\<rparr>)
      | MJoin \<Rightarrow> if sc_worker w = WExit then Some (w\<lparr>sc_main := MDone\<rparr>) else None
      | MDone \<Rightarrow> None)"

text \<open>A condition variable may also wake without being notified.\<close>

definition spurious_wake :: "service \<Rightarrow> service option" where
  "spurious_wake w =
     (case sc_main w of
        MCv b \<Rightarrow> if sc_mutex w = None then Some (w\<lparr>sc_mutex := Some MainThread, sc_main := MTest b\<rparr>) else None
      | _ \<Rightarrow> None)"

definition svc_complete :: "service \<Rightarrow> service" where
  "svc_complete w = w\<lparr>sc_completions := Suc (sc_completions w), sc_worker := WLock\<rparr>"

definition svc_execute :: "service_kind \<Rightarrow> service \<Rightarrow> service" where
  "svc_execute kind w =
     (let w1 = touch_op w in
      if sc_stop w1 then svc_complete w1
      else
        let w2 = w1\<lparr>sc_hop := Suc (sc_hop w1),
                    sc_lines := (if sc_hop w1 = 0 then sc_lines w1 @ start_lines kind else sc_lines w1)\<rparr>
        in if sc_hop w2 < svc_hops kind then w2\<lparr>sc_queued := True, sc_worker := WIdle\<rparr> else w2\<lparr>sc_worker := WWork\<rparr>)"

fun worker_step :: "service_kind \<Rightarrow> service \<Rightarrow> service option" where
  "worker_step kind w =
     (case sc_worker w of
        WIdle \<Rightarrow>
          if sc_queued w then Some (w\<lparr>sc_queued := False, sc_worker := WExecute\<rparr>)
          else if sc_finish w then Some (w\<lparr>sc_worker := WExit\<rparr>)
          else None
      | WExecute \<Rightarrow> Some (svc_execute kind w)
      | WWork \<Rightarrow>
          Some (svc_complete
            ((touch_members (touch_op w))\<lparr>sc_lines := sc_lines w @ [svc_work kind (sc_stop w)]\<rparr>))
      | WLock \<Rightarrow>
          if sc_mutex w = None then Some ((touch_members w)\<lparr>sc_mutex := Some WorkerThread, sc_worker := WSetDone\<rparr>) else None
      | WSetDone \<Rightarrow> Some ((touch_members w)\<lparr>sc_done := True, sc_worker := WNotify\<rparr>)
      | WNotify \<Rightarrow>
          Some ((touch_members w)\<lparr>sc_notified := (case sc_main w of MCv b \<Rightarrow> True | _ \<Rightarrow> sc_notified w), sc_worker := WUnlock\<rparr>)
      | WUnlock \<Rightarrow> Some ((touch_members w)\<lparr>sc_mutex := None, sc_worker := WIdle\<rparr>)
      | WExit \<Rightarrow> None)"

inductive svc_step :: "service_kind \<Rightarrow> bool \<Rightarrow> service \<Rightarrow> service \<Rightarrow> bool" for kind waits where
  Main: "main_step waits w = Some w' \<Longrightarrow> svc_step kind waits w w'"
| Worker: "worker_step kind w = Some w' \<Longrightarrow> svc_step kind waits w w'"

text \<open>The classes: only \<open>FileServicePure\<close> has no \<open>wait()\<close>. (What the main thread itself logs there is left out.)\<close>

definition ServiceInlineOp :: "bool \<Rightarrow> string \<Rightarrow> bool \<Rightarrow> service \<Rightarrow> service \<Rightarrow> bool" where
  "ServiceInlineOp reschedules path waits = svc_step (InlineOp reschedules path) waits"

definition ServiceZeroAlloc :: "string \<Rightarrow> bool \<Rightarrow> service \<Rightarrow> service \<Rightarrow> bool" where
  "ServiceZeroAlloc path waits = svc_step (ZeroAlloc path) waits"

definition FileServicePure :: "string \<Rightarrow> service \<Rightarrow> service \<Rightarrow> bool" where
  "FileServicePure path = svc_step (FilePure path) False"

text \<open>Runs, with the number of the threads' steps and of the spurious wakes.\<close>

inductive svc_run :: "service_kind \<Rightarrow> bool \<Rightarrow> nat \<Rightarrow> nat \<Rightarrow> service \<Rightarrow> bool" for kind waits where
  Init: "svc_run kind waits 0 0 new_service"
| Step: "svc_run kind waits n m w \<Longrightarrow> svc_step kind waits w w' \<Longrightarrow> svc_run kind waits (Suc n) m w'"
| Wake: "svc_run kind waits n m w \<Longrightarrow> spurious_wake w = Some w' \<Longrightarrow> svc_run kind waits n (Suc m) w'"

section \<open>The invariant\<close>

text \<open>What the position of each thread says of the shared state.\<close>

definition worker_inv :: "service_kind \<Rightarrow> service \<Rightarrow> bool" where
  "worker_inv kind w \<longleftrightarrow>
     (case sc_worker w of
        WIdle \<Rightarrow> sc_mutex w \<noteq> Some WorkerThread \<and>
          (if sc_completions w = 0 then \<not> sc_done w \<and> sc_hop w < svc_hops kind \<and> (sc_queued w \<longleftrightarrow> sc_main w \<noteq> MStart)
           else sc_done w \<and> \<not> sc_queued w)
      | WExecute \<Rightarrow> sc_mutex w \<noteq> Some WorkerThread \<and> sc_completions w = 0 \<and> \<not> sc_done w \<and> \<not> sc_queued w \<and> sc_hop w < svc_hops kind
      | WWork \<Rightarrow> sc_mutex w \<noteq> Some WorkerThread \<and> sc_completions w = 0 \<and> \<not> sc_done w \<and> \<not> sc_queued w
      | WLock \<Rightarrow> sc_mutex w \<noteq> Some WorkerThread \<and> sc_completions w = 1 \<and> \<not> sc_done w \<and> \<not> sc_queued w
      | WSetDone \<Rightarrow> sc_mutex w = Some WorkerThread \<and> sc_completions w = 1 \<and> \<not> sc_done w \<and> \<not> sc_queued w
      | WNotify \<Rightarrow> sc_mutex w = Some WorkerThread \<and> sc_completions w = 1 \<and> sc_done w \<and> \<not> sc_queued w
      | WUnlock \<Rightarrow> sc_mutex w = Some WorkerThread \<and> sc_completions w = 1 \<and> sc_done w \<and> \<not> sc_queued w
      | WExit \<Rightarrow> sc_mutex w \<noteq> Some WorkerThread \<and> sc_completions w = 1 \<and> sc_done w \<and> \<not> sc_queued w \<and> sc_finish w) \<and>
     sc_completions w \<le> 1"

definition members_alive :: "bool \<Rightarrow> bool \<Rightarrow> bool \<Rightarrow> service \<Rightarrow> bool" where
  "members_alive op members finish w \<longleftrightarrow> sc_op w = op \<and> sc_members w = members \<and> sc_finish w = finish"

definition main_inv :: "service \<Rightarrow> bool" where
  "main_inv w \<longleftrightarrow> \<not> sc_dangling w \<and>
     (case sc_main w of
        MStart \<Rightarrow> members_alive True True False w \<and> sc_mutex w \<noteq> Some MainThread \<and> sc_worker w = WIdle \<and> sc_completions w = 0
      | MLock b \<Rightarrow> members_alive True True False w \<and> sc_mutex w \<noteq> Some MainThread
      | MTest b \<Rightarrow> members_alive True True False w \<and> sc_mutex w = Some MainThread
      | MCv b \<Rightarrow> members_alive True True False w \<and> sc_mutex w \<noteq> Some MainThread \<and> 
          (sc_done w \<longrightarrow> sc_notified w \<or> sc_worker w = WNotify) \<and> (sc_notified w \<longrightarrow> sc_done w)
      | MUnlock b \<Rightarrow> members_alive True True (\<not> b) w \<and> sc_mutex w = Some MainThread \<and> sc_done w
      | MRequestStop \<Rightarrow> members_alive True True False w \<and> sc_mutex w \<noteq> Some MainThread
      | MFinish \<Rightarrow> members_alive True True False w \<and> sc_mutex w = Some MainThread \<and> sc_done w
      | MDestroyOp \<Rightarrow> members_alive True True True w \<and> sc_mutex w = None \<and> sc_done w \<and> (sc_worker w = WIdle \<or> sc_worker w = WExit)
      | MDestroyMembers \<Rightarrow> members_alive False True True w \<and> sc_mutex w = None \<and> sc_done w \<and> (sc_worker w = WIdle \<or> sc_worker w = WExit)
      | MJoin \<Rightarrow> members_alive False False True w \<and> sc_mutex w = None \<and> sc_done w \<and> (sc_worker w = WIdle \<or> sc_worker w = WExit)
      | MDone \<Rightarrow> members_alive False False True w \<and> sc_mutex w = None \<and> sc_done w \<and> sc_worker w = WExit)"


text \<open>What was logged; a program that calls \<open>wait()\<close> requests the stop only after the completion.\<close>

fun before_stop :: "main_pc \<Rightarrow> bool" where
  "before_stop MStart = True"
| "before_stop (MLock b) = b"
| "before_stop (MTest b) = b"
| "before_stop (MCv b) = b"
| "before_stop (MUnlock b) = b"
| "before_stop MRequestStop = True"
| "before_stop _ = False"

fun before_completion :: "main_pc \<Rightarrow> bool" where
  "before_completion MStart = True"
| "before_completion (MLock b) = b"
| "before_completion (MTest b) = b"
| "before_completion (MCv b) = b"
| "before_completion _ = False"

definition stop_inv :: "bool \<Rightarrow> service \<Rightarrow> bool" where
  "stop_inv waits w \<longleftrightarrow> (before_stop (sc_main w) \<longrightarrow> \<not> sc_stop w) \<and> (waits \<and> \<not> before_completion (sc_main w) \<longrightarrow> sc_done w)"

definition lines_inv :: "service_kind \<Rightarrow> bool \<Rightarrow> service \<Rightarrow> bool" where
  "lines_inv kind waits w \<longleftrightarrow>
     (if sc_completions w = 0
      then sc_lines w = (if sc_hop w = 0 then [] else start_lines kind) \<and> (sc_worker w = WWork \<longrightarrow> 0 < sc_hop w)
      else if waits then sc_lines w = start_lines kind @ [svc_work kind False]
      else sc_lines w \<in> {[], start_lines kind, start_lines kind @ [svc_work kind True], start_lines kind @ [svc_work kind False]})"

definition svc_inv :: "service_kind \<Rightarrow> bool \<Rightarrow> service \<Rightarrow> bool" where
  "svc_inv kind waits w \<longleftrightarrow> worker_inv kind w \<and> main_inv w \<and> stop_inv waits w \<and> lines_inv kind waits w"

lemma svc_hops_pos [simp]: "0 < svc_hops kind" "svc_hops kind \<noteq> 0"
  by (cases kind; simp)+

lemmas svc_inv_defs = worker_inv_def main_inv_def members_alive_def
lemmas svc_steps [service_steps] = svc_wait_step_def svc_complete_def svc_execute_def touch_op_def touch_members_def

lemma new_service_inv: "svc_inv kind waits new_service"
  by (simp add: svc_inv_def stop_inv_def lines_inv_def svc_inv_defs new_service_def)

lemma done_idle: "worker_inv kind w \<Longrightarrow> sc_done w \<Longrightarrow> sc_mutex w = Some MainThread \<Longrightarrow> sc_worker w = WIdle \<or> sc_worker w = WExit"
  by (auto simp: worker_inv_def split: worker_pc.splits)

lemma main_step_keeps:
  assumes "worker_inv kind w" and "main_inv w" and "main_step waits w = Some w'"
  shows "worker_inv kind w'" and "main_inv w'"
proof -
  show "main_inv w'"
    using assms(2,3) done_idle[OF assms(1)]
    by (cases "sc_main w") (auto simp: main_inv_def members_alive_def svc_wait_step_def split: if_splits)
  have mutex: "sc_mutex w' = Some WorkerThread \<longleftrightarrow> sc_mutex w = Some WorkerThread"
    using assms(2,3) by (cases "sc_main w") (auto simp: main_inv_def svc_wait_step_def split: if_splits)
  have rest: "sc_worker w' = sc_worker w" "sc_completions w' = sc_completions w" "sc_done w' = sc_done w" "sc_hop w' = sc_hop w"
      "sc_finish w \<longrightarrow> sc_finish w'" "sc_main w' \<noteq> MStart"
    using assms(3) by (cases "sc_main w"; auto simp: svc_wait_step_def split: if_splits)+
  show "worker_inv kind w'"
  proof (cases "sc_main w = MStart")
    case True
    then show ?thesis using assms by (auto simp: main_inv_def worker_inv_def split: if_splits)
  next
    case False
    then have "sc_queued w' = sc_queued w"
      using assms(3) by (cases "sc_main w") (auto simp: svc_wait_step_def split: if_splits)
    then show ?thesis using assms(1) mutex rest False unfolding worker_inv_def by (cases "sc_worker w") simp_all
  qed
qed

lemma worker_step_keeps:
  assumes "worker_inv kind w" and "main_inv w" and "worker_step kind w = Some w'"
  shows "worker_inv kind w'" and "main_inv w'"
proof -
  have alive: "sc_op w" "sc_members w" if "sc_worker w \<noteq> WIdle" "sc_worker w \<noteq> WExit"
    using assms(2) that by (cases "sc_main w"; auto simp: main_inv_def members_alive_def)+
  have start: "sc_main w \<noteq> MStart" if "sc_worker w \<noteq> WIdle"
    using assms(2) that by (auto simp: main_inv_def)
  have "\<not> sc_finish w" if "sc_main w = MStart" using assms(2) that by (simp add: main_inv_def members_alive_def)
  then show "worker_inv kind w'"
    using assms(1,3) start by (cases "sc_worker w") (auto simp: worker_inv_def service_steps Let_def split: if_splits)
  show "main_inv w'"
    using assms alive
    by (cases "sc_worker w"; cases "sc_main w") (auto simp: svc_inv_defs service_steps Let_def split: if_splits)
qed

lemma no_owner: "m \<noteq> Some MainThread \<Longrightarrow> m \<noteq> Some WorkerThread \<Longrightarrow> m = None"
  by (metis not_Some_eq svc_thread.exhaust)

lemma spurious_wake_keeps:
  assumes "worker_inv kind w" and "main_inv w" and "spurious_wake w = Some w'"
  shows "worker_inv kind w'" and "main_inv w'"
proof -
  obtain b where "sc_main w = MCv b" using assms(3) by (auto simp: spurious_wake_def split: main_pc.splits)
  then have "worker_inv kind w' \<and> main_inv w'"
    using assms by (cases "sc_worker w") (auto simp: svc_inv_defs spurious_wake_def split: if_splits)
  then show "worker_inv kind w'" and "main_inv w'" by auto
qed

lemma main_step_log:
  assumes "main_step waits w = Some w'" and "stop_inv waits w" and "main_inv w"
  shows "stop_inv waits w'" and "lines_inv kind waits w' = lines_inv kind waits w"
proof -
  show "stop_inv waits w'"
    using assms by (cases "sc_main w") (auto simp: stop_inv_def main_inv_def svc_wait_step_def split: if_splits)
  have "sc_completions w' = sc_completions w" "sc_lines w' = sc_lines w" "sc_hop w' = sc_hop w" "sc_worker w' = sc_worker w"
    using assms(1) by (cases "sc_main w"; auto simp: svc_wait_step_def split: if_splits)+
  then show "lines_inv kind waits w' = lines_inv kind waits w" by (simp add: lines_inv_def)
qed

lemma worker_step_log:
  assumes "worker_step kind w = Some w'" and "stop_inv waits w" and "lines_inv kind waits w" and "worker_inv kind w" and "main_inv w"
  shows "stop_inv waits w'" and "lines_inv kind waits w'"
proof -
  have "sc_stop w' = sc_stop w" "sc_main w' = sc_main w" "sc_done w \<longrightarrow> sc_done w'"
    using assms(1) by (cases "sc_worker w"; auto simp: service_steps Let_def split: if_splits)+
  then show "stop_inv waits w'" using assms(2) by (auto simp: stop_inv_def)
  have wait: "\<not> sc_stop w" if "waits" "\<not> sc_done w"
    using assms(2) that by (cases "sc_main w") (auto simp: stop_inv_def)
  show "lines_inv kind waits w'"
  proof (cases "sc_worker w = WExecute \<or> sc_worker w = WWork")
    case True
    then have c: "sc_completions w = 0" "\<not> sc_done w" using assms(4) by (auto simp: worker_inv_def)
    then have lines: "sc_lines w = (if sc_hop w = 0 then [] else start_lines kind)" "sc_worker w = WWork \<Longrightarrow> 0 < sc_hop w"
      using assms(3) by (auto simp: lines_inv_def)
    from True show ?thesis
    proof
      assume "sc_worker w = WExecute"
      then have w': "w' = svc_execute kind w" using assms(1) by simp
      show ?thesis
        using c lines(1) wait unfolding w' by (cases "sc_stop w"; cases waits) (simp_all add: lines_inv_def service_steps Let_def)
    next
      assume "sc_worker w = WWork"
      then show ?thesis
        using assms(1) c lines wait by (cases "sc_stop w") (auto simp: lines_inv_def service_steps)
    qed
  next
    case False
    then have "sc_completions w' = sc_completions w" "sc_lines w' = sc_lines w" "sc_hop w' = sc_hop w" "sc_worker w' \<noteq> WWork"
      using assms(1) by (cases "sc_worker w"; auto simp: touch_members_def split: if_splits)+
    then show ?thesis using assms(3) by (auto simp: lines_inv_def)
  qed
qed

lemma svc_run_inv: "svc_run kind waits n m w \<Longrightarrow> svc_inv kind waits w"
proof (induction rule: svc_run.induct)
  case Init
  show ?case by (rule new_service_inv)
next
  case (Step n m w w')
  from Step(2) show ?case
  proof cases
    case Main
    then show ?thesis using Step main_step_keeps[of kind w waits w'] main_step_log[of waits w w']
      unfolding svc_inv_def by blast
  next
    case Worker
    then show ?thesis using Step worker_step_keeps[of kind w w'] worker_step_log[of kind w w' waits]
      unfolding svc_inv_def by blast
  qed
next
  case (Wake n m w w')
  have "stop_inv waits w' \<and> lines_inv kind waits w'"
    using Wake by (auto simp: spurious_wake_def svc_inv_def stop_inv_def lines_inv_def split: main_pc.splits if_splits)
  then show ?case using Wake spurious_wake_keeps unfolding svc_inv_def by blast
qed

section \<open>Termination\<close>

text \<open>Every step of a thread lowers the rank; a spurious wake need not.\<close>

fun main_rank :: "main_pc \<Rightarrow> bool \<Rightarrow> nat" where
  "main_rank MStart done = 60"
| "main_rank (MLock b) done = (if b then 19 else 9)"
| "main_rank (MTest b) done = (if done then 6 else 8) + (if b then 10 else 0)"
| "main_rank (MCv b) done = (if b then 17 else 7)"
| "main_rank (MUnlock b) done = (if b then 15 else 4)"
| "main_rank MRequestStop done = 10"
| "main_rank MFinish done = 5"
| "main_rank MDestroyOp done = 3"
| "main_rank MDestroyMembers done = 2"
| "main_rank MJoin done = 1"
| "main_rank MDone done = 0"

definition worker_rank :: "service_kind \<Rightarrow> service \<Rightarrow> nat" where
  "worker_rank kind w =
     (case sc_worker w of
        WIdle \<Rightarrow> if sc_queued w then 8 + 10 * (svc_hops kind - sc_hop w) else 1
      | WExecute \<Rightarrow> 7 + 10 * (svc_hops kind - sc_hop w)
      | WWork \<Rightarrow> 6
      | WLock \<Rightarrow> 5
      | WSetDone \<Rightarrow> 4
      | WNotify \<Rightarrow> 3
      | WUnlock \<Rightarrow> 2
      | WExit \<Rightarrow> 0)"

definition svc_rank :: "service_kind \<Rightarrow> service \<Rightarrow> nat" where
  "svc_rank kind w = main_rank (sc_main w) (sc_done w) + worker_rank kind w"

lemma svc_hops_le: "svc_hops kind \<le> 2"
  by (cases kind) auto

lemma main_step_rank:
  assumes "worker_inv kind w" and "main_inv w" and "main_step waits w = Some w'"
  shows "svc_rank kind w' < svc_rank kind w"
proof (cases "sc_main w = MStart")
  case True
  then show ?thesis
    using assms svc_hops_le[of kind]
    by (auto simp: main_inv_def worker_inv_def svc_rank_def worker_rank_def split: if_splits)
next
  case False
  have "sc_done w" if "sc_main w = MCv b" "sc_notified w" for b using assms(2) that by (simp add: main_inv_def)
  then have "main_rank (sc_main w') (sc_done w') < main_rank (sc_main w) (sc_done w)"
    using assms(3) False by (cases "sc_main w") (auto simp: svc_wait_step_def split: if_splits)
  moreover have "sc_worker w' = sc_worker w" "sc_queued w' = sc_queued w" "sc_hop w' = sc_hop w"
    using assms(3) False by (cases "sc_main w"; auto simp: svc_wait_step_def split: if_splits)+
  then have "worker_rank kind w' = worker_rank kind w" by (cases "sc_worker w") (simp_all add: worker_rank_def)
  ultimately show ?thesis by (simp add: svc_rank_def)
qed

lemma worker_step_rank:
  assumes "worker_inv kind w" and "worker_step kind w = Some w'"
  shows "svc_rank kind w' < svc_rank kind w"
proof -
  have "worker_rank kind w' < worker_rank kind w" "sc_main w' = sc_main w" "sc_done w \<longrightarrow> sc_done w'"
    using assms by (cases "sc_worker w"; auto simp: worker_inv_def worker_rank_def service_steps Let_def split: if_splits)+
  moreover have "main_rank m True \<le> main_rank m d" for m d by (cases m) auto
  ultimately show ?thesis unfolding svc_rank_def by (cases "sc_done w"; cases "sc_done w'") (auto simp: add_le_less_mono)
qed

lemma svc_not_stuck:
  assumes "worker_inv kind w" and "main_inv w" and "sc_main w \<noteq> MDone"
  shows "main_step waits w \<noteq> None \<or> worker_step kind w \<noteq> None"
  using assms by (cases "sc_main w"; cases "sc_worker w") (auto simp: svc_inv_defs split: if_splits dest: no_owner)

lemma svc_run_bound: "svc_run kind waits n m w \<Longrightarrow> n + svc_rank kind w \<le> 61 + m"
proof (induction rule: svc_run.induct)
  case Init
  show ?case by (simp add: svc_rank_def worker_rank_def new_service_def)
next
  case (Step n m w w')
  have "worker_inv kind w" "main_inv w" using svc_run_inv[OF Step(1)] by (auto simp: svc_inv_def)
  then have "svc_rank kind w' < svc_rank kind w"
    using Step(2) main_step_rank worker_step_rank by (auto elim!: svc_step.cases simp del: main_step.simps worker_step.simps)
  then show ?case using Step(3) by simp
next
  case (Wake n m w w')
  then have "svc_rank kind w' \<le> Suc (svc_rank kind w)"
    by (auto simp: spurious_wake_def svc_rank_def worker_rank_def split: main_pc.splits if_splits worker_pc.splits)
  then show ?case using Wake(3) by simp
qed

section \<open>Properties\<close>

text \<open>
  C16. A service can be destroyed at any time: in every interleaving of its thread with a program that constructs it, calls \<open>wait()\<close> or not,
  and destroys it, neither the operation state nor the mutex, the condition variable and the stop source is touched after its
  destruction, the operation completes at most once, and until the destructor has returned some thread can take a step; the
  threads take at most 61 steps, and one more for each spurious wake of the condition variable, so the destructor returns. When it has returned, the operation has completed, the thread has ended, and a program that called \<open>wait()\<close> has its work processed.
\<close>

theorem service_destruction_is_safe:
  assumes "svc_run kind waits n m w"
  shows "\<not> sc_dangling w \<and> sc_completions w \<le> 1 \<and> n \<le> 61 + m \<and>
     (if sc_main w = MDone
      then sc_completions w = 1 \<and> sc_worker w = WExit \<and> sc_lines w \<in>
        (if waits then {start_lines kind @ [svc_work kind False]}
         else {[], start_lines kind, start_lines kind @ [svc_work kind True], start_lines kind @ [svc_work kind False]})
      else \<exists>w'. svc_step kind waits w w')"
proof -
  have inv: "worker_inv kind w" "main_inv w" "lines_inv kind waits w"
    using svc_run_inv[OF assms] by (auto simp: svc_inv_def)
  have bound: "n \<le> 61 + m" using svc_run_bound[OF assms] by simp
  show ?thesis
  proof (cases "sc_main w = MDone")
    case True
    then have "sc_worker w = WExit" "sc_done w" using inv(2) by (auto simp: main_inv_def)
    then show ?thesis using True inv bound by (auto simp: main_inv_def worker_inv_def lines_inv_def)
  next
    case False
    then obtain w' where "svc_step kind waits w w'" using svc_not_stuck[OF inv(1,2), of waits] svc_step.intros by blast
    then show ?thesis using False inv bound by (auto simp: main_inv_def worker_inv_def)
  qed
qed

lemma svc_run_main: "svc_run kind waits n m w \<Longrightarrow> main_step waits w = Some w' \<Longrightarrow> svc_run kind waits (Suc n) m w'"
  and svc_run_worker: "svc_run kind waits n m w \<Longrightarrow> worker_step kind w = Some w' \<Longrightarrow> svc_run kind waits (Suc n) m w'"
  by (blast intro: svc_run.Step svc_step.intros)+

theorem service_destruction_is_safe_witness:
  "\<exists>w. svc_run (ZeroAlloc ''a'') False 1 0 w \<and> sc_main w = MRequestStop \<and> (\<exists>w'. svc_step (ZeroAlloc ''a'') False w w')"
proof -
  let ?w = "new_service\<lparr>sc_queued := True, sc_main := MRequestStop\<rparr>"
  have r: "svc_run (ZeroAlloc ''a'') False (Suc 0) 0 ?w"
    by (rule svc_run_main[OF svc_run.Init]) (simp add: new_service_def)
  then show ?thesis using service_destruction_is_safe[OF r] by (intro exI[of _ ?w]) simp
qed

text \<open>
  A service that is destroyed at once may do nothing at all: when the stop comes before the loop has executed the operation, the
  sender completes with \<open>set_stopped\<close>, and not even the cancellation is logged.
\<close>

lemma early_destruction_is_silent:
  "\<exists>n w. svc_run kind False n 0 w \<and> sc_main w = MLock False \<and> sc_completions w = 1 \<and> sc_lines w = []"
proof -
  let ?w1 = "new_service\<lparr>sc_queued := True, sc_main := MRequestStop\<rparr>"
  let ?w2 = "?w1\<lparr>sc_stop := True, sc_main := MLock False\<rparr>"
  let ?w3 = "?w2\<lparr>sc_queued := False, sc_worker := WExecute\<rparr>"
  have 1: "svc_run kind False (Suc 0) 0 ?w1" by (rule svc_run_main[OF svc_run.Init]) (simp add: new_service_def)
  have 2: "svc_run kind False (Suc (Suc 0)) 0 ?w2" by (rule svc_run_main[OF 1]) simp
  have 3: "svc_run kind False (Suc (Suc (Suc 0))) 0 ?w3" by (rule svc_run_worker[OF 2]) (simp add: new_service_def)
  have "svc_run kind False (Suc (Suc (Suc (Suc 0)))) 0 (svc_complete ?w3)"
    by (rule svc_run_worker[OF 3]) (simp add: service_steps new_service_def Let_def)
  then show ?thesis by (intro exI[of _ "Suc (Suc (Suc (Suc 0)))"] exI[of _ "svc_complete ?w3"]) (simp add: svc_complete_def new_service_def)
qed

text \<open>All three classes, as they are written, touch nothing after its destruction and complete their operation at most once.\<close>

lemma svc_steps_run: "(svc_step kind waits)\<^sup>*\<^sup>* new_service w \<Longrightarrow> \<exists>n. svc_run kind waits n 0 w"
proof (induction rule: rtranclp_induct)
  case base
  show ?case using svc_run.Init by blast
next
  case (step w w')
  then show ?case using svc_run.Step by blast
qed

lemma service_classes_are_safe:
  assumes "(ServiceInlineOp reschedules path waits)\<^sup>*\<^sup>* new_service w \<or> (ServiceZeroAlloc path waits)\<^sup>*\<^sup>* new_service w \<or>
     (FileServicePure path)\<^sup>*\<^sup>* new_service w"
  shows "\<not> sc_dangling w \<and> sc_completions w \<le> 1"
proof -
  obtain kind waits n where "svc_run kind waits n 0 w"
    using assms svc_steps_run unfolding ServiceInlineOp_def ServiceZeroAlloc_def FileServicePure_def by blast
  then show ?thesis using svc_run_inv[of kind waits n 0 w] by (auto simp: svc_inv_def main_inv_def worker_inv_def)
qed

end
