(* ===== verification/Ws_Demo.thy ===== *)
theory Ws_Demo
  imports Ws_Network Rtc_Link
begin

text \<open>
  \<open>demo/try/datachannel/ws/wsclient.cpp\<close>: the console program that connects WebRTC peers by their ids over a WebSocket.

  Peer connections and data channels are numbered in the order of their creation. The libraries (libdatachannel, JSON, the random
  numbers) are parameters; the calls on a peer connection are logged per connection, and the frames given to the WebSocket in order.
  An exception that leaves a callback is \<open>None\<close>.
\<close>

section \<open>Parameters of the program\<close>

record Cmdline =
  cl_noStun :: bool
  cl_udpMux :: bool

fun parse_args :: "string list \<Rightarrow> Cmdline \<Rightarrow> (string, Cmdline) expected" where
  "parse_args [] c = Inr c"
| "parse_args (arg # args) c =
     (if arg = ''--no-stun'' then parse_args args (c\<lparr>cl_noStun := True\<rparr>)
      else if arg = ''--udp-mux'' then parse_args args (c\<lparr>cl_udpMux := True\<rparr>)
      else Inl (''Unknown argument: '' @ arg))"

definition new_Cmdline :: "string list \<Rightarrow> (string, Cmdline) expected" where
  "new_Cmdline argv = parse_args (tl argv) \<lparr>cl_noStun = False, cl_udpMux = False\<rparr>"

definition stunServer :: string where
  "stunServer = ''stun.l.google.com''"

definition webSocketServer :: string where
  "webSocketServer = ''localhost''"

record rtc_config =
  rc_iceServers :: "string list"
  rc_enableIceUdpMux :: bool

definition make_config :: "Cmdline \<Rightarrow> rtc_config" where
  "make_config params =
     \<lparr>rc_iceServers =
        (if cl_noStun params then []
         else [(if take 5 stunServer \<noteq> ''stun:'' then ''stun:'' else []) @ stunServer @ '':'' @ digits 19302]),
      rc_enableIceUdpMux = cl_udpMux params\<rparr>"

text \<open>\<open>randomId\<close>: the numbers that the uniform distribution on the indices of \<open>id_characters\<close> gives.\<close>

definition id_characters :: string where
  "id_characters = ''0123456789ABCDEFGHIJKLMNOPQRSTUVWXYZabcdefghijklmnopqrstuvwxyz''"

definition randomId :: "nat list \<Rightarrow> string" where
  "randomId rs = map (\<lambda>r. id_characters ! r) rs"

definition ws_url :: "string \<Rightarrow> string" where
  "ws_url localId = ''ws://'' @ webSocketServer @ '':'' @ digits 8000 @ ''/'' @ localId"

section \<open>Peer connections\<close>

record ws_peers =
  wp_localId :: string
  wp_pcMap :: "string \<rightharpoonup> ref"
  wp_dcMap :: "string \<rightharpoonup> ref"
  wp_pcs :: "ref \<Rightarrow> pc_call list"
  wp_nextPc :: ref
  wp_nextDc :: ref
  wp_dcOwner :: "ref \<Rightarrow> string"
  wp_frames :: "string list"
  wp_dcSent :: "(ref \<times> string) list"

definition new_peers :: "string \<Rightarrow> ws_peers" where
  "new_peers localId =
     \<lparr>wp_localId = localId, wp_pcMap = Map.empty, wp_dcMap = Map.empty, wp_pcs = (\<lambda>_. []), wp_nextPc = 0, wp_nextDc = 0,
      wp_dcOwner = (\<lambda>_. []), wp_frames = [], wp_dcSent = []\<rparr>"

text \<open>\<open>unordered_map::emplace\<close> does nothing when there is an element with the key.\<close>

definition emplace :: "string \<Rightarrow> ref \<Rightarrow> (string \<rightharpoonup> ref) \<Rightarrow> (string \<rightharpoonup> ref)" where
  "emplace key k m = (case m key of None \<Rightarrow> m(key \<mapsto> k) | Some _ \<Rightarrow> m)"

definition pc_log :: "ref \<Rightarrow> pc_call \<Rightarrow> ws_peers \<Rightarrow> ws_peers" where
  "pc_log k c w = w\<lparr>wp_pcs := (wp_pcs w)(k := wp_pcs w k @ [c])\<rparr>"

definition createPeerConnection :: "string \<Rightarrow> ws_peers \<Rightarrow> ref \<times> ws_peers" where
  "createPeerConnection peer w =
     (let k = wp_nextPc w
      in (k, w\<lparr>wp_nextPc := Suc k, wp_pcs := (wp_pcs w)(k := []), wp_pcMap := emplace peer k (wp_pcMap w)\<rparr>))"

definition pc_onLocalDescription :: "'j json_api \<Rightarrow> bool \<Rightarrow> string \<Rightarrow> string \<Rightarrow> string \<Rightarrow> ws_peers \<Rightarrow> ws_peers" where
  "pc_onLocalDescription J wsAlive peer typeString desc w =
     (let message = j_object J [(''id'', peer), (''type'', typeString), (''description'', desc)]
      in if wsAlive then w\<lparr>wp_frames := wp_frames w @ [j_dump J message]\<rparr> else w)"

definition pc_onLocalCandidate :: "'j json_api \<Rightarrow> bool \<Rightarrow> string \<Rightarrow> string \<Rightarrow> string \<Rightarrow> ws_peers \<Rightarrow> ws_peers" where
  "pc_onLocalCandidate J wsAlive peer cand mid w =
     (let message = j_object J [(''id'', peer), (''type'', ''candidate''), (''candidate'', cand), (''mid'', mid)]
      in if wsAlive then w\<lparr>wp_frames := wp_frames w @ [j_dump J message]\<rparr> else w)"

definition new_channel :: "string \<Rightarrow> ws_peers \<Rightarrow> ref \<times> ws_peers" where
  "new_channel peer w = (wp_nextDc w, w\<lparr>wp_nextDc := Suc (wp_nextDc w), wp_dcOwner := (wp_dcOwner w)(wp_nextDc w := peer)\<rparr>)"

definition dc_onOpen :: "bool \<Rightarrow> ref \<Rightarrow> ws_peers \<Rightarrow> ws_peers" where
  "dc_onOpen dcAlive d w =
     (if dcAlive then w\<lparr>wp_dcSent := wp_dcSent w @ [(d, ''Hello from '' @ wp_localId w)]\<rparr> else w)"

definition pc_onDataChannel :: "string \<Rightarrow> ref \<Rightarrow> ws_peers \<Rightarrow> ws_peers" where
  "pc_onDataChannel peer d w = w\<lparr>wp_dcMap := emplace peer d (wp_dcMap w)\<rparr>"

section \<open>Signalling messages\<close>

definition get_string :: "'j json_api \<Rightarrow> 'j \<Rightarrow> string \<Rightarrow> string option" where
  "get_string J message key = Option.bind (j_find J message key) (j_get J)"

text \<open>The connection for a message: the stored one, a new one for an offer, or none.\<close>

definition route :: "string \<Rightarrow> string \<Rightarrow> ws_peers \<Rightarrow> (ref \<times> ws_peers) option" where
  "route peer type w =
     (case wp_pcMap w peer of
        Some k \<Rightarrow> Some (k, w)
      | None \<Rightarrow> if type = ''offer'' then Some (createPeerConnection peer w) else None)"

definition ws_onMessage :: "'j json_api \<Rightarrow> string option \<Rightarrow> ws_peers \<Rightarrow> ws_peers option" where
  "ws_onMessage J data w =
     (case data of
        None \<Rightarrow> Some w
      | Some str \<Rightarrow>
          (case j_parse J str of
             None \<Rightarrow> None
           | Some message \<Rightarrow>
               if j_find J message ''id'' = None then Some w
               else
                 (case get_string J message ''id'' of
                    None \<Rightarrow> None
                  | Some peer \<Rightarrow>
                      if j_find J message ''type'' = None then Some w
                      else
                        (case get_string J message ''type'' of
                           None \<Rightarrow> None
                         | Some type \<Rightarrow>
                             (case route peer type w of
                                None \<Rightarrow> Some w
                              | Some (k, w1) \<Rightarrow>
                                  if type = ''offer'' \<or> type = ''answer'' then
                                    map_option (\<lambda>sdp. pc_log k (SetRemote sdp (if type = ''offer'' then OfferDesc else AnswerDesc)) w1)
                                      (get_string J message ''description'')
                                  else if type = ''candidate'' then
                                    (case (get_string J message ''candidate'', get_string J message ''mid'') of
                                       (Some sdp, Some mid) \<Rightarrow> Some (pc_log k (AddCandidate sdp mid) w1)
                                     | _ \<Rightarrow> None)
                                  else Some w1)))))"

section \<open>The main loop\<close>

text \<open>One turn with the id that was entered; \<open>None\<close> ends the loop.\<close>

definition offer_turn :: "string \<Rightarrow> ws_peers \<Rightarrow> ws_peers option" where
  "offer_turn peer w =
     (if peer = [] then None
      else if peer = wp_localId w then Some w
      else
        let (k, w1) = createPeerConnection peer w;
            (d, w2) = new_channel peer (pc_log k (CreateDataChannel ''test'') w1)
        in Some (w2\<lparr>wp_dcMap := emplace peer d (wp_dcMap w2)\<rparr>))"

text \<open>The promise that \<open>main\<close> waits for; a second \<open>set_value\<close> or \<open>set_exception\<close> throws inside the callback.\<close>

datatype ws_promise = NotReady | Opened | Failed string

definition promise_onOpen :: "ws_promise \<Rightarrow> ws_promise option" where
  "promise_onOpen p = (if p = NotReady then Some Opened else None)"

definition promise_onError :: "string \<Rightarrow> ws_promise \<Rightarrow> ws_promise option" where
  "promise_onError s p = (if p = NotReady then Some (Failed s) else None)"

definition main_cleanup :: "ws_peers \<Rightarrow> ws_peers" where
  "main_cleanup w = w\<lparr>wp_dcMap := Map.empty, wp_pcMap := Map.empty\<rparr>"

section \<open>What a peer's connection is told\<close>

text \<open>
  Messages as the server relays them, with the sender's id, and the call each stands for. A peer's connection exists from its
  first offer on; everything before is stale.
\<close>

datatype peer_signal = SigOffer string | SigAnswer string | SigCandidate string string

fun signal_fields :: "peer_signal \<Rightarrow> (string \<times> string) list" where
  "signal_fields (SigOffer sdp) = [(''type'', ''offer''), (''description'', sdp)]"
| "signal_fields (SigAnswer sdp) = [(''type'', ''answer''), (''description'', sdp)]"
| "signal_fields (SigCandidate cand mid) = [(''type'', ''candidate''), (''candidate'', cand), (''mid'', mid)]"

fun signal_call :: "peer_signal \<Rightarrow> pc_call" where
  "signal_call (SigOffer sdp) = SetRemote sdp OfferDesc"
| "signal_call (SigAnswer sdp) = SetRemote sdp AnswerDesc"
| "signal_call (SigCandidate cand mid) = AddCandidate cand mid"

fun starts_peer :: "peer_signal \<Rightarrow> bool" where
  "starts_peer (SigOffer sdp) = True"
| "starts_peer _ = False"

definition relayed :: "'j json_api \<Rightarrow> string \<times> peer_signal \<Rightarrow> string" where
  "relayed J m = j_dump J (j_object J ((''id'', fst m) # signal_fields (snd m)))"

fun ws_receive :: "'j json_api \<Rightarrow> (string \<times> peer_signal) list \<Rightarrow> ws_peers \<Rightarrow> ws_peers option" where
  "ws_receive J [] w = Some w"
| "ws_receive J (m # ms) w = Option.bind (ws_onMessage J (Some (relayed J m)) w) (ws_receive J ms)"

definition peer_signals :: "string \<Rightarrow> (string \<times> peer_signal) list \<Rightarrow> peer_signal list" where
  "peer_signals peer ms = map snd (filter (\<lambda>m. fst m = peer) ms)"


lemma relayed_strings:
  assumes "json_roundtrip J" and "map_of ((''id'', peer) # signal_fields s) key = Some v"
  shows "get_string J (j_object J ((''id'', peer) # signal_fields s)) key = Some v"
    and "j_find J (j_object J ((''id'', peer) # signal_fields s)) key \<noteq> None"
proof -
  obtain j where "j_find J (j_object J ((''id'', peer) # signal_fields s)) key = Some j" "j_get J j = Some v"
    using assms unfolding json_roundtrip_def by blast
  then show "get_string J (j_object J ((''id'', peer) # signal_fields s)) key = Some v"
    and "j_find J (j_object J ((''id'', peer) # signal_fields s)) key \<noteq> None"
    by (simp_all add: get_string_def)
qed

text \<open>What one message does: it goes to the peer's connection, which an offer creates.\<close>

lemma ws_onMessage_relayed:
  assumes "json_roundtrip J"
  shows "ws_onMessage J (Some (relayed J (peer, s))) w =
     Some (case wp_pcMap w peer of
             Some k \<Rightarrow> pc_log k (signal_call s) w
           | None \<Rightarrow> if starts_peer s then let (k, w1) = createPeerConnection peer w in pc_log k (signal_call s) w1 else w)"
proof -
  let ?m = "j_object J ((''id'', peer) # signal_fields s)"
  have parse: "j_parse J (relayed J (peer, s)) = Some ?m" using assms by (simp add: json_roundtrip_def relayed_def)
  note get = relayed_strings[OF assms, of peer s]
  have peer: "get_string J ?m ''id'' = Some peer" "j_find J ?m ''id'' \<noteq> None" using get[of "''id''"] by simp_all
  show ?thesis
  proof (cases s)
    case (SigOffer sdp)
    then show ?thesis
      using parse peer get[of "''type''" "''offer''"] get[of "''description''" sdp]
      by (auto simp: ws_onMessage_def route_def split: option.splits prod.splits)
  next
    case (SigAnswer sdp)
    then show ?thesis
      using parse peer get[of "''type''" "''answer''"] get[of "''description''" sdp]
      by (auto simp: ws_onMessage_def route_def split: option.splits prod.splits)
  next
    case (SigCandidate cand mid)
    then show ?thesis
      using parse peer get[of "''type''" "''candidate''"] get[of "''candidate''" cand] get[of "''mid''" mid]
      by (auto simp: ws_onMessage_def route_def split: option.splits prod.splits)
  qed
qed

definition live_signals :: "string \<Rightarrow> (string \<times> peer_signal) list \<Rightarrow> peer_signal list" where
  "live_signals peer ms = dropWhile (\<lambda>s. \<not> starts_peer s) (peer_signals peer ms)"

definition expected_calls :: "string \<Rightarrow> (string \<times> peer_signal) list \<Rightarrow> pc_call list option" where
  "expected_calls peer ms = (case live_signals peer ms of [] \<Rightarrow> None | ss \<Rightarrow> Some (map signal_call ss))"

definition peers_ok :: "(string \<times> peer_signal) list \<Rightarrow> ws_peers \<Rightarrow> bool" where
  "peers_ok ms w \<longleftrightarrow>
     (\<forall>peer. map_option (wp_pcs w) (wp_pcMap w peer) = expected_calls peer ms) \<and>
     (\<forall>p k. wp_pcMap w p = Some k \<longrightarrow> k < wp_nextPc w) \<and>
     (\<forall>p q k. wp_pcMap w p = Some k \<and> wp_pcMap w q = Some k \<longrightarrow> p = q)"

lemma live_signals_snoc:
  "live_signals p (ms @ [(peer, s)]) =
     (if p = peer \<and> (live_signals p ms \<noteq> [] \<or> starts_peer s) then live_signals p ms @ [s] else live_signals p ms)"
proof -
  have "dropWhile (\<lambda>s. \<not> starts_peer s) (xs @ [s]) =
      (if dropWhile (\<lambda>s. \<not> starts_peer s) xs = [] \<and> \<not> starts_peer s then [] else dropWhile (\<lambda>s. \<not> starts_peer s) xs @ [s])" for xs
    by (induction xs) (simp_all del: dropWhile_eq_Nil_conv)
  then show ?thesis by (auto simp: live_signals_def peer_signals_def simp del: dropWhile_eq_Nil_conv)
qed

lemma expected_calls_snoc:
  "expected_calls p (ms @ [(peer, s)]) =
     (if p \<noteq> peer then expected_calls p ms
      else case expected_calls p ms of
        None \<Rightarrow> if starts_peer s then Some [signal_call s] else None
      | Some cs \<Rightarrow> Some (cs @ [signal_call s]))"
  by (cases "live_signals p ms") (auto simp: expected_calls_def live_signals_snoc)

lemma peers_ok_step:
  assumes "json_roundtrip J" and "peers_ok ms w"
  shows "\<exists>w'. ws_onMessage J (Some (relayed J m)) w = Some w' \<and> peers_ok (ms @ [m]) w'"
proof -
  obtain peer s where m: "m = (peer, s)" by fastforce
  have calls: "map_option (wp_pcs w) (wp_pcMap w p) = expected_calls p ms" for p using assms(2) by (simp add: peers_ok_def)
  have lt: "wp_pcMap w p = Some k \<Longrightarrow> k < wp_nextPc w" for p k using assms(2) by (simp add: peers_ok_def)
  have inj: "wp_pcMap w p = Some k \<Longrightarrow> wp_pcMap w q = Some k \<Longrightarrow> p = q" for p q k using assms(2) unfolding peers_ok_def by blast
  show ?thesis
  proof (cases "wp_pcMap w peer")
    case (Some k)
    have "map_option (wp_pcs (pc_log k (signal_call s) w)) (wp_pcMap w p) = expected_calls p (ms @ [m])" for p
      using calls[of p, symmetric] inj[of p k peer] Some unfolding m expected_calls_snoc
      by (cases "wp_pcMap w p") (auto simp: pc_log_def)
    then have "peers_ok (ms @ [m]) (pc_log k (signal_call s) w)"
      using assms(2) by (simp add: peers_ok_def pc_log_def)
    then show ?thesis using ws_onMessage_relayed[OF assms(1), of peer s w] Some m by simp
  next
    case None
    then have none: "expected_calls peer ms = None" using calls[of peer] by simp
    show ?thesis
    proof (cases "starts_peer s")
      case True
      define w' where "w' = (let (k, w1) = createPeerConnection peer w in pc_log k (signal_call s) w1)"
      have w': "wp_pcMap w' = (wp_pcMap w)(peer \<mapsto> wp_nextPc w)" "wp_nextPc w' = Suc (wp_nextPc w)"
          "wp_pcs w' = (wp_pcs w)(wp_nextPc w := [signal_call s])"
        using None by (simp_all add: w'_def createPeerConnection_def pc_log_def emplace_def Let_def)
      have "map_option (wp_pcs w') (wp_pcMap w' p) = expected_calls p (ms @ [m])" for p
        using calls[of p, symmetric] lt[of p] none True unfolding m expected_calls_snoc w' by (cases "wp_pcMap w p") auto
      moreover have "k < wp_nextPc w'" if "wp_pcMap w' p = Some k" for p k
        using that lt[of p k] unfolding w' by (auto split: if_splits)
      moreover have "p = q" if "wp_pcMap w' p = Some k" "wp_pcMap w' q = Some k" for p q k
        using that inj[of p k q] lt[of p k] lt[of q k] unfolding w' by (auto split: if_splits)
      ultimately have "peers_ok (ms @ [m]) w'" unfolding peers_ok_def by blast
      then show ?thesis using ws_onMessage_relayed[OF assms(1), of peer s w] None True m by (simp add: w'_def)
    next
      case False
      then have "peers_ok (ms @ [m]) w" using assms(2) none unfolding m by (simp add: peers_ok_def expected_calls_snoc)
      then show ?thesis using ws_onMessage_relayed[OF assms(1), of peer s w] None False m by simp
    qed
  qed
qed

lemma peers_ok_run:
  assumes "json_roundtrip J" and "peers_ok ms w"
  shows "\<exists>w'. ws_receive J ms' w = Some w' \<and> peers_ok (ms @ ms') w'"
  using assms(2)
proof (induction ms' arbitrary: ms w)
  case (Cons m ms')
  obtain v where v: "ws_onMessage J (Some (relayed J m)) w = Some v" "peers_ok (ms @ [m]) v"
    using peers_ok_step[OF assms(1) Cons.prems] by blast
  then show ?case using Cons.IH[OF v(2)] by simp
qed simp

section \<open>Properties\<close>



text \<open>What one client sends, another reads as the same signal, once the server has put the sender's id in place of the recipient's.\<close>

lemma sent_description_is_read:
  assumes "json_roundtrip J"
  shows "wp_frames (pc_onLocalDescription J True peer ''offer'' sdp w) = wp_frames w @ [relayed J (peer, SigOffer sdp)]"
    and "wp_frames (pc_onLocalDescription J True peer ''answer'' sdp w) = wp_frames w @ [relayed J (peer, SigAnswer sdp)]"
    and "wp_frames (pc_onLocalCandidate J True peer cand mid w) = wp_frames w @ [relayed J (peer, SigCandidate cand mid)]"
  by (simp_all add: pc_onLocalDescription_def pc_onLocalCandidate_def relayed_def)

text \<open>
  Offering to a peer again makes a connection that is not stored: the old one stays in the map and is given the answer to the new
  offer, while the new connection and its channel end with the turn of the loop.
\<close>

lemma offer_turn_eq:
  "peer \<noteq> [] \<Longrightarrow> peer \<noteq> wp_localId w \<Longrightarrow> \<exists>v. offer_turn peer w = Some v \<and> wp_localId v = wp_localId w \<and>
     wp_pcMap v = emplace peer (wp_nextPc w) (wp_pcMap w) \<and> wp_dcMap v = emplace peer (wp_nextDc w) (wp_dcMap w) \<and>
     wp_nextPc v = Suc (wp_nextPc w)"
  by (simp add: offer_turn_def createPeerConnection_def new_channel_def pc_log_def Let_def)

lemma second_offer_is_dropped:
  assumes "peer \<noteq> []" and "peer \<noteq> wp_localId w"
  shows "\<exists>w1 w2. offer_turn peer w = Some w1 \<and> offer_turn peer w1 = Some w2 \<and>
     wp_pcMap w2 = wp_pcMap w1 \<and> wp_dcMap w2 = wp_dcMap w1 \<and> wp_nextPc w2 = Suc (wp_nextPc w1)"
proof -
  obtain w1 where w1: "offer_turn peer w = Some w1" "wp_localId w1 = wp_localId w"
      "wp_pcMap w1 = emplace peer (wp_nextPc w) (wp_pcMap w)" "wp_dcMap w1 = emplace peer (wp_nextDc w) (wp_dcMap w)"
    using offer_turn_eq[OF assms] by blast
  obtain w2 where w2: "offer_turn peer w1 = Some w2" "wp_pcMap w2 = emplace peer (wp_nextPc w1) (wp_pcMap w1)"
      "wp_dcMap w2 = emplace peer (wp_nextDc w1) (wp_dcMap w1)" "wp_nextPc w2 = Suc (wp_nextPc w1)"
    using offer_turn_eq[of peer w1] assms w1(2) by auto
  have "emplace peer k' (emplace peer k f) = emplace peer k f" for k k' and f :: "string \<rightharpoonup> ref"
    by (simp add: emplace_def split: option.splits)
  then show ?thesis using w1 w2 by auto
qed

text \<open>An error after the WebSocket was opened makes \<open>set_exception\<close> throw inside the callback.\<close>

lemma late_error_throws: "promise_onOpen NotReady = Some Opened" "promise_onError s Opened = None"
  by (simp_all add: promise_onOpen_def promise_onError_def)

lemma random_id_length: "length (randomId rs) = length rs"
  and random_id_characters: "\<forall>r\<in>set rs. r < length id_characters \<Longrightarrow> set (randomId rs) \<subseteq> set id_characters"
  by (auto simp: randomId_def)

end
