(* ===== verification/Read_Cache.thy ===== *)
theory Read_Cache
  imports Prelude
begin

text \<open>
  \<open>demo/try/exec/hello_read.cpp\<close>: a read that answers from a shared cache or on a thread pool, and the service that reads twice.

  Services run on a pool of threads and share the cache, whose operations hold its mutex. A service is a state machine whose
  steps are the parts of its coroutine between accesses to the cache and hops to a pool. A hop of a service whose scope was
  stopped (\<open>rw_stop\<close>) completes with \<open>set_stopped\<close> and unwinds the coroutine; \<open>rw_returns\<close> says whether the library hops back to the service's
  own pool when a read returns.
\<close>

section \<open>Cache\<close>

type_synonym cache = "string \<rightharpoonup> string"

definition cache_get :: "string \<Rightarrow> cache \<Rightarrow> string option" where
  "cache_get key m = m key"

definition cache_put :: "string \<Rightarrow> string \<Rightarrow> cache \<Rightarrow> cache" where
  "cache_put key value m = m(key \<mapsto> value)"

section \<open>Read and FileService\<close>

text \<open>The flag of a position tells the first read of \<open>run\<close> from the second.\<close>

datatype read_pc =
    ServiceQueued
  | ReadStart bool
  | ReadOnPool bool
  | ReadBack bool string
  | ReadReturned bool string
  | ServiceDone
  | ServiceUnwound

datatype service_line =
    CacheHit string
  | ReadingOnPool string
  | CancelledAfterRead
  | Processing string
  | SecondRead string

record file_service =
  fv_path :: string
  fv_pc :: read_pc
  fv_lines :: "service_line list"

record read_world =
  rw_cache :: cache
  rw_services :: "ref \<Rightarrow> file_service"
  rw_stop :: "ref \<Rightarrow> bool"
  rw_returns :: bool

definition new_FileService :: "string \<Rightarrow> file_service" where
  "new_FileService path = \<lparr>fv_path = path, fv_pc = ServiceQueued, fv_lines = []\<rparr>"

definition disk_content :: "string \<Rightarrow> string" where
  "disk_content path = ''content of <'' @ path @ ''>''"

definition hop :: "bool \<Rightarrow> read_pc \<Rightarrow> file_service \<Rightarrow> file_service" where
  "hop stop_requested pc s = s\<lparr>fv_pc := (if stop_requested then ServiceUnwound else pc)\<rparr>"

definition Read_return :: "bool \<Rightarrow> bool \<Rightarrow> string \<Rightarrow> file_service \<Rightarrow> file_service" where
  "Read_return returns first content s = s\<lparr>fv_pc := (if returns then ReadBack first content else ReadReturned first content)\<rparr>"

definition Read_begin :: "bool \<Rightarrow> cache \<Rightarrow> bool \<Rightarrow> file_service \<Rightarrow> file_service" where
  "Read_begin returns m first s =
     (case cache_get (fv_path s) m of
        Some cached \<Rightarrow> Read_return returns first cached (s\<lparr>fv_lines := fv_lines s @ [CacheHit (fv_path s)]\<rparr>)
      | None \<Rightarrow> s\<lparr>fv_pc := ReadOnPool first\<rparr>)"

definition Read_on_pool :: "bool \<Rightarrow> cache \<Rightarrow> bool \<Rightarrow> file_service \<Rightarrow> file_service \<times> cache" where
  "Read_on_pool returns m first s =
     (let content = disk_content (fv_path s)
      in (Read_return returns first content (s\<lparr>fv_lines := fv_lines s @ [ReadingOnPool (fv_path s)]\<rparr>),
          cache_put (fv_path s) content m))"

definition run_after_read :: "bool \<Rightarrow> bool \<Rightarrow> string \<Rightarrow> file_service \<Rightarrow> file_service" where
  "run_after_read stop_requested first content s =
     (if first then
        if stop_requested then s\<lparr>fv_pc := ServiceDone, fv_lines := fv_lines s @ [CancelledAfterRead]\<rparr>
        else s\<lparr>fv_pc := ReadStart False, fv_lines := fv_lines s @ [Processing content]\<rparr>
      else s\<lparr>fv_pc := ServiceDone, fv_lines := fv_lines s @ [SecondRead content]\<rparr>)"

fun service_move :: "bool \<Rightarrow> bool \<Rightarrow> read_pc \<Rightarrow> file_service \<Rightarrow> cache \<Rightarrow> file_service \<times> cache" where
  "service_move returns stop ServiceQueued s m = (hop stop (ReadStart True) s, m)"
| "service_move returns stop (ReadStart first) s m = (Read_begin returns m first s, m)"
| "service_move returns stop (ReadOnPool first) s m =
     (if stop then (hop stop (ReadOnPool first) s, m) else Read_on_pool returns m first s)"
| "service_move returns stop (ReadBack first content) s m = (hop stop (ReadReturned first content) s, m)"
| "service_move returns stop (ReadReturned first content) s m = (run_after_read stop first content s, m)"
| "service_move returns stop ServiceDone s m = (s, m)"
| "service_move returns stop ServiceUnwound s m = (s, m)"

definition service_step :: "ref \<Rightarrow> read_world \<Rightarrow> read_world" where
  "service_step i w =
     (let s = rw_services w i; (s1, m) = service_move (rw_returns w) (rw_stop w i) (fv_pc s) s (rw_cache w)
      in w\<lparr>rw_services := (rw_services w)(i := s1), rw_cache := m\<rparr>)"

text \<open>\<open>ServiceStop\<close> is \<open>_scope.request_stop()\<close>, by \<open>cancel\<close> or the destructor, which then waits until the scope is empty.\<close>

datatype read_event = ServiceStep ref | ServiceStop ref

fun read_apply :: "read_event \<Rightarrow> read_world \<Rightarrow> read_world" where
  "read_apply (ServiceStep i) w = service_step i w"
| "read_apply (ServiceStop i) w = w\<lparr>rw_stop := (rw_stop w)(i := True)\<rparr>"

definition read_run :: "read_event list \<Rightarrow> read_world \<Rightarrow> read_world" where
  "read_run es w = fold read_apply es w"

definition new_world :: "bool \<Rightarrow> (ref \<Rightarrow> string) \<Rightarrow> read_world" where
  "new_world returns paths =
     \<lparr>rw_cache = Map.empty, rw_services = (\<lambda>i. new_FileService (paths i)), rw_stop = (\<lambda>_. False), rw_returns = returns\<rparr>"

section \<open>The invariant\<close>

text \<open>The cache holds nothing but contents of the disk, and a service has logged what its position says.\<close>

definition read_once :: "file_service \<Rightarrow> bool" where
  "read_once s \<longleftrightarrow> fv_lines s \<in> {[CacheHit (fv_path s)], [ReadingOnPool (fv_path s)]}"

definition read_twice :: "file_service \<Rightarrow> service_line list \<Rightarrow> bool" where
  "read_twice s rest \<longleftrightarrow> (\<exists>l\<in>{CacheHit (fv_path s), ReadingOnPool (fv_path s)}.
     fv_lines s = [l, Processing (disk_content (fv_path s))] @ rest)"

definition cancelled_after :: "file_service \<Rightarrow> bool" where
  "cancelled_after s \<longleftrightarrow> fv_lines s \<in> {[CacheHit (fv_path s), CancelledAfterRead], [ReadingOnPool (fv_path s), CancelledAfterRead]}"

fun at_read :: "read_pc \<Rightarrow> bool \<Rightarrow> cache \<Rightarrow> file_service \<Rightarrow> bool" where
  "at_read ServiceQueued stop m s \<longleftrightarrow> fv_lines s = []"
| "at_read (ReadStart first) stop m s \<longleftrightarrow>
     (if first then fv_lines s = [] else m (fv_path s) \<noteq> None \<and> read_twice s [])"
| "at_read (ReadOnPool first) stop m s \<longleftrightarrow> first \<and> fv_lines s = []"
| "at_read (ReadBack first c) stop m s \<longleftrightarrow> c = disk_content (fv_path s) \<and> m (fv_path s) \<noteq> None \<and>
     (if first then read_once s else read_twice s [CacheHit (fv_path s)])"
| "at_read (ReadReturned first c) stop m s \<longleftrightarrow> c = disk_content (fv_path s) \<and> m (fv_path s) \<noteq> None \<and>
     (if first then read_once s else read_twice s [CacheHit (fv_path s)])"
| "at_read ServiceDone stop m s \<longleftrightarrow>
     stop \<and> cancelled_after s \<or> read_twice s [CacheHit (fv_path s), SecondRead (disk_content (fv_path s))]"
| "at_read ServiceUnwound stop m s \<longleftrightarrow> stop \<and> (fv_lines s = [] \<or> read_once s \<or> read_twice s [CacheHit (fv_path s)])"

definition cache_ok :: "cache \<Rightarrow> bool" where
  "cache_ok m \<longleftrightarrow> (\<forall>p c. m p = Some c \<longrightarrow> c = disk_content p)"

definition read_inv :: "read_world \<Rightarrow> bool" where
  "read_inv w \<longleftrightarrow> cache_ok (rw_cache w) \<and> (\<forall>i. at_read (fv_pc (rw_services w i)) (rw_stop w i) (rw_cache w) (rw_services w i))"

lemmas read_steps [service_steps] = hop_def Read_return_def Read_begin_def Read_on_pool_def run_after_read_def cache_get_def cache_put_def
lemmas read_logs = read_once_def read_twice_def cancelled_after_def

lemma at_read_grow: "at_read pc stop m s \<Longrightarrow> at_read pc stop (m(p \<mapsto> c)) s"
  by (cases pc) (auto split: if_splits)

lemma at_read_stop: "at_read pc stop m s \<Longrightarrow> at_read pc True m s"
  by (cases pc) auto

lemma move_ok:
  assumes "cache_ok m" and "at_read (fv_pc s) stop m s" and "service_move returns stop (fv_pc s) s m = (s1, m1)"
  shows "at_read (fv_pc s1) stop m1 s1 \<and> cache_ok m1 \<and> (m1 = m \<or> (\<exists>p c. m1 = m(p \<mapsto> c)))"
proof (cases "fv_pc s")
  case (ReadStart first)
  then show ?thesis using assms by (cases "m (fv_path s)") (auto simp: service_steps read_logs cache_ok_def split: if_splits)
next
  case (ReadReturned first c)
  then show ?thesis using assms by (auto simp: service_steps read_logs split: if_splits)
qed (use assms in \<open>auto simp: service_steps read_logs cache_ok_def Let_def split: if_splits\<close>)

lemma service_step_inv:
  assumes "read_inv w"
  shows "read_inv (service_step i w)"
proof -
  obtain s1 m1 where mv: "service_move (rw_returns w) (rw_stop w i) (fv_pc (rw_services w i)) (rw_services w i) (rw_cache w) = (s1, m1)"
    by fastforce
  from move_ok[OF _ _ mv] assms have "at_read (fv_pc s1) (rw_stop w i) m1 s1" "cache_ok m1" "m1 = rw_cache w \<or> (\<exists>p c. m1 = (rw_cache w)(p \<mapsto> c))"
    by (auto simp: read_inv_def)
  then show ?thesis using assms by (auto simp: read_inv_def service_step_def mv at_read_grow simp del: fun_upd_apply, simp_all add: at_read_grow)
qed

lemma read_run_inv: "read_inv w \<Longrightarrow> read_inv (read_run es w)"
proof -
  have "read_inv v \<Longrightarrow> read_inv (read_apply e v)" for e v
    by (cases e) (simp_all add: service_step_inv, auto simp add: read_inv_def intro: at_read_stop)
  then show "read_inv w \<Longrightarrow> read_inv (read_run es w)"
    unfolding read_run_def by (induction es arbitrary: w) (simp_all del: read_apply.simps)
qed

lemma new_world_inv: "read_inv (new_world returns paths)"
  by (simp add: read_inv_def cache_ok_def new_world_def new_FileService_def)

section \<open>Reads\<close>

text \<open>
  In every interleaving of services and stops, every read returns the content of its own path, and a service that comes to its
  second read finds it in the cache; without a stop it does both reads.
\<close>

lemma second_read_is_cached:
  assumes "fv_pc (rw_services (read_run es (new_world returns paths)) i) = ServiceDone"
  defines "s \<equiv> rw_services (read_run es (new_world returns paths)) i"
  shows "read_twice s [CacheHit (fv_path s), SecondRead (disk_content (fv_path s))] \<or>
     rw_stop (read_run es (new_world returns paths)) i \<and> cancelled_after s"
  using read_run_inv[OF new_world_inv, of es returns paths] assms(1)
  by (auto simp: read_inv_def s_def dest!: spec[of _ i])

text \<open>A service gets to its end: eight of its steps, whatever else happens between them, are enough.\<close>

fun read_rank :: "read_pc \<Rightarrow> nat" where
  "read_rank ServiceQueued = 8"
| "read_rank (ReadStart first) = (if first then 7 else 3)"
| "read_rank (ReadOnPool first) = 6"
| "read_rank (ReadBack first c) = (if first then 5 else 2)"
| "read_rank (ReadReturned first c) = (if first then 4 else 1)"
| "read_rank ServiceDone = 0"
| "read_rank ServiceUnwound = 0"

lemma move_rank:
  assumes "at_read (fv_pc s) stop m s" and "service_move returns stop (fv_pc s) s m = (s1, m1)"
  shows "read_rank (fv_pc s1) \<le> read_rank (fv_pc s) - 1"
  using assms by (cases "fv_pc s") (auto simp: service_steps Let_def split: option.splits if_splits)

lemma run_rank:
  assumes "read_inv w"
  shows "read_rank (fv_pc (rw_services (read_run es w) i)) \<le> read_rank (fv_pc (rw_services w i)) - count_list es (ServiceStep i)"
  using assms
proof (induction es arbitrary: w)
  case (Cons e es)
  have inv: "read_inv (read_apply e w)" using read_run_inv[OF Cons.prems, of "[e]"] by (simp add: read_run_def)
  have "read_rank (fv_pc (rw_services (read_apply e w) i)) \<le> read_rank (fv_pc (rw_services w i)) - (if e = ServiceStep i then 1 else 0)"
  proof (cases e)
    case (ServiceStep j)
    then show ?thesis
      using Cons.prems move_rank[of "rw_services w i" "rw_stop w i" "rw_cache w" "rw_returns w"]
      by (auto simp: service_step_def read_inv_def Let_def split: prod.splits)
  qed simp
  then show ?case using Cons.IH[OF inv] by (auto simp: read_run_def simp del: read_apply.simps)
qed (simp add: read_run_def)

lemma service_ends:
  assumes "8 \<le> count_list es (ServiceStep i)"
  shows "fv_pc (rw_services (read_run es (new_world returns paths)) i) \<in> {ServiceDone, ServiceUnwound}"
proof -
  have "read_rank (fv_pc (rw_services (read_run es (new_world returns paths)) i)) = 0"
    using run_rank[OF new_world_inv, of es returns paths i] assms by (simp add: new_world_def new_FileService_def)
  then show ?thesis by (cases "fv_pc (rw_services (read_run es (new_world returns paths)) i)") (auto split: if_splits)
qed

text \<open>Two services that miss at the same time both read from the pool.\<close>

lemma simultaneous_misses:
  "fv_lines (rw_services (read_run [ServiceStep 0, ServiceStep 1, ServiceStep 0, ServiceStep 1, ServiceStep 0, ServiceStep 1]
     (new_world returns (\<lambda>_. p))) 1) = [ReadingOnPool p]"
  by (simp add: read_run_def service_step_def new_world_def new_FileService_def service_steps Let_def)

end
