(* ===== verification/Multi_Runner.thy ===== *)
theory Multi_Runner
  imports Prelude
begin

text \<open>
  \<open>demo/try/loop/main.cpp\<close>: the composite \<open>MultiRunner\<close> of updaters, \<open>SimpleRunner\<close> that drives one updater for three updates, and the program; and the
  composite action of the same file.

  An updater is a table of its virtual methods on a state \<open>'s\<close>; the members of a \<open>MultiRunner\<close> are references into a table of them. Elapsed times are of an
  arbitrary type \<open>'f\<close>; \<open>elapsed i\<close> is the \<open>float\<close> that the runner computes for its \<open>i\<close>-th update.
\<close>

section \<open>MultiRunner\<close>

record ('s, 'f) updater =
  up_Start :: "'s \<Rightarrow> 's"
  up_Update :: "'f \<Rightarrow> 's \<Rightarrow> 's"
  up_Complete :: "'s \<Rightarrow> 's"

record 's multi =
  mr_items :: "ref list"
  mr_running :: bool
  mr_world :: 's

type_synonym ('s, 'f) updaters = "ref \<Rightarrow> ('s, 'f) updater"

definition in_world :: "('s \<Rightarrow> 's) \<Rightarrow> 's multi \<Rightarrow> 's multi" where
  "in_world f m = m\<lparr>mr_world := f (mr_world m)\<rparr>"

definition Multi_Add :: "('s, 'f) updaters \<Rightarrow> ref \<Rightarrow> 's multi \<Rightarrow> 's multi" where
  "Multi_Add U item m =
     (let m1 = m\<lparr>mr_items := mr_items m @ [item]\<rparr>
      in if mr_running m1 then in_world (up_Start (U item)) m1 else m1)"

definition Multi_Remove :: "('s, 'f) updaters \<Rightarrow> ref \<Rightarrow> 's multi \<Rightarrow> 's multi" where
  "Multi_Remove U item m =
     (let m1 = (if mr_running m then in_world (up_Complete (U item)) m else m)
      in m1\<lparr>mr_items := remove1 item (mr_items m1)\<rparr>)"

definition Multi_Start :: "('s, 'f) updaters \<Rightarrow> 's multi \<Rightarrow> 's multi" where
  "Multi_Start U m = in_world (fold (\<lambda>item. up_Start (U item)) (mr_items m)) (m\<lparr>mr_running := True\<rparr>)"

definition Multi_Update :: "('s, 'f) updaters \<Rightarrow> 'f \<Rightarrow> 's multi \<Rightarrow> 's multi" where
  "Multi_Update U elapsed m = in_world (fold (\<lambda>item. up_Update (U item) elapsed) (mr_items m)) m"

definition Multi_Complete :: "('s, 'f) updaters \<Rightarrow> 's multi \<Rightarrow> 's multi" where
  "Multi_Complete U m = (in_world (fold (\<lambda>item. up_Complete (U item)) (mr_items m)) m)\<lparr>mr_running := False\<rparr>"

text \<open>The hook of an \<open>Updater\<close> unlinks itself when the updater is destroyed, without telling it or the runner.\<close>

definition auto_unlink :: "ref \<Rightarrow> 's multi \<Rightarrow> 's multi" where
  "auto_unlink item m = m\<lparr>mr_items := remove1 item (mr_items m)\<rparr>"

section \<open>SimpleRunner\<close>

text \<open>\<open>SimpleRunner::Start\<close> on a \<open>MultiRunner\<close>: \<open>_running\<close> is set before the loop and never reset.\<close>

definition Simple_Start :: "('s, 'f) updaters \<Rightarrow> (nat \<Rightarrow> 'f) \<Rightarrow> 's multi \<Rightarrow> 's multi" where
  "Simple_Start U elapsed m =
     Multi_Complete U (fold (\<lambda>i. Multi_Update U (elapsed (i + 1))) [0..<3] (Multi_Start U m))"

section \<open>Logging updaters and the program\<close>

datatype 'f update_line = LogStart ref | LogUpdate ref 'f | LogComplete ref

definition MyUpdater :: "ref \<Rightarrow> ('f update_line list, 'f) updater" where
  "MyUpdater i =
     \<lparr>up_Start = (\<lambda>log. log @ [LogStart i]), up_Update = (\<lambda>elapsed log. log @ [LogUpdate i elapsed]),
      up_Complete = (\<lambda>log. log @ [LogComplete i])\<rparr>"

definition loop_main :: "(nat \<Rightarrow> 'f) \<Rightarrow> 'f \<Rightarrow> 'f update_line list multi" where
  "loop_main elapsed e_last =
     (let m0 = \<lparr>mr_items = [], mr_running = False, mr_world = []\<rparr>;
          m1 = Simple_Start MyUpdater elapsed (Multi_Add MyUpdater 1 m0);
          m2 = Multi_Update MyUpdater e_last (Multi_Add MyUpdater 2 m1)
      in auto_unlink 2 m2)"

section \<open>CompositeAction\<close>

text \<open>The result of a composite action is that of its last member.\<close>

fun CompositeAction :: "('a \<Rightarrow> 's \<Rightarrow> 'r \<times> 's) list \<Rightarrow> 'r \<Rightarrow> 'a \<Rightarrow> 's \<Rightarrow> 'r \<times> 's" where
  "CompositeAction [] result args s = (result, s)"
| "CompositeAction (action # actions) result args s =
     (let (r, s1) = action args s in CompositeAction actions r args s1)"

section \<open>The life cycle of the members\<close>

text \<open>
  Calls on a runner, and where they belong: \<open>Update\<close> and \<open>Complete\<close> while it runs, \<open>Start\<close> while it does not, members added once.
\<close>

datatype 'f multi_call = CallAdd ref | CallRemove ref | CallStart | CallUpdate 'f | CallComplete

fun multi_apply :: "('s, 'f) updaters \<Rightarrow> 'f multi_call \<Rightarrow> 's multi \<Rightarrow> 's multi" where
  "multi_apply U (CallAdd i) m = Multi_Add U i m"
| "multi_apply U (CallRemove i) m = Multi_Remove U i m"
| "multi_apply U CallStart m = Multi_Start U m"
| "multi_apply U (CallUpdate e) m = Multi_Update U e m"
| "multi_apply U CallComplete m = Multi_Complete U m"

fun call_fits :: "'f multi_call \<Rightarrow> 's multi \<Rightarrow> bool" where
  "call_fits (CallAdd i) m \<longleftrightarrow> i \<notin> set (mr_items m)"
| "call_fits (CallRemove i) m \<longleftrightarrow> i \<in> set (mr_items m)"
| "call_fits CallStart m \<longleftrightarrow> \<not> mr_running m"
| "call_fits (CallUpdate e) m \<longleftrightarrow> mr_running m"
| "call_fits CallComplete m \<longleftrightarrow> mr_running m"

fun calls_fit :: "('s, 'f) updaters \<Rightarrow> 'f multi_call list \<Rightarrow> 's multi \<Rightarrow> bool" where
  "calls_fit U [] m = True"
| "calls_fit U (c # cs) m \<longleftrightarrow> call_fits c m \<and> calls_fit U cs (multi_apply U c m)"

text \<open>The state of a member by its log: started or not, or \<open>None\<close> when it is started twice, or updated or completed while it is not.\<close>

fun member_state :: "ref \<Rightarrow> bool \<Rightarrow> 'f update_line list \<Rightarrow> bool option" where
  "member_state i b [] = Some b"
| "member_state i b (LogStart j # ls) =
     (if j = i then if b then None else member_state i True ls else member_state i b ls)"
| "member_state i b (LogUpdate j e # ls) =
     (if j = i then if b then member_state i b ls else None else member_state i b ls)"
| "member_state i b (LogComplete j # ls) =
     (if j = i then if b then member_state i False ls else None else member_state i b ls)"

lemma member_state_append:
  "member_state i b (xs @ ys) = (case member_state i b xs of None \<Rightarrow> None | Some c \<Rightarrow> member_state i c ys)"
  by (induction i b xs rule: member_state.induct) auto

lemma fold_log: "fold (\<lambda>i log. log @ [f i]) is log = log @ map f is"
  by (induction "is" arbitrary: log) auto

lemma member_state_map:
  assumes "distinct is"
  shows "member_state i b (map LogStart is) = (if i \<in> set is then if b then None else Some True else Some b)"
    and "member_state i b (map (\<lambda>j. LogUpdate j e) is) = (if i \<in> set is \<and> \<not> b then None else Some b)"
    and "member_state i b (map LogComplete is) = (if i \<in> set is then if b then Some False else None else Some b)"
  using assms by (induction "is" arbitrary: b) auto

definition multi_inv :: "'f update_line list multi \<Rightarrow> bool" where
  "multi_inv m \<longleftrightarrow> distinct (mr_items m) \<and>
     (\<forall>i. member_state i False (mr_world m) = Some (mr_running m \<and> i \<in> set (mr_items m)))"

lemmas multi_defs = Multi_Add_def Multi_Remove_def Multi_Start_def Multi_Update_def Multi_Complete_def in_world_def MyUpdater_def

lemma multi_apply_inv:
  assumes "multi_inv m" and "call_fits c m"
  shows "multi_inv (multi_apply MyUpdater c m)"
proof (cases c)
  case (CallAdd i)
  with assms show ?thesis by (auto simp: multi_inv_def multi_defs member_state_append Let_def)
next
  case (CallRemove i)
  with assms show ?thesis by (auto simp: multi_inv_def multi_defs member_state_append Let_def)
qed (use assms in \<open>auto simp: multi_inv_def multi_defs fold_log member_state_append member_state_map\<close>)

text \<open>
  Used in this way, a runner starts, updates and completes every member in turn, whenever members are added and removed.
\<close>

lemma members_live_properly:
  assumes "calls_fit MyUpdater cs m" and "multi_inv m"
  shows "multi_inv (fold (multi_apply MyUpdater) cs m)"
  using assms by (induction cs arbitrary: m) (auto simp: multi_apply_inv simp del: multi_apply.simps)

lemma new_multi_inv: "multi_inv \<lparr>mr_items = [], mr_running = False, mr_world = []\<rparr>"
  by (simp add: multi_inv_def)

text \<open>
  The program does not: it updates the first member after it was completed, and the second, which was added after the end of the run, without
  starting or completing it.
\<close>

lemma loop_main_log:
  "mr_world (loop_main elapsed e_last) =
     [LogStart 1, LogUpdate 1 (elapsed 1), LogUpdate 1 (elapsed 2), LogUpdate 1 (elapsed 3), LogComplete 1,
      LogUpdate 1 e_last, LogUpdate 2 e_last]"
  by (simp add: loop_main_def Simple_Start_def auto_unlink_def multi_defs Let_def upt_rec numeral_3_eq_3 numeral_2_eq_2)

lemma loop_main_misuses_runner:
  "member_state 1 False (mr_world (loop_main elapsed e_last)) = None"
  "member_state 2 False (mr_world (loop_main elapsed e_last)) = None"
  by (simp_all add: loop_main_log)

end
