(* ===== verification/Pkg_Demos.thy ===== *)
theory Pkg_Demos
  imports Boot Fs_Drive
begin

text \<open>
  The level functions and macros of \<open>pkg/log/Log/Log.h\<close> with the program \<open>demo/pkg/log\<close> that calls them all, and the programs \<open>demo/pkg/boot\<close>
  and \<open>demo/pkg/fs\<close>.

  A call that logs is a function on the logger's state. The payload is already formatted; the numbers that the programs print
  (a time, an approximation of pi) are arguments.
\<close>

section \<open>Level functions and macros\<close>

type_synonym logging = "log_state \<Rightarrow> log_state"

definition Log_Trace :: "Src \<Rightarrow> string \<Rightarrow> logging" where
  "Log_Trace src fmt = Msg src LvTrace fmt"

definition Log_Debug :: "Src \<Rightarrow> string \<Rightarrow> logging" where
  "Log_Debug src fmt = Msg src LvDebug fmt"

definition Log_Info :: "Src \<Rightarrow> string \<Rightarrow> logging" where
  "Log_Info src fmt = Msg src LvInfo fmt"

definition Log_Warn :: "Src \<Rightarrow> string \<Rightarrow> logging" where
  "Log_Warn src fmt = Msg src LvWarn fmt"

definition Log_Error :: "Src \<Rightarrow> string \<Rightarrow> logging" where
  "Log_Error src fmt = Msg src LvError fmt"

definition Log_Fatal :: "Src \<Rightarrow> string \<Rightarrow> logging" where
  "Log_Fatal src fmt = Msg src LvFatal fmt"

text \<open>The methods of a \<open>Logger\<close> with the area \<open>area\<close>.\<close>

definition Logger_Trace :: "string option \<Rightarrow> Src \<Rightarrow> string \<Rightarrow> logging" where
  "Logger_Trace area src fmt = LoggerMsg area src LvTrace fmt"

definition Logger_Debug :: "string option \<Rightarrow> Src \<Rightarrow> string \<Rightarrow> logging" where
  "Logger_Debug area src fmt = LoggerMsg area src LvDebug fmt"

definition Logger_Info :: "string option \<Rightarrow> Src \<Rightarrow> string \<Rightarrow> logging" where
  "Logger_Info area src fmt = LoggerMsg area src LvInfo fmt"

definition Logger_Warn :: "string option \<Rightarrow> Src \<Rightarrow> string \<Rightarrow> logging" where
  "Logger_Warn area src fmt = LoggerMsg area src LvWarn fmt"

definition Logger_Error :: "string option \<Rightarrow> Src \<Rightarrow> string \<Rightarrow> logging" where
  "Logger_Error area src fmt = LoggerMsg area src LvError fmt"

definition Logger_Fatal :: "string option \<Rightarrow> Src \<Rightarrow> string \<Rightarrow> logging" where
  "Logger_Fatal area src fmt = LoggerMsg area src LvFatal fmt"

text \<open>
  The macros: \<open>DefaultLogger()\<close> is looked up where the macro is used, and a logger may be the first argument, which then takes the place
  of the default one. \<open>None\<close> as the default area is the global \<open>DefaultLogger\<close>.
\<close>

definition LogMsg :: "string option \<Rightarrow> string option option \<Rightarrow> source_loc \<Rightarrow> Level \<Rightarrow> string \<Rightarrow> logging" where
  "LogMsg default_area logger loc level fmt =
     (case logger of
        None \<Rightarrow> LoggerMsgAt default_area loc level fmt
      | Some area \<Rightarrow> LoggerMsgAt area loc level fmt)"

section \<open>The log program\<close>

definition log_src :: "string \<Rightarrow> nat \<Rightarrow> Src" where
  "log_src func line = \<lparr>sr_file = ''demo/pkg/log/main.cpp'', sr_line = line, sr_func = func, sr_noFunc = False\<rparr>"

definition apostrophes :: "string \<Rightarrow> string" where
  "apostrophes s = [CHR 0x27] @ s @ [CHR 0x27]"

definition calls :: "logging list \<Rightarrow> logging" where
  "calls fs w = fold (\<lambda>f. f) fs w"

definition FuncDemo :: logging where
  "FuncDemo =
     (let src = log_src ''void FuncDemo()'' in
      calls [Log_Trace (src 10) ''func message (trace)'', Log_Debug (src 11) ''func message (debug)'',
        Log_Info (src 12) ''func message (info)'', Log_Warn (src 13) ''func message (warning)'',
        Log_Error (src 14) ''func message (error)'', Log_Fatal (src 15) ''func message (fatal)'',
        Log_Debug (src 16) (''func formatted: '' @ apostrophes ''demo'')])"

definition macro_lines :: "string option \<Rightarrow> string option option \<Rightarrow> string \<Rightarrow> nat \<Rightarrow> string \<Rightarrow> string \<Rightarrow> logging" where
  "macro_lines default_area logger func line prefix formatted =
     calls (map2 (\<lambda>i (level, fmt). LogMsg default_area logger (ToSpdLoc (log_src func (line + i))) level fmt) [0..<7]
       [(LvTrace, prefix @ '' msg (trace)''), (LvDebug, prefix @ '' msg (debug)''), (LvInfo, prefix @ '' msg (info)''),
        (LvWarn, prefix @ '' msg (warn)''), (LvError, prefix @ '' msg (error)''), (LvFatal, prefix @ '' msg (fatal)''),
        (LvDebug, prefix @ '' formatted: '' @ formatted)])"

definition MacroDemo :: logging where
  "MacroDemo = macro_lines None None ''MacroDemo'' 21 ''macro'' ''12345''"

definition LoggerFuncDemo :: logging where
  "LoggerFuncDemo =
     (let logger = Some ''LoggerFunc''; src = log_src ''void LoggerFuncDemo()'' in
      calls [Logger_Trace logger (src 33) ''logger func message (trace)'', Logger_Debug logger (src 34) ''logger func message (debug)'',
        Logger_Info logger (src 35) ''logger func message (info)'', Logger_Warn logger (src 36) ''logger func message (warning)'',
        Logger_Error logger (src 37) ''logger func message (error)'', Logger_Fatal logger (src 38) ''logger func message (fatal)'',
        Logger_Debug logger (src 39) (''logger func formatted: '' @ apostrophes ''demo'')])"

definition LoggerMacroDemo :: "string \<Rightarrow> logging" where
  "LoggerMacroDemo now = macro_lines None (Some (Some ''LoggerMacro'')) ''LoggerMacroDemo'' 45 ''logger macro'' now"

text \<open>Inside the struct, \<open>DefaultLogger()\<close> is its own static member; the member \<open>logger\<close> is not used.\<close>

definition DefaultMacroDemo :: logging where
  "DefaultMacroDemo = macro_lines (Some ''FeatureDefault'') None ''DefaultMacroDemo'' 67 ''feature'' ''-12345''"

text \<open>One block of \<open>ScopeDemo\<close>: the scope, a message, and the end of the scope.\<close>

definition scope_block ::
  "(int \<Rightarrow> int \<Rightarrow> string) \<Rightarrow> (int \<Rightarrow> int \<Rightarrow> string) \<Rightarrow> time_point \<Rightarrow> time_point \<Rightarrow> Level \<Rightarrow> nat \<Rightarrow> string option \<Rightarrow> logging" where
  "scope_block fmt0 fmt3 t0 t1 level line text w =
     (let src = log_src ''void ScopeDemo()'';
          (s, w1) = (case text of
                       None \<Rightarrow> Scope_plain t0 DefaultPrefixes level (src line) w
                     | Some m \<Rightarrow> Scope_msg t0 DefaultPrefixes level (src line) m w)
      in Scope_destroy fmt0 fmt3 t1 s (Msg (src (line + 1)) level ''inside scope'' w1))"

definition ScopeDemo :: "(int \<Rightarrow> int \<Rightarrow> string) \<Rightarrow> (int \<Rightarrow> int \<Rightarrow> string) \<Rightarrow> (nat \<Rightarrow> time_point) \<Rightarrow> string \<Rightarrow> logging" where
  "ScopeDemo fmt0 fmt3 clock pi =
     calls (map (\<lambda>(i, level, line, text). scope_block fmt0 fmt3 (clock (2 * i)) (clock (2 * i + 1)) level line text)
       [(0, LvInfo, 80, None), (1, LvTrace, 84, None), (2, LvInfo, 88, Some ''custom message''),
        (3, LvDebug, 92, Some ''custom level message''), (4, LvInfo, 96, Some (''custom formatted: '' @ pi)),
        (5, LvDebug, 100, Some (''custom level formatted: '' @ pi))])"

definition log_main ::
  "(int \<Rightarrow> int \<Rightarrow> string) \<Rightarrow> (int \<Rightarrow> int \<Rightarrow> string) \<Rightarrow> (nat \<Rightarrow> time_point) \<Rightarrow> string \<Rightarrow> string \<Rightarrow> nat \<Rightarrow> log_state \<Rightarrow> int \<times> log_state" where
  "log_main fmt0 fmt3 clock now pi argc w =
     (int argc - 1,
      calls [FuncDemo, MacroDemo, LoggerFuncDemo, LoggerMacroDemo now, DefaultMacroDemo, ScopeDemo fmt0 fmt3 clock pi] w)"

text \<open>
  What the program's console gets: after the first call the logger takes every level, so a sink of the library receives all 53 lines, and each
  group is shown under the area it asked for: the file's name, the logger's, or the one of the default logger in scope.
\<close>

lemma Msg_event: "Msg src level t w = log_apply (EvMsg None src level t) w"
  by (simp add: Msg_def LoggerMsg_def LoggerMsgAt_def area_loc_def)

lemma macro_event:
  "LogMsg default_area logger (ToSpdLoc src) level t w =
     log_apply (EvMsg (case logger of None \<Rightarrow> default_area | Some area \<Rightarrow> area) src level t) w"
  by (simp add: LogMsg_def LoggerMsg_def split: option.split)

definition one_sink :: "ref \<Rightarrow> log_state \<Rightarrow> bool" where
  "one_sink s w \<longleftrightarrow> ls_sinks (DefaultLoggerRaw w) = [s, startup_ref] \<and> (ls_inited w \<longrightarrow> ls_level w = 0)"

text \<open>Called with a logger that has one sink beside the startup sink, \<open>f\<close> adds messages with these areas and levels to what the sink got.\<close>

abbreviation shown :: "log_msg \<Rightarrow> string option \<times> nat" where
  "shown m \<equiv> (GetAreaName m, lm_level m)"

definition shows_lines :: "ref \<Rightarrow> logging \<Rightarrow> (string option \<times> nat) list \<Rightarrow> bool" where
  "shows_lines s f ls \<longleftrightarrow> (\<forall>w. one_sink s w \<longrightarrow> one_sink s (f w) \<and> map shown (ls_out (f w) s) = map shown (ls_out w s) @ ls)"

lemma shows_event:
  "s \<noteq> startup_ref \<Longrightarrow> shows_lines s (log_apply (EvMsg area src level t)) [shown (the_msg area src level t)]"
  by (auto simp: shows_lines_def one_sink_def LoggerMsg_def LoggerMsgAt_def raw_log_def should_log_def DefaultLoggerRaw_def
      InitLogger_def sink_log_def the_msg_def)

lemma shows_nothing: "shows_lines s (calls []) []"
  by (simp add: shows_lines_def calls_def)

lemma shows_Cons: "shows_lines s f ls \<Longrightarrow> shows_lines s (calls fs) ks \<Longrightarrow> shows_lines s (calls (f # fs)) (ls @ ks)"
  by (simp add: shows_lines_def calls_def)

lemma shown_msg:
  "shown (the_msg area (log_src func line) level t) = (Some (case area of None \<Rightarrow> ''main'' | Some a \<Rightarrow> a), ToSpdLevel level)"
  by (cases area) (simp_all add: the_msg_def area_loc_def ToSpdLoc_def log_src_def GetAreaName_def AreaLoggerLine_def GetBasename_def
      GetWithoutExtension_def)

lemma shows_msg:
  assumes "s \<noteq> startup_ref"
  shows "shows_lines s (Msg (log_src func line) level t) [(Some ''main'', ToSpdLevel level)]"
    and "shows_lines s (LoggerMsg (Some a) (log_src func line) level t) [(Some a, ToSpdLevel level)]"
    and "shows_lines s (LogMsg default_area logger (ToSpdLoc (log_src func line)) level t)
       [(Some (case (case logger of None \<Rightarrow> default_area | Some area \<Rightarrow> area) of None \<Rightarrow> ''main'' | Some a \<Rightarrow> a), ToSpdLevel level)]"
  using shows_event[OF assms, of None "log_src func line" level t] shows_event[OF assms, of "Some a" "log_src func line" level t]
    shows_event[OF assms, of "case logger of None \<Rightarrow> default_area | Some area \<Rightarrow> area" "log_src func line" level t]
  by (simp_all add: shows_lines_def Msg_event macro_event shown_msg)

definition all_levels :: "string \<Rightarrow> (string option \<times> nat) list" where
  "all_levels area = map (Pair (Some area)) [0, 1, 2, 3, 4, 5, 1]"

lemma shows_macro_lines:
  assumes "s \<noteq> startup_ref"
  shows "shows_lines s (macro_lines default_area logger func line prefix formatted)
     (all_levels (case (case logger of None \<Rightarrow> default_area | Some area \<Rightarrow> area) of None \<Rightarrow> ''main'' | Some a \<Rightarrow> a))"
proof -
  define a where "a = (case (case logger of None \<Rightarrow> default_area | Some area \<Rightarrow> area) of None \<Rightarrow> ''main'' | Some a \<Rightarrow> a)"
  note m = shows_msg(3)[OF assms, of default_area logger func, folded a_def]
  have "shows_lines s (macro_lines default_area logger func line prefix formatted)
      ([(Some a, 0)] @ [(Some a, 1)] @ [(Some a, 2)] @ [(Some a, 3)] @ [(Some a, 4)] @ [(Some a, 5)] @ [(Some a, 1)] @ [])"
    unfolding macro_lines_def using m[of _ LvTrace] m[of _ LvDebug] m[of _ LvInfo] m[of _ LvWarn] m[of _ LvError] m[of _ LvFatal]
    by (simp add: upt_conv_Cons) (intro shows_Cons[where ls = "[_]", simplified] shows_nothing; simp)
  then show ?thesis by (simp add: all_levels_def a_def)
qed


lemma shows_FuncDemo: "s \<noteq> startup_ref \<Longrightarrow> shows_lines s FuncDemo (all_levels ''main'')"
  using shows_msg(1)[of s "''void FuncDemo()''" _ LvTrace] shows_msg(1)[of s "''void FuncDemo()''" _ LvDebug]
    shows_msg(1)[of s "''void FuncDemo()''" _ LvInfo] shows_msg(1)[of s "''void FuncDemo()''" _ LvWarn]
    shows_msg(1)[of s "''void FuncDemo()''" _ LvError] shows_msg(1)[of s "''void FuncDemo()''" _ LvFatal]
  unfolding FuncDemo_def Let_def Log_Trace_def Log_Debug_def Log_Info_def Log_Warn_def Log_Error_def Log_Fatal_def
  by (simp add: all_levels_def) (intro shows_Cons[where ls = "[_]", simplified] shows_nothing; simp)

lemma shows_LoggerFuncDemo: "s \<noteq> startup_ref \<Longrightarrow> shows_lines s LoggerFuncDemo (all_levels ''LoggerFunc'')"
  using shows_msg(2)[of s "''LoggerFunc''" "''void LoggerFuncDemo()''" _ LvTrace]
    shows_msg(2)[of s "''LoggerFunc''" "''void LoggerFuncDemo()''" _ LvDebug]
    shows_msg(2)[of s "''LoggerFunc''" "''void LoggerFuncDemo()''" _ LvInfo]
    shows_msg(2)[of s "''LoggerFunc''" "''void LoggerFuncDemo()''" _ LvWarn]
    shows_msg(2)[of s "''LoggerFunc''" "''void LoggerFuncDemo()''" _ LvError]
    shows_msg(2)[of s "''LoggerFunc''" "''void LoggerFuncDemo()''" _ LvFatal]
  unfolding LoggerFuncDemo_def Let_def Logger_Trace_def Logger_Debug_def Logger_Info_def Logger_Warn_def Logger_Error_def Logger_Fatal_def
  by (simp add: all_levels_def) (intro shows_Cons[where ls = "[_]", simplified] shows_nothing; simp)

lemma shows_scope_block:
  assumes "s \<noteq> startup_ref"
  shows "shows_lines s (scope_block fmt0 fmt3 t0 t1 level line m) (replicate 3 (Some ''main'', ToSpdLevel level))"
proof -
  note msg = shows_msg(1)[OF assms, of "''void ScopeDemo()''" _ level, unfolded shows_lines_def, rule_format]
  show ?thesis
    unfolding shows_lines_def
    by (cases m) (auto simp: scope_block_def Scope_plain_def Scope_msg_def Scope_destroy_def Let_def msg eval_nat_numeral)
qed

lemma shows_ScopeDemo:
  assumes "s \<noteq> startup_ref"
  shows "shows_lines s (ScopeDemo fmt0 fmt3 clock pi)
     (concat (map (\<lambda>level. replicate 3 (Some ''main'', ToSpdLevel level)) [LvInfo, LvTrace, LvInfo, LvDebug, LvInfo, LvDebug]))"
  unfolding ScopeDemo_def list.map concat.simps prod.case
  by (intro shows_Cons shows_nothing shows_scope_block[OF assms])

lemma log_demo_lines:
  assumes "s \<noteq> startup_ref"
  shows "map (\<lambda>m. (GetAreaName m, lm_level m)) (ls_out (snd (log_main fmt0 fmt3 clock now pi argc (new_log_state [s] level))) s) =
     all_levels ''main'' @ all_levels ''main'' @ all_levels ''LoggerFunc'' @ all_levels ''LoggerMacro'' @ all_levels ''FeatureDefault'' @
     concat (map (\<lambda>level. replicate 3 (Some ''main'', ToSpdLevel level)) [LvInfo, LvTrace, LvInfo, LvDebug, LvInfo, LvDebug])"
proof -
  have groups: "shows_lines s MacroDemo (all_levels ''main'')" "shows_lines s (LoggerMacroDemo now) (all_levels ''LoggerMacro'')"
    "shows_lines s DefaultMacroDemo (all_levels ''FeatureDefault'')"
    using shows_macro_lines[OF assms, of None None] shows_macro_lines[OF assms, of None "Some (Some ''LoggerMacro'')"]
      shows_macro_lines[OF assms, of "Some ''FeatureDefault''" None]
    by (simp_all add: MacroDemo_def LoggerMacroDemo_def DefaultMacroDemo_def)
  have "shows_lines s (calls [FuncDemo, MacroDemo, LoggerFuncDemo, LoggerMacroDemo now, DefaultMacroDemo, ScopeDemo fmt0 fmt3 clock pi])
     (all_levels ''main'' @ all_levels ''main'' @ all_levels ''LoggerFunc'' @ all_levels ''LoggerMacro'' @ all_levels ''FeatureDefault'' @
      concat (map (\<lambda>level. replicate 3 (Some ''main'', ToSpdLevel level)) [LvInfo, LvTrace, LvInfo, LvDebug, LvInfo, LvDebug]) @ [])"
    by (intro shows_Cons shows_nothing groups shows_FuncDemo shows_LoggerFuncDemo shows_ScopeDemo assms)
  moreover have "one_sink s (new_log_state [s] level)" "ls_out (new_log_state [s] level) s = []"
    by (simp_all add: one_sink_def new_log_state_def DefaultLoggerRaw_def InitLogger_def)
  ultimately show ?thesis unfolding shows_lines_def log_main_def snd_conv by fastforce
qed

section \<open>The fs program\<close>

definition fs_demo_path :: string where
  "fs_demo_path = ''test_data/test.txt''"

text \<open>The exit status and the content that is logged.\<close>

definition fs_main :: "drive \<Rightarrow> int \<times> byte list option" where
  "fs_main d =
     (case GetSize d fs_demo_path of
        Inl e \<Rightarrow> (1, None)
      | Inr n \<Rightarrow>
          (case ReadAllTo d fs_demo_path (replicate n 0) of
             (Inl e, buf) \<Rightarrow> (1, None)
           | (Inr m, buf) \<Rightarrow> (0, Some (if m \<le> length buf then take m buf else buf @ replicate (m - length buf) 0))))"

text \<open>Over the default drive it logs the content of the file that the drive presents, all of it, or fails.\<close>

lemma fs_main_logs_content:
  "fs_main (MakeDefaultDrive (files_fs files) (map_option (\<lambda>as. Some (assets_of as)) assets) cwd args) =
     (case default_content files assets cwd args fs_demo_path of None \<Rightarrow> (1, None) | Some bs \<Rightarrow> (0, Some bs))"
  using default.outcome[of files assets cwd args fs_demo_path "[]" 0]
  by (cases "default_content files assets cwd args fs_demo_path") (auto simp: fs_main_def)

section \<open>The boot program\<close>

datatype boot_end = DebugTrap | ProcessAborted | RuntimeErrorPointerThrown | BootExited int

definition env_vars :: "string list" where
  "env_vars = [''BUILD_WORKING_DIRECTORY'', ''BUILD_WORKSPACE_DIRECTORY'', ''RUNFILES_DIR'', ''RUNFILES_MANIFEST_FILE'']"

definition env_line :: "(string \<Rightarrow> string) \<Rightarrow> string \<Rightarrow> string" where
  "env_line getenv var =
     (if getenv var \<noteq> [] then ''  '' @ var @ ''='' @ getenv var else ''  '' @ var @ '' is not set'')"

text \<open>\<open>sublib_log_exception_ptr\<close>: an exception that is a \<open>std::exception\<close> has its text.\<close>

definition sublib_log_exception_ptr :: "string option \<Rightarrow> string list" where
  "sublib_log_exception_ptr ep = (case ep of None \<Rightarrow> [''nullptr''] | Some what \<Rightarrow> [apostrophes what])"

definition sublib_make_exception_ptr :: "string option" where
  "sublib_make_exception_ptr = Some ''sublib made runtime_error exception''"

text \<open>
  The lines and the end of \<open>main\<close>; \<open>runfiles\<close> is what \<open>Runfiles::Create\<close> gives: an error, or the function \<open>Rlocation\<close>.
\<close>

definition boot_main ::
  "(string \<Rightarrow> string) \<Rightarrow> (string, string \<Rightarrow> string) expected \<Rightarrow> string list \<Rightarrow> string list \<times> boot_end" where
  "boot_main getenv runfiles args =
     (let hello = [''Hello Boot!''] in
      if Contains args ''--break'' then (hello, DebugTrap)
      else if Contains args ''--abort'' then (hello, ProcessAborted)
      else if Contains args ''--throw'' then (hello, RuntimeErrorPointerThrown)
      else if Contains args ''--ex'' then (hello @ sublib_log_exception_ptr sublib_make_exception_ptr, BootExited 0)
      else
        (hello @ [''Process environment variables:''] @ map (env_line getenv) env_vars @
           [case runfiles of
              Inr rlocation \<Rightarrow> ''Runfiles path for sample: '' @ rlocation ''demo/hello-boot/sample-data.txt''
            | Inl error \<Rightarrow> ''Runfiles::Create failed: '' @ error] @
           [''exit status: '' @ print_int (int (length args) - 1)],
         BootExited (int (length args) - 1)))"

text \<open>
  Of several switches the first in the order of the tests wins, whatever their order on the command line; without one the exit
  status is the number of arguments.
\<close>

lemma boot_main_end:
  "snd (boot_main getenv runfiles args) =
     (if ''--break'' \<in> set args then DebugTrap else if ''--abort'' \<in> set args then ProcessAborted
      else if ''--throw'' \<in> set args then RuntimeErrorPointerThrown else if ''--ex'' \<in> set args then BootExited 0
      else BootExited (int (length args) - 1))"
  by (simp add: boot_main_def Contains_def list_ex_iff Let_def)


end
