(* ===== verification/Sig_Users.thy ===== *)
theory Sig_Users
  imports Ws_Signaling Js_Ws_Client
begin

text \<open>
  What users of the signalling channel have in common (\<open>rtt/Rtt/Rtc/ISigUser.h\<close>, \<open>ISigClient.h\<close>), whichever client made them: the hub's own, the native
  WebSocket's or the browser's. The contract is the locale \<open>signalling_user\<close>; what follows from it for every sequence of messages and calls of
  \<open>Leave\<close> is proved there once, for handlers that only record.
\<close>

section \<open>The contract\<close>

datatype user_call = UserDeliver SigMessage | UserLeave

fun user_calls :: "(SigMessage \<Rightarrow> 's \<Rightarrow> 's option) \<Rightarrow> ('s \<Rightarrow> 's option) \<Rightarrow> user_call list \<Rightarrow> 's \<Rightarrow> 's option" where
  "user_calls deliver leave [] s = Some s"
| "user_calls deliver leave (UserDeliver m # cs) s = Option.bind (deliver m s) (user_calls deliver leave cs)"
| "user_calls deliver leave (UserLeave # cs) s = Option.bind (leave s) (user_calls deliver leave cs)"

fun delivers :: "user_call list \<Rightarrow> SigMessage list" where
  "delivers [] = []"
| "delivers (UserDeliver m # cs) = m # delivers cs"
| "delivers (UserLeave # cs) = delivers cs"

text \<open>Texts without a 0 character, which pass through C strings unchanged.\<close>

definition plain_text :: "SigMessage \<Rightarrow> bool" where
  "plain_text m \<longleftrightarrow> NUL \<notin> set (sm_from m) \<and> NUL \<notin> set (sm_payload m)"

text \<open>
  \<open>bound\<close>: there is a live handler; \<open>left\<close>: \<open>Leave\<close> was called; \<open>msgs\<close> and \<open>lefts\<close>: the messages and the codes of \<open>OnLeft\<close> that the user's
  handler was given.
\<close>

locale signalling_user =
  fixes deliver :: "SigMessage \<Rightarrow> 's \<Rightarrow> 's option" and leave :: "'s \<Rightarrow> 's option"
    and invar :: "'s \<Rightarrow> bool" and bound :: "'s \<Rightarrow> bool" and left :: "'s \<Rightarrow> bool"
    and msgs :: "'s \<Rightarrow> SigMessage list" and lefts :: "'s \<Rightarrow> left_code list"
  assumes deliver_user: "invar s \<Longrightarrow> plain_text m \<Longrightarrow> \<exists>s'. deliver m s = Some s' \<and> invar s' \<and> bound s' = bound s \<and>
      left s' = left s \<and> msgs s' = msgs s @ (if bound s then [m] else []) \<and> lefts s' = lefts s"
    and leave_user: "invar s \<Longrightarrow> \<not> left s \<Longrightarrow> \<exists>s' r. leave s = Some s' \<and> invar s' \<and> bound s' = bound s \<and>
      left s' \<and> msgs s' = msgs s \<and> lefts s' = lefts s @ r \<and> set r \<subseteq> {LeftClean} \<and> length r \<le> 1"
    and leave_again: "invar s \<Longrightarrow> left s \<Longrightarrow> leave s = Some s"
begin

lemma calls_outcome:
  assumes "invar s" and "\<forall>m\<in>set (delivers cs). plain_text m"
  shows "\<exists>s' r. user_calls deliver leave cs s = Some s' \<and> invar s' \<and> bound s' = bound s \<and>
     msgs s' = msgs s @ (if bound s then delivers cs else []) \<and> lefts s' = lefts s @ r \<and>
     set r \<subseteq> {LeftClean} \<and> length r \<le> (if left s then 0 else 1)"
  using assms
proof (induction cs arbitrary: s)
  case Nil
  then show ?case by simp
next
  case (Cons c cs)
  show ?case
  proof (cases c)
    case (UserDeliver m)
    from deliver_user[OF Cons.prems(1), of m] Cons.prems(2) UserDeliver obtain s1 where s1: "deliver m s = Some s1" "invar s1"
        "bound s1 = bound s" "left s1 = left s" "msgs s1 = msgs s @ (if bound s then [m] else [])" "lefts s1 = lefts s"
      by auto
    from Cons.IH[OF s1(2)] Cons.prems(2) UserDeliver s1 show ?thesis by auto
  next
    case UserLeave
    show ?thesis
    proof (cases "left s")
      case True
      with UserLeave Cons.IH[OF Cons.prems(1)] Cons.prems(2) leave_again[OF Cons.prems(1)] show ?thesis by auto
    next
      case False
      from leave_user[OF Cons.prems(1) this] obtain s1 r where s1: "leave s = Some s1" "invar s1" "bound s1 = bound s" "left s1"
          "msgs s1 = msgs s" "lefts s1 = lefts s @ r" "set r \<subseteq> {LeftClean}" "length r \<le> 1" by blast
      from Cons.IH[OF s1(2)] Cons.prems(2) UserLeave s1(4) obtain s2 where "user_calls deliver leave cs s1 = Some s2" "invar s2"
          "bound s2 = bound s1" "msgs s2 = msgs s1 @ (if bound s1 then delivers cs else [])" "lefts s2 = lefts s1" by auto
      with s1 UserLeave False show ?thesis by auto
    qed
  qed
qed

lemma bound_outcome:
  assumes "invar s" and "bound s" and "\<forall>m\<in>set (delivers cs). plain_text m"
  shows "\<exists>s' r. user_calls deliver leave cs s = Some s' \<and> msgs s' = msgs s @ delivers cs \<and> lefts s' = lefts s @ r \<and>
     set r \<subseteq> {LeftClean} \<and> length r \<le> 1"
proof -
  obtain s' r where "user_calls deliver leave cs s = Some s'" "msgs s' = msgs s @ delivers cs" "lefts s' = lefts s @ r"
      "set r \<subseteq> {LeftClean}" "length r \<le> (if left s then 0 else 1)"
    using calls_outcome[OF assms(1,3)] assms(2) by force
  moreover from this(5) have "length r \<le> 1" by (auto split: if_splits)
  ultimately show ?thesis by blast
qed

end

section \<open>The three users\<close>

definition hub_deliver :: "ref \<Rightarrow> SigMessage \<Rightarrow> hub \<Rightarrow> hub option" where
  "hub_deliver u m w = (case Deliver no_actions quiet u m w of Inl _ \<Rightarrow> None | Inr w1 \<Rightarrow> Some w1)"

definition hub_leave :: "ref \<Rightarrow> hub \<Rightarrow> hub option" where
  "hub_leave u w = (case HubUser_Leave no_actions quiet u w of Inl _ \<Rightarrow> None | Inr w1 \<Rightarrow> Some w1)"

interpretation hub_sig: signalling_user "hub_deliver u" "hub_leave u" "\<lambda>w. \<not> hu_locked (hb_users w u)"
  "\<lambda>w. lock_handler (hu_handler (hb_users w u)) w \<noteq> None" "\<lambda>w. hu_left (hb_users w u)"
  "\<lambda>w. received u (hb_calls w)" "\<lambda>w. left_calls u (hb_calls w)" for u
proof
  fix w :: hub and m
  assume l: "\<not> hu_locked (hb_users w u)"
  from Deliver_quiet[OF this, of m] obtain v p cs where v: "Deliver no_actions quiet u m w = Inr v" "hb_users v = (hb_users w)(u := p)"
      "hb_handlerAlive v = hb_handlerAlive w" "hb_calls v = hb_calls w @ cs"
      "case lock_handler (hu_handler (hb_users w u)) w of
       Some h \<Rightarrow> cs = [OnMessage u h m] \<and> p = hb_users w u
     | None \<Rightarrow> cs = [] \<and> p = (hb_users w u)\<lparr>hu_pending := hu_pending (hb_users w u) @ [m]\<rparr>" by blast
  then show "\<exists>s'. hub_deliver u m w = Some s' \<and> \<not> hu_locked (hb_users s' u) \<and>
      (lock_handler (hu_handler (hb_users s' u)) s' \<noteq> None) = (lock_handler (hu_handler (hb_users w u)) w \<noteq> None) \<and>
      hu_left (hb_users s' u) = hu_left (hb_users w u) \<and>
      received u (hb_calls s') = received u (hb_calls w) @ (if lock_handler (hu_handler (hb_users w u)) w \<noteq> None then [m] else []) \<and>
      left_calls u (hb_calls s') = left_calls u (hb_calls w)"
    using l lock_handler_cong[OF v(3)] by (intro exI[of _ v]) (auto simp: hub_deliver_def split: option.splits)
  show "\<not> hu_left (hb_users w u) \<Longrightarrow> \<exists>s' r. hub_leave u w = Some s' \<and> \<not> hu_locked (hb_users s' u) \<and>
      (lock_handler (hu_handler (hb_users s' u)) s' \<noteq> None) = (lock_handler (hu_handler (hb_users w u)) w \<noteq> None) \<and>
      hu_left (hb_users s' u) \<and> received u (hb_calls s') = received u (hb_calls w) \<and>
      left_calls u (hb_calls s') = left_calls u (hb_calls w) @ r \<and> set r \<subseteq> {LeftClean} \<and> length r \<le> 1"
    using l by (cases "lock_handler (hu_handler (hb_users w u)) w")
      (auto simp: hub_leave_def HubUser_Leave_def Unregister_def no_actions_def lock_handler_def set_user_def called_def Let_def
        split: option.splits if_splits)
  show "hu_left (hb_users w u) \<Longrightarrow> hub_leave u w = Some w"
    by (simp add: hub_leave_def HubUser_Leave_def)
qed

fun ws_lefts :: "sig_call list \<Rightarrow> left_code list" where
  "ws_lefts [] = []"
| "ws_lefts (CcLeft h code # cs) = code # ws_lefts cs"
| "ws_lefts (_ # cs) = ws_lefts cs"

lemma sig_calls_append [simp]:
  "delivered (xs @ ys) = delivered xs @ delivered ys" "ws_lefts (xs @ ys) = ws_lefts xs @ ws_lefts ys"
  by (induction xs rule: delivered.induct; simp) (induction xs rule: ws_lefts.induct; simp)

interpretation ws_sig: signalling_user "\<lambda>m c. Some (WsDeliver m c)" "\<lambda>c. Some (WsUser_Leave c)" "\<lambda>_. True"
  "\<lambda>c. client_lock c \<noteq> None" wc_leaving "\<lambda>c. delivered (wc_calls c)" "\<lambda>c. ws_lefts (wc_calls c)"
  by unfold_locales
    (auto simp: WsDeliver_def WsUser_Leave_def NotifyClosed_def notify_call_def ws_close_def client_lock_def Let_def split: option.splits)

text \<open>A user of the browser's client, by the address of its context; its calls are those of its \<open>Join\<close>.\<close>

definition js_calls_of :: "ref \<Rightarrow> js_ws \<Rightarrow> sig_call list" where
  "js_calls_of ctx w =
     (case jw_ctx w ctx of None \<Rightarrow> [] | Some c \<Rightarrow> map snd (filter (\<lambda>x. fst x = cx_join c) (jw_calls w)))"

interpretation js_sig: signalling_user "\<lambda>m. JsWsContext_OnMessage ctx (sm_from m) (sm_payload m)"
  "JsWsSigUser_Leave \<lparr>ju_id = lid, ju_ctx = ctx\<rparr>" "\<lambda>w. jw_ctx w ctx \<noteq> None"
  "\<lambda>w. Option.bind (jw_ctx w ctx) (\<lambda>c. js_lock (jw_handlerAlive w) (cx_handler c)) \<noteq> None"
  "\<lambda>w. \<exists>c. jw_ctx w ctx = Some c \<and> cx_leaving c"
  "\<lambda>w. delivered (js_calls_of ctx w)" "\<lambda>w. ws_lefts (js_calls_of ctx w)" for ctx lid
proof
  have plain: "c_string (sm_from m) = sm_from m \<and> c_string (sm_payload m) = sm_payload m" if "plain_text m" for m
    using that by (auto simp: plain_text_def c_string_def takeWhile_eq_all_conv)
  have close: "jw_ctx (JsWsContext_Close ctx w) = jw_ctx w" "jw_calls (JsWsContext_Close ctx w) = jw_calls w"
      "jw_handlerAlive (JsWsContext_Close ctx w) = jw_handlerAlive w" for w
    by (auto simp: JsWsContext_Close_def set_js_socket_def split: option.split)
  fix w :: js_ws and m
  assume "jw_ctx w ctx \<noteq> None"
  then obtain c where c: "jw_ctx w ctx = Some c" by blast
  show "plain_text m \<Longrightarrow> \<exists>s'. JsWsContext_OnMessage ctx (sm_from m) (sm_payload m) w = Some s' \<and> jw_ctx s' ctx \<noteq> None \<and>
      (Option.bind (jw_ctx s' ctx) (\<lambda>c. js_lock (jw_handlerAlive s') (cx_handler c)) \<noteq> None) =
        (Option.bind (jw_ctx w ctx) (\<lambda>c. js_lock (jw_handlerAlive w) (cx_handler c)) \<noteq> None) \<and>
      (\<exists>c. jw_ctx s' ctx = Some c \<and> cx_leaving c) = (\<exists>c. jw_ctx w ctx = Some c \<and> cx_leaving c) \<and>
      delivered (js_calls_of ctx s') = delivered (js_calls_of ctx w) @
        (if Option.bind (jw_ctx w ctx) (\<lambda>c. js_lock (jw_handlerAlive w) (cx_handler c)) \<noteq> None then [m] else []) \<and>
      ws_lefts (js_calls_of ctx s') = ws_lefts (js_calls_of ctx w)"
    using plain[of m] c by (cases m) (auto simp: JsWsContext_OnMessage_def js_calls_of_def js_call_def split: option.splits)
  show "\<nexists>c. jw_ctx w ctx = Some c \<and> cx_leaving c \<Longrightarrow>
      \<exists>s' r. JsWsSigUser_Leave \<lparr>ju_id = lid, ju_ctx = ctx\<rparr> w = Some s' \<and> jw_ctx s' ctx \<noteq> None \<and>
      (Option.bind (jw_ctx s' ctx) (\<lambda>c. js_lock (jw_handlerAlive s') (cx_handler c)) \<noteq> None) =
        (Option.bind (jw_ctx w ctx) (\<lambda>c. js_lock (jw_handlerAlive w) (cx_handler c)) \<noteq> None) \<and>
      (\<exists>c. jw_ctx s' ctx = Some c \<and> cx_leaving c) \<and> delivered (js_calls_of ctx s') = delivered (js_calls_of ctx w) \<and>
      ws_lefts (js_calls_of ctx s') = ws_lefts (js_calls_of ctx w) @ r \<and> set r \<subseteq> {LeftClean} \<and> length r \<le> 1"
    using c by (cases "js_lock (jw_handlerAlive w) (cx_handler c)")
      (auto simp: JsWsSigUser_Leave_def js_calls_of_def js_call_def close Let_def)
  show "\<exists>c. jw_ctx w ctx = Some c \<and> cx_leaving c \<Longrightarrow> JsWsSigUser_Leave \<lparr>ju_id = lid, ju_ctx = ctx\<rparr> w = Some w"
    by (auto simp: JsWsSigUser_Leave_def)
qed

section \<open>What applications can rely on\<close>

text \<open>
  Whichever client made it, a user whose handler is alive passes on every message once and in order, and however often
  \<open>Leave\<close> is called, its calls report leaving at most once and only with the clean code.
\<close>

lemma users_deliver_and_leave_once:
  fixes cs :: "user_call list"
  assumes "\<forall>m\<in>set (delivers cs). plain_text m"
  shows "\<not> hu_locked (hb_users w u) \<Longrightarrow> lock_handler (hu_handler (hb_users w u)) w \<noteq> None \<Longrightarrow>
      \<exists>w' r. user_calls (hub_deliver u) (hub_leave u) cs w = Some w' \<and>
        received u (hb_calls w') = received u (hb_calls w) @ delivers cs \<and>
        left_calls u (hb_calls w') = left_calls u (hb_calls w) @ r \<and> set r \<subseteq> {LeftClean} \<and> length r \<le> 1"
    and "client_lock c \<noteq> None \<Longrightarrow>
      \<exists>c' r. user_calls (\<lambda>m c. Some (WsDeliver m c)) (\<lambda>c. Some (WsUser_Leave c)) cs c = Some c' \<and>
        delivered (wc_calls c') = delivered (wc_calls c) @ delivers cs \<and>
        ws_lefts (wc_calls c') = ws_lefts (wc_calls c) @ r \<and> set r \<subseteq> {LeftClean} \<and> length r \<le> 1"
    and "jw_ctx v ctx = Some x \<Longrightarrow> js_lock (jw_handlerAlive v) (cx_handler x) \<noteq> None \<Longrightarrow>
      \<exists>v' r. user_calls (\<lambda>m. JsWsContext_OnMessage ctx (sm_from m) (sm_payload m)) (JsWsSigUser_Leave \<lparr>ju_id = lid, ju_ctx = ctx\<rparr>) cs v = Some v' \<and>
        delivered (js_calls_of ctx v') = delivered (js_calls_of ctx v) @ delivers cs \<and>
        ws_lefts (js_calls_of ctx v') = ws_lefts (js_calls_of ctx v) @ r \<and> set r \<subseteq> {LeftClean} \<and> length r \<le> 1"
  using hub_sig.bound_outcome[of w u cs] ws_sig.bound_outcome[of c cs] js_sig.bound_outcome[of v ctx cs lid] assms by simp_all

text \<open>
  Nothing in the contract keeps messages back after \<open>Leave\<close>: a frame that the native client's socket still reports is delivered.
\<close>

lemma ws_message_after_leave:
  assumes "client_lock c = Some h" and "wc_isOpen c" and "\<not> wc_leaving c"
  shows "wc_calls (WsDeliver m (WsUser_Leave c)) = wc_calls c @ [CcMessage h m]"
  using assms by (auto simp: WsUser_Leave_def ws_close_def WsDeliver_def notify_call_def client_lock_def Let_def split: option.splits if_splits)


end
