(* ===== verification/Http_Tls.thy ===== *)
theory Http_Tls
  imports Prelude
begin

text \<open>
  What the HTTP client logs of its connections: \<open>LogSslConnected\<close> of \<open>pkg/http/Http/Impl/Beast/SslConnection.cpp\<close>, \<open>LogSocketConnected\<close> and \<open>LogDnsResults\<close> of
  \<open>BeastLiteClient.cpp\<close>. What OpenSSL and the sockets report is a record; a line is its text. \<open>SSL_get_peer_certificate\<close> gives a reference that the caller has to
  free, and texts in fixed buffers are cut by the library before they get here.
\<close>

section \<open>TLS\<close>

record tls_info =
  ti_version :: string
  ti_cipher :: "string \<times> string \<times> nat"
  ti_description :: "string option"
  ti_reused :: int
  ti_cert :: "(string \<times> string) option"
  ti_verify :: "int \<times> string"
  ti_alpn :: "string option"

datatype cert_call = GetPeerCertificate | X509Free

definition is_blank :: "char \<Rightarrow> bool" where
  "is_blank c \<longleftrightarrow> c \<in> {CHR '' '', CHR 0x0A, CHR 0x0D, CHR 0x09}"

text \<open>\<open>substr(0, find_last_not_of(blanks) + 1)\<close>; when there is no such character, \<open>npos + 1\<close> is 0.\<close>

definition trim_end :: "string \<Rightarrow> string" where
  "trim_end s = (case rfind_upto (\<lambda>c. \<not> is_blank c) s (length s) of None \<Rightarrow> [] | Some pos \<Rightarrow> take (pos + 1) s)"

definition cert_lines :: "tls_info \<Rightarrow> string list \<times> cert_call list" where
  "cert_lines t =
     (case ti_cert t of
        Some (subject, issuer) \<Rightarrow>
          ([''http: tls: server cert subject: '' @ subject, ''http: tls: server cert issuer: '' @ issuer,
            if fst (ti_verify t) = 0 then ''http: tls: certificate verification: OK''
            else ''http: tls: certificate verification failed: '' @ snd (ti_verify t) @ '' ('' @ print_int (fst (ti_verify t)) @ '')''],
           [GetPeerCertificate, X509Free])
      | None \<Rightarrow> ([''http: tls: no server certificate''], [GetPeerCertificate]))"

definition LogSslConnected :: "bool \<Rightarrow> tls_info \<Rightarrow> string list \<times> cert_call list" where
  "LogSslConnected enabled t =
     (if \<not> enabled then ([], [])
      else
        let (name, version, bits) = ti_cipher t;
            (certs, calls) = cert_lines t
        in ([''http: tls: handshake succeed: '' @ ti_version t,
             ''http: tls: cipher: '' @ name @ '' ('' @ version @ '', '' @ digits bits @ '' bits)''] @
            (case ti_description t of None \<Rightarrow> [] | Some d \<Rightarrow> [''http: tls: cipher details: '' @ trim_end d]) @
            [''http: tls: session reused='' @ print_int (ti_reused t)] @ certs @
            [case ti_alpn t of
               Some alpn \<Rightarrow>
                 if 0 < length alpn then ''http: tls: ALPN negotiated: '' @ alpn else ''http: tls: no ALPN negotiated (HTTP/1.1)''
             | None \<Rightarrow> ''http: tls: no ALPN negotiated (HTTP/1.1)''],
            calls))"

text \<open>Trimming drops exactly the blanks at the end.\<close>

lemma rfind_last:
  "rfind_upto P xs n = (if \<exists>i<n. i < length xs \<and> P (xs ! i) then Some (GREATEST i. i < n \<and> i < length xs \<and> P (xs ! i)) else None)"
proof (induction n)
  case (Suc n)
  show ?case
  proof (cases "n < length xs \<and> P (xs ! n)")
    case True
    then have "(GREATEST i. i < Suc n \<and> i < length xs \<and> P (xs ! i)) = n" by (intro Greatest_equality) auto
    with True show ?thesis by auto
  next
    case False
    then have "(\<lambda>i. i < Suc n \<and> i < length xs \<and> P (xs ! i)) = (\<lambda>i. i < n \<and> i < length xs \<and> P (xs ! i))" by (auto simp: less_Suc_eq)
    with False Suc show ?thesis by (auto simp: less_Suc_eq)
  qed
qed simp

lemma trim_end_append:
  assumes "\<forall>c\<in>set blanks. is_blank c" and "s = [] \<or> \<not> is_blank (last s)"
  shows "trim_end (s @ blanks) = s"
proof (cases s rule: rev_cases)
  case Nil
  with assms(1) show ?thesis by (simp add: trim_end_def rfind_last) (metis nth_mem)
next
  case (snoc ys y)
  let ?P = "\<lambda>i. i < length (s @ blanks) \<and> i < length (s @ blanks) \<and> \<not> is_blank ((s @ blanks) ! i)"
  have y: "?P (length ys)" using snoc assms(2) by (simp add: nth_append)
  have "i \<le> length ys" if "?P i" for i
  proof (rule ccontr)
    assume "\<not> i \<le> length ys"
    with snoc that have "(s @ blanks) ! i \<in> set blanks" by (auto simp: nth_append intro!: nth_mem)
    with assms(1) that show False by blast
  qed
  with y have "Greatest ?P = length ys" by (intro Greatest_equality)
  then have "rfind_upto (\<lambda>c. \<not> is_blank c) (s @ blanks) (length (s @ blanks)) = Some (length ys)" using y unfolding rfind_last by (metis (lifting))
  with snoc show ?thesis by (simp add: trim_end_def)
qed

text \<open>The certificate is freed exactly when one was returned, and nothing is asked of the library when tracing is off.\<close>

lemma certificate_is_freed:
  "snd (LogSslConnected enabled t) = (if enabled then GetPeerCertificate # (if ti_cert t = None then [] else [X509Free]) else [])"
  by (auto simp: LogSslConnected_def cert_lines_def split: prod.splits option.splits)

section \<open>Sockets and name resolution\<close>

type_synonym address_port = "string \<times> u16"

definition endpoint_text :: "address_port \<Rightarrow> string" where
  "endpoint_text e = fst e @ '':'' @ digits (unat (snd e))"

text \<open>\<open>unspecified\<close> is the endpoint that the library returns beside an error.\<close>

definition GetLocalEndpoint :: "address_port \<Rightarrow> (string, address_port) expected \<Rightarrow> string list \<times> address_port" where
  "GetLocalEndpoint unspecified e =
     (case e of Inl msg \<Rightarrow> ([''http: socket: local_endpoint failed: '' @ msg], unspecified) | Inr ep \<Rightarrow> ([], ep))"

definition GetRemoteEndpoint :: "address_port \<Rightarrow> (string, address_port) expected \<Rightarrow> string list \<times> address_port" where
  "GetRemoteEndpoint unspecified e =
     (case e of Inl msg \<Rightarrow> ([''http: socket: remote_endpoint failed: '' @ msg], unspecified) | Inr ep \<Rightarrow> ([], ep))"

definition LogSocketConnected ::
  "bool \<Rightarrow> address_port \<Rightarrow> (string, address_port) expected \<Rightarrow> (string, address_port) expected \<Rightarrow> string list" where
  "LogSocketConnected enabled unspecified l r =
     (if enabled then
        let (ls, local) = GetLocalEndpoint unspecified l; (rs, remote) = GetRemoteEndpoint unspecified r
        in ls @ rs @ [''http: socket: connected: '' @ endpoint_text local @ '' -> '' @ endpoint_text remote]
      else [])"

definition LogDnsResults :: "bool \<Rightarrow> address_port list \<Rightarrow> string list" where
  "LogDnsResults enabled results = (if enabled then map (\<lambda>e. ''http: resolved: '' @ endpoint_text e) results else [])"

text \<open>The line for a connection is written also when an endpoint cannot be read, after the reason.\<close>

lemma connected_line_is_last:
  "LogSocketConnected True unspecified l r \<noteq> [] \<and>
   length (LogSocketConnected True unspecified l r) = 1 + (if isl l then 1 else 0) + (if isl r then 1 else 0)"
  by (auto simp: LogSocketConnected_def GetLocalEndpoint_def GetRemoteEndpoint_def split: sum.splits)

end
