(* ===== verification/Async_Mutex.thy ===== *)
theory Async_Mutex
  imports Prelude
begin

text \<open>
  \<open>Async::Mutex\<close> and \<open>Async::LockGuard\<close> of \<open>pkg/async/Async/Mutex.h\<close> over \<open>std::mutex\<close>, whose state is the thread that owns it. A call may return, block, or be undefined:
  a thread that owns a \<open>std::mutex\<close> may neither lock nor try to lock it, and only the owner may unlock it. The locale \<open>mutex\<close> states what a lock promises;
  it is proved there that data guarded by a lock loses no update, for any number of threads and any interleaving.
\<close>

section \<open>The wrapper\<close>

datatype 'a mutex_call = Returns 'a | Blocks | Undefined

record Mutex =
  mx_impl :: "nat option"

definition new_Mutex :: Mutex where
  "new_Mutex = \<lparr> mx_impl = None \<rparr>"

definition Mutex_lock :: "nat \<Rightarrow> Mutex \<Rightarrow> Mutex mutex_call" where
  "Mutex_lock t m =
     (case mx_impl m of
        None \<Rightarrow> Returns (m\<lparr>mx_impl := Some t\<rparr>)
      | Some owner \<Rightarrow> if owner = t then Undefined else Blocks)"

definition Mutex_unlock :: "nat \<Rightarrow> Mutex \<Rightarrow> Mutex mutex_call" where
  "Mutex_unlock t m = (if mx_impl m = Some t then Returns (m\<lparr>mx_impl := None\<rparr>) else Undefined)"

text \<open>\<open>spurious\<close>: \<open>std::mutex::try_lock\<close> may fail although the mutex is free.\<close>

definition Mutex_try_lock :: "bool \<Rightarrow> nat \<Rightarrow> Mutex \<Rightarrow> (bool \<times> Mutex) mutex_call" where
  "Mutex_try_lock spurious t m =
     (case mx_impl m of
        None \<Rightarrow> if spurious then Returns (False, m) else Returns (True, m\<lparr>mx_impl := Some t\<rparr>)
      | Some owner \<Rightarrow> if owner = t then Undefined else Returns (False, m))"

definition LockGuard :: "nat \<Rightarrow> Mutex \<Rightarrow> Mutex mutex_call" where
  "LockGuard t m = Mutex_lock t m"

definition LockGuard_destroy :: "nat \<Rightarrow> Mutex \<Rightarrow> Mutex mutex_call" where
  "LockGuard_destroy t m = Mutex_unlock t m"

section \<open>What a lock promises\<close>

text \<open>
  Threads that read and write a value inside scopes of a guard: \<open>read\<close> copies the value, \<open>write\<close> stores what the thread computes from its copy. \<open>gs_log\<close> is the sequence
  of functions that were written.
\<close>

record ('m, 'a) guarded =
  gs_mutex :: 'm
  gs_inside :: "nat set"
  gs_value :: 'a
  gs_copy :: "nat \<Rightarrow> 'a option"
  gs_log :: "('a \<Rightarrow> 'a) list"

inductive guarded_step ::
  "(nat \<Rightarrow> 'm \<Rightarrow> 'm mutex_call) \<Rightarrow> (nat \<Rightarrow> 'm \<Rightarrow> 'm mutex_call) \<Rightarrow> ('m, 'a) guarded \<Rightarrow> ('m, 'a) guarded \<Rightarrow> bool"
  for enter leave where
  step_enter: "enter t (gs_mutex s) = Returns m \<Longrightarrow> guarded_step enter leave s (s\<lparr>gs_mutex := m, gs_inside := insert t (gs_inside s)\<rparr>)"
| step_read: "t \<in> gs_inside s \<Longrightarrow> guarded_step enter leave s (s\<lparr>gs_copy := (gs_copy s)(t := Some (gs_value s))\<rparr>)"
| step_write: "t \<in> gs_inside s \<Longrightarrow> gs_copy s t = Some x \<Longrightarrow>
    guarded_step enter leave s (s\<lparr>gs_value := f x, gs_copy := (gs_copy s)(t := Some (f x)), gs_log := gs_log s @ [f]\<rparr>)"
| step_leave: "t \<in> gs_inside s \<Longrightarrow> leave t (gs_mutex s) = Returns m \<Longrightarrow>
    guarded_step enter leave s (s\<lparr>gs_mutex := m, gs_inside := gs_inside s - {t}, gs_copy := (gs_copy s)(t := None)\<rparr>)"

definition guarded_start :: "'m \<Rightarrow> 'a \<Rightarrow> ('m, 'a) guarded" where
  "guarded_start m v = \<lparr> gs_mutex = m, gs_inside = {}, gs_value = v, gs_copy = (\<lambda>_. None), gs_log = [] \<rparr>"

locale mutex =
  fixes enter leave :: "nat \<Rightarrow> 'm \<Rightarrow> 'm mutex_call" and owner :: "'m \<Rightarrow> nat option" and free :: 'm
  assumes owner_free: "owner free = None"
    and enter_returns: "enter t m = Returns m' \<Longrightarrow> owner m = None \<and> owner m' = Some t"
    and enter_free: "owner m = None \<Longrightarrow> \<exists>m'. enter t m = Returns m'"
    and enter_held: "owner m = Some u \<Longrightarrow> u \<noteq> t \<Longrightarrow> enter t m = Blocks"
    and leave_owner: "owner m = Some t \<Longrightarrow> \<exists>m'. leave t m = Returns m' \<and> owner m' = None"
begin

definition guarded_inv :: "'a \<Rightarrow> ('m, 'a) guarded \<Rightarrow> bool" where
  "guarded_inv v s \<longleftrightarrow>
     gs_inside s = set_option (owner (gs_mutex s)) \<and>
     (\<forall>t x. gs_copy s t = Some x \<longrightarrow> t \<in> gs_inside s \<and> x = gs_value s) \<and>
     gs_value s = fold (\<lambda>f. f) (gs_log s) v"

lemma guarded_inv_start: "guarded_inv v (guarded_start free v)"
  by (simp add: guarded_inv_def guarded_start_def owner_free)

lemma inside_singleton:
  assumes "guarded_inv v s" and "t \<in> gs_inside s"
  shows "gs_inside s = {t}" and "owner (gs_mutex s) = Some t"
  using assms by (auto simp: guarded_inv_def)

lemma guarded_inv_step:
  assumes "guarded_step enter leave s s'" and "guarded_inv v s"
  shows "guarded_inv v s'"
  using assms(1)
proof cases
  case (step_enter t m)
  have "owner (gs_mutex s) = None" "owner m = Some t" using enter_returns[OF step_enter(2)] by auto
  with assms(2) show ?thesis unfolding step_enter(1) guarded_inv_def by auto
next
  case (step_read t)
  with assms(2) show ?thesis unfolding step_read(1) guarded_inv_def by auto
next
  case (step_write t x f)
  note inside = inside_singleton[OF assms(2) step_write(2)]
  have "x = gs_value s" using step_write(3) assms(2) unfolding guarded_inv_def by blast
  with inside assms(2) show ?thesis unfolding step_write(1) guarded_inv_def by auto
next
  case (step_leave t m)
  note inside = inside_singleton[OF assms(2) step_leave(2)]
  have "owner m = None" using leave_owner[OF inside(2)] step_leave(3) by simp
  with inside assms(2) show ?thesis unfolding step_leave(1) guarded_inv_def by auto
qed

lemma guarded_reachable:
  assumes "(guarded_step enter leave)\<^sup>*\<^sup>* (guarded_start free v) s"
  shows "guarded_inv v s"
  using assms by induction (blast intro: guarded_inv_start guarded_inv_step)+

text \<open>No update is lost, at most one thread is inside, it can leave, and a thread outside enters or waits for the one that is inside.\<close>

lemma guarded_atomic:
  assumes "(guarded_step enter leave)\<^sup>*\<^sup>* (guarded_start free v) s"
  shows "gs_value s = fold (\<lambda>f. f) (gs_log s) v"
    and "t \<in> gs_inside s \<Longrightarrow> gs_inside s = {t} \<and> (\<exists>m. leave t (gs_mutex s) = Returns m)"
    and "t \<notin> gs_inside s \<Longrightarrow> (if gs_inside s = {} then \<exists>m. enter t (gs_mutex s) = Returns m else enter t (gs_mutex s) = Blocks)"
proof -
  note inv = guarded_reachable[OF assms, unfolded guarded_inv_def]
  then show "gs_value s = fold (\<lambda>f. f) (gs_log s) v" by blast
  show "gs_inside s = {t} \<and> (\<exists>m. leave t (gs_mutex s) = Returns m)" if "t \<in> gs_inside s"
    using inv that leave_owner[of "gs_mutex s" t] by (cases "owner (gs_mutex s)") auto
  show "if gs_inside s = {} then \<exists>m. enter t (gs_mutex s) = Returns m else enter t (gs_mutex s) = Blocks" if "t \<notin> gs_inside s"
    using inv that enter_free[of "gs_mutex s" t] enter_held[of "gs_mutex s" _ t] by (cases "owner (gs_mutex s)") auto
qed

end

lemmas mutex_defs = Mutex_lock_def Mutex_unlock_def LockGuard_def LockGuard_destroy_def new_Mutex_def

interpretation am: mutex LockGuard LockGuard_destroy mx_impl new_Mutex
  by unfold_locales (auto simp: mutex_defs split: option.splits if_splits)

text \<open>Data guarded by \<open>LockGuard\<close> loses no update, and no call of a guard is undefined as long as a thread does not open a second guard inside the first.\<close>

lemma lock_guard_is_atomic:
  assumes "(guarded_step LockGuard LockGuard_destroy)\<^sup>*\<^sup>* (guarded_start new_Mutex v) s"
  shows "gs_value s = fold (\<lambda>f. f) (gs_log s) v \<and>
    (\<forall>t\<in>gs_inside s. gs_inside s = {t} \<and> LockGuard_destroy t (gs_mutex s) \<noteq> Undefined) \<and>
    (\<forall>t. t \<notin> gs_inside s \<longrightarrow> LockGuard t (gs_mutex s) \<noteq> Undefined)"
  using am.guarded_atomic[OF assms] by (metis mutex_call.distinct(3,5))

text \<open>A guard opened inside a guard of the same thread, and \<open>try_lock\<close> by the owner, are undefined; by another thread \<open>try_lock\<close> fails.\<close>

lemma owner_cannot_try_lock:
  assumes "LockGuard t m = Returns m'"
  shows "LockGuard t m' = Undefined" and "Mutex_try_lock spurious t m' = Undefined"
    and "u \<noteq> t \<Longrightarrow> Mutex_try_lock spurious u m' = Returns (False, m')"
  using assms by (auto simp: mutex_defs Mutex_try_lock_def split: option.splits if_splits)

text \<open>\<open>try_lock\<close> that succeeds is a \<open>lock\<close>, and what it took is released by \<open>unlock\<close>.\<close>

lemma try_lock_is_lock:
  assumes "Mutex_try_lock spurious t m = Returns (True, m')"
  shows "Mutex_lock t m = Returns m'" and "Mutex_unlock t m' = Returns m"
  using assms by (auto simp: mutex_defs Mutex_try_lock_def split: option.splits if_splits)

end
