(* ===== verification/Link_Contract.thy ===== *)
theory Link_Contract
  imports Udp_Transport Js_Rtc "HOL-Library.Sublist"
begin

text \<open>
  What all links have in common (\<open>rtt/Rtt/Link.h\<close>, \<open>Handler.h\<close>), whichever transport made them: \<open>UdpLink\<close> in its two modes, \<open>DcRtcLink\<close> and the browser's
  \<open>JsRtcLink\<close>. The contract of \<open>ILink\<close> is the locale \<open>link_like\<close>; what an application can rely on over any sequence of data, losses of the peer
  and its own calls is proved there once, for handlers that only record.
\<close>

section \<open>The contract\<close>

datatype link_action = ActRecv "byte list" | ActGone | ActSend "byte list" | ActDisconnect

text \<open>A \<open>WriteCallback\<close> that copies a text, or as much of it as there is room for.\<close>

definition copy_writer :: "byte list \<Rightarrow> byte list \<Rightarrow> nat \<times> byte list" where
  "copy_writer data buf = (min (length data) (length buf), take (length buf) data @ drop (length data) buf)"

lemma copy_writer_room:
  obtains n buf where "copy_writer data (replicate cap 0) = (n, buf)" and "n = min (length data) cap" and "length buf = cap"
    and "take n buf = take cap data"
  by (auto simp: copy_writer_def min_def intro: that)

definition packets :: "nat \<Rightarrow> byte list \<Rightarrow> byte list list" where
  "packets cap data = (if take cap data = [] then [] else [take cap data])"

fun link_actions ::
  "(byte list \<Rightarrow> 's \<Rightarrow> 's option) \<Rightarrow> ('s \<Rightarrow> 's option) \<Rightarrow> (byte list \<Rightarrow> 's \<Rightarrow> 's option) \<Rightarrow> ('s \<Rightarrow> 's option) \<Rightarrow>
   link_action list \<Rightarrow> 's \<Rightarrow> 's option" where
  "link_actions recv gone send disc [] s = Some s"
| "link_actions recv gone send disc (ActRecv d # es) s = Option.bind (recv d s) (link_actions recv gone send disc es)"
| "link_actions recv gone send disc (ActGone # es) s = Option.bind (gone s) (link_actions recv gone send disc es)"
| "link_actions recv gone send disc (ActSend d # es) s = Option.bind (send d s) (link_actions recv gone send disc es)"
| "link_actions recv gone send disc (ActDisconnect # es) s = Option.bind (disc s) (link_actions recv gone send disc es)"

fun arrivals :: "link_action list \<Rightarrow> byte list list" where
  "arrivals [] = []"
| "arrivals (ActRecv d # es) = d # arrivals es"
| "arrivals (_ # es) = arrivals es"

fun outgoing :: "nat \<Rightarrow> link_action list \<Rightarrow> byte list list" where
  "outgoing cap [] = []"
| "outgoing cap (ActSend d # es) = packets cap d @ outgoing cap es"
| "outgoing cap (_ # es) = outgoing cap es"

definition link_ends :: "link_action list \<Rightarrow> bool" where
  "link_ends es \<longleftrightarrow> ActGone \<in> set es \<or> ActDisconnect \<in> set es"

fun link_data :: "link_call list \<Rightarrow> byte list list" where
  "link_data [] = []"
| "link_data (LinkReceived d # cs) = d # link_data cs"
| "link_data (LinkDisconnected # cs) = link_data cs"

lemma link_data_append [simp]: "link_data (xs @ ys) = link_data xs @ link_data ys"
  by (induction xs rule: link_data.induct) auto

abbreviation farewells :: "link_call list \<Rightarrow> nat" where
  "farewells cs \<equiv> length (filter (\<lambda>c. c = LinkDisconnected) cs)"

text \<open>
  What became of a link: beside the data and packets of before, the handler was given \<open>r\<close> and the network \<open>t\<close>, in the order in which they came and at most once each,
  all of them unless the link was ended, and \<open>onDisconnected\<close> was called at most once.
\<close>

definition carried ::
  "nat \<Rightarrow> link_action list \<Rightarrow> ('s \<Rightarrow> link_call list) \<Rightarrow> ('s \<Rightarrow> byte list list) \<Rightarrow> 's \<Rightarrow> 's option \<Rightarrow> bool" where
  "carried cap es calls sent s res \<longleftrightarrow>
     (\<exists>s' r t. res = Some s' \<and> link_data (calls s') = link_data (calls s) @ r \<and> sent s' = sent s @ t \<and>
        subseq r (arrivals es) \<and> subseq t (outgoing cap es) \<and> farewells (calls s') \<le> farewells (calls s) + 1 \<and>
        (\<not> link_ends es \<longrightarrow> r = arrivals es \<and> t = outgoing cap es \<and> farewells (calls s') = farewells (calls s)))"

text \<open>
  \<open>up\<close>: the link is open; \<open>over\<close>: \<open>Disconnect\<close> was called (or, for UDP, the link was closed); \<open>fired\<close>: \<open>onDisconnected\<close> was called. \<open>calls\<close> are the calls
  of the link's handler and \<open>sent\<close> the packets given to the network.
\<close>

locale link_like =
  fixes recv :: "byte list \<Rightarrow> 's \<Rightarrow> 's option" and gone :: "'s \<Rightarrow> 's option"
    and send :: "byte list \<Rightarrow> 's \<Rightarrow> 's option" and disc :: "'s \<Rightarrow> 's option"
    and cap :: nat and invar up over fired :: "'s \<Rightarrow> bool" and calls :: "'s \<Rightarrow> link_call list" and sent :: "'s \<Rightarrow> byte list list"
  assumes recv_link: "invar s \<Longrightarrow> \<exists>s'. recv d s = Some s' \<and> invar s' \<and> up s' = up s \<and> over s' = over s \<and> fired s' = fired s \<and>
      sent s' = sent s \<and> calls s' \<in> {calls s, calls s @ [LinkReceived d]} \<and> (up s \<longrightarrow> calls s' = calls s @ [LinkReceived d])"
    and gone_link: "invar s \<Longrightarrow> \<exists>s'. gone s = Some s' \<and> invar s' \<and> fired s' \<and> (over s \<longrightarrow> over s') \<and> sent s' = sent s \<and>
      calls s' = calls s @ (if fired s then [] else [LinkDisconnected])"
    and send_link: "invar s \<Longrightarrow> \<exists>s'. send d s = Some s' \<and> invar s' \<and> up s' = up s \<and> over s' = over s \<and> fired s' = fired s \<and>
      calls s' = calls s \<and> sent s' \<in> {sent s, sent s @ packets cap d} \<and> (up s \<longrightarrow> sent s' = sent s @ packets cap d) \<and>
      (over s \<longrightarrow> sent s' = sent s)"
    and disc_link: "invar s \<Longrightarrow> \<exists>s'. disc s = Some s' \<and> invar s' \<and> over s' \<and> \<not> up s' \<and> sent s' = sent s \<and>
      (if fired s' = fired s then calls s' = calls s else fired s' \<and> calls s' = calls s @ [LinkDisconnected])"
    and disc_again: "invar s \<Longrightarrow> over s \<Longrightarrow> disc s = Some s"
begin

lemma action_outcome:
  assumes "invar s"
  shows "\<exists>s' r t n. link_actions recv gone send disc [e] s = Some s' \<and> invar s' \<and> link_data (calls s') = link_data (calls s) @ r \<and>
     sent s' = sent s @ t \<and> farewells (calls s') = farewells (calls s) + n \<and>
     subseq r (arrivals [e]) \<and> subseq t (outgoing cap [e]) \<and>
     n + (if fired s then 1 else 0) \<le> (if fired s' then 1 else 0) \<and> (over s \<longrightarrow> over s' \<and> t = []) \<and>
     (up s \<and> \<not> link_ends [e] \<longrightarrow> up s' \<and> n = 0 \<and> r = arrivals [e] \<and> t = outgoing cap [e])"
proof (cases e)
  case (ActRecv d)
  from recv_link[OF assms, of d] show ?thesis unfolding ActRecv
    by (elim exE conjE insertE) (auto simp: link_ends_def)
next
  case ActGone
  from gone_link[OF assms] show ?thesis unfolding ActGone by (elim exE conjE) (auto simp: link_ends_def)
next
  case (ActSend d)
  from send_link[OF assms, of d] show ?thesis unfolding ActSend
    by (elim exE conjE insertE) (auto simp: link_ends_def)
next
  case ActDisconnect
  from disc_link[OF assms] show ?thesis unfolding ActDisconnect
    by (elim exE conjE) (auto simp: link_ends_def split: if_splits)
qed

lemma link_outcome:
  assumes "invar s"
  shows "\<exists>s' r t n. link_actions recv gone send disc es s = Some s' \<and> invar s' \<and> link_data (calls s') = link_data (calls s) @ r \<and>
     sent s' = sent s @ t \<and> farewells (calls s') = farewells (calls s) + n \<and>
     subseq r (arrivals es) \<and> subseq t (outgoing cap es) \<and>
     n + (if fired s then 1 else 0) \<le> (if fired s' then 1 else 0) \<and> (over s \<longrightarrow> over s' \<and> t = []) \<and>
     (up s \<and> \<not> link_ends es \<longrightarrow> up s' \<and> n = 0 \<and> r = arrivals es \<and> t = outgoing cap es)"
  using assms
proof (induction es arbitrary: s)
  case Nil
  then show ?case by (auto simp: link_ends_def)
next
  case (Cons e es)
  have app: "link_actions recv gone send disc (e # es) s = Option.bind (link_actions recv gone send disc [e] s) (link_actions recv gone send disc es)"
    "arrivals (e # es) = arrivals [e] @ arrivals es" "outgoing cap (e # es) = outgoing cap [e] @ outgoing cap es"
    "link_ends (e # es) \<longleftrightarrow> link_ends [e] \<or> link_ends es"
    by (cases e; auto simp: link_ends_def)+
  from action_outcome[OF Cons.prems, of e] obtain s1 r1 t1 n1 where s1: "link_actions recv gone send disc [e] s = Some s1" "invar s1"
      "link_data (calls s1) = link_data (calls s) @ r1" "sent s1 = sent s @ t1" "farewells (calls s1) = farewells (calls s) + n1"
      "subseq r1 (arrivals [e])" "subseq t1 (outgoing cap [e])" "n1 + (if fired s then 1 else 0) \<le> (if fired s1 then 1 else 0)"
      "over s \<longrightarrow> over s1 \<and> t1 = []" "up s \<and> \<not> link_ends [e] \<longrightarrow> up s1 \<and> n1 = 0 \<and> r1 = arrivals [e] \<and> t1 = outgoing cap [e]"
    by blast
  from Cons.IH[OF s1(2)] obtain s2 r2 t2 n2 where s2: "link_actions recv gone send disc es s1 = Some s2" "invar s2"
      "link_data (calls s2) = link_data (calls s1) @ r2" "sent s2 = sent s1 @ t2" "farewells (calls s2) = farewells (calls s1) + n2"
      "subseq r2 (arrivals es)" "subseq t2 (outgoing cap es)" "n2 + (if fired s1 then 1 else 0) \<le> (if fired s2 then 1 else 0)"
      "over s1 \<longrightarrow> over s2 \<and> t2 = []" "up s1 \<and> \<not> link_ends es \<longrightarrow> up s2 \<and> n2 = 0 \<and> r2 = arrivals es \<and> t2 = outgoing cap es"
    by blast
  show ?case unfolding app
    by (rule exI[of _ s2], rule exI[of _ "r1 @ r2"], rule exI[of _ "t1 @ t2"], rule exI[of _ "n1 + n2"])
      (use s1 s2 in \<open>auto intro: list_emb_append_mono split: if_splits\<close>)
qed

text \<open>While neither side ends the link nothing is lost in either direction; after it, nothing is duplicated or reordered, and \<open>onDisconnected\<close> comes at most once.\<close>

lemma link_delivers:
  assumes "invar s" and "up s" and "\<not> fired s"
  shows "carried cap es calls sent s (link_actions recv gone send disc es s)"
proof -
  from link_outcome[OF assms(1), of es] obtain s' r t n where o: "link_actions recv gone send disc es s = Some s'"
      "link_data (calls s') = link_data (calls s) @ r" "sent s' = sent s @ t" "farewells (calls s') = farewells (calls s) + n"
      "subseq r (arrivals es)" "subseq t (outgoing cap es)" "n + (if fired s then 1 else 0) \<le> (if fired s' then 1 else 0)"
      "up s \<and> \<not> link_ends es \<longrightarrow> up s' \<and> n = 0 \<and> r = arrivals es \<and> t = outgoing cap es" by blast
  then have "n \<le> 1" by (auto split: if_splits)
  with o assms(2) show ?thesis unfolding carried_def by (intro exI[of _ s'] exI[of _ r] exI[of _ t]) auto
qed

end

text \<open>A link that also drops what arrives after its own \<open>Disconnect\<close>: from then on both directions are silent.\<close>

locale silent_link = link_like recv gone send disc cap invar up over fired calls sent
  for recv :: "byte list \<Rightarrow> 's \<Rightarrow> 's option" and gone :: "'s \<Rightarrow> 's option" and send :: "byte list \<Rightarrow> 's \<Rightarrow> 's option" and disc :: "'s \<Rightarrow> 's option"
    and cap :: nat and invar up over fired :: "'s \<Rightarrow> bool" and calls :: "'s \<Rightarrow> link_call list" and sent :: "'s \<Rightarrow> byte list list" +
  assumes recv_over: "invar s \<Longrightarrow> over s \<Longrightarrow> recv d s = Some s"
begin

lemma silent_action:
  assumes "invar s" and "over s"
  shows "\<exists>s'. link_actions recv gone send disc [e] s = Some s' \<and> invar s' \<and> over s' \<and> link_data (calls s') = link_data (calls s) \<and> sent s' = sent s"
proof (cases e)
  case (ActRecv d)
  with recv_over[OF assms] assms show ?thesis by simp
next
  case ActGone
  with gone_link[OF assms(1)] assms(2) show ?thesis by auto
next
  case (ActSend d)
  with send_link[OF assms(1), of d] assms(2) show ?thesis by auto
next
  case ActDisconnect
  with disc_again[OF assms] assms show ?thesis by simp
qed

lemma silent_after_disconnect:
  assumes "invar s" and "over s"
  shows "\<exists>s'. link_actions recv gone send disc es s = Some s' \<and> link_data (calls s') = link_data (calls s) \<and> sent s' = sent s"
  using assms
proof (induction es arbitrary: s)
  case (Cons e es)
  have "link_actions recv gone send disc (e # es) s = Option.bind (link_actions recv gone send disc [e] s) (link_actions recv gone send disc es)"
    by (cases e) simp_all
  with silent_action[OF Cons.prems, of e] Cons.IH show ?case by fastforce
qed simp

end

section \<open>UDP\<close>

text \<open>The calls of the handler of link \<open>k\<close>, and the datagrams it sent.\<close>

fun udp_link_calls :: "ref \<Rightarrow> udp_call list \<Rightarrow> link_call list" where
  "udp_link_calls k [] = []"
| "udp_link_calls k (CallReceived j d # cs) = (if j = k then [LinkReceived d] else []) @ udp_link_calls k cs"
| "udp_link_calls k (CallDisconnected j # cs) = (if j = k then [LinkDisconnected] else []) @ udp_link_calls k cs"
| "udp_link_calls k (_ # cs) = udp_link_calls k cs"

lemma udp_link_calls_append [simp]: "udp_link_calls k (xs @ ys) = udp_link_calls k xs @ udp_link_calls k ys"
  by (induction k xs rule: udp_link_calls.induct) auto

definition udp_sent :: "ref \<Rightarrow> (ref \<times> endpoint option \<times> byte list) list \<Rightarrow> byte list list" where
  "udp_sent k xs = map (\<lambda>(_, _, d). d) (filter (\<lambda>(j, _). j = k) xs)"

lemma udp_sent_append [simp]: "udp_sent k (xs @ [(j, e, d)]) = udp_sent k xs @ (if j = k then [d] else [])"
  by (simp add: udp_sent_def)

definition both_handlers :: "link_handler \<Rightarrow> bool" where
  "both_handlers h \<longleftrightarrow> lh_onReceived h \<and> lh_onDisconnected h"

definition udp_ready :: "bool \<Rightarrow> nat \<Rightarrow> ref \<Rightarrow> listen \<Rightarrow> bool" where
  "udp_ready owned cap k w \<longleftrightarrow>
     both_handlers (ul_handler (ls_store w k)) \<and> ul_maxDatagramSize (ls_store w k) = cap \<and>
     (ul_ownedSocket (ls_store w k) \<noteq> None) = owned \<and> (owned \<or> ul_sharedSocket (ls_store w k))"

definition record_only :: "ref \<Rightarrow> byte list \<Rightarrow> listen \<Rightarrow> listen" where
  "record_only k data w = w"

definition udp_closed :: "ref \<Rightarrow> listen \<Rightarrow> bool" where
  "udp_closed k w = ul_closed (ls_store w k)"

definition udp_Disconnect :: "ref \<Rightarrow> listen \<Rightarrow> listen" where
  "udp_Disconnect k = UdpLink_Disconnect (\<lambda>_ w. w) k"

lemmas udp_link_defs [link_defs] = udp_ready_def record_only_def udp_closed_def udp_Disconnect_def both_handlers_def packets_def
  DeliverReceived_def UdpLink_Disconnect_def set_link_def log_call_def Let_def

lemma udp_send:
  assumes "udp_ready owned cap k w"
  shows "udp_ready owned cap k (UdpLink_Send k (copy_writer d) w) \<and> udp_closed k (UdpLink_Send k (copy_writer d) w) = udp_closed k w \<and>
    ls_calls (UdpLink_Send k (copy_writer d) w) = ls_calls w \<and>
    udp_sent k (ls_sent (UdpLink_Send k (copy_writer d) w)) = udp_sent k (ls_sent w) @ (if udp_closed k w then [] else packets cap d)"
proof -
  obtain n buf where c: "copy_writer d (replicate cap 0) = (n, buf)" "n = min (length d) cap" "length buf = cap" "take n buf = take cap d"
    by (rule copy_writer_room)
  then have "resize n buf = take cap d" by (simp add: resize_def)
  with assms c show ?thesis by (auto simp: link_defs UdpLink_Send_def)
qed

lemma udp_disconnect:
  assumes "udp_ready owned cap k w"
  shows "udp_ready owned cap k (udp_Disconnect k w) \<and> udp_closed k (udp_Disconnect k w) \<and> ls_sent (udp_Disconnect k w) = ls_sent w \<and>
    udp_link_calls k (ls_calls (udp_Disconnect k w)) = udp_link_calls k (ls_calls w) @ (if udp_closed k w then [] else [LinkDisconnected])"
  using assms by (auto simp: link_defs split: if_splits)

lemma udp_disconnect_again: "udp_closed k w \<Longrightarrow> udp_Disconnect k w = w"
  by (simp add: link_defs)

lemma udp_shared_recv:
  assumes "udp_ready owned cap k w"
  shows "udp_ready owned cap k (DeliverReceived record_only k d w) \<and> udp_closed k (DeliverReceived record_only k d w) = udp_closed k w \<and>
    ls_sent (DeliverReceived record_only k d w) = ls_sent w \<and>
    udp_link_calls k (ls_calls (DeliverReceived record_only k d w)) = udp_link_calls k (ls_calls w) @ (if udp_closed k w then [] else [LinkReceived d])"
  using assms by (auto simp: link_defs)

lemma udp_owned_recv:
  assumes "udp_ready True cap k w"
  shows "udp_ready True cap k (ReceiveHandler (\<lambda>_ w. w) record_only k (Inr d) w) \<and>
    udp_closed k (ReceiveHandler (\<lambda>_ w. w) record_only k (Inr d) w) = udp_closed k w \<and>
    ls_sent (ReceiveHandler (\<lambda>_ w. w) record_only k (Inr d) w) = ls_sent w \<and>
    udp_link_calls k (ls_calls (ReceiveHandler (\<lambda>_ w. w) record_only k (Inr d) w)) = udp_link_calls k (ls_calls w) @ [LinkReceived d]"
  using assms by (auto simp: link_defs ReceiveHandler_def DoReceive_def)

lemma udp_owned_gone:
  assumes "udp_ready True cap k w"
  shows "udp_ready True cap k (ReceiveHandler (\<lambda>_ w. w) record_only k (Inl ec) w) \<and>
    udp_closed k (ReceiveHandler (\<lambda>_ w. w) record_only k (Inl ec) w) \<and>
    ls_sent (ReceiveHandler (\<lambda>_ w. w) record_only k (Inl ec) w) = ls_sent w \<and>
    udp_link_calls k (ls_calls (ReceiveHandler (\<lambda>_ w. w) record_only k (Inl ec) w)) =
      udp_link_calls k (ls_calls w) @ (if udp_closed k w then [] else [LinkDisconnected])"
  using assms by (auto simp: link_defs ReceiveHandler_def split: if_splits)

text \<open>A link of the server: data comes through the shared socket, and only \<open>Disconnect\<close> ends it.\<close>

interpretation udp_shared: link_like "\<lambda>d w. Some (DeliverReceived record_only k d w)" "\<lambda>w. Some (udp_Disconnect k w)"
  "\<lambda>d w. Some (UdpLink_Send k (copy_writer d) w)" "\<lambda>w. Some (udp_Disconnect k w)" cap "udp_ready False cap k"
  "\<lambda>w. \<not> udp_closed k w" "udp_closed k" "udp_closed k" "\<lambda>w. udp_link_calls k (ls_calls w)" "\<lambda>w. udp_sent k (ls_sent w)" for k cap
  by unfold_locales (auto simp: udp_shared_recv udp_send udp_disconnect udp_disconnect_again)

interpretation udp_silent: silent_link "\<lambda>d w. Some (DeliverReceived record_only k d w)" "\<lambda>w. Some (udp_Disconnect k w)"
  "\<lambda>d w. Some (UdpLink_Send k (copy_writer d) w)" "\<lambda>w. Some (udp_Disconnect k w)" cap "udp_ready False cap k"
  "\<lambda>w. \<not> udp_closed k w" "udp_closed k" "udp_closed k" "\<lambda>w. udp_link_calls k (ls_calls w)" "\<lambda>w. udp_sent k (ls_sent w)" for k cap
  by unfold_locales (simp add: link_defs)

text \<open>The client's link: data and errors come from its own socket.\<close>

interpretation udp_owned: link_like "\<lambda>d w. Some (ReceiveHandler (\<lambda>_ w. w) record_only k (Inr d) w)"
  "\<lambda>w. Some (ReceiveHandler (\<lambda>_ w. w) record_only k (Inl ec) w)"
  "\<lambda>d w. Some (UdpLink_Send k (copy_writer d) w)" "\<lambda>w. Some (udp_Disconnect k w)" cap "udp_ready True cap k"
  "\<lambda>w. \<not> udp_closed k w" "udp_closed k" "udp_closed k" "\<lambda>w. udp_link_calls k (ls_calls w)" "\<lambda>w. udp_sent k (ls_sent w)" for k cap ec
  by unfold_locales (auto simp: udp_owned_recv udp_owned_gone udp_send udp_disconnect udp_disconnect_again)

section \<open>WebRTC\<close>

fun dc_sent :: "pc_call list \<Rightarrow> byte list list" where
  "dc_sent [] = []"
| "dc_sent (DcSend d # cs) = d # dc_sent cs"
| "dc_sent (_ # cs) = dc_sent cs"

lemma dc_sent_append [simp]: "dc_sent (xs @ ys) = dc_sent xs @ dc_sent ys"
  by (induction xs rule: dc_sent.induct) auto

definition dc_ready :: "nat \<Rightarrow> dc_link \<Rightarrow> bool" where
  "dc_ready cap l \<longleftrightarrow> both_handlers (dl_handler l) \<and> dl_maxMessageSize l = cap \<and> dl_dc l \<noteq> None"

definition dc_up :: "dc_link \<Rightarrow> bool" where
  "dc_up l \<longleftrightarrow> \<not> dl_disconnectRequested l \<and> dl_dc l = Some True"

lemma dc_send:
  assumes "dc_ready cap l"
  shows "DcRtcLink_Send (copy_writer d) l = Some (if dc_up l then l\<lparr>dl_pc := dl_pc l @ map DcSend (packets cap d)\<rparr> else l)"
proof -
  obtain n buf where c: "copy_writer d (replicate cap 0) = (n, buf)" "n = min (length d) cap" "length buf = cap" "take n buf = take cap d"
    by (rule copy_writer_room)
  with assms c show ?thesis by (auto simp: dc_ready_def dc_up_def DcRtcLink_Send_def packets_def)
qed

lemma dc_sent_packets [simp]: "dc_sent (map DcSend ps) = ps"
  by (induction ps) auto

lemma terminal_state: "terminal st \<Longrightarrow> pc_onStateChange st = pc_onStateChange PcClosed"
  by (auto simp: pc_onStateChange_def terminal_def)

interpretation dc_rtc: link_like "\<lambda>d l. Some (dc_onMessage (Some d) l)" "\<lambda>l. Some (pc_onStateChange PcClosed l)"
  "\<lambda>d l. DcRtcLink_Send (copy_writer d) l" "\<lambda>l. Some (DcRtcLink_Disconnect l)" cap "dc_ready cap" dc_up
  dl_disconnectRequested dl_closedFired dl_calls "\<lambda>l. dc_sent (dl_pc l)" for cap
  by unfold_locales
    (auto simp: dc_send dc_ready_def dc_up_def both_handlers_def dc_onMessage_def pc_onStateChange_def terminal_def DcRtcLink_Disconnect_def Let_def)

interpretation dc_silent: silent_link "\<lambda>d l. Some (dc_onMessage (Some d) l)" "\<lambda>l. Some (pc_onStateChange PcClosed l)"
  "\<lambda>d l. DcRtcLink_Send (copy_writer d) l" "\<lambda>l. Some (DcRtcLink_Disconnect l)" cap "dc_ready cap" dc_up
  dl_disconnectRequested dl_closedFired dl_calls "\<lambda>l. dc_sent (dl_pc l)" for cap
  by unfold_locales (simp add: dc_onMessage_def)

text \<open>After \<open>Disconnect\<close> a link of the UDP server and a native WebRTC link neither pass data on nor send any, whatever happens.\<close>

lemma links_are_silent_after_disconnect:
  assumes "udp_ready False cap k w" and "udp_closed k w" and "dc_ready cap l" and "dl_disconnectRequested l"
  shows "\<exists>w'. link_actions (\<lambda>d w. Some (DeliverReceived record_only k d w)) (\<lambda>w. Some (udp_Disconnect k w))
        (\<lambda>d w. Some (UdpLink_Send k (copy_writer d) w)) (\<lambda>w. Some (udp_Disconnect k w)) es w = Some w' \<and>
      link_data (udp_link_calls k (ls_calls w')) = link_data (udp_link_calls k (ls_calls w)) \<and> udp_sent k (ls_sent w') = udp_sent k (ls_sent w)"
    and "\<exists>l'. link_actions (\<lambda>d l. Some (dc_onMessage (Some d) l)) (\<lambda>l. Some (pc_onStateChange PcClosed l))
        (\<lambda>d. DcRtcLink_Send (copy_writer d)) (\<lambda>l. Some (DcRtcLink_Disconnect l)) es l = Some l' \<and>
      link_data (dl_calls l') = link_data (dl_calls l) \<and> dc_sent (dl_pc l') = dc_sent (dl_pc l)"
  using udp_silent.silent_after_disconnect[OF assms(1,2), of es] dc_silent.silent_after_disconnect[OF assms(3,4), of es] by auto

text \<open>The browser's link \<open>k\<close>, whose context is \<open>ctx\<close> and whose entry on the JavaScript side is \<open>e\<close>; it is used while it is not destroyed.\<close>

definition js_link_ready :: "nat \<Rightarrow> ref \<Rightarrow> ref \<Rightarrow> ref \<Rightarrow> js_rtc \<Rightarrow> bool" where
  "js_link_ready cap ctx k e w \<longleftrightarrow>
     (\<exists>c l. js_ctx w ctx = Some c \<and> jp_link c = Some k \<and> js_links w k = Some l \<and> jl_ctx l = ctx \<and> jl_maxMessageSize l = cap \<and>
        both_handlers (jl_handler l) \<and> js_map w ctx \<in> {None, Some e})"

definition js_link_is :: "(js_link \<Rightarrow> bool) \<Rightarrow> ref \<Rightarrow> js_rtc \<Rightarrow> bool" where
  "js_link_is P k w = (case js_links w k of None \<Rightarrow> False | Some l \<Rightarrow> P l)"

definition js_up :: "ref \<Rightarrow> ref \<Rightarrow> ref \<Rightarrow> js_rtc \<Rightarrow> bool" where
  "js_up ctx k e w \<longleftrightarrow> js_link_is (\<lambda>l. \<not> jl_disconnectRequested l) k w \<and> js_map w ctx = Some e \<and>
     en_dc (js_entries w e) \<and> en_dcOpen (js_entries w e)"

definition js_link_calls :: "ref \<Rightarrow> js_rtc \<Rightarrow> link_call list" where
  "js_link_calls k w = (case js_links w k of None \<Rightarrow> [] | Some l \<Rightarrow> jl_calls l)"

definition js_Send :: "ref \<Rightarrow> byte list \<Rightarrow> js_rtc \<Rightarrow> js_rtc option" where
  "js_Send k d w = Option.bind (js_links w k) (\<lambda>l. JsRtcLink_Send (copy_writer d) l w)"

definition js_Disconnect :: "ref \<Rightarrow> js_rtc \<Rightarrow> js_rtc option" where
  "js_Disconnect k w = map_option (\<lambda>l. JsRtcLink_Disconnect k l w) (js_links w k)"

lemmas js_link_defs = js_link_ready_def js_link_is_def js_up_def js_link_calls_def both_handlers_def set_jlink_def set_entry_def

lemma js_send:
  assumes "js_link_ready cap ctx k e w"
  shows "js_Send k d w = Some (if js_up ctx k e w then set_entry e (\<lambda>en. en\<lparr>en_pc := en_pc en @ map DcSend (packets cap d)\<rparr>) w else w)"
proof -
  obtain n buf where c: "copy_writer d (replicate cap 0) = (n, buf)" "n = min (length d) cap" "length buf = cap" "take n buf = take cap d"
    by (rule copy_writer_room)
  with assms c show ?thesis
    by (auto simp: js_link_defs js_Send_def JsRtcLink_Send_def JsRtcPc_Send_def packets_def)
qed

lemma js_recv:
  assumes "js_link_ready cap ctx k e w"
  shows "\<exists>l. js_links w k = Some l \<and> JsRtcPc_OnMessage ctx d w = Some (set_jlink k (l\<lparr>jl_calls := jl_calls l @ [LinkReceived d]\<rparr>) w)"
  using assms by (auto simp: js_link_ready_def both_handlers_def JsRtcPc_OnMessage_def on_ctx_link_def JsRtcLink_OnMessage_def)

lemma js_gone:
  assumes "js_link_ready cap ctx k e w"
  shows "\<exists>l. js_links w k = Some l \<and> JsRtcPc_OnDataChannelClose ctx w = Some (set_jlink k
    (if jl_closedFired l then l else l\<lparr>jl_closedFired := True, jl_calls := jl_calls l @ [LinkDisconnected]\<rparr>) w)"
  using assms by (auto simp: js_link_ready_def both_handlers_def JsRtcPc_OnDataChannelClose_def on_ctx_link_def JsRtcLink_OnClose_def)

lemma js_disc:
  assumes "js_link_ready cap ctx k e w"
  shows "\<exists>w'. js_Disconnect k w = Some w' \<and> js_link_ready cap ctx k e w' \<and> js_link_is jl_disconnectRequested k w' \<and> \<not> js_up ctx k e w' \<and>
    dc_sent (en_pc (js_entries w' e)) = dc_sent (en_pc (js_entries w e)) \<and> js_link_is jl_closedFired k w' = js_link_is jl_closedFired k w \<and>
    js_link_calls k w' = js_link_calls k w"
proof -
  from assms obtain c l where l: "js_ctx w ctx = Some c" "jp_link c = Some k" "js_links w k = Some l" "jl_ctx l = ctx"
      "jl_maxMessageSize l = cap" "both_handlers (jl_handler l)" "js_map w ctx \<in> {None, Some e}"
    by (auto simp: js_link_ready_def)
  show ?thesis
  proof (cases "jl_disconnectRequested l")
    case True
    with l show ?thesis by (simp add: js_Disconnect_def JsRtcLink_Disconnect_def js_link_defs)
  next
    case False
    from l(7) consider "js_map w ctx = None" | "js_map w ctx = Some e" by (auto simp: insert_iff)
    then show ?thesis
      by cases (use l False in \<open>simp_all add: js_Disconnect_def JsRtcLink_Disconnect_def JsRtcPc_Close_def js_link_defs\<close>)
  qed
qed

lemma js_disc_again: "js_link_is jl_disconnectRequested k w \<Longrightarrow> js_Disconnect k w = Some w"
  by (auto simp: js_link_is_def js_Disconnect_def JsRtcLink_Disconnect_def split: option.splits)

lemma js_frame:
  assumes "js_link_ready cap ctx k e w" and "js_links w k = Some l" and "jl_ctx l' = jl_ctx l" and "jl_maxMessageSize l' = jl_maxMessageSize l"
    and "jl_handler l' = jl_handler l" and "jl_disconnectRequested l' = jl_disconnectRequested l"
  shows "js_link_ready cap ctx k e (set_jlink k l' w)" and "js_up ctx k e (set_jlink k l' w) = js_up ctx k e w"
    and "js_link_is P k (set_jlink k l' w) = P l'" and "js_link_is P k w = P l" and "js_link_calls k (set_jlink k l' w) = jl_calls l'"
    and "js_link_calls k w = jl_calls l" and "js_entries (set_jlink k l' w) = js_entries w"
  using assms by (auto simp: js_link_defs)

interpretation js_rtc_link: link_like "JsRtcPc_OnMessage ctx" "JsRtcPc_OnDataChannelClose ctx" "js_Send k" "js_Disconnect k" cap
  "js_link_ready cap ctx k e" "js_up ctx k e" "js_link_is jl_disconnectRequested k" "js_link_is jl_closedFired k" "js_link_calls k"
  "\<lambda>w. dc_sent (en_pc (js_entries w e))" for cap ctx k e
proof
  fix w d
  assume r: "js_link_ready cap ctx k e w"
  from js_recv[OF r, of d] obtain l where l: "js_links w k = Some l"
    "JsRtcPc_OnMessage ctx d w = Some (set_jlink k (l\<lparr>jl_calls := jl_calls l @ [LinkReceived d]\<rparr>) w)" by auto
  show "\<exists>s'. JsRtcPc_OnMessage ctx d w = Some s' \<and> js_link_ready cap ctx k e s' \<and> js_up ctx k e s' = js_up ctx k e w \<and>
      js_link_is jl_disconnectRequested k s' = js_link_is jl_disconnectRequested k w \<and>
      js_link_is jl_closedFired k s' = js_link_is jl_closedFired k w \<and>
      dc_sent (en_pc (js_entries s' e)) = dc_sent (en_pc (js_entries w e)) \<and>
      js_link_calls k s' \<in> {js_link_calls k w, js_link_calls k w @ [LinkReceived d]} \<and>
      (js_up ctx k e w \<longrightarrow> js_link_calls k s' = js_link_calls k w @ [LinkReceived d])"
    unfolding l(2) by (simp add: js_frame[OF r l(1)])
next
  fix w
  assume r: "js_link_ready cap ctx k e w"
  from js_gone[OF r] obtain l where l: "js_links w k = Some l" "JsRtcPc_OnDataChannelClose ctx w = Some (set_jlink k
    (if jl_closedFired l then l else l\<lparr>jl_closedFired := True, jl_calls := jl_calls l @ [LinkDisconnected]\<rparr>) w)" by blast
  show "\<exists>s'. JsRtcPc_OnDataChannelClose ctx w = Some s' \<and> js_link_ready cap ctx k e s' \<and> js_link_is jl_closedFired k s' \<and>
      (js_link_is jl_disconnectRequested k w \<longrightarrow> js_link_is jl_disconnectRequested k s') \<and>
      dc_sent (en_pc (js_entries s' e)) = dc_sent (en_pc (js_entries w e)) \<and>
      js_link_calls k s' = js_link_calls k w @ (if js_link_is jl_closedFired k w then [] else [LinkDisconnected])"
    unfolding l(2) by (simp add: js_frame[OF r l(1)])
next
  fix w d
  assume r: "js_link_ready cap ctx k e w"
  show "\<exists>s'. js_Send k d w = Some s' \<and> js_link_ready cap ctx k e s' \<and> js_up ctx k e s' = js_up ctx k e w \<and>
      js_link_is jl_disconnectRequested k s' = js_link_is jl_disconnectRequested k w \<and>
      js_link_is jl_closedFired k s' = js_link_is jl_closedFired k w \<and> js_link_calls k s' = js_link_calls k w \<and>
      dc_sent (en_pc (js_entries s' e)) \<in> {dc_sent (en_pc (js_entries w e)), dc_sent (en_pc (js_entries w e)) @ packets cap d} \<and>
      (js_up ctx k e w \<longrightarrow> dc_sent (en_pc (js_entries s' e)) = dc_sent (en_pc (js_entries w e)) @ packets cap d) \<and>
      (js_link_is jl_disconnectRequested k w \<longrightarrow> dc_sent (en_pc (js_entries s' e)) = dc_sent (en_pc (js_entries w e)))"
    unfolding js_send[OF r] using r by (auto simp: js_link_defs split: option.splits)
next
  fix w
  assume "js_link_ready cap ctx k e w"
  from js_disc[OF this] show "\<exists>s'. js_Disconnect k w = Some s' \<and> js_link_ready cap ctx k e s' \<and>
      js_link_is jl_disconnectRequested k s' \<and> \<not> js_up ctx k e s' \<and> dc_sent (en_pc (js_entries s' e)) = dc_sent (en_pc (js_entries w e)) \<and>
      (if js_link_is jl_closedFired k s' = js_link_is jl_closedFired k w then js_link_calls k s' = js_link_calls k w
       else js_link_is jl_closedFired k s' \<and> js_link_calls k s' = js_link_calls k w @ [LinkDisconnected])"
    by (elim ex_forward) simp
qed (rule js_disc_again)

section \<open>What applications can rely on\<close>

text \<open>
  C19. Whichever transport made it, an open link passes data in both directions in order and without duplicates, cut to its capacity, whatever data arrives and however
  the peer's loss, \<open>Send\<close> and \<open>Disconnect\<close> are interleaved: nothing is lost while neither side has ended the link, and \<open>onDisconnected\<close>
  is called at most once. This holds for the links of the UDP server and client, of the native and of the browser's WebRTC transport.
\<close>

theorem links_carry_data_in_order:
  assumes "udp_ready False cap i w" and "\<not> udp_closed i w" and "udp_ready True cap j w" and "\<not> udp_closed j w"
    and "dc_ready cap l" and "dc_up l" and "\<not> dl_closedFired l"
    and "js_link_ready cap ctx k e v" and "js_up ctx k e v" and "\<not> js_link_is jl_closedFired k v"
  shows "carried cap es (\<lambda>w. udp_link_calls i (ls_calls w)) (\<lambda>w. udp_sent i (ls_sent w)) w
      (link_actions (\<lambda>d w. Some (DeliverReceived record_only i d w)) (\<lambda>w. Some (udp_Disconnect i w))
        (\<lambda>d w. Some (UdpLink_Send i (copy_writer d) w)) (\<lambda>w. Some (udp_Disconnect i w)) es w) \<and>
    carried cap es (\<lambda>w. udp_link_calls j (ls_calls w)) (\<lambda>w. udp_sent j (ls_sent w)) w
      (link_actions (\<lambda>d w. Some (ReceiveHandler (\<lambda>_ w. w) record_only j (Inr d) w))
        (\<lambda>w. Some (ReceiveHandler (\<lambda>_ w. w) record_only j (Inl ec) w))
        (\<lambda>d w. Some (UdpLink_Send j (copy_writer d) w)) (\<lambda>w. Some (udp_Disconnect j w)) es w) \<and>
    carried cap es dl_calls (\<lambda>l. dc_sent (dl_pc l)) l
      (link_actions (\<lambda>d l. Some (dc_onMessage (Some d) l)) (\<lambda>l. Some (pc_onStateChange PcClosed l))
        (\<lambda>d. DcRtcLink_Send (copy_writer d)) (\<lambda>l. Some (DcRtcLink_Disconnect l)) es l) \<and>
    carried cap es (js_link_calls k) (\<lambda>w. dc_sent (en_pc (js_entries w e))) v
      (link_actions (JsRtcPc_OnMessage ctx) (JsRtcPc_OnDataChannelClose ctx) (js_Send k) (js_Disconnect k) es v)"
  using udp_shared.link_delivers[OF assms(1), of es] udp_owned.link_delivers[OF assms(3), of es ec] assms(2,4)
    dc_rtc.link_delivers[OF assms(5-7), of es] js_rtc_link.link_delivers[OF assms(8-10), of es] by blast

text \<open>The four links of the witness: two of UDP, one native WebRTC link, and one of the browser with context 7, entry 0 and number 3.\<close>

definition sample_handler :: link_handler where
  "sample_handler = \<lparr>lh_onReceived = True, lh_onDisconnected = True\<rparr>"

definition sample_udp :: listen where
  "sample_udp = SetLinkHandler 0 sample_handler (SetLinkHandler 1 sample_handler
     ((new_ListenState 4 no_endpoint)\<lparr>ls_store := (\<lambda>j. if j = 0 then UdpLink_shared no_endpoint [] [] 4 else UdpLink_connected [] [] 4)\<rparr>))"

definition sample_dc :: dc_link where
  "sample_dc = Attach (DcSetHandler sample_handler (new_DcRtcLink [] [] 4))"

definition sample_js :: js_rtc where
  "sample_js =
     \<lparr>js_localId = [], js_remoteId = [], js_iceServers = [], js_maxMessageSize = 4, js_maxInboundConnections = 1, js_sigUser = True,
      js_peers = Map.empty, js_inboundCount = 1, js_alive = True, js_sent = [], js_calls = [], js_map = [7 \<mapsto> 0],
      js_entries = (\<lambda>_. (new_entry [])\<lparr>en_dc := True, en_dcOpen := True\<rparr>), js_closure = (\<lambda>_. 7), js_nextEntry = 1,
      js_ctx = [7 \<mapsto> \<lparr>jp_localId = [], jp_remoteId = [], jp_opened = True, jp_link = Some 3, jp_role = AnswererRole, jp_entry = 0\<rparr>],
      js_fresh = 8,
      js_links = [3 \<mapsto> \<lparr>jl_localId = [], jl_remoteId = [], jl_ctx = 7, jl_maxMessageSize = 4, jl_role = AnswererRole, jl_handler = sample_handler,
        jl_closedFired = False, jl_disconnectRequested = False, jl_calls = []\<rparr>],
      js_nextLink = 4\<rparr>"

lemmas sample_defs = sample_handler_def sample_udp_def sample_dc_def sample_js_def SetLinkHandler_def set_link_def UdpLink_shared_def
  UdpLink_connected_def Attach_def DcSetHandler_def new_DcRtcLink_def new_entry_def new_ListenState_def

theorem links_carry_data_in_order_witness:
  "\<exists>l' w'. link_actions (\<lambda>d l. Some (dc_onMessage (Some d) l)) (\<lambda>l. Some (pc_onStateChange PcClosed l))
      (\<lambda>d. DcRtcLink_Send (copy_writer d)) (\<lambda>l. Some (DcRtcLink_Disconnect l)) [ActRecv [1], ActSend [2, 3, 4, 5, 6], ActRecv [7]] sample_dc = Some l' \<and>
     link_data (dl_calls l') = [[1], [7]] \<and> dc_sent (dl_pc l') = [[2, 3, 4, 5]] \<and>
     link_actions (JsRtcPc_OnMessage 7) (JsRtcPc_OnDataChannelClose 7) (js_Send 3) (js_Disconnect 3)
      [ActRecv [1], ActSend [2, 3, 4, 5, 6], ActRecv [7]] sample_js = Some w' \<and> link_data (js_link_calls 3 w') = [[1], [7]]"
proof -
  have u: "udp_ready False 4 0 sample_udp" "\<not> udp_closed 0 sample_udp" "udp_ready True 4 1 sample_udp" "\<not> udp_closed 1 sample_udp"
    by (simp_all add: udp_ready_def udp_closed_def both_handlers_def sample_defs)
  have d: "dc_ready 4 sample_dc" "dc_up sample_dc" "\<not> dl_closedFired sample_dc"
    by (simp_all add: dc_ready_def dc_up_def both_handlers_def sample_defs)
  have j: "js_link_ready 4 7 3 0 sample_js" "js_up 7 3 0 sample_js" "\<not> js_link_is jl_closedFired 3 sample_js"
    by (simp_all add: js_link_ready_def js_up_def js_link_is_def both_handlers_def sample_defs)
  have z: "link_data (dl_calls sample_dc) = []" "dc_sent (dl_pc sample_dc) = []" "link_data (js_link_calls 3 sample_js) = []"
    by (simp_all add: js_link_calls_def sample_defs)
  show ?thesis
    using links_carry_data_in_order[OF u d j, of "[ActRecv [1], ActSend [2, 3, 4, 5, 6], ActRecv [7]]" "other_error 0"] z
    unfolding carried_def by (force simp: link_ends_def packets_def)
qed

text \<open>
  \<open>DcRtcLink\<close> takes the state \<open>Disconnected\<close>, from which a connection may recover, for the end: data that comes after the recovery still
  reaches the handler, after \<open>onDisconnected\<close>.
\<close>

lemma dc_data_after_disconnected:
  assumes "dc_ready cap l" and "dc_up l" and "\<not> dl_closedFired l"
  shows "dl_calls (dc_onMessage (Some d) (pc_onStateChange PcConnected (pc_onStateChange PcDisconnected l))) = dl_calls l @ [LinkDisconnected, LinkReceived d]"
  using assms by (simp add: dc_ready_def dc_up_def both_handlers_def pc_onStateChange_def terminal_def dc_onMessage_def Let_def)

text \<open>The browser's link does not look at its own \<open>Disconnect\<close> when a message comes, so that it relies on the browser to report none after \<open>pc.close()\<close>.\<close>

lemma js_message_after_disconnect:
  assumes "js_link_ready cap ctx k e w"
  shows "\<exists>w1 w2. js_Disconnect k w = Some w1 \<and> JsRtcPc_OnMessage ctx d w1 = Some w2 \<and>
    js_link_calls k w2 = js_link_calls k w @ [LinkReceived d]"
proof -
  from js_disc[OF assms] obtain w1 where w1: "js_Disconnect k w = Some w1" "js_link_ready cap ctx k e w1" "js_link_calls k w1 = js_link_calls k w"
    by blast
  from js_recv[OF w1(2), of d] w1(3) show ?thesis using w1(1) by (auto simp: js_link_calls_def set_jlink_def)
qed

end
