(* ===== verification/Runner_Equiv.thy ===== *)
theory Runner_Equiv
  imports App_Runner
begin

text \<open>
  When a program behaves the same under both runners. A handler is portable (locale \<open>portable\<close>) when its versions for \<open>TightRunner\<close> and for \<open>WasmRunner\<close>, which differ in the
  \<open>Exit\<close> that they call, take states that are alike to states that are alike, and the former clears \<open>_running\<close> in \<open>Update\<close> only together with recording an exit code. States
  are alike when the recorded exit codes are equal and the worlds are equal in what \<open>seen\<close> shows of them, which leaves out what a handler keeps of the runner's own flag. If such a handler does not exit
  in \<open>Start\<close>, the browser's frames are \<open>TightRunner\<close>'s loop, turn by turn.
\<close>

definition alike :: "('w \<Rightarrow> 'v) \<Rightarrow> 'w rstate \<Rightarrow> 'w rstate \<Rightarrow> bool" where
  "alike seen s t \<longleftrightarrow> rs_exitCode s = rs_exitCode t \<and> seen (rs_world s) = seen (rs_world t)"

lemma alike_simps [simp]:
  "alike seen s s"
  "alike seen (s\<lparr>rs_running := b\<rparr>) t \<longleftrightarrow> alike seen s t" "alike seen s (t\<lparr>rs_running := b\<rparr>) \<longleftrightarrow> alike seen s t"
  by (simp_all add: alike_def)

lemma alike_sym: "alike seen s t \<Longrightarrow> alike seen t s"
  by (simp add: alike_def)

lemma alike_exitCode: "alike seen s t \<Longrightarrow> rs_exitCode s = rs_exitCode t"
  by (simp add: alike_def)

definition new_wasm :: "ref \<Rightarrow> 'w rstate \<Rightarrow> 'w wasm" where
  "new_wasm self s = \<lparr>w_state = s, w_ctx = new_UpdateCtx self, w_mainLoop = False, w_asyncExit = False, w_exited = None\<rparr>"

text \<open>The browser's events: \<open>n\<close> frames at the times of the clock, one more, and the delayed exit.\<close>

definition browser_frames :: "(nat \<Rightarrow> time_point) \<Rightarrow> nat \<Rightarrow> browser_event list" where
  "browser_frames clk n = map (\<lambda>k. MainLoop (clk (Suc k))) [0..<n]"

definition browser_run ::
  "(duration \<Rightarrow> real) \<Rightarrow> (nat \<Rightarrow> time_point) \<Rightarrow> 'w rstate handler \<Rightarrow> ref \<Rightarrow> 'w rstate \<Rightarrow> browser_event list \<Rightarrow> 'w wasm" where
  "browser_run secs clk h self s es = wasm_events secs h (snd (WasmRun (clk 0) h (new_wasm self s))) es"

text \<open>
  The same outcome: when \<open>TightRunner::Run\<close> returns a code, there is a number of frames after which the next frame and the delayed exit end the browser's program with the same code
  and in a state that is alike; when \<open>Run\<close> never returns, no number of frames ends the browser's program.
\<close>

definition runs_alike ::
  "(duration \<Rightarrow> real) \<Rightarrow> (nat \<Rightarrow> time_point) \<Rightarrow> ('w \<Rightarrow> 'v) \<Rightarrow> 'w rstate handler \<Rightarrow> 'w rstate handler \<Rightarrow> ref \<Rightarrow> 'w rstate \<Rightarrow> bool" where
  "runs_alike secs clk seen tight wasm self s \<longleftrightarrow>
     (case TightRun secs clk tight self s of
        None \<Rightarrow> \<forall>n. w_exited (browser_run secs clk wasm self s (browser_frames clk n)) = None
      | Some (code, s2) \<Rightarrow> \<exists>n. \<forall>t.
          let w = browser_run secs clk wasm self s (browser_frames clk n @ [MainLoop t, AsyncCall])
          in w_exited w = Some code \<and> alike seen s2 (w_state w) \<and> \<not> w_mainLoop w)"

lemma browser_run_append:
  "browser_run secs clk h self s (es @ fs) = foldl (wasm_event secs h) (browser_run secs clk h self s es) fs"
  by (simp add: browser_run_def wasm_events_def)

lemma browser_frames_Suc: "browser_frames clk (Suc n) = browser_frames clk n @ [MainLoop (clk (Suc n))]"
  by (simp add: browser_frames_def)

lemma tight_frames_snoc:
  "tight_frames secs clk h k (Suc n) st = tight_step secs (clk (Suc (k + n))) h (tight_frames secs clk h k n st)"
  by (induction n arbitrary: k st) simp_all

locale portable =
  fixes tight wasm :: "'w rstate handler" and seen :: "'w \<Rightarrow> 'v"
  assumes start_alike: "fst (h_Start tight s) = fst (h_Start wasm s) \<and> alike seen (snd (h_Start tight s)) (snd (h_Start wasm s))"
    and update_alike: "alike seen s t \<Longrightarrow> alike seen (h_Update tight ctx s) (h_Update wasm ctx t)"
    and update_running: "rs_exitCode s = None \<Longrightarrow> rs_running (h_Update tight ctx s) \<longleftrightarrow> rs_running s \<and> rs_exitCode (h_Update tight ctx s) = None"
    and stop_alike: "alike seen s t \<Longrightarrow> alike seen (h_Stop tight s) (h_Stop wasm t)"
begin

lemma frames_agree:
  assumes "h_Start tight s = (True, s1)" and "rs_exitCode s1 = None"
    and "\<forall>j<n. rs_running (snd (tight_frames secs clk tight 0 j (Initialize (clk 0) (new_UpdateCtx self), s1\<lparr>rs_running := True\<rparr>)))"
  defines "w \<equiv> browser_run secs clk wasm self s (browser_frames clk n)"
    and "st \<equiv> tight_frames secs clk tight 0 n (Initialize (clk 0) (new_UpdateCtx self), s1\<lparr>rs_running := True\<rparr>)"
  shows "w_ctx w = fst st \<and> alike seen (snd st) (w_state w) \<and> w_mainLoop w \<and> \<not> w_asyncExit w \<and> w_exited w = None \<and>
    (rs_running (snd st) \<longleftrightarrow> rs_exitCode (snd st) = None)"
  using assms(3) unfolding w_def st_def
proof (induction n)
  case 0
  have "fst (h_Start wasm s)" "alike seen s1 (snd (h_Start wasm s))" using start_alike[of s] assms(1) by auto
  then show ?case
    using assms(2) by (auto simp: browser_run_def browser_frames_def wasm_events_def WasmRun_def new_wasm_def Let_def split: prod.splits)
next
  case (Suc n)
  let ?st = "tight_frames secs clk tight 0 n (Initialize (clk 0) (new_UpdateCtx self), s1\<lparr>rs_running := True\<rparr>)"
  let ?w = "browser_run secs clk wasm self s (browser_frames clk n)"
  have IH: "w_ctx ?w = fst ?st" "alike seen (snd ?st) (w_state ?w)" "w_mainLoop ?w" "\<not> w_asyncExit ?w" "w_exited ?w = None"
      "rs_running (snd ?st)" "rs_exitCode (snd ?st) = None"
    using Suc by (auto simp: less_Suc_eq)
  define ctx' where "ctx' = Tick secs (clk (Suc n)) (fst ?st)"
  have w: "browser_run secs clk wasm self s (browser_frames clk (Suc n)) = ?w\<lparr>w_ctx := ctx', w_state := h_Update wasm ctx' (w_state ?w)\<rparr>"
    using IH by (simp add: browser_frames_Suc browser_run_append WasmUpdate_def GetExitCode_def alike_exitCode[symmetric] ctx'_def Let_def)
  have st: "tight_frames secs clk tight 0 (Suc n) (Initialize (clk 0) (new_UpdateCtx self), s1\<lparr>rs_running := True\<rparr>) = (ctx', h_Update tight ctx' (snd ?st))"
    unfolding tight_frames_snoc by (cases ?st) (simp add: tight_step_def ctx'_def Let_def)
  show ?case unfolding w st using IH update_alike[of "snd ?st" "w_state ?w" ctx'] update_running[OF IH(7), of ctx'] by simp
qed

lemma tight_return_in_browser:
  assumes "h_Start tight s = (True, s1)" and "rs_exitCode s1 = None" and "TightRun secs clk tight self s = Some (code, s2)"
  shows "\<exists>n. \<forall>t. let w = browser_run secs clk wasm self s (browser_frames clk n @ [MainLoop t, AsyncCall])
     in w_exited w = Some code \<and> alike seen s2 (w_state w) \<and> \<not> w_mainLoop w"
proof -
  let ?f = "\<lambda>n. tight_frames secs clk tight 0 n (Initialize (clk 0) (new_UpdateCtx self), s1\<lparr>rs_running := True\<rparr>)"
  define n where "n = (LEAST n. \<not> rs_running (snd (?f n)))"
  from assms(1,3) have ex: "\<exists>n. \<not> rs_running (snd (?f n))" and s2: "s2 = h_Stop tight (snd (?f n))" "code = value_or (GetExitCode s2) ExitCode_Success"
    by (auto simp: TightRun_def tight_loop_cases n_def Let_def split_def split: if_splits option.splits)
  have stopped: "\<not> rs_running (snd (?f n))" unfolding n_def using ex by (rule LeastI_ex)
  have running: "\<forall>j<n. rs_running (snd (?f j))" unfolding n_def using not_less_Least by blast
  let ?w = "browser_run secs clk wasm self s (browser_frames clk n)"
  note agree = frames_agree[OF assms(1,2) running]
  then have w: "alike seen (snd (?f n)) (w_state ?w)" "w_mainLoop ?w" "w_exited ?w = None" "rs_exitCode (w_state ?w) \<noteq> None"
    using stopped alike_exitCode[of seen "snd (?f n)" "w_state ?w"] by auto
  have same: "alike seen s2 (h_Stop wasm (w_state ?w))" using stop_alike[OF w(1)] s2(1) by simp
  have "browser_run secs clk wasm self s (browser_frames clk n @ [MainLoop t, AsyncCall]) = AsyncExit (StopAndExit wasm ?w)" for t
    using w by (auto simp: browser_run_append WasmUpdate_def GetExitCode_def StopAndExit_def)
  then show ?thesis
    using same s2(2) by (intro exI[of _ n]) (simp add: AsyncExit_def StopAndExit_def GetExitCode_def alike_def)
qed

lemma tight_never_in_browser:
  assumes "h_Start tight s = (True, s1)" and "rs_exitCode s1 = None" and "TightRun secs clk tight self s = None"
  shows "w_exited (browser_run secs clk wasm self s (browser_frames clk n)) = None \<and> w_mainLoop (browser_run secs clk wasm self s (browser_frames clk n))"
proof -
  have "\<forall>j<n. rs_running (snd (tight_frames secs clk tight 0 j (Initialize (clk 0) (new_UpdateCtx self), s1\<lparr>rs_running := True\<rparr>)))"
    using assms(1,3) by (auto simp: TightRun_def tight_loop_cases Let_def split_def split: if_splits)
  from frames_agree[OF assms(1,2) this] show ?thesis by simp
qed

lemma outcomes_alike:
  assumes "h_Start tight s = (True, s1)" and "rs_exitCode s1 = None"
  shows "runs_alike secs clk seen tight wasm self s"
  using tight_never_in_browser[OF assms] tight_return_in_browser[OF assms] unfolding runs_alike_def by (auto split: option.splits)

end

end
