(* ===== verification/Asio_Run.thy ===== *)
theory Asio_Run
  imports Asio_Domain Runner_Equiv
begin

text \<open>
  \<open>AsioDomain\<close> as the handler of a runner, and what a run of it under \<open>TightRunner\<close> returns, for every \<open>io_context\<close>. The world of the runner is the domain; \<open>None\<close>: the
  program has terminated.
\<close>

section \<open>The domain as a handler\<close>

definition with_asio ::
  "('io asio \<Rightarrow> 'io asio option) \<Rightarrow> 'io asio option rstate \<Rightarrow> 'io asio option rstate" where
  "with_asio f r =
     (case rs_world r of
        None \<Rightarrow> r
      | Some w \<Rightarrow>
          (case f (w\<lparr>a_runner := \<lparr>rs_exitCode = rs_exitCode r, rs_running = rs_running r, rs_world = ()\<rparr>\<rparr>) of
             None \<Rightarrow> r\<lparr>rs_world := None\<rparr>
           | Some w1 \<Rightarrow> \<lparr>rs_exitCode = rs_exitCode (a_runner w1), rs_running = rs_running (a_runner w1), rs_world = Some w1\<rparr>))"

text \<open>\<open>exit\<close> is the runner's \<open>Exit\<close>; \<open>tick\<close> lets the clock of the context follow the frame.\<close>

definition AsioDomainHandler ::
  "(int \<Rightarrow> unit rstate \<Rightarrow> unit rstate) \<Rightarrow> 'io io_ops \<Rightarrow> (time_point \<Rightarrow> 'io \<Rightarrow> 'io) \<Rightarrow> 'io asio option rstate handler" where
  "AsioDomainHandler exit io tick =
     \<lparr>h_Start = (\<lambda>r. (True, with_asio (\<lambda>w. Some (snd (AsioStart io w))) r)),
      h_Stop = with_asio (AsioStop io exit),
      h_Update = (\<lambda>ctx. with_asio (\<lambda>w. AsioUpdate io exit ctx (w\<lparr>a_io := tick (f_startTime (u_frame ctx)) (a_io w)\<rparr>)))\<rparr>"

lemmas asio_handler_defs [runner_defs] = AsioDomainHandler_def with_asio_def AsioStart_def AsioUpdate_def AsioStop_def poll_def AsioCompleted_def
  new_AsioDomain_def new_AsioPoller_def Exiting_def GetExitCode_def TightExit_def SetExitCode_def Let_def

section \<open>A run of the domain\<close>

text \<open>The context after \<open>n\<close> frames, and the completions that frame \<open>n + 1\<close> polls.\<close>

fun asio_after :: "'io io_ops \<Rightarrow> (time_point \<Rightarrow> 'io \<Rightarrow> 'io) \<Rightarrow> (nat \<Rightarrow> time_point) \<Rightarrow> 'io \<Rightarrow> nat \<Rightarrow> 'io" where
  "asio_after io tick clk s 0 = s"
| "asio_after io tick clk s (Suc n) = snd (snd (io_poll io (tick (clk (Suc n)) (asio_after io tick clk s n))))"

definition asio_results :: "'io io_ops \<Rightarrow> (time_point \<Rightarrow> 'io \<Rightarrow> 'io) \<Rightarrow> (nat \<Rightarrow> time_point) \<Rightarrow> 'io \<Rightarrow> nat \<Rightarrow> coro_result list" where
  "asio_results io tick clk s n = fst (snd (io_poll io (tick (clk (Suc n)) (asio_after io tick clk s n))))"

definition domain_state :: "'io \<Rightarrow> 'io asio option rstate" where
  "domain_state s = \<lparr>rs_exitCode = None, rs_running = False, rs_world = Some (new_AsioDomain 0 s \<lparr>rs_exitCode = None, rs_running = False, rs_world = ()\<rparr>)\<rparr>"

definition polling :: "'io \<Rightarrow> 'io asio option rstate \<Rightarrow> bool" where
  "polling s r \<longleftrightarrow> rs_running r \<and> rs_exitCode r = None \<and> (\<exists>w. rs_world r = Some w \<and> \<not> a_cancelled w \<and> a_io w = s)"

lemma tight_frames_add:
  "tight_frames secs clk h k (m + n) st = tight_frames secs clk h (k + m) n (tight_frames secs clk h k m st)"
  by (induction m arbitrary: k st) simp_all

lemma completions_code_kept:
  assumes "rs_exitCode (a_runner w) = Some c" and "CoroException \<notin> set rs"
  shows "completions TightExit rs w = Some w"
  using assms by (induction rs) (auto simp: AsioCompleted_def Exiting_def GetExitCode_def split: coro_result.splits)

lemma domain_step:
  assumes "rs_world r = Some w" and "io_poll io (tick time (a_io w)) = (n, rs, s')"
  shows "snd (tight_step secs time (AsioDomainHandler TightExit io tick) (ctx, r)) =
    (case completions TightExit rs (w\<lparr>a_runner := \<lparr>rs_exitCode = rs_exitCode r, rs_running = rs_running r, rs_world = ()\<rparr>, a_io := s'\<rparr>) of
       None \<Rightarrow> r\<lparr>rs_world := None\<rparr>
     | Some w1 \<Rightarrow> \<lparr>rs_exitCode = rs_exitCode (a_runner w1), rs_running = rs_running (a_runner w1), rs_world = Some w1\<rparr>)"
  using assms by (simp add: tight_step_def Tick_def AsioDomainHandler_def with_asio_def AsioUpdate_def poll_def Let_def)

lemma polling_step:
  assumes "polling s (snd st)" and "io_poll io (tick time s) = (n, rs, s')"
    and r'_def: "r' = snd (tight_step secs time (AsioDomainHandler TightExit io tick) st)"
  shows "rs = [] \<Longrightarrow> polling s' r'"
    and "rs = CoroReturned c # rs' \<Longrightarrow> CoroException \<notin> set rs' \<Longrightarrow>
      \<exists>w. rs_world r' = Some w \<and> a_io w = s' \<and> rs_exitCode r' = Some c \<and> \<not> rs_running r'"
    and "rs = CoroException # rs' \<Longrightarrow> rs_world r' = None \<and> rs_running r'"
proof -
  from assms(1) obtain w where w: "rs_world (snd st) = Some w" "\<not> a_cancelled w" "a_io w = s" "rs_running (snd st)" "rs_exitCode (snd st) = None"
    by (auto simp: polling_def)
  define w1 where "w1 = w\<lparr>a_runner := \<lparr>rs_exitCode = None, rs_running = True, rs_world = ()\<rparr>, a_io := s'\<rparr>"
  have w1: "\<not> a_cancelled w1" "a_io w1 = s'" "a_runner w1 = \<lparr>rs_exitCode = None, rs_running = True, rs_world = ()\<rparr>" using w(2) by (simp_all add: w1_def)
  have r': "r' = (case completions TightExit rs w1 of None \<Rightarrow> (snd st)\<lparr>rs_world := None\<rparr>
      | Some w1 \<Rightarrow> \<lparr>rs_exitCode = rs_exitCode (a_runner w1), rs_running = rs_running (a_runner w1), rs_world = Some w1\<rparr>)"
    unfolding r'_def w1_def using domain_step[OF w(1), of io tick time n rs s' secs "fst st"] assms(2) w by simp
  show "rs = [] \<Longrightarrow> polling s' r'" using r' w1 by (simp add: polling_def)
  show "rs = CoroException # rs' \<Longrightarrow> rs_world r' = None \<and> rs_running r'" using r' w(4) by (simp add: AsioCompleted_def)
  define w2 where "w2 = w1\<lparr>a_runner := TightExit c (a_runner w1)\<rparr>"
  have w2: "AsioCompleted TightExit (CoroReturned c) w1 = Some w2" "rs_exitCode (a_runner w2) = Some c" "\<not> rs_running (a_runner w2)" "a_io w2 = s'"
    unfolding w2_def using w1 by (simp_all add: AsioCompleted_def Exiting_def GetExitCode_def TightExit_def SetExitCode_def)
  show "\<exists>w. rs_world r' = Some w \<and> a_io w = s' \<and> rs_exitCode r' = Some c \<and> \<not> rs_running r'"
    if "rs = CoroReturned c # rs'" "CoroException \<notin> set rs'"
    using r' w2 completions_code_kept[OF w2(2) that(2)] that(1) by simp
qed

lemma polling_frames:
  assumes "polling s (snd st)" and "\<forall>j<n. asio_results io tick clk s j = []"
  shows "polling (asio_after io tick clk s n) (snd (tight_frames secs clk (AsioDomainHandler TightExit io tick) 0 n st))"
  using assms(2)
proof (induction n)
  case (Suc n)
  obtain m rs s' where p: "io_poll io (tick (clk (Suc n)) (asio_after io tick clk s n)) = (m, rs, s')" by (metis prod_cases3)
  moreover have "rs = []" using Suc.prems p by (auto simp: asio_results_def dest: spec[of _ n])
  moreover have "polling (asio_after io tick clk s n) (snd (tight_frames secs clk (AsioDomainHandler TightExit io tick) 0 n st))" using Suc by simp
  ultimately show ?case
    using polling_step(1)[where tick = tick and time = "clk (Suc n)" and secs = secs, OF _ p refl] by (simp add: tight_frames_snoc del: tight_frames.simps(2))
qed (use assms(1) in simp)

lemma dead_domain_step: "rs_world (snd st) = None \<Longrightarrow> snd (tight_step secs time (AsioDomainHandler TightExit io tick) st) = snd st"
  by (cases st) (simp add: tight_step_def Tick_def runner_defs)

lemma dead_domain_frames:
  assumes "rs_world (snd st) = None"
  shows "snd (tight_frames secs clk (AsioDomainHandler TightExit io tick) k n st) = snd st"
proof (induction n)
  case (Suc n)
  then have "rs_world (snd (tight_frames secs clk (AsioDomainHandler TightExit io tick) k n st)) = None" using assms by simp
  with Suc show ?case unfolding tight_frames_snoc by (simp add: dead_domain_step)
qed simp

lemma domain_started:
  "\<exists>r. h_Start (AsioDomainHandler TightExit io tick) (domain_state s) = (True, r) \<and> polling (io_co_spawn io s) (r\<lparr>rs_running := True\<rparr>)"
  by (simp add: domain_state_def polling_def runner_defs)

lemma completing_frame:
  assumes "polling s (snd st)" and "\<forall>j<n. asio_results io tick clk s j = []"
    and r': "r' = snd (tight_frames secs clk (AsioDomainHandler TightExit io tick) 0 (Suc n) st)"
  shows "asio_results io tick clk s n = CoroReturned c # rs \<Longrightarrow> CoroException \<notin> set rs \<Longrightarrow>
      \<exists>w. rs_world r' = Some w \<and> a_io w = asio_after io tick clk s (Suc n) \<and> rs_exitCode r' = Some c \<and> \<not> rs_running r'"
    and "asio_results io tick clk s n = CoroException # rs \<Longrightarrow> rs_world r' = None \<and> rs_running r'"
proof -
  obtain m rs1 s' where p: "io_poll io (tick (clk (Suc n)) (asio_after io tick clk s n)) = (m, rs1, s')" by (metis prod_cases3)
  have "r' = snd (tight_step secs (clk (Suc n)) (AsioDomainHandler TightExit io tick) (tight_frames secs clk (AsioDomainHandler TightExit io tick) 0 n st))"
    unfolding r' tight_frames_snoc by simp
  note step = polling_step[where tick = tick and time = "clk (Suc n)" and secs = secs, OF polling_frames[OF assms(1,2)] p this]
  show "asio_results io tick clk s n = CoroReturned c # rs \<Longrightarrow> CoroException \<notin> set rs \<Longrightarrow>
      \<exists>w. rs_world r' = Some w \<and> a_io w = asio_after io tick clk s (Suc n) \<and> rs_exitCode r' = Some c \<and> \<not> rs_running r'"
    using step(2) p by (simp add: asio_results_def)
  show "asio_results io tick clk s n = CoroException # rs \<Longrightarrow> rs_world r' = None \<and> rs_running r'"
    using step(3) p by (simp add: asio_results_def)
qed

text \<open>The code of the first completion of the main coroutine; \<open>None\<close> when there is none or it is an exception.\<close>

definition asio_outcome :: "(nat \<Rightarrow> coro_result list) \<Rightarrow> int option" where
  "asio_outcome R =
     (if \<forall>n. R n = [] then None else case hd (R (LEAST n. R n \<noteq> [])) of CoroReturned c \<Rightarrow> Some c | CoroException \<Rightarrow> None)"

lemma first_completion:
  assumes "\<not> (\<forall>n. R n = [])"
  obtains n where "R n \<noteq> []" and "\<forall>j<n. R j = []" and "asio_outcome R = (case hd (R n) of CoroReturned c \<Rightarrow> Some c | CoroException \<Rightarrow> None)"
proof -
  from assms obtain m where "R m \<noteq> []" by blast
  then have "R (LEAST n. R n \<noteq> []) \<noteq> []" by (rule LeastI)
  moreover have "\<forall>j<LEAST n. R n \<noteq> []. R j = []" using not_less_Least[of _ "\<lambda>n. R n \<noteq> []"] by blast
  moreover have "asio_outcome R = (case hd (R (LEAST n. R n \<noteq> [])) of CoroReturned c \<Rightarrow> Some c | CoroException \<Rightarrow> None)"
    unfolding asio_outcome_def using assms by (rule if_not_P)
  ultimately show thesis by (rule that)
qed

lemma tight_run_started:
  assumes "h_Start h s = (True, r0)"
  shows "TightRun secs clk h self s =
    (case tight_loop secs clk h 0 (Initialize (clk 0) (new_UpdateCtx self), r0\<lparr>rs_running := True\<rparr>) of
       None \<Rightarrow> None | Some (ctx, r) \<Rightarrow> Some (value_or (GetExitCode (h_Stop h r)) ExitCode_Success, h_Stop h r))"
  using assms by (auto simp: TightRun_def Let_def split: option.splits)

lemma dead_domain_runs_on:
  assumes "polling s (snd st)" and "\<forall>j<n. asio_results io tick clk s j = []" and "asio_results io tick clk s n = CoroException # rs"
  shows "rs_running (snd (tight_frames secs clk (AsioDomainHandler TightExit io tick) 0 j st))"
proof (cases "j \<le> n")
  case True
  then show ?thesis using polling_frames[OF assms(1), of j io tick clk secs] assms(2) by (simp add: polling_def)
next
  case False
  then obtain m where j: "j = Suc n + m" by (metis less_iff_Suc_add not_less plus_nat.simps(2))
  let ?st = "tight_frames secs clk (AsioDomainHandler TightExit io tick) 0 (Suc n) st"
  have dead: "rs_world (snd ?st) = None" "rs_running (snd ?st)" using completing_frame(2)[OF assms(1,2) refl assms(3)] by auto
  from dead_domain_frames[OF dead(1), of secs clk io tick "Suc n" m] dead(2) show ?thesis
    unfolding j tight_frames_add by simp
qed

lemma stop_keeps_code:
  assumes "rs_world r = Some w" and "rs_exitCode r = Some c" and "fst (snd (io_poll io (io_emit io (a_io w)))) = []"
  shows "GetExitCode (h_Stop (AsioDomainHandler TightExit io tick) r) = Some c"
  using assms by (auto simp: runner_defs split: prod.splits option.splits)

text \<open>
  C30. What becomes of a program that runs a coroutine on an \<open>AsioDomain\<close> under \<open>TightRunner\<close>, for every \<open>io_context\<close> that completes the coroutine at most once: \<open>Run\<close>
  returns exactly when a frame polls the coroutine's return, with its exit code; when no frame polls a completion the program runs for ever, and
  when the coroutine ends with an exception it terminates (both are \<open>None\<close>).
\<close>

theorem asio_domain_run_outcome:
  assumes "\<forall>n. asio_results io tick clk (io_co_spawn io s) n \<noteq> [] \<longrightarrow> tl (asio_results io tick clk (io_co_spawn io s) n) = [] \<and>
      fst (snd (io_poll io (io_emit io (asio_after io tick clk (io_co_spawn io s) (Suc n))))) = []"
  shows "map_option fst (TightRun secs clk (AsioDomainHandler TightExit io tick) self (domain_state s)) = asio_outcome (asio_results io tick clk (io_co_spawn io s))"
proof -
  let ?h = "AsioDomainHandler TightExit io tick"
  define R where "R = asio_results io tick clk (io_co_spawn io s)"
  obtain r0 where start: "h_Start ?h (domain_state s) = (True, r0)" "polling (io_co_spawn io s) (r0\<lparr>rs_running := True\<rparr>)"
    using domain_started[of io tick s] by auto
  define st where "st = (Initialize (clk 0) (new_UpdateCtx self), r0\<lparr>rs_running := True\<rparr>)"
  have st: "polling (io_co_spawn io s) (snd st)" using start(2) by (simp add: st_def)
  note run = tight_run_started[OF start(1), of secs clk self, folded st_def]
  have frames: "rs_running (snd (tight_frames secs clk ?h 0 j st))" if "\<forall>i<j. R i = []" for j
    using polling_frames[OF st, of j io tick clk secs] that by (simp add: R_def polling_def)
  show ?thesis
  proof (cases "\<forall>n. R n = []")
    case True
    then show ?thesis using frames unfolding run tight_loop_cases by (simp add: asio_outcome_def R_def[symmetric])
  next
    case False
    then obtain n where n: "R n \<noteq> []" "\<forall>j<n. R j = []" and
        out: "asio_outcome R = (case hd (R n) of CoroReturned c \<Rightarrow> Some c | CoroException \<Rightarrow> None)" by (rule first_completion)
    show ?thesis
    proof (cases "hd (R n)")
      case CoroException
      then have "R n = CoroException # tl (R n)" using n(1) by (metis list.collapse)
      then have "rs_running (snd (tight_frames secs clk ?h 0 j st))" for j
        using dead_domain_runs_on[OF st, of n io tick clk "tl (R n)" secs j] n(2) by (simp add: R_def)
      then show ?thesis using out CoroException unfolding run tight_loop_cases by (simp add: R_def)
    next
      case (CoroReturned c)
      have "tl (R n) = []" using n(1) assms by (simp add: R_def)
      then have R: "R n = [CoroReturned c]" using n(1) CoroReturned by (cases "R n") simp_all
      let ?st = "tight_frames secs clk ?h 0 (Suc n) st"
      obtain w where w: "rs_world (snd ?st) = Some w" "a_io w = asio_after io tick clk (io_co_spawn io s) (Suc n)"
          "rs_exitCode (snd ?st) = Some c" "\<not> rs_running (snd ?st)"
        using completing_frame(1)[OF st, of n io tick clk "snd ?st" secs c "[]"] n(2) R by (auto simp: R_def)
      have "tight_loop secs clk ?h 0 st = Some ?st"
        by (rule tight_loop_returns) (use frames n(2) w(4) in auto)
      moreover have "GetExitCode (h_Stop ?h (snd ?st)) = Some c"
        by (rule stop_keeps_code[OF w(1,3)]) (use assms n(1) w(2) in \<open>simp add: R_def\<close>)
      ultimately show ?thesis using out CoroReturned unfolding run by (auto simp: R_def[symmetric] value_or_def split: prod.splits)
    qed
  qed
qed

theorem asio_domain_run_outcome_witness:
  "let io = \<lparr>io_co_spawn = Suc, io_emit = id, io_stopped = (\<lambda>_. False), io_poll = (\<lambda>s. (1, if s = 3 then [CoroReturned 5] else [], Suc s))\<rparr>
   in map_option fst (TightRun (\<lambda>_. 0) int (AsioDomainHandler TightExit io (\<lambda>_ s. s)) 0 (domain_state 0)) = Some 5"
proof -
  let ?io = "\<lparr>io_co_spawn = Suc, io_emit = id, io_stopped = (\<lambda>_. False), io_poll = (\<lambda>s. (1, if s = 3 then [CoroReturned 5] else [], Suc s))\<rparr>"
  have after: "asio_after ?io (\<lambda>_ s. s) int (io_co_spawn ?io 0) n = Suc n" for n by (induction n) simp_all
  have R: "asio_results ?io (\<lambda>_ s. s) int (io_co_spawn ?io 0) = (\<lambda>n. if n = 2 then [CoroReturned 5] else [])"
    unfolding asio_results_def after by (rule ext) simp
  have "map_option fst (TightRun (\<lambda>_. 0) int (AsioDomainHandler TightExit ?io (\<lambda>_ s. s)) 0 (domain_state 0)) = asio_outcome (\<lambda>n. if n = 2 then [CoroReturned 5] else [])"
    by (rule asio_domain_run_outcome[of ?io "\<lambda>_ s. s" int 0 "\<lambda>_. 0" 0, unfolded R after]) simp
  moreover have "(LEAST n. (if n = (2::nat) then [CoroReturned 5] else []) \<noteq> []) = 2" by (rule Least_equality) (auto split: if_splits)
  then have "asio_outcome (\<lambda>n. if n = 2 then [CoroReturned 5] else []) = Some 5" unfolding asio_outcome_def by (auto dest: spec[of _ 2])
  ultimately show ?thesis unfolding Let_def by (rule trans)
qed

end
