(* ===== verification/Asio_Demo.thy ===== *)
theory Asio_Demo
  imports Asio_Run Boot
begin

text \<open>
  \<open>Asio::AsyncCancelled\<close>, and the program \<open>demo/pkg/asio/main.cpp\<close>, whose coroutines wait on timers.

  The program's \<open>io_context\<close> is the record \<open>demo\<close>: where the coroutines stand, the deadline of the one timer that can be pending, whether the cancellation
  signal has reached it, and what the clock shows when the context is polled. The wait in \<open>Sub\<close> ends at the first poll after the deadline; a cancelled wait throws. An exception
  that leaves \<open>io_context::poll\<close> passes through \<open>Update\<close> or \<open>Stop\<close> and \<open>Run\<close> out of \<open>main\<close>: it ends the program like an exception of the main
  coroutine, and is reported as \<open>CoroException\<close> too.
\<close>

section \<open>AsyncCancelled\<close>

datatype wait_ec = WaitExpired | OperationAborted

text \<open>The wait of a timer, as a poll at time \<open>now\<close> finds it.\<close>

definition timer_wait :: "time_point \<Rightarrow> bool \<Rightarrow> time_point \<Rightarrow> wait_ec option" where
  "timer_wait deadline cancelled now =
     (if cancelled then Some OperationAborted else if deadline \<le> now then Some WaitExpired else None)"

definition time_point_max :: time_point where
  "time_point_max = 2 ^ 63 - 1"

definition AsyncCancelled :: "bool \<Rightarrow> time_point \<Rightarrow> wait_ec option" where
  "AsyncCancelled cancelled now = timer_wait time_point_max cancelled now"

text \<open>
  A main coroutine that awaits its cancellation and then returns \<open>code\<close>: where it stands, whether it is cancelled, and the clock. A coroutine that was
  cancelled before it has started throws at its first \<open>co_await\<close>.
\<close>

datatype co_phase = CoIdle | CoReady | CoWaiting | CoEnded

fun cancelled_poll :: "int \<Rightarrow> co_phase \<times> bool \<times> time_point \<Rightarrow> nat \<times> coro_result list \<times> co_phase \<times> bool \<times> time_point" where
  "cancelled_poll code (CoReady, c, now) = (if c then (1, [CoroException], CoEnded, c, now) else (1, [], CoWaiting, c, now))"
| "cancelled_poll code (CoWaiting, c, now) =
     (case AsyncCancelled c now of None \<Rightarrow> (0, [], CoWaiting, c, now) | Some _ \<Rightarrow> (1, [CoroReturned code], CoEnded, c, now))"
| "cancelled_poll code (p, c, now) = (0, [], p, c, now)"

definition cancelled_io :: "int \<Rightarrow> (co_phase \<times> bool \<times> time_point) io_ops" where
  "cancelled_io code =
     \<lparr>io_co_spawn = (\<lambda>(_, c, now). (CoReady, c, now)), io_emit = (\<lambda>(p, c, now). (p, c \<or> p = CoReady \<or> p = CoWaiting, now)),
      io_stopped = (\<lambda>_. False), io_poll = cancelled_poll code\<rparr>"

section \<open>The program\<close>

datatype asio_line =
    MainScope bool
  | RequestLine int
  | FooScope bool int
  | SubScope bool
  | ResultLine int string
  | ExitLine int

datatype demo_pc = NotSpawned | Spawned | InSub int | DemoDone | Dropped

record demo =
  de_pc :: demo_pc
  de_deadline :: time_point
  de_cancelled :: bool
  de_now :: time_point
  de_log :: "asio_line list"

definition new_demo :: demo where
  "new_demo = \<lparr>de_pc = NotSpawned, de_deadline = 0, de_cancelled = False, de_now = 0, de_log = []\<rparr>"

definition line :: "asio_line \<Rightarrow> demo \<Rightarrow> demo" where
  "line l d = d\<lparr>de_log := de_log d @ [l]\<rparr>"

text \<open>The coroutines up to their first suspension and from their resumption on.\<close>

definition demo_Sub :: "demo \<Rightarrow> demo" where
  "demo_Sub d = (line (SubScope True) d)\<lparr>de_deadline := de_now d + 150000000\<rparr>"

definition demo_Sub_end :: "demo \<Rightarrow> demo" where
  "demo_Sub_end d = line (SubScope False) d"

definition FooImpl :: "int \<Rightarrow> demo \<Rightarrow> demo" where
  "FooImpl input d = (demo_Sub (line (FooScope True input) d))\<lparr>de_pc := InSub input\<rparr>"

definition FooImpl_end :: "int \<Rightarrow> demo \<Rightarrow> string \<times> demo" where
  "FooImpl_end input d = (''Foo emulated result on input '' @ print_int input, line (FooScope False input) (demo_Sub_end d))"

definition FooAsync :: "int \<Rightarrow> demo \<Rightarrow> demo" where
  "FooAsync input d = FooImpl input (line (RequestLine input) d)"

definition asio_CoroMain :: "demo \<Rightarrow> demo" where
  "asio_CoroMain d = FooAsync 1 (line (MainScope True) d)"

definition asio_CoroMain_resume :: "int \<Rightarrow> int \<Rightarrow> string \<Rightarrow> demo \<Rightarrow> coro_result list \<times> demo" where
  "asio_CoroMain_resume exitCode input result d =
     (let d1 = line (ResultLine input result) d in
      if input < 3 then ([], FooAsync (input + 1) d1)
      else ([CoroReturned exitCode], (line (MainScope False) (line (ExitLine exitCode) d1))\<lparr>de_pc := DemoDone\<rparr>))"

text \<open>
  The completion handler that \<open>FooAsync\<close> gives to \<open>co_spawn\<close>: it passes the result on, and throws the coroutine's exception again; the handler
  and with it the frame of \<open>CoroMain\<close>, which waits for it, are destroyed then.
\<close>

definition FooAsync_handler :: "int \<Rightarrow> int \<Rightarrow> string option \<Rightarrow> demo \<Rightarrow> coro_result list \<times> demo" where
  "FooAsync_handler exitCode input res d =
     (case res of
        Some result \<Rightarrow> asio_CoroMain_resume exitCode input result d
      | None \<Rightarrow> ([CoroException], (line (MainScope False) d)\<lparr>de_pc := Dropped\<rparr>))"

definition demo_poll :: "int \<Rightarrow> demo \<Rightarrow> nat \<times> coro_result list \<times> demo" where
  "demo_poll exitCode d =
     (case de_pc d of
        Spawned \<Rightarrow>
          if de_cancelled d
          then (1, [CoroException], (line (MainScope False) (line (RequestLine 1) (line (MainScope True) d)))\<lparr>de_pc := DemoDone\<rparr>)
          else (1, [], asio_CoroMain d)
      | InSub input \<Rightarrow>
          (case timer_wait (de_deadline d) (de_cancelled d) (de_now d) of
             None \<Rightarrow> (0, [], d)
           | Some WaitExpired \<Rightarrow> let (result, d1) = FooImpl_end input d in (1, FooAsync_handler exitCode input (Some result) d1)
           | Some OperationAborted \<Rightarrow> (1, FooAsync_handler exitCode input None (snd (FooImpl_end input d))))
      | _ \<Rightarrow> (0, [], d))"

definition demo_io :: "int \<Rightarrow> demo io_ops" where
  "demo_io exitCode =
     \<lparr>io_co_spawn = (\<lambda>d. d\<lparr>de_pc := Spawned\<rparr>), io_emit = (\<lambda>d. d\<lparr>de_cancelled := (case de_pc d of Spawned \<Rightarrow> True | InSub _ \<Rightarrow> True | _ \<Rightarrow> de_cancelled d)\<rparr>),
      io_stopped = (\<lambda>_. False), io_poll = demo_poll exitCode\<rparr>"

definition asio_main_code :: "string list \<Rightarrow> int" where
  "asio_main_code args = (case GetIntArg args 1 of Inl _ \<Rightarrow> 0 | Inr code \<Rightarrow> code)"

definition asio_main_state :: "demo asio option rstate" where
  "asio_main_state = domain_state new_demo"

section \<open>Under TightRunner\<close>

lemma AsyncCancelled_completes:
  assumes "now < time_point_max"
  shows "AsyncCancelled cancelled now = (if cancelled then Some OperationAborted else None)"
  using assms by (simp add: AsyncCancelled_def timer_wait_def)

text \<open>The lines before the wait number \<open>i\<close>, and all of them.\<close>

definition foo_lines :: "int \<Rightarrow> asio_line list" where
  "foo_lines i = [RequestLine i, FooScope True i, SubScope True, SubScope False, FooScope False i,
     ResultLine i (''Foo emulated result on input '' @ print_int i)]"

definition lines_before :: "int \<Rightarrow> asio_line list" where
  "lines_before i = MainScope True # concat (map foo_lines [1..i - 1]) @ take 3 (foo_lines i)"

definition demo_lines :: "int \<Rightarrow> asio_line list" where
  "demo_lines code = MainScope True # concat (map foo_lines [1..3]) @ [ExitLine code, MainScope False]"

definition waits_in :: "int \<Rightarrow> time_point \<Rightarrow> demo \<Rightarrow> bool" where
  "waits_in i deadline d \<longleftrightarrow> de_pc d = InSub i \<and> de_deadline d = deadline \<and> \<not> de_cancelled d \<and> de_log d = lines_before i"

lemmas demo_defs = demo_poll_def timer_wait_def FooImpl_end_def demo_Sub_end_def FooAsync_handler_def asio_CoroMain_resume_def asio_CoroMain_def
  FooAsync_def FooImpl_def demo_Sub_def line_def Let_def

lemma poll_begin:
  assumes "de_pc d = Spawned" and "\<not> de_cancelled d" and "de_log d = []"
  shows "\<exists>d'. demo_poll code d = (1, [], d') \<and> waits_in 1 (de_now d + 150000000) d'"
  using assms by (simp add: demo_defs waits_in_def lines_before_def foo_lines_def)

lemma poll_early:
  assumes "waits_in i deadline d" and "de_now d < deadline"
  shows "demo_poll code d = (0, [], d)"
  using assms by (simp add: demo_poll_def timer_wait_def waits_in_def)

lemma poll_due:
  assumes "waits_in i deadline d" and "deadline \<le> de_now d" and "1 \<le> i" and "i < 3"
  shows "\<exists>d'. demo_poll code d = (1, [], d') \<and> waits_in (i + 1) (de_now d + 150000000) d'"
  using assms by (simp add: demo_defs waits_in_def lines_before_def foo_lines_def upto_rec2)

lemma poll_last:
  assumes "waits_in 3 deadline d" and "deadline \<le> de_now d"
  shows "\<exists>d'. demo_poll code d = (1, [CoroReturned code], d') \<and> de_pc d' = DemoDone \<and> de_log d' = demo_lines code"
  using assms by (simp add: demo_defs waits_in_def lines_before_def demo_lines_def foo_lines_def upto_rec2)

definition demo_handler :: "(time_point \<Rightarrow> time_point) \<Rightarrow> int \<Rightarrow> demo asio option rstate handler" where
  "demo_handler lag code = AsioDomainHandler TightExit (demo_io code) (\<lambda>t d. d\<lparr>de_now := lag t\<rparr>)"

definition in_demo :: "demo asio option rstate \<Rightarrow> demo \<Rightarrow> bool" where
  "in_demo r d \<longleftrightarrow> rs_exitCode r = None \<and> (\<exists>w. rs_world r = Some w \<and> \<not> a_cancelled w \<and> a_io w = d)"

lemma demo_step:
  assumes "in_demo r d" and "demo_poll code (d\<lparr>de_now := lag time\<rparr>) = (n, rs, d')" and "rs = [] \<or> rs = [CoroReturned code]"
  shows "\<exists>w. rs_world (snd (tight_step secs time (demo_handler lag code) (ctx, r))) = Some w \<and> \<not> a_cancelled w \<and> a_io w = d' \<and>
     rs_exitCode (snd (tight_step secs time (demo_handler lag code) (ctx, r))) = (if rs = [] then None else Some code) \<and>
     rs_running (snd (tight_step secs time (demo_handler lag code) (ctx, r))) = (rs_running r \<and> rs = [])"
  using assms
  by (auto simp: in_demo_def tight_step_def demo_handler_def demo_io_def Tick_def runner_defs)

definition demo_ends ::
  "(duration \<Rightarrow> real) \<Rightarrow> (nat \<Rightarrow> time_point) \<Rightarrow> (time_point \<Rightarrow> time_point) \<Rightarrow> int \<Rightarrow> nat \<Rightarrow> UpdateCtx \<times> demo asio option rstate \<Rightarrow> bool" where
  "demo_ends secs clk lag code m st \<longleftrightarrow>
     (\<exists>st' w. tight_loop secs clk (demo_handler lag code) m st = Some st' \<and> rs_exitCode (snd st') = Some code \<and>
        rs_world (snd st') = Some w \<and> de_pc (a_io w) = DemoDone \<and> de_log (a_io w) = demo_lines code)"

lemma demo_ends_step:
  assumes "rs_running (snd st)" and "demo_ends secs clk lag code (Suc m) (tight_step secs (clk (Suc m)) (demo_handler lag code) st)"
  shows "demo_ends secs clk lag code m st"
  using assms by (simp add: demo_ends_def tight_loop.simps[of _ _ _ m])

lemma demo_ends_now:
  assumes "\<not> rs_running (snd st)" and "rs_exitCode (snd st) = Some code" and "rs_world (snd st) = Some w"
    and "de_pc (a_io w) = DemoDone" and "de_log (a_io w) = demo_lines code"
  shows "demo_ends secs clk lag code m st"
proof -
  have "tight_loop secs clk (demo_handler lag code) m st = Some st" using assms(1) by (subst tight_loop.simps) simp
  with assms show ?thesis unfolding demo_ends_def by blast
qed

lemma demo_continues:
  assumes "rs_running (snd st)" and "in_demo (snd st) d" and "demo_poll code (d\<lparr>de_now := lag (clk (Suc m))\<rparr>) = (n, [], d')"
    and cont: "\<And>st'. rs_running (snd st') \<Longrightarrow> in_demo (snd st') d' \<Longrightarrow> demo_ends secs clk lag code (Suc m) st'"
  shows "demo_ends secs clk lag code m st"
proof (rule demo_ends_step[OF assms(1)], rule cont)
  let ?st = "tight_step secs (clk (Suc m)) (demo_handler lag code) st"
  from demo_step[where lag = lag and time = "clk (Suc m)" and ctx = "fst st" and secs = secs, OF assms(2,3)] assms(1) show "rs_running (snd ?st)" "in_demo (snd ?st) d'"
    by (auto simp: in_demo_def)
qed

lemma waiting_demo_ends:
  assumes clk: "mono clk" "\<forall>T. \<exists>n. T \<le> clk n" and lag: "\<forall>t. t \<le> lag t"
    and "1 \<le> i" and "i \<le> 3" and "waits_in i deadline d" and "in_demo (snd st) d" and "rs_running (snd st)"
  shows "demo_ends secs clk lag code m st"
  using assms(4-)
proof (induction "nat (3 - i)" arbitrary: i deadline d st m rule: less_induct)
  case less
  have due: "demo_ends secs clk lag code m st"
    if prems: "waits_in i deadline d" "in_demo (snd st) d" "rs_running (snd st)" "deadline \<le> lag (clk (Suc m))" for d st m
  proof (cases "i = 3")
    case True
    let ?d = "d\<lparr>de_now := lag (clk (Suc m))\<rparr>" and ?st = "tight_step secs (clk (Suc m)) (demo_handler lag code) st"
    have "waits_in 3 deadline ?d" using prems(1) True by (simp add: waits_in_def)
    from poll_last[OF this, of code] prems(4) obtain d' where d': "demo_poll code ?d = (1, [CoroReturned code], d')"
        "de_pc d' = DemoDone" "de_log d' = demo_lines code" by auto
    from demo_step[where lag = lag and time = "clk (Suc m)" and ctx = "fst st" and secs = secs, OF prems(2) d'(1)] d'(2,3) have "demo_ends secs clk lag code (Suc m) ?st"
      by (auto intro: demo_ends_now)
    then show ?thesis by (rule demo_ends_step[OF prems(3)])
  next
    case False
    let ?d = "d\<lparr>de_now := lag (clk (Suc m))\<rparr>"
    have "waits_in i deadline ?d" using prems(1) by (simp add: waits_in_def)
    from poll_due[OF this, of code] prems(4) less.prems(1,2) False obtain d' where d': "demo_poll code ?d = (1, [], d')"
        "waits_in (i + 1) (lag (clk (Suc m)) + 150000000) d'" by auto
    show ?thesis
      by (rule demo_continues[where m = m and clk = clk and lag = lag, OF prems(3,2) d'(1)]) (use less.hyps[of "i + 1"] less.prems(1,2) False d'(2) in auto)
  qed
  obtain j where "deadline \<le> clk j" using clk(2) by blast
  also have "clk j \<le> clk (Suc (m + j))" using clk(1) by (simp add: monoD)
  finally have "deadline \<le> clk (Suc (m + j))" .
  with less.prems(3-5) show ?case
  proof (induction j arbitrary: m st d)
    case (0 m st d)
    then show ?case using lag[rule_format, of "clk (Suc m)"] by (intro due) auto
  next
    case (Suc j m st d)
    show ?case
    proof (cases "deadline \<le> lag (clk (Suc m))")
      case False
      have w: "waits_in i deadline (d\<lparr>de_now := lag (clk (Suc m))\<rparr>)" using Suc.prems(1) by (simp add: waits_in_def)
      with False have "demo_poll code (d\<lparr>de_now := lag (clk (Suc m))\<rparr>) = (0, [], d\<lparr>de_now := lag (clk (Suc m))\<rparr>)"
        by (intro poll_early) auto
      then show ?thesis by (rule demo_continues[where m = m and clk = clk and lag = lag, OF Suc.prems(3,2)]) (use Suc.IH[OF w] Suc.prems(4) in simp)
    qed (use Suc.prems due in blast)
  qed
qed

text \<open>
  The program ends with the exit code of its argument (0 when there is none), with clocks that advance beyond every bound; the three requests are answered one
  after the other, each after its scopes are left.
\<close>

lemma asio_demo_returns_its_code:
  assumes "mono clk" and "\<forall>T. \<exists>n. T \<le> clk n" and "\<forall>t. t \<le> lag t"
  shows "\<exists>r w. TightRun secs clk (demo_handler lag (asio_main_code args)) self asio_main_state = Some (asio_main_code args, r) \<and>
     rs_world r = Some w \<and> de_log (a_io w) = demo_lines (asio_main_code args)"
proof -
  define code where "code = asio_main_code args"
  let ?h = "demo_handler lag code"
  define s1 where "s1 = snd (h_Start ?h asio_main_state)"
  define d where "d = new_demo\<lparr>de_pc := Spawned\<rparr>"
  have start: "h_Start ?h asio_main_state = (True, s1)" and in_d: "in_demo (s1\<lparr>rs_running := True\<rparr>) d"
    unfolding s1_def by (simp_all add: demo_handler_def asio_main_state_def domain_state_def demo_io_def in_demo_def d_def runner_defs)
  define st where "st = (Initialize (clk 0) (new_UpdateCtx self), s1\<lparr>rs_running := True\<rparr>)"
  obtain d' where d': "demo_poll code (d\<lparr>de_now := lag (clk (Suc 0))\<rparr>) = (1, [], d')" "waits_in 1 (lag (clk (Suc 0)) + 150000000) d'"
    using poll_begin[of "d\<lparr>de_now := lag (clk (Suc 0))\<rparr>" code] by (auto simp: d_def new_demo_def)
  have "demo_ends secs clk lag code 0 st"
    by (rule demo_continues[where m = 0 and clk = clk and lag = lag, OF _ _ d'(1)]) (use in_d d'(2) in \<open>auto simp: st_def intro!: waiting_demo_ends[OF assms, of 1]\<close>)
  then obtain ctx r w where e: "tight_loop secs clk ?h 0 st = Some (ctx, r)" "rs_exitCode r = Some code" "rs_world r = Some w"
      "de_pc (a_io w) = DemoDone" "de_log (a_io w) = demo_lines code"
    by (auto simp: demo_ends_def)
  then have "\<exists>w'. rs_world (h_Stop ?h r) = Some w' \<and> rs_exitCode (h_Stop ?h r) = Some code \<and> de_log (a_io w') = demo_lines code"
    by (auto simp: demo_handler_def demo_io_def demo_poll_def runner_defs)
  with e start show ?thesis
    unfolding code_def[symmetric] by (auto simp: TightRun_def st_def GetExitCode_def value_or_def Let_def)
qed

text \<open>
  A stop during a request does not unwind the main coroutine as \<open>AsioDomain::Stop\<close> intends: the aborted wait ends \<open>FooImpl\<close> with an exception, which the handler
  of \<open>FooAsync\<close> throws out of the poll inside \<open>Stop\<close>, and the program terminates.
\<close>

lemma stop_during_request_terminates:
  assumes "waits_in i deadline d" and "a_io w = d"
  shows "AsioStop (demo_io code) exit w = None"
  using assms by (simp add: demo_io_def demo_defs waits_in_def runner_defs)

text \<open>A coroutine on \<open>AsyncCancelled\<close> runs until it is stopped, and then the code is \<open>Cancelled\<close>, whatever the coroutine returns.\<close>

lemma awaits_cancellation:
  assumes "a_io w = (CoWaiting, False, now)" and "now < time_point_max" and "\<not> a_cancelled w" and "rs_exitCode (a_runner w) = None"
  shows "AsioUpdate (cancelled_io code) exit ctx w = Some w"
    and "\<exists>w'. AsioStop (cancelled_io code) TightExit w = Some w' \<and> rs_exitCode (a_runner w') = Some ExitCode_Cancelled"
  using assms by (auto simp: cancelled_io_def AsyncCancelled_completes runner_defs)

end
