(* ===== verification/Domain_Portable.thy ===== *)
theory Domain_Portable
  imports Runner_Equiv Exec_Domain
begin

text \<open>
  \<open>Exec::Domain\<close> is portable: a domain with a straight-line task behaves the same under \<open>TightRunner\<close> and in the browser's frames. The two versions of the handler differ in the
  \<open>Exit\<close> that \<open>DomainReceiver\<close> calls; every operation of the loop context, the domain and the task commutes with forgetting \<open>_running\<close>.
\<close>

definition hushed :: "('q, 'b) domain \<Rightarrow> ('q, 'b) domain" where
  "hushed w = w\<lparr>d_runner := (d_runner w)\<lparr>rs_running := False\<rparr>\<rparr>"

lemma hushed_fields [simp]:
  "l_queue (hushed w) = l_queue w" "l_backend (hushed w) = l_backend w" "l_ops (hushed w) = l_ops w" "l_stop (hushed w) = l_stop w"
  "l_callbacks (hushed w) = l_callbacks w" "l_signals (hushed w) = l_signals w" "d_opState (hushed w) = d_opState w"
  "d_terminated (hushed w) = d_terminated w" "Exiting (d_runner (hushed w)) = Exiting (d_runner w)"
  by (simp_all add: hushed_def Exiting_def GetExitCode_def)

lemma hushed_updates [simp]:
  "hushed (w\<lparr>l_queue := q\<rparr>) = (hushed w)\<lparr>l_queue := q\<rparr>" "hushed (w\<lparr>l_backend := b\<rparr>) = (hushed w)\<lparr>l_backend := b\<rparr>"
  "hushed (w\<lparr>l_stop := s\<rparr>) = (hushed w)\<lparr>l_stop := s\<rparr>" "hushed (w\<lparr>l_callbacks := c\<rparr>) = (hushed w)\<lparr>l_callbacks := c\<rparr>"
  "hushed (w\<lparr>l_signals := x\<rparr>) = (hushed w)\<lparr>l_signals := x\<rparr>" "hushed (w\<lparr>l_ops := ops\<rparr>) = (hushed w)\<lparr>l_ops := ops\<rparr>"
  "hushed (w\<lparr>d_opState := st\<rparr>) = (hushed w)\<lparr>d_opState := st\<rparr>" "hushed (w\<lparr>d_terminated := y\<rparr>) = (hushed w)\<lparr>d_terminated := y\<rparr>"
  by (simp_all add: hushed_def)

lemma hushed_loop_ops [simp]:
  "hushed (set_op i f w) = set_op i f (hushed w)"
  "hushed (Enqueue Q i w) = Enqueue Q i (hushed w)"
  "hushed (Execute i w) = Execute i (hushed w)"
  by (simp_all add: set_op_def Enqueue_def Execute_def)

lemma set_op_field [simp]: "l_backend (set_op i f w) = l_backend w" "l_stop (set_op i f w) = l_stop w"
  by (simp_all add: set_op_def)

lemma hushed_timed_ops [simp]:
  "hushed (TryEnqueue Q st i w) = TryEnqueue Q st i (hushed w)"
  "hushed (TryEnqueueStop Q B i w) = TryEnqueueStop Q B i (hushed w)"
  "hushed (TimerCallback Q i w) = TimerCallback Q i (hushed w)"
  "hushed (emplace_stop_callback Q B i w) = emplace_stop_callback Q B i (hushed w)"
  by (simp_all add: TryEnqueue_def TryEnqueueStop_def TimerCallback_def emplace_stop_callback_def Let_def)

lemma hushed_emplaced [simp]:
  "l_ops (emplace_stop_callback Q B i (set_op j f (hushed w))) = l_ops (emplace_stop_callback Q B i (set_op j f w))"
  "l_backend (emplace_stop_callback Q B i (set_op j f (hushed w))) = l_backend (emplace_stop_callback Q B i (set_op j f w))"
  by (metis hushed_timed_ops(4) hushed_loop_ops(1) hushed_fields(3), metis hushed_timed_ops(4) hushed_loop_ops(1) hushed_fields(2))

lemma hushed_op_life [simp]:
  "hushed (LoopOp_start Q i w) = LoopOp_start Q i (hushed w)"
  "hushed (TimedOp_destroy B i w) = TimedOp_destroy B i (hushed w)"
  "hushed (TimedOp_start Q B i w) = TimedOp_start Q B i (hushed w)"
  by (simp_all add: LoopOp_start_def TimedOp_destroy_def TimedOp_start_def Let_def split_def)

lemma hushed_fold_stop: "hushed (fold (TryEnqueueStop Q B) xs w) = fold (TryEnqueueStop Q B) xs (hushed w)"
  by (induction xs arbitrary: w) simp_all

lemma fold_stop_runner: "d_runner (fold (TryEnqueueStop Q B) xs w) = d_runner w"
  by (induction xs arbitrary: w) simp_all

lemma hushed_request_stop [simp]:
  "hushed (request_stop Q B w) = request_stop Q B (hushed w)" "d_runner (request_stop Q B w) = d_runner w"
  by (simp_all add: request_stop_def hushed_fold_stop fold_stop_runner)

text \<open>For the domain both versions of \<open>Exit\<close> are that of \<open>WasmRunner\<close>.\<close>

lemma hushed_exit:
  "hushed (DomainReceiver TightExit c w) = DomainReceiver WasmExit c (hushed w)"
  "hushed (DomainReceiver WasmExit c w) = DomainReceiver WasmExit c (hushed w)"
  by (cases c, auto simp: hushed_def Completed_def Stopped_def Exiting_def GetExitCode_def TightExit_def WasmExit_def SetExitCode_def)+

section \<open>The two versions of a domain\<close>

text \<open>Domains that are equal but for \<open>_running\<close>, the first one with a runner that satisfies \<open>J\<close>.\<close>

definition twin :: "(unit rstate \<Rightarrow> bool) \<Rightarrow> ('q, 'b) domain \<Rightarrow> ('q, 'b) domain \<Rightarrow> bool" where
  "twin J w v \<longleftrightarrow> hushed w = hushed v \<and> J (d_runner w)"

lemma twin_fields:
  assumes "twin J w v"
  shows "l_queue w = l_queue v" "l_backend w = l_backend v" "l_stop w = l_stop v" "d_opState w = d_opState v" "d_terminated w = d_terminated v"
    "Exiting (d_runner w) = Exiting (d_runner v)"
  using assms hushed_fields unfolding twin_def by metis+

lemma twin_loop_ops [simp]:
  assumes "twin J w v"
  shows "twin J (w\<lparr>l_queue := q\<rparr>) (v\<lparr>l_queue := q\<rparr>)" "twin J (w\<lparr>l_backend := b\<rparr>) (v\<lparr>l_backend := b\<rparr>)"
    "twin J (w\<lparr>d_opState := st\<rparr>) (v\<lparr>d_opState := st\<rparr>)" "twin J (Execute i w) (Execute i v)" "twin J (TimerCallback Q i w) (TimerCallback Q i v)"
    "twin J (request_stop Q B w) (request_stop Q B v)" "twin J (TimedOp_destroy B i w) (TimedOp_destroy B i v)"
    "twin J (LoopOp_start Q i w) (LoopOp_start Q i v)" "twin J (TimedOp_start Q B i w) (TimedOp_start Q B i v)" "twin J (set_op i f w) (set_op i f v)"
  using assms by (simp_all add: twin_def)

lemma twin_exit:
  assumes "twin J w v" and "\<And>c r. J r \<Longrightarrow> J (TightExit c r)"
  shows "twin J (DomainReceiver TightExit c w) (DomainReceiver WasmExit c v)"
proof -
  have "J (d_runner (DomainReceiver TightExit c w))" using assms by (cases c) (auto simp: twin_def Completed_def Stopped_def)
  then show ?thesis using assms(1) by (simp add: twin_def hushed_exit)
qed

lemma twin_task:
  assumes "twin J w v" and "\<And>c r. J r \<Longrightarrow> J (TightExit c r)"
  shows "twin J (task_next TightExit Q B clock t k w) (task_next WasmExit Q B clock t k v)"
    "twin J (ob_recv (task_box TightExit Q B clock t) k sig w) (ob_recv (task_box WasmExit Q B clock t) k sig v)"
proof -
  have next_alike: "twin J (task_next TightExit Q B clock t k w) (task_next WasmExit Q B clock t k v)" if "twin J w v" for k w v
    using that by (auto simp: task_next_def simp del: DomainReceiver.simps intro!: twin_exit assms(2) split: await.splits)
  show "twin J (task_next TightExit Q B clock t k w) (task_next WasmExit Q B clock t k v)" by (rule next_alike[OF assms(1)])
  show "twin J (ob_recv (task_box TightExit Q B clock t) k sig w) (ob_recv (task_box WasmExit Q B clock t) k sig v)"
    using assms(1) by (auto simp: task_box_def simp del: DomainReceiver.simps intro!: next_alike twin_exit assms(2) split: signal.splits)
qed

section \<open>Calls that may not return\<close>

lemma LoopTick_sim:
  assumes "LoopTick get put fire now s = Some s'" and "R s t" and "\<And>s t. R s t \<Longrightarrow> get s = get t"
    and "\<And>b cb s t. R s t \<Longrightarrow> R (fire cb (put b s)) (fire cb (put b t))"
  shows "\<exists>t'. LoopTick get put fire now t = Some t' \<and> R s' t'"
proof -
  let ?P = "\<lambda>get put fire now s s'. \<forall>t. R s t \<and> (\<forall>s t. R s t \<longrightarrow> get s = get t) \<and> (\<forall>b cb s t. R s t \<longrightarrow> R (fire cb (put b s)) (fire cb (put b t))) \<longrightarrow>
    (\<exists>t'. LoopTick get put fire now t = Some t' \<and> R s' t')"
  have "?P get put fire now s s'"
  proof (rule LoopTick.raw_induct[where P = ?P, OF _ assms(1)], intro allI impI)
    fix f get put fire now s s' t
    assume IH: "\<And>get put fire now s s'. f get put fire now s = Some s' \<Longrightarrow> ?P get put fire now s s'"
      and step: "(case lb_entries (get s) of [] \<Rightarrow> Some s
          | e # es \<Rightarrow> if e_deadline e \<le> now then f get put fire now (fire (e_callback e) (put (get s\<lparr>lb_entries := es\<rparr>) s)) else Some s) = Some s'"
      and hyp: "R s t \<and> (\<forall>s t. R s t \<longrightarrow> get s = get t) \<and> (\<forall>b cb s t. R s t \<longrightarrow> R (fire cb (put b s)) (fire cb (put b t)))"
    have same: "get t = get s" using hyp by metis
    show "\<exists>t'. LoopTick get put fire now t = Some t' \<and> R s' t'"
    proof (cases "\<exists>e es. lb_entries (get s) = e # es \<and> e_deadline e \<le> now")
      case True
      then obtain e es where e: "lb_entries (get s) = e # es" "e_deadline e \<le> now" by blast
      with step have "f get put fire now (fire (e_callback e) (put (get s\<lparr>lb_entries := es\<rparr>) s)) = Some s'" by simp
      moreover have "R (fire (e_callback e) (put (get s\<lparr>lb_entries := es\<rparr>) s)) (fire (e_callback e) (put (get s\<lparr>lb_entries := es\<rparr>) t))"
        using hyp by blast
      ultimately show ?thesis using IH hyp e same by (subst LoopTick.simps) simp
    next
      case False
      with step hyp same show ?thesis by (subst LoopTick.simps) (auto split: list.splits if_splits)
    qed
  qed
  with assms(2-4) show ?thesis by blast
qed

lemma PureDrain_sim:
  assumes "PureDrain Q recv n w = Some (m, w')" and "R w v" and "\<And>w v. R w v \<Longrightarrow> l_queue w = l_queue v \<and> l_stop w = l_stop v"
    and "\<And>i sig q w v. R w v \<Longrightarrow> R (recv i sig (Execute i (w\<lparr>l_queue := q\<rparr>))) (recv' i sig (Execute i (v\<lparr>l_queue := q\<rparr>)))"
  shows "\<exists>v'. PureDrain Q recv' n v = Some (m, v') \<and> R w' v'"
proof -
  let ?P = "\<lambda>Q recv n w y. \<forall>v. R w v \<and> (\<forall>w v. R w v \<longrightarrow> l_queue w = l_queue v \<and> l_stop w = l_stop v) \<and>
      (\<forall>i sig q w v. R w v \<longrightarrow> R (recv i sig (Execute i (w\<lparr>l_queue := q\<rparr>))) (recv' i sig (Execute i (v\<lparr>l_queue := q\<rparr>)))) \<longrightarrow>
    (\<exists>v'. PureDrain Q recv' n v = Some (fst y, v') \<and> R (snd y) v')"
  have "?P Q recv n w (m, w')"
  proof (rule PureDrain.raw_induct[where P = ?P, OF _ assms(1)], intro allI impI)
    fix f Q recv n w y v
    assume IH: "\<And>Q recv n w y. f Q recv n w = Some y \<Longrightarrow> ?P Q recv n w y"
      and step: "(case cq_try_dequeue Q (l_queue w) of None \<Rightarrow> Some (n, w)
          | Some (task, q) \<Rightarrow> f Q recv (Suc n) (recv task (if l_stop w then SetStopped else SetValue) (Execute task (w\<lparr>l_queue := q\<rparr>)))) = Some y"
      and hyp: "R w v \<and> (\<forall>w v. R w v \<longrightarrow> l_queue w = l_queue v \<and> l_stop w = l_stop v) \<and>
        (\<forall>i sig q w v. R w v \<longrightarrow> R (recv i sig (Execute i (w\<lparr>l_queue := q\<rparr>))) (recv' i sig (Execute i (v\<lparr>l_queue := q\<rparr>))))"
    have same: "l_queue v = l_queue w" "l_stop v = l_stop w" using hyp by metis+
    show "\<exists>v'. PureDrain Q recv' n v = Some (fst y, v') \<and> R (snd y) v'"
    proof (cases "cq_try_dequeue Q (l_queue w)")
      case None
      with step hyp same show ?thesis by (subst PureDrain.simps) auto
    next
      case (Some p)
      then obtain i q where p: "cq_try_dequeue Q (l_queue w) = Some (i, q)" by (cases p) simp
      let ?sig = "if l_stop w then SetStopped else SetValue"
      from step p have "f Q recv (Suc n) (recv i ?sig (Execute i (w\<lparr>l_queue := q\<rparr>))) = Some y" by simp
      moreover have "R (recv i ?sig (Execute i (w\<lparr>l_queue := q\<rparr>))) (recv' i ?sig (Execute i (v\<lparr>l_queue := q\<rparr>)))" using hyp by blast
      ultimately have "\<exists>v'. PureDrain Q recv' (Suc n) (recv' i ?sig (Execute i (v\<lparr>l_queue := q\<rparr>))) = Some (fst y, v') \<and> R (snd y) v'"
        using IH hyp by blast
      then show ?thesis using p same by (subst PureDrain.simps) simp
    qed
  qed
  with assms(2-4) show ?thesis by simp
qed

lemma twin_Tick:
  assumes "twin J w v"
  shows "rel_option (twin J) (TickBackend Q now w) (TickBackend Q now v)"
proof -
  have "\<exists>v'. TickBackend Q now v = Some v' \<and> twin J w' v'" if "TickBackend Q now w = Some w'" for w'
    using that assms unfolding TickBackend_def by (rule LoopTick_sim[where R = "twin J"]) (simp_all add: twin_fields(2))
  moreover have "\<exists>w'. TickBackend Q now w = Some w' \<and> twin J w' v'" if "TickBackend Q now v = Some v'" for v'
    using that assms unfolding TickBackend_def by (rule LoopTick_sim[where R = "\<lambda>v w. twin J w v"]) (simp_all add: twin_fields(2))
  ultimately show ?thesis by (cases "TickBackend Q now w"; cases "TickBackend Q now v") fastforce+
qed

lemma twin_PureDrain:
  assumes "twin J w v" and "\<And>i sig w v. twin J w v \<Longrightarrow> twin J (recv i sig w) (recv' i sig v)"
  shows "rel_option (\<lambda>y z. twin J (snd y) (snd z)) (PureDrain Q recv n w) (PureDrain Q recv' n v)"
proof -
  have "\<exists>v'. PureDrain Q recv' n v = Some (m, v') \<and> twin J w' v'" if "PureDrain Q recv n w = Some (m, w')" for m w'
    using that assms(1) by (rule PureDrain_sim[where R = "twin J"]) (simp_all add: twin_fields(1,3) assms(2))
  moreover have "\<exists>w'. PureDrain Q recv n w = Some (m, w') \<and> twin J w' v'" if "PureDrain Q recv' n v = Some (m, v')" for m v'
    using that assms(1) by (rule PureDrain_sim[where R = "\<lambda>v w. twin J w v"]) (simp_all add: twin_fields(1,3) assms(2))
  ultimately show ?thesis by (cases "PureDrain Q recv n w"; cases "PureDrain Q recv' n v") fastforce+
qed

lemma twin_alive: "twin J w v \<Longrightarrow> rel_option (twin J) (alive w) (alive v)"
  using twin_fields(5)[of J w v] by (auto simp: alive_def)

lemma twin_DrainQueue:
  assumes "twin J w v" and "\<And>c r. J r \<Longrightarrow> J (TightExit c r)"
  shows "rel_option (\<lambda>y z. twin J (snd y) (snd z)) (DrainQueue (TickBackend Q now) Q (ob_recv (task_box TightExit Q B clock t)) w)
    (DrainQueue (TickBackend Q now) Q (ob_recv (task_box WasmExit Q B clock t)) v)"
  using twin_Tick[OF assms(1), of Q now] unfolding DrainQueue_def
  by (cases rule: option.rel_cases) (auto intro!: twin_PureDrain twin_task(2) assms(2))

lemma twin_stopped:
  assumes "twin J w v"
  shows "rel_option (twin J)
    (case alive w of None \<Rightarrow> None | Some w2 \<Rightarrow> (case d_opState w2 of None \<Rightarrow> Some w2 | Some _ \<Rightarrow> Some ((ob_destroy (task_box TightExit Q B clock t) w2)\<lparr>d_opState := None\<rparr>)))
    (case alive v of None \<Rightarrow> None | Some w2 \<Rightarrow> (case d_opState w2 of None \<Rightarrow> Some w2 | Some _ \<Rightarrow> Some ((ob_destroy (task_box WasmExit Q B clock t) w2)\<lparr>d_opState := None\<rparr>)))"
  using twin_alive[OF assms] by (cases rule: option.rel_cases) (auto simp: task_box_def twin_fields(4) split: option.splits)

lemma twin_handlers:
  assumes "twin J w v" and "\<And>c r. J r \<Longrightarrow> J (TightExit c r)"
  shows "rel_option (twin J) (map_option snd (DomainStart (task_box TightExit Q B clock t) w)) (map_option snd (DomainStart (task_box WasmExit Q B clock t) v))"
    "rel_option (twin J) (DomainUpdate (TickBackend Q now) Q (task_box TightExit Q B clock t) w) (DomainUpdate (TickBackend Q now) Q (task_box WasmExit Q B clock t) v)"
    "rel_option (twin J) (DomainStop (TickBackend Q now) Q B (task_box TightExit Q B clock t) w) (DomainStop (TickBackend Q now) Q B (task_box WasmExit Q B clock t) v)"
proof -
  have "twin J (ob_start (task_box TightExit Q B clock t) (w\<lparr>d_opState := st\<rparr>)) (ob_start (task_box WasmExit Q B clock t) (v\<lparr>d_opState := st\<rparr>))" for st
    using assms by (simp add: task_box_def twin_task(1))
  from twin_alive[OF this] show "rel_option (twin J) (map_option snd (DomainStart (task_box TightExit Q B clock t) w)) (map_option snd (DomainStart (task_box WasmExit Q B clock t) v))"
    using twin_fields(4)[OF assms(1)] by (auto simp: DomainStart_def option.map_comp o_def option.map_ident split: option.splits)
  show "rel_option (twin J) (DomainUpdate (TickBackend Q now) Q (task_box TightExit Q B clock t) w) (DomainUpdate (TickBackend Q now) Q (task_box WasmExit Q B clock t) v)"
    using twin_DrainQueue[OF assms, of Q now B clock t] unfolding DomainUpdate_def
    by (cases rule: option.rel_cases) (auto intro: twin_alive split: prod.splits)
  show "rel_option (twin J) (DomainStop (TickBackend Q now) Q B (task_box TightExit Q B clock t) w) (DomainStop (TickBackend Q now) Q B (task_box WasmExit Q B clock t) v)"
    using twin_DrainQueue[OF twin_loop_ops(6)[OF assms(1), of Q B] assms(2), of Q now B clock t] unfolding DomainStop_def
    by (cases rule: option.rel_cases) (auto intro: twin_stopped split: prod.splits)
qed

section \<open>The handler\<close>

abbreviation flags :: "'w rstate \<Rightarrow> unit rstate" where
  "flags r \<equiv> \<lparr>rs_exitCode = rs_exitCode r, rs_running = rs_running r, rs_world = ()\<rparr>"

definition blank :: "('q, 'b) domain \<Rightarrow> ('q, 'b) domain" where
  "blank w = w\<lparr>d_runner := \<lparr>rs_exitCode = None, rs_running = False, rs_world = ()\<rparr>\<rparr>"

definition domains_seen :: "(ref \<Rightarrow> ('q, 'b) domain option) \<Rightarrow> ref \<Rightarrow> ('q, 'b) domain option" where
  "domains_seen world h = map_option blank (world h)"

lemma blank_runner [simp]: "blank (w\<lparr>d_runner := x\<rparr>) = blank w"
  by (simp add: blank_def)

lemma hushed_iff: "hushed w = hushed v \<longleftrightarrow> blank w = blank v \<and> rs_exitCode (d_runner w) = rs_exitCode (d_runner v)"
proof
  assume eq: "hushed w = hushed v"
  have "blank (hushed w) = blank (hushed v)" "rs_exitCode (d_runner (hushed w)) = rs_exitCode (d_runner (hushed v))" by (simp_all only: eq)
  then show "blank w = blank v \<and> rs_exitCode (d_runner w) = rs_exitCode (d_runner v)" by (simp add: hushed_def)
next
  assume eq: "blank w = blank v \<and> rs_exitCode (d_runner w) = rs_exitCode (d_runner v)"
  have "hushed w = (blank w)\<lparr>d_runner := \<lparr>rs_exitCode = rs_exitCode (d_runner w), rs_running = False, rs_world = ()\<rparr>\<rparr>" for w :: "('a, 'b) domain"
    by (cases "d_runner w") (simp add: hushed_def blank_def)
  with eq show "hushed w = hushed v" by metis
qed

lemma with_domain_alike:
  assumes "alike domains_seen r s" and J: "J (flags r)" and f: "\<And>w v. twin J w v \<Longrightarrow> rel_option (twin J) (f w) (g v)"
  shows "alike domains_seen (with_domain h f r) (with_domain h g s) \<and> J (flags (with_domain h f r))"
proof -
  have r: "rs_exitCode r = rs_exitCode s" "\<And>h. map_option blank (rs_world r h) = map_option blank (rs_world s h)"
    using assms(1) by (auto simp: alike_def domains_seen_def fun_eq_iff)
  show ?thesis
  proof (cases "rs_world r h")
    case None
    with r(2)[of h] have "rs_world s h = None" by simp
    with None assms(1) J show ?thesis by (simp add: with_domain_def)
  next
    case w: (Some w)
    with r(2)[of h] obtain v where v: "rs_world s h = Some v" "blank w = blank v" by (cases "rs_world s h") simp_all
    have "twin J (w\<lparr>d_runner := flags r\<rparr>) (v\<lparr>d_runner := flags s\<rparr>)" using v(2) r(1) J by (simp add: twin_def hushed_iff)
    from f[OF this] show ?thesis
    proof (cases rule: option.rel_cases)
      case None
      with w v(1) r J show ?thesis by (auto simp: with_domain_def alike_def domains_seen_def)
    next
      case (Some w1)
      then obtain v1 where v1: "f (w\<lparr>d_runner := flags r\<rparr>) = Some w1" "g (v\<lparr>d_runner := flags s\<rparr>) = Some v1" "twin J w1 v1" by blast
      moreover have "J (flags (d_runner w1))" using v1(3) by (cases "d_runner w1") (simp add: twin_def)
      ultimately show ?thesis using w v(1) r by (auto simp: with_domain_def alike_def domains_seen_def twin_def hushed_iff)
    qed
  qed
qed

text \<open>The handler of a domain with a task, with the runner's \<open>Exit\<close> as a parameter.\<close>

definition task_handler_on ::
  "(int \<Rightarrow> unit rstate \<Rightarrow> unit rstate) \<Rightarrow> (time_point \<Rightarrow> time_point) \<Rightarrow> time_point \<Rightarrow> (ref \<Rightarrow> time_point) \<Rightarrow> task \<Rightarrow>
   (ref \<Rightarrow> (ref list, ref loop_backend) domain option) rstate handler" where
  "task_handler_on exit lag stop_time clock t =
     DomainHandler (\<lambda>ctx. TickBackend fifo (lag (f_startTime (u_frame ctx)))) (TickBackend fifo stop_time)
       fifo LoopBackend (\<lambda>_. task_box exit fifo LoopBackend clock t) 0"

lemma task_handler_on_tight: "task_handler_on TightExit = task_handler"
  by (intro ext) (simp add: task_handler_on_def task_handler_def)

definition exits_by_code :: "bool \<Rightarrow> unit rstate \<Rightarrow> bool" where
  "exits_by_code b r \<longleftrightarrow> (rs_running r \<longleftrightarrow> b \<and> rs_exitCode r = None)"

interpretation task_portable: portable "task_handler_on TightExit lag stop_time clock t" "task_handler_on WasmExit lag stop_time clock t" domains_seen
proof unfold_locales
  fix s v :: "(ref \<Rightarrow> (ref list, ref loop_backend) domain option) rstate" and ctx
  let ?h = "task_handler_on TightExit lag stop_time clock t" and ?g = "task_handler_on WasmExit lag stop_time clock t"
  have s: "alike domains_seen s s" by simp
  have handlers: "snd (h_Start (task_handler_on exit lag stop_time clock t) s) = with_domain 0 (\<lambda>w. map_option snd (DomainStart (task_box exit fifo LoopBackend clock t) w)) s"
      "h_Update (task_handler_on exit lag stop_time clock t) ctx = with_domain 0 (DomainUpdate (TickBackend fifo (lag (f_startTime (u_frame ctx)))) fifo (task_box exit fifo LoopBackend clock t))"
      "h_Stop (task_handler_on exit lag stop_time clock t) = with_domain 0 (DomainStop (TickBackend fifo stop_time) fifo LoopBackend (task_box exit fifo LoopBackend clock t))"
      for exit s by (simp_all add: task_handler_on_def DomainHandler_def Let_def)
  have start: "alike domains_seen (snd (h_Start ?h s)) (snd (h_Start ?g s))"
    unfolding handlers by (rule with_domain_alike[OF s, where J = "\<lambda>_. True", THEN conjunct1]) (simp_all add: twin_handlers(1))
  moreover have "fst (h_Start ?h s) = fst (h_Start ?g s)"
  proof -
    have "map_option blank (rs_world (snd (h_Start ?h s)) 0) = map_option blank (rs_world (snd (h_Start ?g s)) 0)"
      using start by (simp add: alike_def domains_seen_def fun_eq_iff)
    then have "rs_world (snd (h_Start ?h s)) 0 = None \<longleftrightarrow> rs_world (snd (h_Start ?g s)) 0 = None"
      by (metis map_option_is_None)
    then show ?thesis by (simp add: task_handler_on_def DomainHandler_def Let_def del: not_None_eq)
  qed
  ultimately show "fst (h_Start ?h s) = fst (h_Start ?g s) \<and> alike domains_seen (snd (h_Start ?h s)) (snd (h_Start ?g s))" by simp
  show "alike domains_seen (h_Update ?h ctx s) (h_Update ?g ctx v)" if "alike domains_seen s v"
    unfolding handlers by (rule with_domain_alike[OF that, where J = "\<lambda>_. True", THEN conjunct1]) (simp_all add: twin_handlers(2))
  show "alike domains_seen (h_Stop ?h s) (h_Stop ?g v)" if "alike domains_seen s v"
    unfolding handlers by (rule with_domain_alike[OF that, where J = "\<lambda>_. True", THEN conjunct1]) (simp_all add: twin_handlers(3))
  show "rs_running (h_Update ?h ctx s) \<longleftrightarrow> rs_running s \<and> rs_exitCode (h_Update ?h ctx s) = None" if "rs_exitCode s = None"
  proof -
    have "exits_by_code (rs_running s) (flags (h_Update ?h ctx s))"
      unfolding handlers by (rule with_domain_alike[OF s, THEN conjunct2])
        (use that in \<open>auto simp: exits_by_code_def TightExit_def SetExitCode_def intro!: twin_handlers(2)\<close>)
    then show ?thesis by (simp add: exits_by_code_def)
  qed
qed

section \<open>The task in the browser\<close>

lemma task_start_returns:
  assumes "t_awaits t \<noteq> []"
  shows "\<exists>s1. h_Start (task_handler_on TightExit lag stop_time clock t) one_domain = (True, s1) \<and> rs_exitCode s1 = None"
proof -
  obtain w where w: "DomainStart (loop_task_box clock t) ((new_domain [] new_loop_backend)\<lparr>d_runner := flags one_domain\<rparr>) = Some (True, w)"
      "d_runner w = flags one_domain"
    using new_domain_start[OF assms, of clock] by blast
  then show ?thesis by (simp add: task_handler_on_def DomainHandler_def with_domain_def)
qed



text \<open>
  Not so for a task that completes inside \<open>Start\<close>: under \<open>TightRunner\<close> the program never ends, in the browser it ends with the task's code in the first frame.
\<close>

lemma inline_task_differs_in_browser:
  assumes "t_awaits t = []"
  shows "TightRun secs clk (task_handler_on TightExit lag stop_time clock t) self one_domain = None"
    "w_exited (browser_run secs clk (task_handler_on WasmExit lag stop_time clock t) self one_domain [MainLoop time, AsyncCall]) = Some (t_code t)"
proof -
  let ?h = "task_handler_on TightExit lag stop_time clock t" and ?g = "task_handler_on WasmExit lag stop_time clock t"
  let ?w = "Completed TightExit (t_code t) ((new_domain [] new_loop_backend)\<lparr>d_opState := Some Started\<rparr>) :: (ref list, ref loop_backend) domain"
  define r where "r = \<lparr>rs_exitCode = Some (t_code t), rs_running = False, rs_world = [(0::ref) \<mapsto> ?w]\<rparr>"
  have st: "h_Start ?h one_domain = (True, r)"
    using assms by (simp add: task_handler_on_def DomainHandler_def with_domain_def DomainStart_def task_box_def
        task_next_def alive_def new_domain_def Completed_def TightExit_def SetExitCode_def r_def)
  have idle: "idle t ?w"
    using assms by (simp add: idle_def running_task_def Completed_def new_domain_def new_loop_backend_def)
  from idle_task_never_ends[OF _ this] show "TightRun secs clk ?h self one_domain = None"
    using st by (simp add: task_handler_on_tight TightRun_def tight_loop_cases Let_def r_def)
  obtain r' where st': "h_Start ?g one_domain = (True, r')" "alike domains_seen r r'"
    using task_portable.start_alike[of lag stop_time clock t one_domain] st by (cases "h_Start ?g one_domain") auto
  have "idle t (?w\<lparr>d_runner := flags r\<rparr>)" using idle by simp
  then have "rs_exitCode (h_Stop ?h r) = Some (t_code t)"
    by (simp add: task_handler_on_def DomainHandler_def with_domain_def DomainStop_idle r_def)
  then have "rs_exitCode (h_Stop ?g r') = Some (t_code t)" "rs_exitCode r' = Some (t_code t)"
    using alike_exitCode[OF task_portable.stop_alike[OF st'(2)]] alike_exitCode[OF st'(2)] by (simp_all add: r_def)
  then show "w_exited (browser_run secs clk ?g self one_domain [MainLoop time, AsyncCall]) = Some (t_code t)"
    using st' by (simp add: browser_run_def wasm_events_def WasmRun_def new_wasm_def WasmUpdate_def StopAndExit_def AsyncExit_def GetExitCode_def value_or_def)
qed

end
