(* ===== verification/Asio_Portable.thy ===== *)
theory Asio_Portable
  imports Asio_Run
begin

text \<open>
  \<open>AsioDomain\<close> is portable: for every \<open>io_context\<close> the coroutine's program behaves the same under \<open>TightRunner\<close> and in the browser's frames. The two versions of the handler differ
  in the \<open>Exit\<close> that the completion handler of \<open>co_spawn\<close> calls.
\<close>

definition asio_blank :: "'io asio \<Rightarrow> 'io asio" where
  "asio_blank w = w\<lparr>a_runner := \<lparr>rs_exitCode = None, rs_running = False, rs_world = ()\<rparr>\<rparr>"

definition asio_twin :: "(unit rstate \<Rightarrow> bool) \<Rightarrow> 'io asio \<Rightarrow> 'io asio \<Rightarrow> bool" where
  "asio_twin J w v \<longleftrightarrow> asio_blank w = asio_blank v \<and> rs_exitCode (a_runner w) = rs_exitCode (a_runner v) \<and> J (a_runner w)"

lemma asio_blank_simps [simp]:
  "asio_blank (w\<lparr>a_runner := x\<rparr>) = asio_blank w" "asio_blank (w\<lparr>a_io := s\<rparr>) = (asio_blank w)\<lparr>a_io := s\<rparr>"
  "asio_blank (w\<lparr>a_cancelled := c\<rparr>) = (asio_blank w)\<lparr>a_cancelled := c\<rparr>" "a_io (asio_blank w) = a_io w" "a_cancelled (asio_blank w) = a_cancelled w"
  by (simp_all add: asio_blank_def)

lemma asio_twin_fields: "asio_twin J w v \<Longrightarrow> a_io w = a_io v \<and> a_cancelled w = a_cancelled v \<and> Exiting (a_runner w) = Exiting (a_runner v)"
  unfolding asio_twin_def by (metis asio_blank_simps(4,5) Exiting_def GetExitCode_def)

lemma asio_twin_updates [simp]:
  assumes "asio_twin J w v"
  shows "asio_twin J (w\<lparr>a_io := s\<rparr>) (v\<lparr>a_io := s\<rparr>)" "asio_twin J (w\<lparr>a_cancelled := c\<rparr>) (v\<lparr>a_cancelled := c\<rparr>)"
  using assms by (simp_all add: asio_twin_def)

lemma asio_twin_exit:
  assumes "asio_twin J w v" and "\<And>c r. J r \<Longrightarrow> J (TightExit c r)"
  shows "asio_twin J (w\<lparr>a_runner := TightExit c (a_runner w)\<rparr>) (v\<lparr>a_runner := WasmExit c (a_runner v)\<rparr>)"
  using assms by (simp add: asio_twin_def) (simp add: TightExit_def WasmExit_def SetExitCode_def)

lemma asio_twin_completions:
  assumes "asio_twin J w v" and J: "\<And>c r. J r \<Longrightarrow> J (TightExit c r)"
  shows "rel_option (asio_twin J) (completions TightExit rs w) (completions WasmExit rs v)"
  using assms(1)
proof (induction rs arbitrary: w v)
  case (Cons r rs)
  show ?case
    using asio_twin_fields[OF Cons.prems] Cons asio_twin_exit[OF Cons.prems J]
    by (auto simp: AsioCompleted_def Let_def split: coro_result.splits)
qed simp

lemma asio_twin_poll:
  assumes "asio_twin J w v" and "\<And>c r. J r \<Longrightarrow> J (TightExit c r)"
  shows "rel_option (asio_twin J) (poll io TightExit w) (poll io WasmExit v)"
  using asio_twin_completions[OF asio_twin_updates(1)[OF assms(1)] assms(2)] asio_twin_fields[OF assms(1)]
  by (simp add: poll_def split: prod.splits)

lemma asio_twin_stop:
  assumes "asio_twin J w v" and "\<And>c r. J r \<Longrightarrow> J (TightExit c r)"
  shows "rel_option (asio_twin J) (AsioStop io TightExit w) (AsioStop io WasmExit v)"
  using assms asio_twin_fields[OF assms(1)] by (simp add: AsioStop_def Let_def asio_twin_poll)

section \<open>The handler\<close>

lemma with_asio_alike:
  fixes r s :: "'io asio option rstate"
  assumes "alike (map_option asio_blank) r s" and J: "J \<lparr>rs_exitCode = rs_exitCode r, rs_running = rs_running r, rs_world = ()\<rparr>"
    and f: "\<And>w v. asio_twin J w v \<Longrightarrow> rel_option (asio_twin J) (f w) (g v)"
  defines "r' \<equiv> with_asio f r"
  shows "alike (map_option asio_blank) r' (with_asio g s) \<and> J \<lparr>rs_exitCode = rs_exitCode r', rs_running = rs_running r', rs_world = ()\<rparr>"
proof -
  have r: "rs_exitCode r = rs_exitCode s" "map_option asio_blank (rs_world r) = map_option asio_blank (rs_world s)"
    using assms(1) by (auto simp: alike_def)
  show ?thesis
  proof (cases "rs_world r")
    case None
    with r(2) have "rs_world s = None" by simp
    with None assms(1) J show ?thesis by (simp add: r'_def with_asio_def)
  next
    case w: (Some w)
    with r(2) obtain v where v: "rs_world s = Some v" "asio_blank w = asio_blank v" by (cases "rs_world s") simp_all
    let ?w = "w\<lparr>a_runner := \<lparr>rs_exitCode = rs_exitCode r, rs_running = rs_running r, rs_world = ()\<rparr>\<rparr>"
    let ?v = "v\<lparr>a_runner := \<lparr>rs_exitCode = rs_exitCode s, rs_running = rs_running s, rs_world = ()\<rparr>\<rparr>"
    have "asio_twin J ?w ?v" using v(2) r(1) J by (simp add: asio_twin_def)
    from f[OF this] show ?thesis
    proof (cases rule: option.rel_cases)
      case None
      with w v(1) r J show ?thesis by (auto simp: r'_def with_asio_def alike_def)
    next
      case (Some w1)
      then obtain v1 where v1: "f ?w = Some w1" "g ?v = Some v1" "asio_twin J w1 v1" by blast
      moreover have "J \<lparr>rs_exitCode = rs_exitCode (a_runner w1), rs_running = rs_running (a_runner w1), rs_world = ()\<rparr>"
        using v1(3) by (cases "a_runner w1") (simp add: asio_twin_def)
      ultimately show ?thesis using w v(1) r by (auto simp: r'_def with_asio_def alike_def asio_twin_def)
    qed
  qed
qed

interpretation asio_portable: portable "AsioDomainHandler TightExit io tick" "AsioDomainHandler WasmExit io tick" "map_option asio_blank"
proof unfold_locales
  fix s v :: "'a asio option rstate" and ctx
  let ?h = "AsioDomainHandler TightExit io tick" and ?g = "AsioDomainHandler WasmExit io tick"
  let ?running = "\<lambda>r :: unit rstate. rs_running r \<longleftrightarrow> rs_running s \<and> rs_exitCode r = None"
  show "fst (h_Start ?h s) = fst (h_Start ?g s) \<and> alike (map_option asio_blank) (snd (h_Start ?h s)) (snd (h_Start ?g s))"
    by (simp add: AsioDomainHandler_def)
  show "alike (map_option asio_blank) (h_Update ?h ctx s) (h_Update ?g ctx v)" if "alike (map_option asio_blank) s v"
    unfolding AsioDomainHandler_def handler.select_convs
    by (rule with_asio_alike[OF that, where J = "\<lambda>_. True", THEN conjunct1]) (simp_all add: AsioUpdate_def asio_twin_poll asio_twin_fields)
  show "alike (map_option asio_blank) (h_Stop ?h s) (h_Stop ?g v)" if "alike (map_option asio_blank) s v"
    unfolding AsioDomainHandler_def handler.select_convs
    by (rule with_asio_alike[OF that, where J = "\<lambda>_. True", THEN conjunct1]) (simp_all add: asio_twin_stop)
  show "rs_running (h_Update ?h ctx s) \<longleftrightarrow> rs_running s \<and> rs_exitCode (h_Update ?h ctx s) = None" if "rs_exitCode s = None"
  proof -
    have J: "?running r \<Longrightarrow> ?running (TightExit c r)" for c r by (simp add: TightExit_def SetExitCode_def)
    have "?running \<lparr>rs_exitCode = rs_exitCode (h_Update ?h ctx s), rs_running = rs_running (h_Update ?h ctx s), rs_world = ()\<rparr>"
      unfolding AsioDomainHandler_def handler.select_convs
      by (rule with_asio_alike[where J = ?running and s = s
          and g = "\<lambda>w. AsioUpdate io WasmExit ctx (w\<lparr>a_io := tick (f_startTime (u_frame ctx)) (a_io w)\<rparr>)", THEN conjunct2])
        (use that in \<open>auto simp: AsioUpdate_def asio_twin_fields intro!: asio_twin_poll J\<close>)
    then show ?thesis by simp
  qed
qed

text \<open>The program ends in the browser exactly when it ends under \<open>TightRunner\<close>, with the same code.\<close>

lemma asio_domain_runs_alike_in_browser:
  "runs_alike secs clk (map_option asio_blank) (AsioDomainHandler TightExit io tick) (AsioDomainHandler WasmExit io tick) self (domain_state s)"
proof -
  have "\<exists>r. h_Start (AsioDomainHandler TightExit io tick) (domain_state s) = (True, r) \<and> rs_exitCode r = None"
    by (simp add: AsioDomainHandler_def with_asio_def AsioStart_def domain_state_def new_AsioDomain_def new_AsioPoller_def)
  then show ?thesis using asio_portable.outcomes_alike by blast
qed

end
