(* ===== verification/Scope_Service.thy ===== *)
theory Scope_Service
  imports Prelude
begin

text \<open>
  \<open>demo/try/exec/hello_service.cpp\<close>: a service that spawns its work into an \<open>async_scope\<close> on a thread of its own; the destructor requests a stop and waits until
  the scope is empty, then the scope and the thread are destroyed.

  The two threads interleave between accesses to shared objects; a step that would block is \<open>None\<close>. A hop to the thread completes with
  \<open>set_stopped\<close> when the scope was stopped, and unwinds the coroutine; \<open>returns\<close> says whether the library hops back when \<open>co_await Read\<close> completes.
\<close>

section \<open>State and steps\<close>

datatype owner_pc = OwCtor | OwSpawn | OwDtor | OwStop | OwWait | OwLogDone | OwDestroy | OwEnd

datatype run_pc = RnIdle | RnQueued | RnStart | RnBack string | RnTest string | RnLog bool string | RnComplete | RnGone

datatype scope_line = OwnerLine string | RunLine string

record scope_service =
  sv_owner :: owner_pc
  sv_run :: run_pc
  sv_path :: string
  sv_count :: nat
  sv_stop :: bool
  sv_alive :: bool
  sv_lines :: "scope_line list"
  sv_dangling :: bool

definition new_scope_service :: "string \<Rightarrow> scope_service" where
  "new_scope_service path =
     \<lparr>sv_owner = OwCtor, sv_run = RnIdle, sv_path = path, sv_count = 0, sv_stop = False, sv_alive = True, sv_lines = [], sv_dangling = False\<rparr>"

definition scope_Read :: "string \<Rightarrow> string" where
  "scope_Read path = ''content of '' @ path"

definition starting_text :: string where
  "starting_text = ''[FileService] ctor, starting work''"

definition requesting_text :: string where
  "requesting_text = ''[FileService] dtor, requesting stop''"

definition done_text :: string where
  "done_text = ''[FileService] dtor, all tasks done''"

definition reading_text :: "string \<Rightarrow> string" where
  "reading_text path = ''[run] reading '' @ path"

definition processing_text :: "string \<Rightarrow> string" where
  "processing_text content = ''[run] processing: '' @ content"

definition exiting_text :: string where
  "exiting_text = ''[run] stop requested after read, exiting''"

definition sv_log :: "scope_line \<Rightarrow> scope_service \<Rightarrow> scope_service" where
  "sv_log l w = w\<lparr>sv_lines := sv_lines w @ [l]\<rparr>"

definition scope_FileService :: "scope_service \<Rightarrow> scope_service option" where
  "scope_FileService w =
     (case sv_owner w of
        OwCtor \<Rightarrow> Some ((sv_log (OwnerLine starting_text) w)\<lparr>sv_owner := OwSpawn\<rparr>)
      | OwSpawn \<Rightarrow> Some (w\<lparr>sv_count := sv_count w + 1, sv_run := RnQueued, sv_owner := OwDtor\<rparr>)
      | _ \<Rightarrow> None)"

definition scope_FileService_destroy :: "scope_service \<Rightarrow> scope_service option" where
  "scope_FileService_destroy w =
     (case sv_owner w of
        OwDtor \<Rightarrow> Some ((sv_log (OwnerLine requesting_text) w)\<lparr>sv_owner := OwStop\<rparr>)
      | OwStop \<Rightarrow> Some (w\<lparr>sv_stop := True, sv_owner := OwWait\<rparr>)
      | OwWait \<Rightarrow> if sv_count w = 0 then Some (w\<lparr>sv_owner := OwLogDone\<rparr>) else None
      | OwLogDone \<Rightarrow> Some ((sv_log (OwnerLine done_text) w)\<lparr>sv_owner := OwDestroy\<rparr>)
      | OwDestroy \<Rightarrow> Some (w\<lparr>sv_alive := False, sv_owner := OwEnd\<rparr>)
      | _ \<Rightarrow> None)"

definition touch_service :: "scope_service \<Rightarrow> scope_service" where
  "touch_service w = (if sv_alive w then w else w\<lparr>sv_dangling := True\<rparr>)"

definition scope_hop :: "run_pc \<Rightarrow> scope_service \<Rightarrow> scope_service" where
  "scope_hop pc w = w\<lparr>sv_run := (if sv_stop w then RnComplete else pc)\<rparr>"

definition scope_run :: "bool \<Rightarrow> scope_service \<Rightarrow> scope_service option" where
  "scope_run returns w =
     (let w0 = touch_service w in
      case sv_run w of
        RnQueued \<Rightarrow> Some (scope_hop RnStart w0)
      | RnStart \<Rightarrow>
          let content = scope_Read (sv_path w)
          in Some ((sv_log (RunLine (reading_text (sv_path w))) w0)\<lparr>sv_run := (if returns then RnBack content else RnTest content)\<rparr>)
      | RnBack content \<Rightarrow> Some (scope_hop (RnTest content) w0)
      | RnTest content \<Rightarrow> Some (w0\<lparr>sv_run := RnLog (sv_stop w) content\<rparr>)
      | RnLog stopped content \<Rightarrow>
          Some ((sv_log (RunLine (if stopped then exiting_text else processing_text content)) w0)
            \<lparr>sv_run := RnComplete\<rparr>)
      | RnComplete \<Rightarrow> Some (w0\<lparr>sv_count := sv_count w - 1, sv_run := RnGone\<rparr>)
      | _ \<Rightarrow> None)"

inductive scope_step :: "bool \<Rightarrow> scope_service \<Rightarrow> scope_service \<Rightarrow> bool" for returns where
  step_ctor: "scope_FileService w = Some w' \<Longrightarrow> scope_step returns w w'"
| step_dtor: "scope_FileService_destroy w = Some w' \<Longrightarrow> scope_step returns w w'"
| step_run: "scope_run returns w = Some w' \<Longrightarrow> scope_step returns w w'"

inductive_simps scope_step_iff: "scope_step returns w w'"

section \<open>The invariant\<close>

fun owner_rank :: "owner_pc \<Rightarrow> nat" where
  "owner_rank OwCtor = 7"
| "owner_rank OwSpawn = 6"
| "owner_rank OwDtor = 5"
| "owner_rank OwStop = 4"
| "owner_rank OwWait = 3"
| "owner_rank OwLogDone = 2"
| "owner_rank OwDestroy = 1"
| "owner_rank OwEnd = 0"

fun run_rank_of :: "run_pc \<Rightarrow> nat" where
  "run_rank_of RnIdle = 7"
| "run_rank_of RnQueued = 6"
| "run_rank_of RnStart = 5"
| "run_rank_of (RnBack c) = 4"
| "run_rank_of (RnTest c) = 3"
| "run_rank_of (RnLog b c) = 2"
| "run_rank_of RnComplete = 1"
| "run_rank_of RnGone = 0"

definition scope_measure :: "scope_service \<Rightarrow> nat" where
  "scope_measure w = owner_rank (sv_owner w) + run_rank_of (sv_run w)"

definition run_lines :: "scope_line list \<Rightarrow> string list" where
  "run_lines ls = concat (map (\<lambda>l. case l of OwnerLine _ \<Rightarrow> [] | RunLine s \<Rightarrow> [s]) ls)"

definition owner_lines :: "scope_line list \<Rightarrow> string list" where
  "owner_lines ls = concat (map (\<lambda>l. case l of OwnerLine s \<Rightarrow> [s] | RunLine _ \<Rightarrow> []) ls)"

definition run_ended :: "string \<Rightarrow> bool \<Rightarrow> string list \<Rightarrow> bool" where
  "run_ended path stop ls \<longleftrightarrow>
     ls = [reading_text path, processing_text (scope_Read path)] \<or>
     stop \<and> ls \<in> {[], [reading_text path], [reading_text path, exiting_text]}"

fun run_state_inv :: "run_pc \<Rightarrow> scope_service \<Rightarrow> bool" where
  "run_state_inv RnIdle w \<longleftrightarrow> run_lines (sv_lines w) = [] \<and> sv_owner w \<in> {OwCtor, OwSpawn}"
| "run_state_inv RnQueued w \<longleftrightarrow> run_lines (sv_lines w) = []"
| "run_state_inv RnStart w \<longleftrightarrow> run_lines (sv_lines w) = []"
| "run_state_inv (RnBack c) w \<longleftrightarrow> run_lines (sv_lines w) = [reading_text (sv_path w)] \<and> c = scope_Read (sv_path w)"
| "run_state_inv (RnTest c) w \<longleftrightarrow> run_lines (sv_lines w) = [reading_text (sv_path w)] \<and> c = scope_Read (sv_path w)"
| "run_state_inv (RnLog b c) w \<longleftrightarrow> run_lines (sv_lines w) = [reading_text (sv_path w)] \<and> c = scope_Read (sv_path w) \<and> (b \<longrightarrow> sv_stop w)"
| "run_state_inv RnComplete w \<longleftrightarrow> run_ended (sv_path w) (sv_stop w) (run_lines (sv_lines w))"
| "run_state_inv RnGone w \<longleftrightarrow> run_ended (sv_path w) (sv_stop w) (run_lines (sv_lines w))"

fun owner_inv :: "owner_pc \<Rightarrow> string list \<Rightarrow> bool" where
  "owner_inv OwCtor ls \<longleftrightarrow> ls = []"
| "owner_inv OwSpawn ls \<longleftrightarrow> ls = [starting_text]"
| "owner_inv OwDtor ls \<longleftrightarrow> ls = [starting_text]"
| "owner_inv OwDestroy ls \<longleftrightarrow> ls = [starting_text, requesting_text, done_text]"
| "owner_inv OwEnd ls \<longleftrightarrow> ls = [starting_text, requesting_text, done_text]"
| "owner_inv pc ls \<longleftrightarrow> ls = [starting_text, requesting_text]"

definition scope_inv :: "scope_service \<Rightarrow> bool" where
  "scope_inv w \<longleftrightarrow>
     \<not> sv_dangling w \<and> (sv_alive w \<longleftrightarrow> sv_owner w \<noteq> OwEnd) \<and> sv_count w = (if sv_run w \<in> {RnIdle, RnGone} then 0 else 1) \<and>
     (sv_owner w \<in> {OwCtor, OwSpawn} \<longrightarrow> sv_run w = RnIdle) \<and> (sv_owner w \<in> {OwLogDone, OwDestroy, OwEnd} \<longrightarrow> sv_run w = RnGone) \<and>
     run_state_inv (sv_run w) w \<and> owner_inv (sv_owner w) (owner_lines (sv_lines w))"

lemma lines_append [simp]:
  "run_lines (ls @ [OwnerLine s]) = run_lines ls" "run_lines (ls @ [RunLine s]) = run_lines ls @ [s]"
  "owner_lines (ls @ [OwnerLine s]) = owner_lines ls @ [s]" "owner_lines (ls @ [RunLine s]) = owner_lines ls"
  by (simp_all add: run_lines_def owner_lines_def)

lemmas scope_steps [service_steps] = scope_FileService_def scope_FileService_destroy_def scope_run_def scope_hop_def touch_service_def sv_log_def Let_def

lemma ctor_inv: "scope_inv w \<Longrightarrow> scope_FileService w = Some w' \<Longrightarrow> scope_inv w'"
  by (cases "sv_owner w") (auto simp: scope_inv_def service_steps)

lemma dtor_inv:
  assumes "scope_inv w" and "scope_FileService_destroy w = Some w'"
  shows "scope_inv w'"
proof -
  have busy: "sv_run w \<noteq> RnIdle" using assms by (cases "sv_owner w"; cases "sv_run w") (simp_all add: scope_inv_def service_steps)
  have "run_state_inv (sv_run w) w'"
  proof (cases "sv_run w")
    case RnIdle
    with busy show ?thesis by simp
  qed (use assms in \<open>cases "sv_owner w"; auto simp: scope_inv_def service_steps run_ended_def split: if_splits\<close>)+
  then show ?thesis
    using assms busy by (cases "sv_owner w") (auto simp: scope_inv_def service_steps split: if_splits)
qed

lemma run_step_inv:
  assumes "scope_inv w" and "scope_run returns w = Some w'"
  shows "scope_inv w'"
proof -
  have alive: "sv_alive w" "\<not> sv_dangling w" "sv_owner w \<notin> {OwCtor, OwSpawn, OwLogDone, OwDestroy, OwEnd}"
    using assms by (cases "sv_run w"; auto simp: scope_inv_def service_steps)+
  then have own: "owner_inv (sv_owner w) (owner_lines (sv_lines w))" "run_state_inv (sv_run w) w" "sv_count w = (if sv_run w \<in> {RnIdle, RnGone} then 0 else 1)"
    using assms(1) by (auto simp: scope_inv_def)
  have "scope_inv (the (scope_run returns w))"
  proof (cases "sv_run w")
    case RnQueued
    with alive own show ?thesis by (simp add: scope_inv_def service_steps run_ended_def)
  next
    case RnStart
    with alive own show ?thesis by (simp add: scope_inv_def service_steps)
  next
    case (RnBack c)
    with alive own show ?thesis by (simp add: scope_inv_def service_steps run_ended_def)
  next
    case (RnTest c)
    with alive own show ?thesis by (simp add: scope_inv_def service_steps)
  next
    case (RnLog b c)
    with alive own show ?thesis by (simp add: scope_inv_def service_steps run_ended_def)
  next
    case RnComplete
    with alive own show ?thesis by (simp add: scope_inv_def service_steps)
  qed (use assms(2) in \<open>simp_all add: scope_run_def Let_def\<close>)
  then show ?thesis using assms(2) by simp
qed

lemma scope_step_inv: "scope_step returns w w' \<Longrightarrow> scope_inv w \<Longrightarrow> scope_inv w'"
  by (auto simp: scope_step_iff intro: ctor_inv dtor_inv run_step_inv)

lemma scope_reachable: "(scope_step returns)\<^sup>*\<^sup>* (new_scope_service path) w \<Longrightarrow> scope_inv w \<and> sv_path w = path"
proof (induction rule: rtranclp_induct)
  case base
  show ?case by (simp add: scope_inv_def new_scope_service_def run_lines_def owner_lines_def)
next
  case (step v w)
  have "sv_path w = sv_path v" using step.hyps(2)
    by cases (auto simp: service_steps split: owner_pc.splits run_pc.splits if_splits)
  with step show ?case using scope_step_inv by blast
qed

lemma scope_step_measure:
  assumes "scope_step returns w w'" and "scope_inv w"
  shows "scope_measure w' < scope_measure w"
  using assms
proof (induction rule: scope_step.induct)
  case (step_ctor w w')
  then show ?case by (cases "sv_owner w") (auto simp: scope_measure_def service_steps scope_inv_def)
next
  case (step_dtor w w')
  then show ?case by (cases "sv_owner w") (auto simp: scope_measure_def service_steps split: if_splits)
next
  case (step_run w w')
  then show ?case by (cases "sv_run w") (auto simp: scope_measure_def service_steps)
qed

lemma scope_progress:
  assumes "scope_inv w" and "sv_owner w \<noteq> OwEnd"
  shows "\<exists>w'. scope_step returns w w'"
proof (cases "scope_FileService w = None \<and> scope_FileService_destroy w = None")
  case True
  then have "sv_owner w = OwWait" "sv_count w \<noteq> 0"
    using assms(2) by (cases "sv_owner w"; auto simp: service_steps split: if_splits)+
  then have "\<exists>w'. scope_run returns w = Some w'" using assms(1) by (cases "sv_run w") (auto simp: scope_inv_def service_steps)
  then show ?thesis by (blast intro: step_run)
next
  case False
  then obtain w' where "scope_FileService w = Some w' \<or> scope_FileService_destroy w = Some w'" by auto
  then show ?thesis by (blast intro: step_ctor step_dtor)
qed

section \<open>What the service promises\<close>

text \<open>
  In every interleaving the destructor returns after a bounded number of steps, the work has ended before the scope and the thread are destroyed and touches neither
  afterwards, and the work was either done completely or, because of the stop, left at one of its three suspension points.
\<close>

lemma scope_service_is_safe:
  assumes "(scope_step returns)\<^sup>*\<^sup>* (new_scope_service path) w"
  shows "\<not> sv_dangling w" and "sv_owner w \<noteq> OwEnd \<Longrightarrow> \<exists>w'. scope_step returns w w'" and "scope_step returns w w' \<Longrightarrow> scope_measure w' < scope_measure w"
    and "sv_owner w = OwEnd \<Longrightarrow> sv_run w = RnGone \<and> run_ended path True (run_lines (sv_lines w)) \<and>
      owner_lines (sv_lines w) = [starting_text, requesting_text, done_text]"
proof -
  have i: "scope_inv w" "sv_path w = path" using scope_reachable[OF assms] by auto
  then show "\<not> sv_dangling w" "sv_owner w \<noteq> OwEnd \<Longrightarrow> \<exists>w'. scope_step returns w w'"
    using scope_progress by (auto simp: scope_inv_def)
  show "scope_step returns w w' \<Longrightarrow> scope_measure w' < scope_measure w" using i(1) by (blast intro: scope_step_measure)
  show "sv_owner w = OwEnd \<Longrightarrow> sv_run w = RnGone \<and> run_ended path True (run_lines (sv_lines w)) \<and>
      owner_lines (sv_lines w) = [starting_text, requesting_text, done_text]"
    using i by (auto simp: scope_inv_def run_ended_def)
qed

text \<open>
  The block that \<open>main\<close> announces as the normal lifecycle does not wait either: the service may be stopped before its work has begun, which then logs nothing.
\<close>

lemma normal_lifecycle_may_be_empty:
  "\<exists>w. (scope_step returns)\<^sup>*\<^sup>* (new_scope_service ''config.json'') w \<and> sv_owner w = OwEnd \<and> run_lines (sv_lines w) = []"
proof -
  let ?own = "\<lambda>w. the (if scope_FileService w \<noteq> None then scope_FileService w else scope_FileService_destroy w)"
  let ?w4 = "?own (?own (?own (?own (new_scope_service ''config.json''))))"
  let ?w6 = "the (scope_run returns (the (scope_run returns ?w4)))"
  have s: "scope_step returns w (?own w)" if "scope_FileService w \<noteq> None \<or> scope_FileService_destroy w \<noteq> None" for w
    using that by (auto intro: step_ctor step_dtor)
  have r: "scope_step returns w (the (scope_run returns w))" if "scope_run returns w \<noteq> None" for w
    using that by (auto intro: step_run)
  have "(scope_step returns)\<^sup>*\<^sup>* (new_scope_service ''config.json'') (?own (?own (?own ?w6)))"
    by (rule rtranclp.rtrancl_into_rtrancl, rule rtranclp.rtrancl_into_rtrancl, rule rtranclp.rtrancl_into_rtrancl,
        rule rtranclp.rtrancl_into_rtrancl, rule rtranclp.rtrancl_into_rtrancl, rule rtranclp.rtrancl_into_rtrancl,
        rule rtranclp.rtrancl_into_rtrancl, rule rtranclp.rtrancl_into_rtrancl, rule rtranclp.rtrancl_into_rtrancl, rule rtranclp.rtrancl_refl)
       (rule s r, simp add: service_steps new_scope_service_def)+
  then show ?thesis
    by (rule_tac exI, rule_tac conjI, assumption) (simp add: service_steps new_scope_service_def run_lines_def)
qed

end
