(* ===== verification/Boot_Trace.thy ===== *)
theory Boot_Trace
  imports Boot
begin

text \<open>
  \<open>print_stack_trace\<close> of \<open>pkg/boot/Boot/Boot.SetupAbortHandlers.cpp\<close>, with its four variants by platform, and the texts of the two handlers that print it.

  The debug help library of Windows is a parameter: \<open>StackWalk64\<close> changes the context and the stack frame that it is given or reports that there is no further frame,
  and \<open>SymFromAddr\<close> gives the name of an address and the distance to it. What is called of the library is logged beside the lines written to the standard error.
\<close>

section \<open>Registers and frames\<close>

datatype win_machine = M_IX86 | M_X64 | M_ARM64

datatype trace_platform = TraceEmscripten | TraceWindows "win_machine option" | TraceAndroid | TracePosix

type_synonym u64_regs = "string \<Rightarrow> u64"

record stack_frame =
  fr_pc :: u64
  fr_frame :: u64
  fr_stack :: u64

datatype image_type = IMAGE_I386 | IMAGE_AMD64 | IMAGE_ARM64

text \<open>On a machine that the source does not name the image type stays uninitialised and the frame zero.\<close>

definition init_stackframe :: "win_machine option \<Rightarrow> u64_regs \<Rightarrow> image_type option \<times> stack_frame" where
  "init_stackframe m context =
     (case m of
        Some M_IX86 \<Rightarrow> (Some IMAGE_I386, \<lparr>fr_pc = context ''Eip'', fr_frame = context ''Ebp'', fr_stack = context ''Esp''\<rparr>)
      | Some M_X64 \<Rightarrow> (Some IMAGE_AMD64, \<lparr>fr_pc = context ''Rip'', fr_frame = context ''Rsp'', fr_stack = context ''Rsp''\<rparr>)
      | Some M_ARM64 \<Rightarrow> (Some IMAGE_ARM64, \<lparr>fr_pc = context ''Pc'', fr_frame = context ''Fp'', fr_stack = context ''Sp''\<rparr>)
      | None \<Rightarrow> (None, \<lparr>fr_pc = 0, fr_frame = 0, fr_stack = 0\<rparr>))"

fun hex_digits :: "nat \<Rightarrow> string" where
  "hex_digits n = (if n < 16 then [(''0123456789abcdef'') ! n] else hex_digits (n div 16) @ [(''0123456789abcdef'') ! (n mod 16)])"

declare hex_digits.simps [simp del]

record help_api =
  StackWalk64 :: "image_type \<Rightarrow> stack_frame \<times> u64_regs \<Rightarrow> (stack_frame \<times> u64_regs) option"
  SymFromAddr :: "u64 \<Rightarrow> (string \<times> u64) option"

datatype trace_item = SymInitialize | SymCleanup | TraceLine string | BacktraceFd nat

definition frame_line :: "(u64 \<Rightarrow> (string \<times> u64) option) \<Rightarrow> nat \<Rightarrow> u64 \<Rightarrow> string" where
  "frame_line symbol frame_num pc =
     (case symbol pc of
        Some (name, displacement) \<Rightarrow> ''  Frame '' @ digits frame_num @ '': '' @ name @ '' + 0x'' @ hex_digits (unat displacement)
      | None \<Rightarrow> ''  Frame '' @ digits frame_num @ '': 0x'' @ hex_digits (unat pc))"

text \<open>The loop \<open>for (frame_num = 0; frame_num < 128; ++frame_num)\<close>; \<open>k\<close> turns are left.\<close>

fun walk_frames :: "help_api \<Rightarrow> image_type \<Rightarrow> nat \<Rightarrow> nat \<Rightarrow> stack_frame \<times> u64_regs \<Rightarrow> trace_item list" where
  "walk_frames api img frame_num 0 st = []"
| "walk_frames api img frame_num (Suc k) st =
     (case StackWalk64 api img st of
        None \<Rightarrow> []
      | Some (frame, context) \<Rightarrow>
          TraceLine (frame_line (SymFromAddr api) frame_num (fr_pc frame)) #
          walk_frames api img (Suc frame_num) k (frame, context))"

text \<open>\<open>backtrace\<close> writes at most as many addresses as its buffer has room for. \<open>None\<close>: an uninitialised image type is used.\<close>

definition print_stack_trace ::
  "help_api \<Rightarrow> trace_platform \<Rightarrow> u64_regs \<Rightarrow> nat \<Rightarrow> trace_item list option" where
  "print_stack_trace api platform context depth =
     (case platform of
        TraceEmscripten \<Rightarrow> Some []
      | TraceWindows m \<Rightarrow>
          (case init_stackframe m context of
             (None, _) \<Rightarrow> None
           | (Some img, frame) \<Rightarrow> Some (SymInitialize # walk_frames api img 0 128 (frame, context) @ [SymCleanup]))
      | TraceAndroid \<Rightarrow> Some [TraceLine ''  Stack trace not available on Android'']
      | TracePosix \<Rightarrow> Some [BacktraceFd (min depth 128)])"

definition terminate_text :: "bool \<Rightarrow> string" where
  "terminate_text active = ''=== Boot: terminate captured ('' @ (if active then ''exception active'' else ''no exception'') @ '') ===''"

definition sigabrt_text :: "int \<Rightarrow> string" where
  "sigabrt_text sig = ''=== Boot: SIGABRT '' @ print_int sig @ '' captured ===''"

section \<open>What is printed\<close>

text \<open>The frames that the library reports, in order.\<close>

fun walked :: "help_api \<Rightarrow> image_type \<Rightarrow> nat \<Rightarrow> stack_frame \<times> u64_regs \<Rightarrow> u64 list" where
  "walked api img 0 st = []"
| "walked api img (Suc k) st =
     (case StackWalk64 api img st of None \<Rightarrow> [] | Some (frame, context) \<Rightarrow> fr_pc frame # walked api img k (frame, context))"

lemma length_walked: "length (walked api img k st) \<le> k"
  by (induction k arbitrary: st) (auto split: option.splits)

lemma walk_frames_lines:
  "walk_frames api img n k st =
     map (\<lambda>(i, pc). TraceLine (frame_line (SymFromAddr api) i pc)) (enumerate n (walked api img k st))"
  by (induction k arbitrary: n st) (auto split: option.splits)

text \<open>
  On Windows a trace numbers the frames that the library reports from 0, ends at the first failure or after 128 frames also when the stack is damaged
  and the walk would go on for ever, and releases the symbols that it has initialised.
\<close>

lemma windows_trace:
  assumes "init_stackframe (Some m) context = (Some img, frame)"
  shows "\<exists>pcs. print_stack_trace api (TraceWindows (Some m)) context depth =
      Some (SymInitialize # map (\<lambda>(i, pc). TraceLine (frame_line (SymFromAddr api) i pc)) (enumerate 0 pcs) @ [SymCleanup]) \<and>
    pcs = walked api img 128 (frame, context) \<and> length pcs \<le> 128"
  using assms length_walked[of api img 128 "(frame, context)"] by (simp add: print_stack_trace_def walk_frames_lines)

lemma trace_is_defined:
  "print_stack_trace api platform context depth = None \<longleftrightarrow> platform = TraceWindows None"
  by (auto simp: print_stack_trace_def init_stackframe_def split: trace_platform.splits option.splits win_machine.splits)

text \<open>Hexadecimal numbers are printed as \<open>%llx\<close> does: without leading zeros, so that different addresses have different texts.\<close>

definition hex_value :: "char \<Rightarrow> nat" where
  "hex_value c = (if of_char c < (97 :: nat) then of_char c - 48 else of_char c - 87)"

definition read_hex :: "string \<Rightarrow> nat" where
  "read_hex s = foldl (\<lambda>n c. n * 16 + hex_value c) 0 s"

lemma hex_value_digit: "k < 16 \<Longrightarrow> hex_value (''0123456789abcdef'' ! k) = k"
proof -
  have "\<forall>k\<in>set [0..<16]. hex_value (''0123456789abcdef'' ! k) = k"
    by (simp add: upt_rec hex_value_def)
  then show "k < 16 \<Longrightarrow> hex_value (''0123456789abcdef'' ! k) = k" by simp
qed

lemma read_hex_digits: "read_hex (hex_digits n) = n"
proof (induction n rule: hex_digits.induct)
  case (1 n)
  show ?case
  proof (cases "n < 16")
    case True
    then show ?thesis using hex_value_digit[OF True] by (simp add: hex_digits.simps[of n] read_hex_def)
  next
    case False
    then show ?thesis using 1 hex_value_digit[of "n mod 16"] by (simp add: hex_digits.simps[of n] read_hex_def)
  qed
qed

lemma address_text_roundtrip: "word_of_nat (read_hex (hex_digits (unat (a :: u64)))) = a"
  by (simp add: read_hex_digits)

end
