(* ===== verification/Fetch_Demo.thy ===== *)
theory Fetch_Demo
  imports Prelude
begin

text \<open>
  \<open>demo/try/http-wasm-fetch/main.cpp\<close>: a request through the browser's \<open>fetch\<close> whose text crosses from JavaScript to C++ in a buffer on the heap.

  What JavaScript does is a parameter: \<open>fetch\<close> gives the text of the response in UTF-8, or nothing when a promise is rejected, which leaves the C++ caller
  suspended for ever (\<open>FetchNever\<close>). \<open>malloc\<close> returns an address, 0 when there is no memory; writing the text at address 0 overwrites what is stored there.
\<close>

datatype heap_call = HeapMalloc nat nat | HeapWrite nat "byte list" | HeapFree nat

datatype 'a fetch_result = FetchNever | FetchReturns 'a

definition fetch_impl ::
  "(string \<Rightarrow> byte list option) \<Rightarrow> (nat \<Rightarrow> nat) \<Rightarrow> string \<Rightarrow> (nat \<times> byte list \<times> heap_call list) fetch_result" where
  "fetch_impl fetch malloc url =
     (case fetch (c_string url) of
        None \<Rightarrow> FetchNever
      | Some t \<Rightarrow>
          let len = length t + 1; p = malloc len
          in FetchReturns (p, t @ [0], [HeapMalloc len p, HeapWrite p (t @ [0])]))"

text \<open>The constructor of \<open>std::string\<close> reads the buffer up to its first 0.\<close>

definition fetch_makeHttpRequest ::
  "(string \<Rightarrow> byte list option) \<Rightarrow> (nat \<Rightarrow> nat) \<Rightarrow> string \<Rightarrow> (byte list \<times> heap_call list) fetch_result" where
  "fetch_makeHttpRequest fetch malloc url =
     (case fetch_impl fetch malloc url of
        FetchNever \<Rightarrow> FetchNever
      | FetchReturns (result, buffer, calls) \<Rightarrow>
          if result = 0 then FetchReturns ([], calls)
          else FetchReturns (takeWhile (\<lambda>b. b \<noteq> 0) buffer, calls @ [HeapFree result]))"

text \<open>Which of \<open>process.versions.node\<close>, \<open>window\<close> and \<open>document\<close> are defined.\<close>

record js_environment =
  je_node :: bool
  je_window :: bool
  je_document :: bool

datatype fetch_end = FetchHangs | ExitProcess int | ReturnMain int

definition is_node :: "js_environment \<Rightarrow> bool" where
  "is_node e \<longleftrightarrow> je_node e"

definition is_browser :: "js_environment \<Rightarrow> bool" where
  "is_browser e \<longleftrightarrow> je_window e \<and> je_document e"

definition fetch_url :: string where
  "fetch_url = ''https://jsonplaceholder.typicode.com/todos/1''"

definition fetch_main :: "(string \<Rightarrow> byte list option) \<Rightarrow> (nat \<Rightarrow> nat) \<Rightarrow> js_environment \<Rightarrow> string list \<times> byte list option \<times> fetch_end" where
  "fetch_main fetch malloc e =
     (let greeting = (if is_node e then [''Running in Node.js''] else []) @ (if is_browser e then [''Running in Browser''] else [])
      in case fetch_makeHttpRequest fetch malloc fetch_url of
           FetchNever \<Rightarrow> (greeting, None, FetchHangs)
         | FetchReturns (data, _) \<Rightarrow> (greeting, Some data, if is_browser e then ExitProcess 0 else ReturnMain 0))"

text \<open>A text without a 0 byte arrives unchanged and its buffer is freed exactly once, after it was read.\<close>

lemma fetch_transfers_text:
  assumes "fetch (c_string url) = Some t" and "0 \<notin> set t" and "malloc (length t + 1) \<noteq> 0"
  shows "fetch_makeHttpRequest fetch malloc url =
    FetchReturns (t, [HeapMalloc (length t + 1) (malloc (length t + 1)), HeapWrite (malloc (length t + 1)) (t @ [0]), HeapFree (malloc (length t + 1))])"
proof -
  have "takeWhile (\<lambda>b. b \<noteq> 0) (t @ [0]) = t" using assms(2) by (induction t) auto
  with assms(1,3) show ?thesis by (simp add: fetch_makeHttpRequest_def fetch_impl_def Let_def)
qed

text \<open>A text with a 0 byte is cut there; without memory the text is written to address 0 before the null pointer is noticed.\<close>

lemma fetch_cuts_text:
  assumes "fetch (c_string url) = Some (t @ 0 # u)" and "0 \<notin> set t" and "malloc (length (t @ 0 # u) + 1) \<noteq> 0"
  shows "\<exists>calls. fetch_makeHttpRequest fetch malloc url = FetchReturns (t, calls)"
proof -
  have "takeWhile (\<lambda>b. b \<noteq> 0) (t @ 0 # u @ [0]) = t" using assms(2) by (induction t) auto
  with assms(1,3) show ?thesis by (simp add: fetch_makeHttpRequest_def fetch_impl_def Let_def)
qed

lemma fetch_without_memory:
  assumes "fetch (c_string url) = Some t" and "malloc (length t + 1) = 0"
  shows "fetch_makeHttpRequest fetch malloc url = FetchReturns ([], [HeapMalloc (length t + 1) 0, HeapWrite 0 (t @ [0])])"
  using assms by (simp add: fetch_makeHttpRequest_def fetch_impl_def Let_def)

lemma rejected_fetch_hangs:
  assumes "fetch (c_string fetch_url) = None"
  shows "snd (snd (fetch_main fetch malloc e)) = FetchHangs"
  using assms by (simp add: fetch_main_def fetch_makeHttpRequest_def fetch_impl_def Let_def)

end
