(* ===== verification/Spec2Isabelle.thy ===== *)
theory Spec2Isabelle
  imports Exec_Domain Thread_Timer Asio_Domain Udp_Demo Rtc_Negotiation Js_Ws_Sessions Fs_Drive
    Exec_Task Exec_Asio Http_Raw Loop_Service Ws_Demo Read_Cache Multi_Runner Pkg_Demos
    Sig_Users Http_Tls Async_Mutex Link_Contract Asio_Demo Domain_Portable Asio_Portable Scope_Service Boot_Trace Fetch_Demo
begin

text \<open>
  Verification of the C++ packages of this repository (under \<open>pkg/\<close>) and of the programs that use them (under \<open>demo/\<close>): an application is a set of handlers that a
  runner starts, updates frame by frame and stops; on top of this there are timers and sender/receiver tasks, an
  Asio poller, real-time transports over UDP and WebRTC with their signalling, and the packages for files, logging and
  start-up that all of them use.

  \<^bold>\<open>Theories and what they model.\<close>

  \<^item> \<open>Prelude\<close>: names of types, and the functions of the C++ library that several components use.
  \<^item> \<open>Run_Loop\<close> (\<open>runloop/RunLoop\<close>): \<open>UpdateCtx\<close>, handlers as records of state functions, \<open>CompositeHandler\<close>, the exit code of
    \<open>Runner\<close>; locale \<open>lifecycle\<close> for what a handler promises to its runner.
  \<^item> \<open>App_Runner\<close> (\<open>app/App\<close>): \<open>TightRunner\<close>, whose loop may run forever and is a partial function (\<open>None\<close>: it does not
    return), \<open>WasmRunner\<close> against the events of the browser's main loop, and the factory.
  \<^item> \<open>Timer_Backend\<close> (\<open>exec/Exec/Delay/ITimerBackend.h\<close>, \<open>LoopTimerBackend.h\<close>): the interface of timer backends as the
    locale \<open>timer_backend\<close>, and its frame-driven implementation with reentrant callbacks.
  \<^item> \<open>Loop_Context\<close>, \<open>Loop_Invariant\<close> (\<open>exec/Exec/Context\<close>): operations of \<open>schedule\<close> and \<open>schedule_after\<close>, the queue, timers and
    stop callbacks over a store of operation states, and the invariant of all interleavings, proved in the locale
    \<open>loop_env\<close> from the laws of the queue and of the backend.
  \<^item> \<open>Thread_Timer\<close> (\<open>exec/Exec/Delay/ThreadTimerBackend\<close>): the timer thread, its clients and the destructor as a step relation
    over the mutex and the condition variable; the regions under the mutex are functions, and meet \<open>timer_backend\<close>.
  \<^item> \<open>Exec_Domain\<close> (\<open>exec/Exec/Domain\<close>): a domain as a handler; the connected operation state is a parameter, instantiated
    with tasks that are sequences of awaits.
  \<^item> \<open>Exec_Task\<close> (\<open>exec/Exec/RunTask.h\<close>): what a \<open>RunTask\<close> takes over from the environment that awaits it, through any nesting of tasks.
  \<^item> \<open>Exec_Asio\<close> (\<open>demo/mix\<close>): a composite of \<open>AsioPoller\<close> and \<open>Domain\<close> under \<open>TightRunner\<close>, whose task awaits operations of Asio.
  \<^item> \<open>Asio_Domain\<close>, \<open>Asio_Run\<close>, \<open>Asio_Demo\<close> (\<open>asio/Asio\<close>, \<open>demo/pkg/asio\<close>): \<open>AsioPoller\<close> and \<open>AsioDomain\<close> over an abstract \<open>io_context\<close>; the domain as the handler of a
    runner, \<open>AsyncCancelled\<close>, and the program whose coroutines wait on timers.
  \<^item> \<open>Runner_Equiv\<close>, \<open>Domain_Portable\<close>, \<open>Asio_Portable\<close>: when a program behaves the same under both runners, as the locale \<open>portable\<close>, met by \<open>Domain\<close> with its tasks and
    by \<open>AsioDomain\<close> over every \<open>io_context\<close>; a task that completes inside \<open>Start\<close> is the exception.
  \<^item> \<open>Rtt_Core\<close>, \<open>Udp_Transport\<close> (\<open>rtt/Rtt\<close>, \<open>rtt/udp\<close>): errors, link handlers, peer ids with their order,
    and the UDP link, server and client.
  \<^item> \<open>Link_Contract\<close> (\<open>rtt/Rtt/Link.h\<close>): the contract of links as the locale \<open>link_like\<close>, extended by \<open>silent_link\<close>, met by the UDP links of server and client and the
    WebRTC links of both builds.
  \<^item> \<open>Udp_Demo\<close> (\<open>demo/pkg/rtt/udp\<close>): the client and the server program over the UDP transport, their coroutines as state machines, and
    the bridge that passes the transport's callbacks to them.
  \<^item> \<open>Signaling\<close> (\<open>rtt/Rtt/Rtc\<close>): \<open>SigHub\<close>, its users and \<open>LocalSigClient\<close>, with handlers that call back into the hub; the actions
    of a handler run with fuel, which bounds their number (no property depends on a bound: the invariants hold for
    handlers that only record, and the deadlocks are shown for every amount of fuel).
  \<^item> \<open>Ws_Signaling\<close>, \<open>Ws_Network\<close> (\<open>rtt/rtc/Rtt/Rtc/Dc/DcWsSig*\<close>): the WebSocket signalling client and server, and the network of
    both with the mailbox specification.
  \<^item> \<open>Rtc_Link\<close>, \<open>Rtc_Transport\<close> (\<open>rtt/rtc/Rtt/Rtc/Dc/DcRtc*\<close>): one WebRTC link, and the transport that offers and answers
    connections.
  \<^item> \<open>Js_Ws_Client\<close>, \<open>Js_Ws_Sessions\<close> (\<open>rtt/rtc/Rtt/Rtc/Js/JsWsSigClient.cpp\<close>): the signalling client of the browser build, over a heap of contexts
    whose addresses are used again, and its refinement of sessions that know no addresses.
  \<^item> \<open>Sig_Users\<close>: what the users of all three signalling clients have in common, as the locale \<open>signalling_user\<close>.
  \<^item> \<open>Js_Rtc\<close>, \<open>Js_Rtc_Safety\<close> (\<open>rtt/rtc/Rtt/Rtc/Js/JsRtcTransport.cpp\<close>): the WebRTC transport of the browser build, and the invariant of its
    heap, its JavaScript entries and its links.
  \<^item> \<open>Rtc_Negotiation\<close>: what signalling messages do to a transport, as the locale \<open>negotiator\<close>, met by both transports.
  \<^item> \<open>Fs_Drive\<close> (\<open>fs/Fs\<close>): path views and drives; locale \<open>drive_contract\<close> for what a drive promises, met by the native,
    Android, overlay and default drives.
  \<^item> \<open>Log_Core\<close>, \<open>Boot\<close> (\<open>log/Log\<close>, \<open>boot/Boot\<close>): loggers, sinks with the startup buffer, formatting, scopes; arguments,
    initialisation, log header, build description and abort handlers. \<open>Boot_Trace\<close>: the stack trace that these print, with the debug library as a
    parameter.
  \<^item> \<open>Http_Client\<close> (\<open>http/Http\<close>): the GET clients over Beast, with and without TLS, and over the browser's fetch; what the
    libraries report in one request is a record of outcomes.
  \<^item> \<open>Http_Tls\<close> (\<open>SslConnection.cpp\<close>, \<open>BeastLiteClient.cpp\<close>): what the clients log of TLS sessions, endpoints and resolved names; a certificate that was
    asked for is freed.
  \<^item> \<open>Async_Mutex\<close> (\<open>async/Async/Mutex.h\<close>): the mutex and its guard; locale \<open>mutex\<close> for what a lock promises, with the proof that guarded data loses
    no update.
  \<^item> \<open>Http_Cancel\<close> (\<open>http/Http/Impl/AsioLiteClient.cpp\<close>): one \<open>Get\<close> with its stop token, step by step: the caller, the executor and the thread that
    requests the stop interleave. \<open>Http_Demo\<close> (\<open>demo/pkg/http\<close>): the program that starts many requests and counts the failures.
  \<^item> \<open>Http_Raw\<close> (\<open>demo/try/http-nghttp2\<close>): HTTP/1.1 and HTTP/2 clients on sockets, OpenSSL and nghttp2, with what they hold on every path.
  \<^item> \<open>Loop_Service\<close> (\<open>demo/try/exec/hello_opstate.cpp\<close>, \<open>hello_service_pure.cpp\<close>): services with an operation on their own \<open>run_loop\<close> thread, as a
    step relation over mutex, condition variable, stop source and the members' destruction. \<open>Scope_Service\<close> (\<open>hello_service.cpp\<close>): a service whose work
    runs in an \<open>async_scope\<close>.
  \<^item> \<open>Read_Cache\<close> (\<open>demo/try/exec/hello_read.cpp\<close>), \<open>Multi_Runner\<close> (\<open>demo/try/loop\<close>), \<open>Ws_Demo\<close> (\<open>demo/try/datachannel/ws\<close>), \<open>Pkg_Demos\<close> (\<open>demo/pkg/log\<close>,
    \<open>boot\<close>, \<open>fs\<close>, and the level functions of \<open>log/Log/Log.h\<close>), \<open>Fetch_Demo\<close> (\<open>demo/try/http-wasm-fetch\<close>): the remaining programs with logic of their own.

  \<^bold>\<open>How state and effects are modelled.\<close> Objects that the code shares by pointer live in stores indexed by \<open>ref\<close>; what
  \<open>weak_ptr::lock\<close> tests is a flag of the store. Calls into third-party libraries are logged, and what a library
  reports is an argument; calls to the application are logged, and what it does in them is a parameter. Threads interleave
  between regions that hold a mutex: sequences of events (\<open>sig_run\<close>, \<open>ws_run\<close>, \<open>rtc_run\<close>) or a step relation (\<open>tt_step\<close>). In the browser
  there is one thread, and sequences of its events (\<open>js_run\<close>, \<open>jr_run\<close>); raw pointers are addresses of a heap, whose freed ones may
  come back, and access to a freed object is \<open>None\<close>. Errors
  are values: \<open>Inl\<close> of a sum, or \<open>None\<close> for exceptions that nothing catches, for undefined behaviour and for loops that
  do not end. Timer ids and ports are machine words.

  \<^bold>\<open>What the lemmas show.\<close> For the run loop: start and stop order, exit codes, when \<open>Run\<close> returns. For execution: every started
  operation completes exactly once in every interleaving and on both timer backends, destroyed operations are
  unreferenced, timers fire once, on time and never after \<open>Cancel\<close>, and a task's run ends with its code. For the transports:
  the UDP server refines sessions and the UDP programs exchange their messages, all links pass data in order, without
  duplicates and, until one side ends them, without loss, candidates wait for descriptions, signalling loses and reorders nothing inside the hub, and
  the WebSocket network refines mailboxes, over which WebRTC negotiation succeeds. The browser's transports touch no freed memory (under the
  conditions that their theorems state), keep their limit, and negotiate like the native ones. For files and logs: drives
  present contents, late sinks catch up. For HTTP: no path of a request leaves a socket open, a request is
  answered exactly once in every interleaving with its cancellation, and responses are read back as printed. For the programs: services can be destroyed
  at any time and their destructor returns, mixed programs end with their task's code, and the console client gives each peer's connection that
  peer's messages. Several properties and lemmas show where the code does not do what its comments say.

  \<^bold>\<open>Not modelled.\<close> The annotations of \<open>async/Async/ThreadSafety.h\<close> for static analysis; headers that only declare interfaces; four small programs of
  \<open>demo/try\<close> (\<open>hello_world.cpp\<close>, \<open>hello_coro.cpp\<close>, \<open>hello_loop.cpp\<close>, \<open>copy-paste.cpp\<close>) that only compose calls of libraries and keep no state; and the
  tests. Payload formatting, JSON, sockets, peer connections, the browser and the scheduler of coroutines belong to libraries.
\<close>

section \<open>Properties across components\<close>





section \<open>The browser build\<close>

text \<open>
  The browser's signalling client speaks the protocol of the native server: the server reads its frames as the messages they
  stand for, and it reads the server's frames likewise.
\<close>

lemma js_client_speaks_server_protocol:
  assumes "json_roundtrip J" and "jw_map w (ju_ctx us) = Some s" and "sk_ready (jw_sockets w s) = OPEN"
  shows "map_option (\<lambda>w'. map (read_envelope J) (drop (length (sk_sent (jw_sockets w s))) (sk_sent (jw_sockets w' s))))
       (JsWsSigUser_Send J us to payload w) = Some [Some (Some (c_string to, c_string payload))]"
    and "js_envelope J (envelope J peer payload) = Some (peer, payload)"
proof -
  show "map_option (\<lambda>w'. map (read_envelope J) (drop (length (sk_sent (jw_sockets w s))) (sk_sent (jw_sockets w' s))))
       (JsWsSigUser_Send J us to payload w) = Some [Some (Some (c_string to, c_string payload))]"
    using assms(2,3) by (simp add: JsWsSigUser_Send_def JsWsContext_Send_def js_socket_send_def set_js_socket_def
        read_envelope_envelope[OF assms(1)])
  show "js_envelope J (envelope J peer payload) = Some (peer, payload)"
    by (simp add: js_envelope_def envelope_def json_parse[OF assms(1)] json_value[OF assms(1)])
qed

text \<open>
  A WebRTC transport that is destroyed before the signalling socket opens does not keep the user it is given
  (\<open>js_onJoined\<close> returns no handler), and \<open>OnOpen\<close> then writes to the freed context.
\<close>

definition join_acts :: "bool \<times> js_rtc \<Rightarrow> js_act list" where
  "join_acts r = (if fst r then [] else [JaDrop])"

lemma js_transport_gone_before_open:
  assumes "\<not> js_alive w"
  shows "js_run J options [JeJoin lid 0, JeOpen 0 (join_acts (js_onJoined hint (Inr ()) w)) None] (new_js_ws handlers) = None"
  using assms by (simp add: join_acts_def js_onJoined_def js_ws_ops)

end
